(* ===== verification/Tdg_Prelude.thy ===== *)
theory Tdg_Prelude
  imports Main "HOL-Library.Monad_Syntax" "HOL-Library.Word"
begin

text \<open>
  Shared material of the libtdg development.

  \<^item> The model's basic types: heap addresses, the signed 64-bit integers of node
    identifiers and loop bounds (an \<open>int\<close> kept in range by \<open>wrap64\<close>), and the unsigned
    machine integers of counters.
  \<^item> The error discipline: an operation that dereferences a pointer returns an option;
    \<open>None\<close> is the undefined behaviour of a null or dangling pointer.  Operations are
    composed with the option monad of \<open>Monad_Syntax\<close>, and a loop over a vector whose body
    may fail is \<open>foldM\<close>.
  \<^item> Generic facts on lists, options and relations, collected in the named collections
    \<open>opt_simps\<close> (unfolding successful monadic runs) and \<open>dag_intros\<close> (keeping a relation
    acyclic).
\<close>

named_theorems opt_simps \<open>equations that invert a successful run in the option monad\<close>
named_theorems dag_intros \<open>rules that keep a relation acyclic\<close>

section \<open>Types\<close>

type_synonym addr = nat
type_synonym int64 = int
type_synonym uint64 = "64 word"
type_synonym uint32 = "32 word"

definition wrap64 :: "int \<Rightarrow> int64" where
  "wrap64 i = (i + 2 ^ 63) mod 2 ^ 64 - 2 ^ 63"

lemma wrap64_id: "- (2 ^ 63) \<le> i \<Longrightarrow> i < 2 ^ 63 \<Longrightarrow> wrap64 i = i"
  by (simp add: wrap64_def)

lemma wrap64_range: "- (2 ^ 63) \<le> wrap64 i \<and> wrap64 i < 2 ^ 63"
  using pos_mod_bound [of "2 ^ 64" "i + 2 ^ 63"] pos_mod_sign [of "2 ^ 64" "i + 2 ^ 63"]
  by (simp add: wrap64_def)

lemma unat_word_of_nat:
  "n < 2 ^ LENGTH('a) \<Longrightarrow> unat (word_of_nat n :: 'a::len word) = n"
  by (simp add: unsigned_of_nat take_bit_nat_eq_self)

section \<open>Runs in the option monad\<close>

lemmas [opt_simps] = Option.bind_eq_Some_conv bind_eq_None_conv

text \<open>A loop over the elements of a vector whose body may hit undefined behaviour.\<close>

primrec foldM :: "('a \<Rightarrow> 's \<Rightarrow> 's option) \<Rightarrow> 'a list \<Rightarrow> 's \<Rightarrow> 's option" where
  "foldM f [] s = Some s"
| "foldM f (x # xs) s = do { s' \<leftarrow> f x s; foldM f xs s' }"

lemma foldM_append: "foldM f (xs @ ys) s = do { s' \<leftarrow> foldM f xs s; foldM f ys s' }"
  by (induction xs arbitrary: s) (auto split: bind_splits)

lemma foldM_total:
  "(\<And>x s. x \<in> set xs \<Longrightarrow> f x s = Some (g x s)) \<Longrightarrow> foldM f xs s = Some (fold g xs s)"
  by (induction xs arbitrary: s) auto

lemma foldM_invariant:
  assumes "P s" and "\<And>x s. x \<in> set xs \<Longrightarrow> P s \<Longrightarrow> \<exists>s'. f x s = Some s' \<and> P s'"
  shows "\<exists>s'. foldM f xs s = Some s' \<and> P s'"
  using assms
proof (induction xs arbitrary: s)
  case (Cons x xs)
  then obtain s' where s': "f x s = Some s'" "P s'" by (metis list.set_intros(1))
  have "\<exists>s''. foldM f xs s' = Some s'' \<and> P s''"
    using Cons.IH [OF s'(2)] Cons.prems(2) by simp
  with s'(1) show ?case by simp
qed simp

lemma foldM_preserves:
  assumes "foldM f xs s = Some s'" and "P s" and "\<And>x s s'. P s \<Longrightarrow> f x s = Some s' \<Longrightarrow> P s'"
  shows "P s'"
  using assms by (induction xs arbitrary: s) (auto simp: opt_simps)

section \<open>Lists\<close>

lemma fold_max_ge_init: "(m :: 'a :: linorder) \<le> fold (\<lambda>x m. max m (f x)) xs m"
  by (induction xs arbitrary: m) (auto intro: order_trans [OF max.cobounded1])

lemma fold_max_ge_elem:
  "x \<in> set xs \<Longrightarrow> f x \<le> fold (\<lambda>x m. max m (f x :: 'a :: linorder)) xs m"
proof (induction xs arbitrary: m)
  case (Cons y ys)
  then show ?case
    using order_trans [OF max.cobounded2 fold_max_ge_init] by auto
qed simp

lemma fold_max_attained:
  "fold (\<lambda>x m. max m (f x :: 'a :: linorder)) xs m = m
   \<or> (\<exists>x \<in> set xs. fold (\<lambda>x m. max m (f x)) xs m = f x)"
proof (induction xs arbitrary: m)
  case (Cons y ys)
  show ?case using Cons [of "max m (f y)"] by (auto simp: max_def split: if_splits)
qed simp

lemma fold_max_cong:
  "(\<And>x. x \<in> set xs \<Longrightarrow> f x = g x) \<Longrightarrow>
   fold (\<lambda>x m. max m (f x)) xs m = fold (\<lambda>x m. max m (g x)) xs m"
  by (rule fold_cong) auto

text \<open>\<open>erase\<close> at the first element that satisfies a predicate, as the search loops of the
  graph do; nothing happens when there is none.\<close>

primrec erase_first :: "('a \<Rightarrow> bool) \<Rightarrow> 'a list \<Rightarrow> 'a list" where
  "erase_first P [] = []"
| "erase_first P (x # xs) = (if P x then xs else x # erase_first P xs)"

lemma set_erase_first_subset: "set (erase_first P xs) \<subseteq> set xs"
  by (induction xs) auto

lemma erase_first_none: "\<forall>x \<in> set xs. \<not> P x \<Longrightarrow> erase_first P xs = xs"
  by (induction xs) auto

lemma erase_first_snoc: "\<forall>x \<in> set xs. \<not> P x \<Longrightarrow> P y \<Longrightarrow> erase_first P (xs @ [y]) = xs"
  by (induction xs) auto

lemma map_erase_first_key:
  "distinct (map f xs) \<Longrightarrow> map f (erase_first (\<lambda>x. f x = k) xs) = removeAll k (map f xs)"
  by (induction xs) (auto simp: removeAll_id)

lemma list_ex_map_eq: "list_ex (\<lambda>x. f x = k) xs \<longleftrightarrow> k \<in> f ` set xs"
  by (auto simp: list_ex_iff)

section \<open>Relations\<close>

lemma acyclic_insert_new [dag_intros]:
  "acyclic r \<Longrightarrow> (v, u) \<notin> r\<^sup>* \<Longrightarrow> acyclic (insert (u, v) r)"
  by (simp add: acyclic_insert)

lemma acyclic_mono [dag_intros]: "acyclic r \<Longrightarrow> s \<subseteq> r \<Longrightarrow> acyclic s"
  by (rule acyclic_subset)

lemma rtrancl_dead_end: "(v, u) \<in> r\<^sup>* \<Longrightarrow> (\<And>w. (v, w) \<notin> r) \<Longrightarrow> u = v"
  by (auto elim: converse_rtranclE)

end
