(* ===== verification/Omp_Protocol.thy ===== *)
theory Omp_Protocol
  imports Tdg_Prelude
begin

text \<open>
  An abstract machine for the order in which an OpenMP runtime dispatches the events the tool
  listens to, and for the graph those events should build.  It is the specification the
  callbacks of \<open>src/callbacks.cc\<close> are checked against.

  \<^item> A task is running, has forked a parallel region and is suspended in it, waits in a barrier
    that not all threads of its team have reached, or has passed it.  The thread of a task that
    has passed a barrier resumes it (\<open>Resume\<close>, which no callback reports) or ends it: every
    implicit task of a team of several threads ends right after a barrier.
  \<^item> A region has a team of fixed size, whose threads begin one implicit task each; the master's
    task (thread 0) ends before the region does, the others may end later.
  \<^item> A barrier is passed when as many threads as the team has have reached it.

  Every node of the graph has one role, which says who may still add edges at it; the invariant
  \<open>winv\<close> is stated over roles, and implies that the graph has no cycle.
\<close>

section \<open>The abstract state\<close>

datatype role =
  RCur nat | RPark nat | RPast | RSink nat | RLoopSink nat | RLoopStart | RChunk | RBar nat

datatype status = Running | Forked nat | Waiting | Passed

record atask =
  at_cur :: addr
  at_bar :: "addr option"
  at_sink :: "addr option"
  at_loop :: "(addr \<times> addr \<times> addr option) option"
  at_tn :: nat
  at_status :: status

record aregion =
  ar_parent :: nat
  ar_sink :: addr
  ar_team :: nat
  ar_cnt :: nat
  ar_bar :: "addr option"
  ar_begun :: "nat set"
  ar_master_done :: bool

record world =
  w_brk :: addr
  w_nodes :: "addr set"
  w_edges :: "(addr \<times> addr) set"
  w_role :: "addr \<Rightarrow> role"
  w_task :: "nat \<rightharpoonup> atask"
  w_reg :: "nat \<rightharpoonup> aregion"
  w_threads :: "nat set"
  w_final :: "addr option"

definition new_world :: world where
  "new_world = \<lparr>w_brk = 0, w_nodes = {}, w_edges = {}, w_role = (\<lambda>_. RPast), w_task = Map.empty,
     w_reg = Map.empty, w_threads = {}, w_final = None\<rparr>"

definition new_atask :: "addr \<Rightarrow> atask" where
  "new_atask x = \<lparr>at_cur = x, at_bar = None, at_sink = None, at_loop = None, at_tn = 0,
     at_status = Running\<rparr>"

definition running :: "world \<Rightarrow> nat \<Rightarrow> atask \<Rightarrow> bool" where
  "running w k t \<longleftrightarrow> w_task w k = Some t \<and> at_status t = Running"

definition member :: "world \<Rightarrow> nat \<Rightarrow> aregion \<Rightarrow> atask \<Rightarrow> bool" where
  "member w r ar t \<longleftrightarrow> w_reg w r = Some ar \<and> at_sink t = Some (ar_sink ar)"

text \<open>A new node with its role, and a new edge.\<close>

definition add_node :: "addr \<Rightarrow> role \<Rightarrow> world \<Rightarrow> world" where
  "add_node x ro w = w\<lparr>w_nodes := insert x (w_nodes w), w_brk := Suc x, w_role := (w_role w)(x := ro)\<rparr>"

definition add_edge :: "addr \<Rightarrow> addr \<Rightarrow> world \<Rightarrow> world" where
  "add_edge u v w = w\<lparr>w_edges := insert (u, v) (w_edges w)\<rparr>"

definition set_role :: "addr \<Rightarrow> role \<Rightarrow> world \<Rightarrow> world" where
  "set_role x ro w = w\<lparr>w_role := (w_role w)(x := ro)\<rparr>"

definition set_task :: "nat \<Rightarrow> atask option \<Rightarrow> world \<Rightarrow> world" where
  "set_task k t w = w\<lparr>w_task := (w_task w)(k := t)\<rparr>"

definition set_reg :: "nat \<Rightarrow> aregion option \<Rightarrow> world \<Rightarrow> world" where
  "set_reg r ar w = w\<lparr>w_reg := (w_reg w)(r := ar)\<rparr>"

text \<open>The barrier of a region is complete: its waiting tasks have passed it.\<close>

definition pass_task :: "addr \<Rightarrow> atask \<Rightarrow> atask" where
  "pass_task sk t = (if at_status t = Waiting \<and> at_sink t = Some sk then t\<lparr>at_status := Passed\<rparr> else t)"

definition pass_all :: "addr \<Rightarrow> world \<Rightarrow> world" where
  "pass_all sk w = w\<lparr>w_task := (\<lambda>k. map_option (pass_task sk) (w_task w k))\<rparr>"

definition arrive :: "nat \<Rightarrow> atask \<Rightarrow> addr \<Rightarrow> addr \<Rightarrow> world \<Rightarrow> world" where
  "arrive k t B N w =
     set_task k (Some (t\<lparr>at_cur := N, at_bar := Some B, at_status := Waiting\<rparr>))
       (add_edge B N (add_node N (RPark k) (add_edge (at_cur t) B (set_role (at_cur t) RPast w))))"

section \<open>The events\<close>

datatype event =
  ThreadBegin nat | ThreadEnd nat
| InitialTask nat | ExplicitTask nat nat | Schedule nat nat
| ParallelBegin nat nat nat | ParallelEnd nat
| ImplicitBegin nat nat nat | ImplicitEnd nat nat
| BarrierBegin nat nat | BarrierEnd nat nat | Resume nat
| LoopBegin nat int int | Chunk nat nat int int bool | LoopEnd nat nat
| Unobserved

inductive omp_step :: "world \<Rightarrow> event \<Rightarrow> world \<Rightarrow> bool" where
  thread_begin: "thr \<notin> w_threads w \<Longrightarrow>
    omp_step w (ThreadBegin thr) (w\<lparr>w_threads := insert thr (w_threads w)\<rparr>)"
| thread_end: "thr \<in> w_threads w \<Longrightarrow>
    omp_step w (ThreadEnd thr) (w\<lparr>w_threads := w_threads w - {thr}\<rparr>)"
| initial: "w_brk w = 0 \<Longrightarrow> w_task w k = None \<Longrightarrow> x = w_brk w \<Longrightarrow>
    omp_step w (InitialTask k)
      ((set_task k (Some (new_atask x)) (add_node x (RCur k) w))\<lparr>w_final := Some x\<rparr>)"
| explicit: "running w p t \<Longrightarrow> w_task w k = None \<Longrightarrow> x = w_brk w \<Longrightarrow>
    omp_step w (ExplicitTask p k)
      (set_task k (Some (new_atask x)) (add_edge (at_cur t) x (add_node x (RCur k) w)))"
| schedule: "omp_step w (Schedule k k') w"
| parallel_begin: "running w p t \<Longrightarrow> w_reg w r = None \<Longrightarrow> 1 \<le> team \<Longrightarrow> team < 2 ^ 32 \<Longrightarrow> x = w_brk w \<Longrightarrow>
    omp_step w (ParallelBegin p r team)
      (set_reg r (Some \<lparr>ar_parent = p, ar_sink = x, ar_team = team, ar_cnt = 0, ar_bar = None,
                        ar_begun = {}, ar_master_done = False\<rparr>)
        (set_task p (Some (t\<lparr>at_status := Forked r\<rparr>)) (add_node x (RSink r) w)))"
| implicit_begin: "w_reg w r = Some ar \<Longrightarrow> tn < ar_team ar \<Longrightarrow> tn \<notin> ar_begun ar \<Longrightarrow>
    w_task w (ar_parent ar) = Some tp \<Longrightarrow> w_task w k = None \<Longrightarrow> x = w_brk w \<Longrightarrow>
    omp_step w (ImplicitBegin r k tn)
      (set_reg r (Some (ar\<lparr>ar_begun := insert tn (ar_begun ar)\<rparr>))
        (set_task k (Some ((new_atask x)\<lparr>at_sink := Some (ar_sink ar), at_tn := tn\<rparr>))
          (add_edge (at_cur tp) x (add_node x (RCur k) w))))"
| barrier_single: "running w k t \<Longrightarrow> member w r ar t \<Longrightarrow> ar_team ar = 1 \<Longrightarrow>
    omp_step w (BarrierBegin r k) w"
| barrier_first: "running w k t \<Longrightarrow> member w r ar t \<Longrightarrow> 1 < ar_team ar \<Longrightarrow> ar_cnt ar = 0 \<Longrightarrow>
    B = w_brk w \<Longrightarrow>
    omp_step w (BarrierBegin r k)
      (set_reg r (Some (ar\<lparr>ar_cnt := 1, ar_bar := Some B\<rparr>))
        (arrive k t B (Suc B) (add_node B (RBar r) w)))"
| barrier_join: "running w k t \<Longrightarrow> member w r ar t \<Longrightarrow> ar_cnt ar \<noteq> 0 \<Longrightarrow>
    ar_cnt ar + 1 < ar_team ar \<Longrightarrow> ar_bar ar = Some B \<Longrightarrow>
    omp_step w (BarrierBegin r k)
      (set_reg r (Some (ar\<lparr>ar_cnt := ar_cnt ar + 1\<rparr>)) (arrive k t B (w_brk w) w))"
| barrier_last: "running w k t \<Longrightarrow> member w r ar t \<Longrightarrow> ar_cnt ar \<noteq> 0 \<Longrightarrow>
    ar_cnt ar + 1 = ar_team ar \<Longrightarrow> ar_bar ar = Some B \<Longrightarrow>
    omp_step w (BarrierBegin r k)
      (pass_all (ar_sink ar)
        (set_reg r (Some (ar\<lparr>ar_cnt := 0\<rparr>)) (arrive k t B (w_brk w) w)))"
| barrier_end: "w_task w k = Some t \<Longrightarrow> at_status t \<noteq> Waiting \<Longrightarrow> omp_step w (BarrierEnd r k) w"
| resume: "w_task w k = Some t \<Longrightarrow> at_status t = Passed \<Longrightarrow>
    omp_step w (Resume k) (set_task k (Some (t\<lparr>at_status := Running\<rparr>)) (set_role (at_cur t) (RCur k) w))"
| implicit_end_plain: "running w k t \<Longrightarrow> at_bar t = None \<Longrightarrow> member w r ar t \<Longrightarrow> tn = at_tn t \<Longrightarrow>
    omp_step w (ImplicitEnd k tn)
      (set_reg r (Some (ar\<lparr>ar_master_done := ar_master_done ar \<or> tn = 0\<rparr>))
        (set_task k None (add_edge (at_cur t) (ar_sink ar) (set_role (at_cur t) RPast w))))"
| implicit_end_master: "w_task w k = Some t \<Longrightarrow> at_status t = Passed \<Longrightarrow> at_bar t = Some B \<Longrightarrow>
    at_tn t = 0 \<Longrightarrow> member w r ar t \<Longrightarrow>
    omp_step w (ImplicitEnd k 0)
      (set_reg r (Some (ar\<lparr>ar_master_done := True\<rparr>))
        (set_task k None (add_edge B (ar_sink ar)
          (w\<lparr>w_nodes := w_nodes w - {at_cur t}, w_edges := w_edges w - {(B, at_cur t)}\<rparr>))))"
| implicit_end_worker: "w_task w k = Some t \<Longrightarrow> at_status t = Passed \<Longrightarrow> at_bar t = Some B \<Longrightarrow>
    tn = at_tn t \<Longrightarrow> 0 < tn \<Longrightarrow>
    omp_step w (ImplicitEnd k tn)
      (set_task k None
        (w\<lparr>w_nodes := w_nodes w - {at_cur t}, w_edges := w_edges w - {(B, at_cur t)}\<rparr>))"
| parallel_end: "w_reg w r = Some ar \<Longrightarrow> ar_master_done ar \<Longrightarrow> w_task w (ar_parent ar) = Some tp \<Longrightarrow>
    omp_step w (ParallelEnd r)
      ((set_reg r None (set_task (ar_parent ar) (Some (tp\<lparr>at_cur := ar_sink ar, at_status := Running\<rparr>))
        (set_role (ar_sink ar) (RCur (ar_parent ar)) (set_role (at_cur tp) RPast w))))
       \<lparr>w_final := Some (ar_sink ar)\<rparr>)"
| loop_begin: "running w k t \<Longrightarrow> at_loop t = None \<Longrightarrow> st = w_brk w \<Longrightarrow>
    omp_step w (LoopBegin k lo up)
      (set_task k (Some (t\<lparr>at_loop := Some (st, Suc st, None)\<rparr>))
        (add_node (Suc st) (RLoopSink k) (add_edge (at_cur t) st (add_node st RLoopStart w))))"
| chunk: "running w k t \<Longrightarrow> at_loop t = Some (st, sk, l) \<Longrightarrow> thr \<in> w_threads w \<Longrightarrow> x = w_brk w \<Longrightarrow>
    omp_step w (Chunk thr k lo up False)
      (set_task k (Some (t\<lparr>at_loop := Some (st, sk, Some x)\<rparr>))
        (add_edge x sk (add_edge st x (add_node x RChunk w))))"
| chunk_last: "running w k t \<Longrightarrow> at_loop t = Some (st, sk, l) \<Longrightarrow> thr \<in> w_threads w \<Longrightarrow>
    omp_step w (Chunk thr k lo up True) w"
| loop_end: "running w k t \<Longrightarrow> at_loop t = Some (st, sk, l) \<Longrightarrow> thr \<in> w_threads w \<Longrightarrow>
    omp_step w (LoopEnd thr k)
      (set_task k (Some (t\<lparr>at_cur := sk, at_loop := None\<rparr>))
        (set_role sk (RCur k) (set_role (at_cur t) RPast
          (if l = None then add_edge st sk w else w))))"
| unobserved: "omp_step w Unobserved w"

section \<open>The invariant\<close>

definition parked :: "atask \<Rightarrow> bool" where
  "parked t \<longleftrightarrow> at_status t = Waiting \<or> at_status t = Passed"

text \<open>Nodes of these roles have no exits.\<close>

fun open_end :: "role \<Rightarrow> bool" where
  "open_end (RPark k) = True"
| "open_end (RSink r) = True"
| "open_end (RLoopSink k) = True"
| "open_end _ = False"

definition has_role :: "world \<Rightarrow> addr \<Rightarrow> role \<Rightarrow> bool" where
  "has_role w x ro \<longleftrightarrow> x \<in> w_nodes w \<and> w_role w x = ro"

definition graph_ok :: "world \<Rightarrow> bool" where
  "graph_ok w \<longleftrightarrow> w_edges w \<subseteq> w_nodes w \<times> w_nodes w \<and> (\<forall>x \<in> w_nodes w. x < w_brk w)
     \<and> acyclic (w_edges w) \<and> (\<forall>u v. (u, v) \<in> w_edges w \<longrightarrow> \<not> open_end (w_role w u))"

definition loop_ok :: "world \<Rightarrow> nat \<Rightarrow> addr \<times> addr \<times> addr option \<Rightarrow> bool" where
  "loop_ok w k l \<longleftrightarrow> (case l of (st, sk, c) \<Rightarrow> has_role w st RLoopStart \<and> has_role w sk (RLoopSink k)
     \<and> pred_option (\<lambda>c. has_role w c RChunk) c)"

definition task_ok :: "world \<Rightarrow> nat \<Rightarrow> atask \<Rightarrow> bool" where
  "task_ok w k t \<longleftrightarrow> has_role w (at_cur t) (if parked t then RPark k else RCur k)
     \<and> pred_option (\<lambda>B. \<exists>r. has_role w B (RBar r)) (at_bar t)
     \<and> (parked t \<longrightarrow> at_bar t \<noteq> None \<and> (\<forall>u. (u, at_cur t) \<in> w_edges w \<longrightarrow> at_bar t = Some u))
     \<and> pred_option (loop_ok w k) (at_loop t)"

definition waits_at :: "world \<Rightarrow> addr \<Rightarrow> addr \<Rightarrow> bool" where
  "waits_at w sk v \<longleftrightarrow> (\<exists>k t. w_task w k = Some t \<and> at_cur t = v \<and> at_status t = Waiting
     \<and> at_sink t = Some sk)"

lemma waits_at_mono:
  assumes "waits_at w sk v"
    and "\<And>k t. w_task w k = Some t \<Longrightarrow> at_status t = Waiting \<Longrightarrow> at_sink t = Some sk \<Longrightarrow> w_task w' k = Some t"
  shows "waits_at w' sk v"
  using assms unfolding waits_at_def by blast

text \<open>Only tasks that wait in the barrier of the region hold on to its node.\<close>

definition holds_bar :: "world \<Rightarrow> addr \<Rightarrow> addr \<Rightarrow> bool" where
  "holds_bar w sk B \<longleftrightarrow> (\<forall>k t. w_task w k = Some t \<longrightarrow> at_bar t = Some B \<longrightarrow>
     at_status t = Waiting \<and> at_sink t = Some sk)"

definition reg_ok :: "world \<Rightarrow> nat \<Rightarrow> aregion \<Rightarrow> bool" where
  "reg_ok w r ar \<longleftrightarrow> has_role w (ar_sink ar) (RSink r)
     \<and> (\<exists>tp. w_task w (ar_parent ar) = Some tp \<and> at_status tp = Forked r)
     \<and> 1 \<le> ar_team ar \<and> ar_team ar < 2 ^ 32 \<and> ar_cnt ar < ar_team ar
     \<and> (ar_cnt ar \<noteq> 0 \<longrightarrow> (\<exists>B. ar_bar ar = Some B \<and> has_role w B (RBar r)
           \<and> (\<forall>v. (B, v) \<in> w_edges w \<longrightarrow> waits_at w (ar_sink ar) v)
           \<and> holds_bar w (ar_sink ar) B))"

definition final_ok :: "world \<Rightarrow> bool" where
  "final_ok w \<longleftrightarrow> pred_option (\<lambda>f. f \<in> w_nodes w \<and> (\<forall>k. w_role w f \<noteq> RPark k)) (w_final w)"

definition winv :: "world \<Rightarrow> bool" where
  "winv w \<longleftrightarrow> graph_ok w \<and> (\<forall>k t. w_task w k = Some t \<longrightarrow> task_ok w k t)
     \<and> (\<forall>r ar. w_reg w r = Some ar \<longrightarrow> reg_ok w r ar) \<and> final_ok w"

lemmas world_ops = add_node_def add_edge_def set_role_def set_task_def set_reg_def pass_all_def arrive_def

lemma world_sel [simp]:
  "w_brk (add_node x ro w) = Suc x"
  "w_nodes (add_node x ro w) = insert x (w_nodes w)"
  "w_edges (add_node x ro w) = w_edges w"
  "w_role (add_node x ro w) = (w_role w)(x := ro)"
  "w_task (add_node x ro w) = w_task w"
  "w_reg (add_node x ro w) = w_reg w"
  "w_threads (add_node x ro w) = w_threads w"
  "w_final (add_node x ro w) = w_final w"
  "w_brk (add_edge u v w) = w_brk w"
  "w_nodes (add_edge u v w) = w_nodes w"
  "w_edges (add_edge u v w) = insert (u, v) (w_edges w)"
  "w_role (add_edge u v w) = w_role w"
  "w_task (add_edge u v w) = w_task w"
  "w_reg (add_edge u v w) = w_reg w"
  "w_threads (add_edge u v w) = w_threads w"
  "w_final (add_edge u v w) = w_final w"
  "w_brk (set_role x ro w) = w_brk w"
  "w_nodes (set_role x ro w) = w_nodes w"
  "w_edges (set_role x ro w) = w_edges w"
  "w_role (set_role x ro w) = (w_role w)(x := ro)"
  "w_task (set_role x ro w) = w_task w"
  "w_reg (set_role x ro w) = w_reg w"
  "w_threads (set_role x ro w) = w_threads w"
  "w_final (set_role x ro w) = w_final w"
  "w_brk (set_task k t w) = w_brk w"
  "w_nodes (set_task k t w) = w_nodes w"
  "w_edges (set_task k t w) = w_edges w"
  "w_role (set_task k t w) = w_role w"
  "w_task (set_task k t w) = (w_task w)(k := t)"
  "w_reg (set_task k t w) = w_reg w"
  "w_threads (set_task k t w) = w_threads w"
  "w_final (set_task k t w) = w_final w"
  "w_brk (set_reg r ar w) = w_brk w"
  "w_nodes (set_reg r ar w) = w_nodes w"
  "w_edges (set_reg r ar w) = w_edges w"
  "w_role (set_reg r ar w) = w_role w"
  "w_task (set_reg r ar w) = w_task w"
  "w_reg (set_reg r ar w) = (w_reg w)(r := ar)"
  "w_threads (set_reg r ar w) = w_threads w"
  "w_final (set_reg r ar w) = w_final w"
  by (simp_all add: add_node_def add_edge_def set_role_def set_task_def set_reg_def)

lemma inv_new_world: "winv new_world"
  by (simp add: winv_def graph_ok_def final_ok_def new_world_def acyclic_def)

named_theorems world_intros \<open>how the parts of the invariant survive single changes\<close>

subsection \<open>The graph\<close>

lemma graph_okD:
  assumes "graph_ok w"
  shows "(u, v) \<in> w_edges w \<Longrightarrow> u \<in> w_nodes w" "(u, v) \<in> w_edges w \<Longrightarrow> v \<in> w_nodes w"
    "(u, v) \<in> w_edges w \<Longrightarrow> \<not> open_end (w_role w u)"
    "x \<in> w_nodes w \<Longrightarrow> x < w_brk w" "acyclic (w_edges w)"
    "w_brk w \<notin> w_nodes w" "Suc (w_brk w) \<notin> w_nodes w"
  using assms by (auto simp: graph_ok_def)

lemma graph_ok_edge:
  assumes "graph_ok w" and "u \<in> w_nodes w" and "v \<in> w_nodes w" and "\<not> open_end (w_role w u)"
    and "u \<noteq> v" and "\<And>x. (v, x) \<in> w_edges w \<Longrightarrow> x \<noteq> u \<and> (\<forall>y. (x, y) \<notin> w_edges w)"
  shows "graph_ok (add_edge u v w)"
proof -
  have "(v, u) \<notin> (w_edges w)\<^sup>*"
  proof
    assume "(v, u) \<in> (w_edges w)\<^sup>*"
    then show False
      using assms(5,6) by (metis converse_rtranclE)
  qed
  then show ?thesis using assms by (auto simp: graph_ok_def add_edge_def intro: acyclic_insert_new)
qed

lemma graph_ok_add_node:
  assumes "graph_ok w" and "w_brk w \<le> x" shows "graph_ok (add_node x ro w)"
proof -
  have "u \<noteq> x" if "(u, v) \<in> w_edges w" for u v
    using that graph_okD(1,4) [OF assms(1)] assms(2) by fastforce
  then show ?thesis
    using assms unfolding graph_ok_def add_node_def by (auto simp: less_SucI)
qed

lemma graph_ok_set_role:
  assumes "graph_ok w" and "\<not> open_end ro" shows "graph_ok (set_role x ro w)"
  using assms by (auto simp: graph_ok_def set_role_def)

lemma graph_ok_ignore [simp]:
  "graph_ok (set_task k t w) = graph_ok w" "graph_ok (set_reg r ar w) = graph_ok w"
  "graph_ok (pass_all sk w) = graph_ok w" "graph_ok (w\<lparr>w_final := f\<rparr>) = graph_ok w"
  "graph_ok (w\<lparr>w_threads := T\<rparr>) = graph_ok w"
  by (simp_all add: graph_ok_def world_ops)

lemma graph_ok_delete:
  assumes "graph_ok w" and "\<And>u v. (u, v) \<in> w_edges w \<Longrightarrow> (u, v) \<noteq> (B, c) \<Longrightarrow> u \<noteq> c \<and> v \<noteq> c"
  shows "graph_ok (w\<lparr>w_nodes := w_nodes w - {c}, w_edges := w_edges w - {(B, c)}\<rparr>)"
  using assms by (auto simp: graph_ok_def intro: acyclic_mono)

subsection \<open>The tasks\<close>

text \<open>The roles of the nodes a task holds on to.\<close>

definition task_roles :: "nat \<Rightarrow> role set" where
  "task_roles k = {RCur k, RPark k, RLoopStart, RLoopSink k, RChunk} \<union> range RBar"

lemma task_ok_frame:
  assumes "task_ok w k t"
    and "\<And>x. x \<in> w_nodes w \<Longrightarrow> w_role w x \<in> task_roles k \<Longrightarrow> x \<in> w_nodes w' \<and> w_role w' x = w_role w x"
    and "\<And>u. (u, at_cur t) \<in> w_edges w' \<Longrightarrow> parked t \<Longrightarrow> (u, at_cur t) \<in> w_edges w \<or> at_bar t = Some u"
  shows "task_ok w' k t"
proof -
  have hr: "has_role w x ro \<Longrightarrow> ro \<in> task_roles k \<Longrightarrow> has_role w' x ro" for x ro
    using assms(2) by (auto simp: has_role_def)
  have "has_role w' (at_cur t) (if parked t then RPark k else RCur k)"
    using assms(1) by (intro hr) (auto simp: task_ok_def task_roles_def)
  moreover have "pred_option (\<lambda>B. \<exists>r. has_role w' B (RBar r)) (at_bar t)"
    using assms(1) hr [of _ "RBar _"] by (cases "at_bar t") (auto simp: task_ok_def task_roles_def)
  moreover have "pred_option (loop_ok w' k) (at_loop t)"
    using assms(1) hr by (auto simp: task_ok_def task_roles_def loop_ok_def option.pred_set split: prod.splits)
  ultimately show ?thesis
    using assms(1,3) by (auto simp: task_ok_def)
qed

subsection \<open>The regions\<close>

lemma reg_ok_frame:
  assumes "reg_ok w r ar"
    and "\<And>x. x \<in> w_nodes w \<Longrightarrow> w_role w x \<in> {RSink r, RBar r} \<Longrightarrow> x \<in> w_nodes w' \<and> w_role w' x = w_role w x"
    and "\<And>tp. w_task w (ar_parent ar) = Some tp \<Longrightarrow> at_status tp = Forked r \<Longrightarrow>
      \<exists>tp'. w_task w' (ar_parent ar) = Some tp' \<and> at_status tp' = Forked r"
    and "\<And>v. ar_cnt ar \<noteq> 0 \<Longrightarrow> waits_at w (ar_sink ar) v \<Longrightarrow> waits_at w' (ar_sink ar) v"
    and "\<And>B v. ar_cnt ar \<noteq> 0 \<Longrightarrow> ar_bar ar = Some B \<Longrightarrow> (B, v) \<in> w_edges w' \<Longrightarrow> (B, v) \<in> w_edges w \<or> waits_at w' (ar_sink ar) v"
    and "\<And>B. ar_cnt ar \<noteq> 0 \<Longrightarrow> has_role w B (RBar r) \<Longrightarrow> holds_bar w (ar_sink ar) B \<Longrightarrow> holds_bar w' (ar_sink ar) B"
  shows "reg_ok w' r ar"
proof -
  have hr: "has_role w x ro \<Longrightarrow> ro \<in> {RSink r, RBar r} \<Longrightarrow> has_role w' x ro" for x ro
    using assms(2) by (auto simp: has_role_def)
  have "has_role w' (ar_sink ar) (RSink r)" using assms(1) by (intro hr) (auto simp: reg_ok_def)
  moreover have "\<exists>tp. w_task w' (ar_parent ar) = Some tp \<and> at_status tp = Forked r"
    using assms(1,3) by (auto simp: reg_ok_def)
  moreover have "\<exists>B. ar_bar ar = Some B \<and> has_role w' B (RBar r)
      \<and> (\<forall>v. (B, v) \<in> w_edges w' \<longrightarrow> waits_at w' (ar_sink ar) v) \<and> holds_bar w' (ar_sink ar) B" if cnt: "ar_cnt ar \<noteq> 0"
  proof -
    obtain B where B: "ar_bar ar = Some B" "has_role w B (RBar r)"
        "\<forall>v. (B, v) \<in> w_edges w \<longrightarrow> waits_at w (ar_sink ar) v" "holds_bar w (ar_sink ar) B"
      using assms(1) cnt by (auto simp: reg_ok_def)
    then show ?thesis
      using hr [OF B(2)] assms(4) [OF cnt] assms(5) [OF cnt B(1)] assms(6) [OF cnt B(2,4)] by blast
  qed
  ultimately show ?thesis using assms(1) by (auto simp: reg_ok_def)
qed

subsection \<open>The steps\<close>

lemma invD:
  assumes "winv w"
  shows "graph_ok w" "w_task w k = Some t \<Longrightarrow> task_ok w k t" "w_reg w r = Some ar \<Longrightarrow> reg_ok w r ar"
    "final_ok w"
  using assms by (auto simp: winv_def)

lemma invI:
  assumes "graph_ok w" "\<And>k t. w_task w k = Some t \<Longrightarrow> task_ok w k t"
    "\<And>r ar. w_reg w r = Some ar \<Longrightarrow> reg_ok w r ar" "final_ok w"
  shows "winv w"
  using assms by (simp add: winv_def)

lemma running_cur:
  assumes "winv w" and "running w k t"
  shows "at_cur t \<in> w_nodes w" "w_role w (at_cur t) = RCur k" "at_cur t < w_brk w" "w_task w k = Some t"
  using assms invD(2) [OF assms(1), of k t] graph_okD(4) [OF invD(1) [OF assms(1)]]
  by (auto simp: running_def task_ok_def has_role_def parked_def)

text \<open>Most steps change one task, which does not wait, and add no exit to a barrier: the regions do
  not notice.\<close>

lemma reg_ok_one_task:
  assumes inv: "winv w" and ar: "w_reg w r = Some ar" and w': "w_task w' = (w_task w)(k := t')"
    and t: "\<And>t. w_task w k = Some t \<Longrightarrow> at_status t \<noteq> Waiting
      \<and> (at_status t = Forked r \<longrightarrow> (\<exists>x. t' = Some x \<and> at_status x = Forked r))"
    and bar: "\<And>x B. t' = Some x \<Longrightarrow> at_bar x = Some B \<Longrightarrow> \<exists>t. w_task w k = Some t \<and> at_bar t = Some B"
    and roles: "\<And>x. x \<in> w_nodes w \<Longrightarrow> w_role w x \<in> {RSink r, RBar r} \<Longrightarrow> x \<in> w_nodes w' \<and> w_role w' x = w_role w x"
    and edges: "\<And>B v. has_role w B (RBar r) \<Longrightarrow> (B, v) \<in> w_edges w' \<Longrightarrow> (B, v) \<in> w_edges w"
  shows "reg_ok w' r ar"
proof (rule reg_ok_frame)
  show ok: "reg_ok w r ar" using invD(3) [OF inv ar] .
  show "\<exists>tp'. w_task w' (ar_parent ar) = Some tp' \<and> at_status tp' = Forked r"
    if "w_task w (ar_parent ar) = Some tp" "at_status tp = Forked r" for tp
    using that t by (auto simp: w')
  show "waits_at w' (ar_sink ar) v" if "waits_at w (ar_sink ar) v" for v
    using that by (rule waits_at_mono) (use t in \<open>auto simp: w'\<close>)
  show "(B, v) \<in> w_edges w \<or> waits_at w' (ar_sink ar) v"
    if "ar_cnt ar \<noteq> 0" "ar_bar ar = Some B" "(B, v) \<in> w_edges w'" for B v
    using that ok edges by (auto simp: reg_ok_def)
  show "holds_bar w' (ar_sink ar) B" if "holds_bar w (ar_sink ar) B" for B
    using that t bar by (fastforce simp: holds_bar_def w')
qed (use roles in auto)

text \<open>A running task gets a child: an explicit task, or the implicit tasks of its region.\<close>

lemma inv_child:
  assumes inv: "winv w" and u: "u \<in> w_nodes w" "w_role w u = RCur p" and k: "w_task w k = None"
    and nt: "at_cur t = w_brk w" "at_bar t = None" "at_loop t = None" "at_status t = Running"
  shows "winv (set_task k (Some t) (add_edge u (w_brk w) (add_node (w_brk w) (RCur k) w)))" (is "winv ?w")
proof (rule invI)
  note g = invD(1) [OF inv]
  have fresh: "w_brk w \<notin> w_nodes w" "u \<noteq> w_brk w" "(x, w_brk w) \<notin> w_edges w" "(w_brk w, x) \<notin> w_edges w" for x
    using graph_okD [OF g] u by blast+
  have "graph_ok (add_edge u (w_brk w) (add_node (w_brk w) (RCur k) w))"
    using graph_ok_add_node [OF g order_refl] u fresh
    by (intro graph_ok_edge) auto
  then show "graph_ok ?w" by simp
  show "task_ok ?w k' t'" if t': "w_task ?w k' = Some t'" for k' t'
  proof (cases "k' = k")
    case True
    then show ?thesis using t' nt by (auto simp: task_ok_def has_role_def parked_def)
  next
    case False
    with t' have ok: "task_ok w k' t'" using invD(2) [OF inv] by simp
    then have "at_cur t' \<noteq> w_brk w" using fresh by (auto simp: task_ok_def has_role_def)
    with ok show ?thesis
      by (elim task_ok_frame) (use fresh in \<open>auto\<close>)
  qed
  show "reg_ok ?w r ar" if "w_reg ?w r = Some ar" for r ar
    by (rule reg_ok_one_task [OF inv, where k = k and t' = "Some t"])
      (use that k u nt fresh in \<open>auto simp: has_role_def\<close>)
  show "final_ok ?w"
    using invD(4) [OF inv] fresh by (auto simp: final_ok_def option.pred_set)
qed

lemma inv_initial:
  assumes inv: "winv w" and "w_brk w = 0" and k: "w_task w k = None"
  shows "winv ((set_task k (Some (new_atask (w_brk w))) (add_node (w_brk w) (RCur k) w))\<lparr>w_final := Some (w_brk w)\<rparr>)"
    (is "winv ?w")
proof (rule invI)
  note g = invD(1) [OF inv]
  have none: "w_nodes w = {}" using graph_okD(4) [OF g] assms(2) by auto
  have ft: "w_task w k' = None" for k'
    using invD(2) [OF inv, of k'] none by (cases "w_task w k'") (auto simp: task_ok_def has_role_def)
  have fr: "w_reg w r = None" for r
    using invD(3) [OF inv, of r] none by (cases "w_reg w r") (auto simp: reg_ok_def has_role_def)
  show "graph_ok ?w" using graph_ok_add_node [OF g order_refl] by simp
  show "task_ok ?w k' t'" if "w_task ?w k' = Some t'" for k' t'
    using that ft by (auto simp: task_ok_def has_role_def parked_def new_atask_def split: if_splits)
  show "reg_ok ?w r ar" if "w_reg ?w r = Some ar" for r ar
    using that fr by simp
  show "final_ok ?w" by (simp add: final_ok_def)
qed

lemma inv_parallel_begin:
  assumes inv: "winv w" and run: "running w p t" and r: "w_reg w r = None" and team: "1 \<le> team" "team < 2 ^ 32"
  shows "winv (set_reg r (Some \<lparr>ar_parent = p, ar_sink = w_brk w, ar_team = team, ar_cnt = 0, ar_bar = None,
                        ar_begun = {}, ar_master_done = False\<rparr>)
        (set_task p (Some (t\<lparr>at_status := Forked r\<rparr>)) (add_node (w_brk w) (RSink r) w)))" (is "winv ?w")
proof (rule invI)
  note g = invD(1) [OF inv] and c = running_cur [OF inv run]
  have fresh: "w_brk w \<notin> w_nodes w" "(x, w_brk w) \<notin> w_edges w" "(w_brk w, x) \<notin> w_edges w" for x
    using graph_okD [OF g] by blast+
  have tp: "w_task w p = Some t" "at_status t = Running" using run by (auto simp: running_def)
  show "graph_ok ?w" using graph_ok_add_node [OF g order_refl] by simp
  have keep: "task_ok ?w k' t'" if "task_ok w k' t'" for k' t'
    using that by (rule task_ok_frame) (use fresh in \<open>auto\<close>)
  show "task_ok ?w k' t'" if t': "w_task ?w k' = Some t'" for k' t'
  proof (cases "k' = p")
    case True
    have "task_ok ?w p t" using keep invD(2) [OF inv tp(1)] by simp
    then show ?thesis using t' True tp(2) by (auto simp: task_ok_def parked_def)
  next
    case False
    then show ?thesis using t' invD(2) [OF inv] keep by simp
  qed
  show "reg_ok ?w r' ar" if ar: "w_reg ?w r' = Some ar" for r' ar
  proof (cases "r' = r")
    case True
    then have "ar = \<lparr>ar_parent = p, ar_sink = w_brk w, ar_team = team, ar_cnt = 0, ar_bar = None,
        ar_begun = {}, ar_master_done = False\<rparr>" using ar by simp
    then show ?thesis using True team by (simp add: reg_ok_def has_role_def)
  next
    case False
    then show ?thesis
      by (intro reg_ok_one_task [OF inv, where k = p and t' = "Some (t\<lparr>at_status := Forked r\<rparr>)"])
        (use ar tp fresh in auto)
  qed
  show "final_ok ?w"
    using invD(4) [OF inv] fresh by (auto simp: final_ok_def option.pred_set)
qed

lemma inv_add_bar:
  assumes inv: "winv w" shows "winv (add_node (w_brk w) (RBar r) w)" (is "winv ?w")
proof (rule invI)
  note g = invD(1) [OF inv]
  have fresh: "w_brk w \<notin> w_nodes w" "(x, w_brk w) \<notin> w_edges w" "(w_brk w, x) \<notin> w_edges w" for x
    using graph_okD [OF g] by blast+
  show "graph_ok ?w" by (rule graph_ok_add_node [OF g order_refl])
  show "task_ok ?w k t" if "w_task ?w k = Some t" for k t
  proof -
    have "task_ok w k t" using that invD(2) [OF inv] by simp
    then show ?thesis by (rule task_ok_frame) (use fresh in auto)
  qed
  show "reg_ok ?w r' ar" if "w_reg ?w r' = Some ar" for r' ar
  proof -
    have "reg_ok w r' ar" using that invD(3) [OF inv] by simp
    then show ?thesis by (rule reg_ok_frame) (use fresh in \<open>auto simp: waits_at_def holds_bar_def\<close>)
  qed
  show "final_ok ?w" using invD(4) [OF inv] fresh by (auto simp: final_ok_def option.pred_set)
qed

lemma waiting_dead:
  assumes inv: "winv w" and "waits_at w sk v"
  shows "(v, y) \<notin> w_edges w" "\<exists>k. w_role w v = RPark k"
proof -
  obtain k t where "w_task w k = Some t" "at_cur t = v" "at_status t = Waiting"
    using assms(2) by (auto simp: waits_at_def)
  then have "w_role w v = RPark k"
    using invD(2) [OF inv] by (auto simp: task_ok_def has_role_def parked_def)
  then show "\<exists>k. w_role w v = RPark k" "(v, y) \<notin> w_edges w"
    using graph_okD(3) [OF invD(1) [OF inv], of v y] by auto
qed

text \<open>The state after a thread has arrived at the barrier node \<open>B\<close> of its region as the
  \<open>n\<close>-th of its team, and the parts of the invariant there.\<close>

definition arrived :: "nat \<Rightarrow> atask \<Rightarrow> nat \<Rightarrow> aregion \<Rightarrow> addr \<Rightarrow> nat \<Rightarrow> world \<Rightarrow> world" where
  "arrived k t r ar B n w = set_reg r (Some (ar\<lparr>ar_cnt := n, ar_bar := Some B\<rparr>)) (arrive k t B (w_brk w) w)"

lemma arrived_sel:
  "w_nodes (arrived k t r ar B n w) = insert (w_brk w) (w_nodes w)"
  "w_role (arrived k t r ar B n w) = (w_role w)(at_cur t := RPast, w_brk w := RPark k)"
  "w_edges (arrived k t r ar B n w) = insert (B, w_brk w) (insert (at_cur t, B) (w_edges w))"
  "w_task (arrived k t r ar B n w)
     = (w_task w)(k \<mapsto> t\<lparr>at_cur := w_brk w, at_bar := Some B, at_status := Waiting\<rparr>)"
  "w_reg (arrived k t r ar B n w) = (w_reg w)(r \<mapsto> ar\<lparr>ar_cnt := n, ar_bar := Some B\<rparr>)"
  "w_final (arrived k t r ar B n w) = w_final w"
  by (simp_all add: arrived_def arrive_def)

lemma arrive_nodes:
  assumes inv: "winv w" and run: "running w k t" and B: "has_role w B (RBar r)"
  shows "B \<in> w_nodes w" "w_role w B = RBar r" "at_cur t \<noteq> B" "at_cur t \<noteq> w_brk w" "B \<noteq> w_brk w"
    "w_brk w \<notin> w_nodes w" "(x, w_brk w) \<notin> w_edges w" "(w_brk w, x) \<notin> w_edges w"
proof -
  note c = running_cur [OF inv run] and d = graph_okD [OF invD(1) [OF inv]]
  show B: "B \<in> w_nodes w" "w_role w B = RBar r" using B by (auto simp: has_role_def)
  show "w_brk w \<notin> w_nodes w" "(x, w_brk w) \<notin> w_edges w" "(w_brk w, x) \<notin> w_edges w" using d by blast+
  then show "at_cur t \<noteq> B" "at_cur t \<noteq> w_brk w" "B \<noteq> w_brk w" using B c by auto
qed

lemma graph_ok_arrived:
  assumes inv: "winv w" and run: "running w k t" and B: "has_role w B (RBar r)"
    and ex: "\<And>v. (B, v) \<in> w_edges w \<Longrightarrow> waits_at w sk v"
  shows "graph_ok (arrived k t r ar B n w)"
proof -
  let ?c = "at_cur t" and ?N = "w_brk w"
  note g = invD(1) [OF inv] and c = running_cur [OF inv run] and N = arrive_nodes [OF inv run B]
  have "graph_ok (add_edge ?c B (set_role ?c RPast w))"
    using graph_ok_set_role [OF g, of RPast ?c] c(1) N(1,3) ex waiting_dead [OF inv] c(2)
    by (intro graph_ok_edge) fastforce+
  then have "graph_ok (add_node ?N (RPark k) (add_edge ?c B (set_role ?c RPast w)))"
    by (rule graph_ok_add_node) simp
  then have "graph_ok (add_edge B ?N (add_node ?N (RPark k) (add_edge ?c B (set_role ?c RPast w))))"
    by (rule graph_ok_edge) (use N in auto)
  then show ?thesis by (simp add: arrived_def arrive_def)
qed

lemma task_ok_arrived:
  assumes inv: "winv w" and run: "running w k t" and B: "has_role w B (RBar r)"
    and t': "w_task (arrived k t r ar B n w) k' = Some t'"
  shows "task_ok (arrived k t r ar B n w) k' t'"
proof (cases "k' = k")
  note c = running_cur [OF inv run] and N = arrive_nodes [OF inv run B]
  case True
  have "task_ok w k t" using invD(2) [OF inv c(4)] .
  then have "pred_option (loop_ok (arrived k t r ar B n w) k) (at_loop t)"
    using c(2) N(4,6) by (auto simp: task_ok_def loop_ok_def has_role_def arrived_sel option.pred_set split: prod.splits)
  then show ?thesis
    using t' True N by (auto simp: task_ok_def has_role_def arrived_sel parked_def)
next
  note c = running_cur [OF inv run] and N = arrive_nodes [OF inv run B]
  case False
  then have ok: "task_ok w k' t'" using t' invD(2) [OF inv] by (simp add: arrived_sel)
  then have "at_cur t' \<noteq> w_brk w" "parked t' \<Longrightarrow> at_cur t' \<noteq> B"
    using N by (auto simp: task_ok_def has_role_def)
  with ok show ?thesis
    by (elim task_ok_frame) (use N c False in \<open>auto simp: arrived_sel task_roles_def\<close>)
qed

lemma arrived_tasks:
  assumes "winv w" and "running w k t"
  shows "waits_at w sk v \<Longrightarrow> waits_at (arrived k t r ar B n w) sk v"
    and "w_task w p = Some tp \<Longrightarrow> at_status tp = Forked q \<Longrightarrow>
      \<exists>tp'. w_task (arrived k t r ar B n w) p = Some tp' \<and> at_status tp' = Forked q"
  using assms(2) by (auto simp: running_def arrived_sel elim!: waits_at_mono)

lemma reg_ok_arrived:
  assumes inv: "winv w" and run: "running w k t" and mem: "member w r ar t"
    and B: "has_role w B (RBar r)" and ex: "\<And>v. (B, v) \<in> w_edges w \<Longrightarrow> waits_at w (ar_sink ar) v"
    and hb: "holds_bar w (ar_sink ar) B" and n: "n < ar_team ar"
  shows "reg_ok (arrived k t r ar B n w) r (ar\<lparr>ar_cnt := n, ar_bar := Some B\<rparr>)"
proof -
  let ?w = "arrived k t r ar B n w"
  note c = running_cur [OF inv run] and N = arrive_nodes [OF inv run B] and tasks = arrived_tasks [OF inv run]
  have ok: "reg_ok w r ar" using mem invD(3) [OF inv] by (simp add: member_def)
  have "waits_at ?w (ar_sink ar) (w_brk w)" using mem by (auto simp: waits_at_def member_def arrived_sel)
  then have "waits_at ?w (ar_sink ar) v" if "(B, v) \<in> w_edges ?w" for v
    using that ex tasks(1) N(3) by (auto simp: arrived_sel)
  moreover have "has_role ?w (ar_sink ar) (RSink r)" "has_role ?w B (RBar r)"
    using ok c(2) N by (auto simp: reg_ok_def has_role_def arrived_sel)
  moreover have "\<exists>tp. w_task ?w (ar_parent ar) = Some tp \<and> at_status tp = Forked r"
    using ok tasks(2) by (auto simp: reg_ok_def)
  moreover have "holds_bar ?w (ar_sink ar) B" using hb mem by (auto simp: holds_bar_def arrived_sel member_def)
  ultimately show ?thesis using ok n by (simp add: reg_ok_def)
qed

lemma reg_ok_arrived_other:
  assumes inv: "winv w" and run: "running w k t" and B: "has_role w B (RBar r)"
    and ar': "w_reg w r' = Some ar'" and ne: "r' \<noteq> r"
  shows "reg_ok (arrived k t r ar B n w) r' ar'"
proof (rule reg_ok_frame)
  note c = running_cur [OF inv run] and N = arrive_nodes [OF inv run B] and tasks = arrived_tasks [OF inv run]
  show ok: "reg_ok w r' ar'" using ar' invD(3) [OF inv] by simp
  show "(B', v) \<in> w_edges w \<or> waits_at (arrived k t r ar B n w) (ar_sink ar') v"
    if "ar_cnt ar' \<noteq> 0" "ar_bar ar' = Some B'" "(B', v) \<in> w_edges (arrived k t r ar B n w)" for B' v
    using that ok N c ne by (auto simp: reg_ok_def has_role_def arrived_sel)
  show "holds_bar (arrived k t r ar B n w) (ar_sink ar') B'"
    if "has_role w B' (RBar r')" "holds_bar w (ar_sink ar') B'" for B'
    using that N(2) ne by (auto simp: holds_bar_def arrived_sel has_role_def)
qed (use running_cur [OF inv run] arrive_nodes [OF inv run B] arrived_tasks [OF inv run] in \<open>auto simp: arrived_sel\<close>)

lemma inv_arrive:
  assumes inv: "winv w" and run: "running w k t" and mem: "member w r ar t"
    and B: "has_role w B (RBar r)" and ex: "\<And>v. (B, v) \<in> w_edges w \<Longrightarrow> waits_at w (ar_sink ar) v"
    and hb: "holds_bar w (ar_sink ar) B" and n: "n < ar_team ar"
  shows "winv (set_reg r (Some (ar\<lparr>ar_cnt := n, ar_bar := Some B\<rparr>)) (arrive k t B (w_brk w) w))"
proof -
  note N = arrive_nodes [OF inv run B] and c = running_cur [OF inv run]
  have "reg_ok (arrived k t r ar B n w) r' ar'" if "w_reg (arrived k t r ar B n w) r' = Some ar'" for r' ar'
    using that reg_ok_arrived [OF assms] reg_ok_arrived_other [OF inv run B]
    by (cases "r' = r") (auto simp: arrived_sel)
  moreover have "final_ok (arrived k t r ar B n w)"
    using invD(4) [OF inv] N(6) c by (auto simp: final_ok_def arrived_sel option.pred_set)
  ultimately have "winv (arrived k t r ar B n w)"
    using graph_ok_arrived [OF inv run B ex] task_ok_arrived [OF inv run B] by (intro invI)
  then show ?thesis by (simp only: arrived_def)
qed

lemma pass_task_sel [simp]:
  "at_cur (pass_task sk t) = at_cur t" "at_bar (pass_task sk t) = at_bar t"
  "at_sink (pass_task sk t) = at_sink t" "at_loop (pass_task sk t) = at_loop t"
  "at_tn (pass_task sk t) = at_tn t" "parked (pass_task sk t) = parked t"
  "at_status (pass_task sk t) = Forked r \<longleftrightarrow> at_status t = Forked r"
  by (auto simp: pass_task_def parked_def)

lemma inv_pass_all:
  assumes inv: "winv w" and other: "\<And>r ar. w_reg w r = Some ar \<Longrightarrow> ar_cnt ar \<noteq> 0 \<Longrightarrow> ar_sink ar \<noteq> sk"
  shows "winv (pass_all sk w)"
proof -
  define w' where "w' = pass_all sk w"
  have sel: "w_nodes w' = w_nodes w" "w_role w' = w_role w" "w_edges w' = w_edges w" "w_final w' = w_final w"
    "w_reg w' = w_reg w" and tk: "\<And>k. w_task w' k = map_option (pass_task sk) (w_task w k)"
    by (simp_all add: w'_def pass_all_def)
  have "graph_ok w'" using invD(1) [OF inv] by (simp add: w'_def)
  moreover have "task_ok w' k t'" if "w_task w' k = Some t'" for k t'
  proof -
    obtain t where t: "w_task w k = Some t" "t' = pass_task sk t" using \<open>w_task w' k = Some t'\<close> tk by auto
    have "task_ok w k t" using invD(2) [OF inv t(1)] .
    moreover have "loop_ok w' = loop_ok w" by (simp add: fun_eq_iff loop_ok_def has_role_def sel)
    ultimately show ?thesis by (simp add: task_ok_def t(2) has_role_def sel)
  qed
  moreover have "reg_ok w' r ar" if r: "w_reg w' r = Some ar" for r ar
  proof -
    have ar: "w_reg w r = Some ar" using r sel by simp
    have "reg_ok w r ar" using invD(3) [OF inv ar] .
    then show ?thesis
    proof (rule reg_ok_frame)
      show "waits_at w' (ar_sink ar) v" if "ar_cnt ar \<noteq> 0" "waits_at w (ar_sink ar) v" for v
        using that(2) by (rule waits_at_mono) (use other [OF ar that(1)] in \<open>auto simp: tk pass_task_def\<close>)
      show "holds_bar w' (ar_sink ar) B" if "ar_cnt ar \<noteq> 0" "holds_bar w (ar_sink ar) B" for B
        using that(2) other [OF ar that(1)] by (fastforce simp: holds_bar_def tk pass_task_def)
    qed (auto simp: sel tk)
  qed
  moreover have "final_ok w'" using invD(4) [OF inv] by (simp add: final_ok_def sel)
  ultimately have "winv w'" by (rule invI)
  then show ?thesis by (simp only: w'_def)
qed

text \<open>Of one task only its own role changes: nothing else notices.\<close>

lemma inv_resume:
  assumes inv: "winv w" and t: "w_task w k = Some t" "at_status t = Passed"
  shows "winv (set_task k (Some (t\<lparr>at_status := Running\<rparr>)) (set_role (at_cur t) (RCur k) w))"
proof -
  define w' where "w' = set_task k (Some (t\<lparr>at_status := Running\<rparr>)) (set_role (at_cur t) (RCur k) w)"
  have sel: "w_nodes w' = w_nodes w" "w_role w' = (w_role w)(at_cur t := RCur k)" "w_edges w' = w_edges w"
    "w_final w' = w_final w" "w_reg w' = w_reg w" "w_task w' = (w_task w)(k \<mapsto> t\<lparr>at_status := Running\<rparr>)"
    by (simp_all add: w'_def)
  have ok: "task_ok w k t" using invD(2) [OF inv t(1)] .
  then have c: "at_cur t \<in> w_nodes w" "w_role w (at_cur t) = RPark k"
    using t(2) by (auto simp: task_ok_def has_role_def parked_def)
  have "graph_ok w'" using graph_ok_set_role [OF invD(1) [OF inv], of "RCur k"] by (simp add: w'_def)
  moreover have "task_ok w' k' t'" if t': "w_task w' k' = Some t'" for k' t'
  proof (cases "k' = k")
    case True
    then show ?thesis using t' ok t(2) c
      by (fastforce simp: task_ok_def has_role_def sel loop_ok_def parked_def option.pred_set split: prod.splits)
  next
    case False
    then have "task_ok w k' t'" using t' invD(2) [OF inv] by (simp add: sel)
    then show ?thesis by (rule task_ok_frame) (use c False in \<open>auto simp: sel task_roles_def\<close>)
  qed
  moreover have "reg_ok w' r ar" if "w_reg w' r = Some ar" for r ar
    by (rule reg_ok_one_task [OF inv, where k = k and t' = "Some (t\<lparr>at_status := Running\<rparr>)"])
      (use that c t in \<open>auto simp: sel has_role_def split: if_splits\<close>)
  moreover have "final_ok w'" using invD(4) [OF inv] by (auto simp: final_ok_def sel option.pred_set)
  ultimately have "winv w'" by (rule invI)
  then show ?thesis by (simp only: w'_def)
qed

lemma region_sink:
  assumes inv: "winv w" and ar: "w_reg w r = Some ar"
  shows "ar_sink ar \<in> w_nodes w" "w_role w (ar_sink ar) = RSink r" "(ar_sink ar, x) \<notin> w_edges w"
proof -
  show "ar_sink ar \<in> w_nodes w" "w_role w (ar_sink ar) = RSink r"
    using invD(3) [OF inv ar] by (auto simp: reg_ok_def has_role_def)
  then show "(ar_sink ar, x) \<notin> w_edges w" using graph_okD(3) [OF invD(1) [OF inv], of "ar_sink ar" x] by auto
qed

lemma inv_set_reg:
  assumes inv: "winv w" and ar: "w_reg w r = Some ar"
    and same: "ar_sink ar' = ar_sink ar" "ar_parent ar' = ar_parent ar" "ar_team ar' = ar_team ar"
      "ar_cnt ar' = ar_cnt ar" "ar_bar ar' = ar_bar ar"
  shows "winv (set_reg r (Some ar') w)" (is "winv ?w")
proof -
  have fr: "task_ok ?w = task_ok w" "reg_ok ?w = reg_ok w"
    by (simp_all add: fun_eq_iff task_ok_def reg_ok_def has_role_def waits_at_def holds_bar_def loop_ok_def
        cong: option.pred_cong)
  have "reg_ok w r ar'" using invD(3) [OF inv ar] same by (simp add: reg_ok_def)
  then show ?thesis using inv by (auto simp: winv_def fr final_ok_def)
qed

text \<open>A task that runs ends: its node, now past, is connected to the sink of its region.\<close>

lemma inv_end_task:
  assumes inv: "winv w" and run: "running w k t" and ar: "w_reg w r = Some ar"
  shows "winv (set_task k None (add_edge (at_cur t) (ar_sink ar) (set_role (at_cur t) RPast w)))" (is "winv ?w")
proof (rule invI)
  let ?c = "at_cur t" and ?sk = "ar_sink ar"
  note g = invD(1) [OF inv] and c = running_cur [OF inv run] and sk = region_sink [OF inv ar]
  have tr: "at_status t = Running" using run by (simp add: running_def)
  have "graph_ok (add_edge ?c ?sk (set_role ?c RPast w))"
    using graph_ok_set_role [OF g, of RPast ?c] c sk by (intro graph_ok_edge) auto
  then show "graph_ok ?w" by simp
  show "task_ok ?w k' t'" if t': "w_task ?w k' = Some t'" for k' t'
  proof -
    have kk: "k' \<noteq> k" and ok': "task_ok w k' t'" using t' invD(2) [OF inv] by (auto split: if_splits)
    then have "parked t' \<Longrightarrow> at_cur t' \<noteq> ?sk" using sk(2) by (auto simp: task_ok_def has_role_def)
    with ok' show ?thesis by (elim task_ok_frame) (use c kk in \<open>auto simp: task_roles_def\<close>)
  qed
  show "reg_ok ?w r' ar'" if "w_reg ?w r' = Some ar'" for r' ar'
    by (rule reg_ok_one_task [OF inv, where k = k and t' = None]) (use that c tr in \<open>auto simp: has_role_def\<close>)
  show "final_ok ?w" using invD(4) [OF inv] by (auto simp: final_ok_def option.pred_set)
qed

lemma inv_implicit_end_plain:
  assumes inv: "winv w" and run: "running w k t" and mem: "member w r ar t"
  shows "winv (set_reg r (Some (ar\<lparr>ar_master_done := md\<rparr>))
        (set_task k None (add_edge (at_cur t) (ar_sink ar) (set_role (at_cur t) RPast w))))"
  using mem by (intro inv_set_reg [OF inv_end_task [OF inv run, of r ar], of r ar]) (simp_all add: member_def)

text \<open>A parked node leaves the graph with its task.\<close>

lemma inv_drop:
  assumes inv: "winv w" and t: "w_task w k = Some t" "at_status t = Passed" "at_bar t = Some B"
  shows "winv (set_task k None (w\<lparr>w_nodes := w_nodes w - {at_cur t}, w_edges := w_edges w - {(B, at_cur t)}\<rparr>))"
proof -
  let ?c = "at_cur t"
  define w' where "w' = set_task k None (w\<lparr>w_nodes := w_nodes w - {?c}, w_edges := w_edges w - {(B, ?c)}\<rparr>)"
  have sel: "w_nodes w' = w_nodes w - {?c}" "w_role w' = w_role w" "w_edges w' = w_edges w - {(B, ?c)}"
    "w_final w' = w_final w" "w_reg w' = w_reg w" "w_task w' = (w_task w)(k := None)"
    by (simp_all add: w'_def)
  note g = invD(1) [OF inv]
  have c: "?c \<in> w_nodes w" "w_role w ?c = RPark k" "\<And>u. (u, ?c) \<in> w_edges w \<Longrightarrow> u = B"
    using invD(2) [OF inv t(1)] t by (auto simp: task_ok_def has_role_def parked_def)
  have "(?c, x) \<notin> w_edges w" for x using graph_okD(3) [OF g, of ?c x] c by auto
  then have "graph_ok w'"
    using graph_ok_delete [OF g, of B ?c] c(3) by (auto simp: w'_def)
  moreover have "task_ok w' k' t'" if t': "w_task w' k' = Some t'" for k' t'
  proof -
    have kk: "k' \<noteq> k" and ok': "task_ok w k' t'"
      using t' invD(2) [OF inv] by (auto simp: sel split: if_splits)
    from ok' show ?thesis by (rule task_ok_frame) (use c kk in \<open>auto simp: sel task_roles_def\<close>)
  qed
  moreover have "reg_ok w' r ar" if "w_reg w' r = Some ar" for r ar
    by (rule reg_ok_one_task [OF inv, where k = k and t' = "None"])
      (use that c t in \<open>auto simp: sel has_role_def split: if_splits\<close>)
  moreover have "final_ok w'" using invD(4) [OF inv] c by (auto simp: final_ok_def sel option.pred_set)
  ultimately have "winv w'" by (rule invI)
  then show ?thesis by (simp only: w'_def)
qed

text \<open>The master connects the last barrier to the sink of the region.\<close>

lemma inv_bar_sink:
  assumes inv: "winv w" and ar: "w_reg w r = Some ar" and B: "has_role w B (RBar r0)"
    and idle: "\<And>r' ar'. w_reg w r' = Some ar' \<Longrightarrow> ar_cnt ar' \<noteq> 0 \<Longrightarrow> ar_bar ar' \<noteq> Some B"
  shows "winv (set_reg r (Some (ar\<lparr>ar_master_done := md\<rparr>)) (add_edge B (ar_sink ar) w))"
proof -
  let ?w = "add_edge B (ar_sink ar) w"
  note sk = region_sink [OF inv ar]
  have Bn: "B \<in> w_nodes w" "w_role w B = RBar r0" using B by (auto simp: has_role_def)
  have "winv ?w"
  proof (rule invI)
    show "graph_ok ?w" using invD(1) [OF inv] Bn sk by (intro graph_ok_edge) auto
    show "task_ok ?w k t" if "w_task ?w k = Some t" for k t
    proof -
      have ok: "task_ok w k t" using that invD(2) [OF inv] by simp
      then have "parked t \<Longrightarrow> at_cur t \<noteq> ar_sink ar" using sk(2) by (auto simp: task_ok_def has_role_def)
      with ok show ?thesis by (elim task_ok_frame) auto
    qed
    show "reg_ok ?w r' x" if x: "w_reg ?w r' = Some x" for r' x
    proof (rule reg_ok_frame)
      show "reg_ok w r' x" using x invD(3) [OF inv] by simp
      show "(B', v) \<in> w_edges w \<or> waits_at ?w (ar_sink x) v"
        if "ar_cnt x \<noteq> 0" "ar_bar x = Some B'" "(B', v) \<in> w_edges ?w" for B' v
        using that idle x by auto
    qed (auto simp: waits_at_def holds_bar_def)
    show "final_ok ?w" using invD(4) [OF inv] by (simp add: final_ok_def)
  qed
  then show ?thesis by (rule inv_set_reg) (use ar in simp_all)
qed

lemma inv_parallel_end:
  assumes inv: "winv w" and ar: "w_reg w r = Some ar" and tp: "w_task w (ar_parent ar) = Some tp"
  shows "winv ((set_reg r None (set_task (ar_parent ar) (Some (tp\<lparr>at_cur := ar_sink ar, at_status := Running\<rparr>))
        (set_role (ar_sink ar) (RCur (ar_parent ar)) (set_role (at_cur tp) RPast w))))
       \<lparr>w_final := Some (ar_sink ar)\<rparr>)"
proof -
  let ?p = "ar_parent ar" and ?sk = "ar_sink ar" and ?c = "at_cur tp"
  define w' where "w' = (set_reg r None (set_task ?p (Some (tp\<lparr>at_cur := ?sk, at_status := Running\<rparr>))
        (set_role ?sk (RCur ?p) (set_role ?c RPast w))))\<lparr>w_final := Some ?sk\<rparr>"
  have sel: "w_nodes w' = w_nodes w" "w_role w' = (w_role w)(?c := RPast, ?sk := RCur ?p)"
    "w_edges w' = w_edges w" "w_final w' = Some ?sk" "w_reg w' = (w_reg w)(r := None)"
    "w_task w' = (w_task w)(?p \<mapsto> tp\<lparr>at_cur := ?sk, at_status := Running\<rparr>)"
    by (simp_all add: w'_def)
  have fk: "at_status tp = Forked r" and sk: "?sk \<in> w_nodes w" "w_role w ?sk = RSink r"
    using invD(3) [OF inv ar] tp by (auto simp: reg_ok_def has_role_def)
  have ok: "task_ok w ?p tp" using invD(2) [OF inv tp] .
  then have c: "?c \<in> w_nodes w" "w_role w ?c = RCur ?p"
    using fk by (auto simp: task_ok_def has_role_def parked_def)
  have "graph_ok w'"
    using graph_ok_set_role [OF graph_ok_set_role [OF invD(1) [OF inv], of RPast ?c], of "RCur ?p" ?sk]
    by (simp add: w'_def)
  moreover have "task_ok w' k' t'" if t': "w_task w' k' = Some t'" for k' t'
  proof (cases "k' = ?p")
    case True
    have "pred_option (loop_ok w' ?p) (at_loop tp)"
      using ok c(2) sk by (auto simp: task_ok_def loop_ok_def has_role_def sel option.pred_set split: prod.splits)
    moreover have "pred_option (\<lambda>B. \<exists>r. has_role w' B (RBar r)) (at_bar tp)"
      using ok c(2) sk by (cases "at_bar tp") (auto simp: task_ok_def has_role_def sel)
    moreover have "has_role w' ?sk (RCur ?p)" using sk by (simp add: has_role_def sel)
    moreover have "t' = tp\<lparr>at_cur := ?sk, at_status := Running\<rparr>" using t' True by (simp add: sel)
    ultimately show ?thesis using True by (simp add: task_ok_def parked_def)
  next
    case False
    then have "task_ok w k' t'" using t' invD(2) [OF inv] by (simp add: sel)
    then show ?thesis by (rule task_ok_frame) (use c sk False in \<open>auto simp: sel task_roles_def\<close>)
  qed
  moreover have "reg_ok w' r' ar'" if "w_reg w' r' = Some ar'" for r' ar'
    by (rule reg_ok_one_task [OF inv, where k = ?p and t' = "Some (tp\<lparr>at_cur := ?sk, at_status := Running\<rparr>)"])
      (use that c sk tp fk in \<open>auto simp: sel has_role_def split: if_splits\<close>)
  moreover have "final_ok w'" using sk by (simp add: final_ok_def sel)
  ultimately have "winv w'" by (rule invI)
  then show ?thesis by (simp only: w'_def)
qed

text \<open>A running task gets a new record of its loop, the graph only grows.\<close>

lemma task_ok_loop:
  assumes inv: "winv w" and run: "running w k t" and keep: "\<And>k' t'. task_ok w k' t' \<Longrightarrow> task_ok w' k' t'"
    and l: "loop_ok w' k l" and w': "w_task w' = (w_task w)(k \<mapsto> t\<lparr>at_loop := Some l\<rparr>)"
    and t': "w_task w' k' = Some t'"
  shows "task_ok w' k' t'"
proof (cases "k' = k")
  case True
  have "task_ok w' k t" using keep invD(2) [OF inv running_cur(4) [OF inv run]] .
  then show ?thesis using True t' l run by (auto simp: w' task_ok_def parked_def running_def)
next
  case False
  then show ?thesis using t' keep invD(2) [OF inv] by (simp add: w')
qed

lemma loop_nodes:
  assumes inv: "winv w" and run: "running w k t" and l: "at_loop t = Some (st, sk, l)"
  shows "st \<in> w_nodes w" "w_role w st = RLoopStart" "sk \<in> w_nodes w" "w_role w sk = RLoopSink k"
    "(sk, y) \<notin> w_edges w"
proof -
  show lo: "st \<in> w_nodes w" "w_role w st = RLoopStart" "sk \<in> w_nodes w" "w_role w sk = RLoopSink k"
    using l invD(2) [OF inv running_cur(4) [OF inv run]] by (auto simp: task_ok_def loop_ok_def has_role_def)
  show "(sk, y) \<notin> w_edges w" using graph_okD(3) [OF invD(1) [OF inv], of sk y] lo by auto
qed

lemma inv_loop_begin:
  assumes inv: "winv w" and run: "running w k t" 
  shows "winv (set_task k (Some (t\<lparr>at_loop := Some (w_brk w, Suc (w_brk w), None)\<rparr>))
        (add_node (Suc (w_brk w)) (RLoopSink k) (add_edge (at_cur t) (w_brk w) (add_node (w_brk w) RLoopStart w))))"
proof -
  let ?c = "at_cur t" and ?st = "w_brk w" and ?sk = "Suc (w_brk w)"
  let ?t = "t\<lparr>at_loop := Some (?st, ?sk, None)\<rparr>"
  define w' where "w' = set_task k (Some ?t)
        (add_node ?sk (RLoopSink k) (add_edge ?c ?st (add_node ?st RLoopStart w)))"
  note g = invD(1) [OF inv] and c = running_cur [OF inv run]
  have tr: "at_status t = Running" using run by (simp add: running_def)
  have fresh: "?st \<notin> w_nodes w" "?sk \<notin> w_nodes w" "(x, ?st) \<notin> w_edges w" "(?st, x) \<notin> w_edges w"
    "(x, ?sk) \<notin> w_edges w" "(?sk, x) \<notin> w_edges w" for x
    using graph_okD [OF g] by blast+
  have sel: "w_nodes w' = insert ?sk (insert ?st (w_nodes w))"
    "w_role w' = (w_role w)(?st := RLoopStart, ?sk := RLoopSink k)"
    "w_edges w' = insert (?c, ?st) (w_edges w)" "w_final w' = w_final w" "w_reg w' = w_reg w"
    "w_task w' = (w_task w)(k \<mapsto> ?t)"
    by (simp_all add: w'_def)
  have "graph_ok (add_edge ?c ?st (add_node ?st RLoopStart w))"
    using graph_ok_add_node [OF g order_refl] c fresh by (intro graph_ok_edge) auto
  then have "graph_ok (add_node ?sk (RLoopSink k) (add_edge ?c ?st (add_node ?st RLoopStart w)))"
    by (rule graph_ok_add_node) simp
  then have gw: "graph_ok w'" by (simp add: w'_def)
  have keep: "task_ok w' k' t'" if "task_ok w k' t'" for k' t'
  proof -
    have "at_cur t' \<noteq> ?st" using that fresh by (auto simp: task_ok_def has_role_def)
    with that show ?thesis by (elim task_ok_frame) (use fresh in \<open>auto simp: sel\<close>)
  qed
  have "loop_ok w' k (?st, ?sk, None)" by (simp add: loop_ok_def has_role_def sel)
  then have "task_ok w' k' t'" if "w_task w' k' = Some t'" for k' t'
    using task_ok_loop [OF inv run keep _ sel(6) that] by simp
  moreover have "reg_ok w' r ar" if "w_reg w' r = Some ar" for r ar
    by (rule reg_ok_one_task [OF inv, where k = k and t' = "Some ?t"])
      (use that c tr fresh in \<open>auto simp: sel has_role_def split: if_splits\<close>)
  moreover have "final_ok w'" using invD(4) [OF inv] fresh by (auto simp: final_ok_def sel option.pred_set)
  ultimately have "winv w'" using gw by (intro invI)
  then show ?thesis by (simp only: w'_def)
qed

lemma inv_chunk:
  assumes inv: "winv w" and run: "running w k t" and l: "at_loop t = Some (st, sk, l)"
  shows "winv (set_task k (Some (t\<lparr>at_loop := Some (st, sk, Some (w_brk w))\<rparr>))
        (add_edge (w_brk w) sk (add_edge st (w_brk w) (add_node (w_brk w) RChunk w))))"
proof -
  let ?x = "w_brk w" let ?t = "t\<lparr>at_loop := Some (st, sk, Some ?x)\<rparr>"
  define w' where "w' = set_task k (Some ?t) (add_edge ?x sk (add_edge st ?x (add_node ?x RChunk w)))"
  note g = invD(1) [OF inv] and c = running_cur [OF inv run] and lo = loop_nodes [OF inv run l]
  have tr: "at_status t = Running" using run by (simp add: running_def)
  have fresh: "?x \<notin> w_nodes w" "(y, ?x) \<notin> w_edges w" "(?x, y) \<notin> w_edges w" for y
    using graph_okD [OF g] by blast+
  have ne: "st \<noteq> ?x" "sk \<noteq> ?x" "st \<noteq> sk" using lo fresh by auto
  have sel: "w_nodes w' = insert ?x (w_nodes w)" "w_role w' = (w_role w)(?x := RChunk)"
    "w_edges w' = insert (?x, sk) (insert (st, ?x) (w_edges w))" "w_final w' = w_final w" "w_reg w' = w_reg w"
    "w_task w' = (w_task w)(k \<mapsto> ?t)"
    by (simp_all add: w'_def)
  have "graph_ok (add_edge st ?x (add_node ?x RChunk w))"
    using graph_ok_add_node [OF g order_refl] lo ne fresh by (intro graph_ok_edge) auto
  then have "graph_ok (add_edge ?x sk (add_edge st ?x (add_node ?x RChunk w)))"
    by (rule graph_ok_edge) (use lo ne in auto)
  then have gw: "graph_ok w'" by (simp add: w'_def)
  have keep: "task_ok w' k' t'" if "task_ok w k' t'" for k' t'
  proof -
    have "at_cur t' \<noteq> ?x" "parked t' \<Longrightarrow> at_cur t' \<noteq> sk"
      using that fresh lo(4) by (auto simp: task_ok_def has_role_def)
    with that show ?thesis by (elim task_ok_frame) (use fresh in \<open>auto simp: sel\<close>)
  qed
  have "loop_ok w' k (st, sk, Some ?x)" using lo ne by (simp add: loop_ok_def has_role_def sel)
  then have "task_ok w' k' t'" if "w_task w' k' = Some t'" for k' t'
    using task_ok_loop [OF inv run keep _ sel(6) that] by simp
  moreover have "reg_ok w' r ar" if "w_reg w' r = Some ar" for r ar
    by (rule reg_ok_one_task [OF inv, where k = k and t' = "Some ?t"])
      (use that c tr fresh lo in \<open>auto simp: sel has_role_def split: if_splits\<close>)
  moreover have "final_ok w'" using invD(4) [OF inv] fresh by (auto simp: final_ok_def sel option.pred_set)
  ultimately have "winv w'" using gw by (intro invI)
  then show ?thesis by (simp only: w'_def)
qed

lemma inv_loop_end:
  assumes inv: "winv w" and run: "running w k t" and l: "at_loop t = Some (st, sk, l)"
  shows "winv (set_task k (Some (t\<lparr>at_cur := sk, at_loop := None\<rparr>))
        (set_role sk (RCur k) (set_role (at_cur t) RPast (if l = None then add_edge st sk w else w))))"
proof -
  let ?c = "at_cur t" let ?t = "t\<lparr>at_cur := sk, at_loop := None\<rparr>"
    and ?w1 = "if l = None then add_edge st sk w else w"
  define w' where "w' = set_task k (Some ?t) (set_role sk (RCur k) (set_role ?c RPast ?w1))"
  note g = invD(1) [OF inv] and c = running_cur [OF inv run] and lo = loop_nodes [OF inv run l]
  have tr: "at_status t = Running" using run by (simp add: running_def)
  have tok: "task_ok w k t" using invD(2) [OF inv c(4)] .
  have sel: "w_nodes w' = w_nodes w" "w_role w' = (w_role w)(?c := RPast, sk := RCur k)"
    "w_edges w' = (if l = None then insert (st, sk) (w_edges w) else w_edges w)" "w_final w' = w_final w"
    "w_reg w' = w_reg w" "w_task w' = (w_task w)(k \<mapsto> ?t)"
    by (simp_all add: w'_def)
  have "graph_ok (add_edge st sk w)" using g lo by (intro graph_ok_edge) auto
  then have "graph_ok ?w1" using g by simp
  then have "graph_ok w'"
    using graph_ok_set_role [OF graph_ok_set_role [of ?w1 RPast ?c], of "RCur k" sk] by (simp add: w'_def)
  moreover have "task_ok w' k' t'" if t': "w_task w' k' = Some t'" for k' t'
  proof (cases "k' = k")
    case True
    have "pred_option (\<lambda>B. \<exists>r. has_role w' B (RBar r)) (at_bar t)"
      using tok c(2) lo by (cases "at_bar t") (auto simp: task_ok_def has_role_def sel)
    moreover have "has_role w' sk (RCur k)" using lo by (simp add: has_role_def sel)
    moreover have "t' = ?t" using t' True by (simp add: sel)
    ultimately show ?thesis using True tr by (simp add: task_ok_def parked_def)
  next
    case False
    then have ok: "task_ok w k' t'" using t' invD(2) [OF inv] by (simp add: sel)
    then have "parked t' \<Longrightarrow> at_cur t' \<noteq> sk" using lo by (auto simp: task_ok_def has_role_def)
    with ok show ?thesis
      by (elim task_ok_frame) (use c lo False in \<open>auto simp: sel task_roles_def split: if_splits\<close>)
  qed
  moreover have "reg_ok w' r ar" if "w_reg w' r = Some ar" for r ar
    by (rule reg_ok_one_task [OF inv, where k = k and t' = "Some ?t"])
      (use that c tr lo in \<open>auto simp: sel has_role_def split: if_splits\<close>)
  moreover have "final_ok w'" using invD(4) [OF inv] by (auto simp: final_ok_def sel option.pred_set)
  ultimately have "winv w'" by (intro invI)
  then show ?thesis by (simp only: w'_def)
qed

lemma inv_ignore [simp]: "winv (w\<lparr>w_threads := T\<rparr>) = winv w"
proof -
  have "task_ok (w\<lparr>w_threads := T\<rparr>) = task_ok w" "reg_ok (w\<lparr>w_threads := T\<rparr>) = reg_ok w"
    by (simp_all add: fun_eq_iff task_ok_def reg_ok_def has_role_def waits_at_def holds_bar_def loop_ok_def
        cong: option.pred_cong)
  then show ?thesis by (simp add: winv_def final_ok_def)
qed

lemma inv_barrier_first:
  assumes inv: "winv w" and run: "running w k t" and mem: "member w r ar t" and team: "1 < ar_team ar"
  shows "winv (set_reg r (Some (ar\<lparr>ar_cnt := 1, ar_bar := Some (w_brk w)\<rparr>))
        (arrive k t (w_brk w) (Suc (w_brk w)) (add_node (w_brk w) (RBar r) w)))"
proof -
  let ?B = "w_brk w" let ?w = "add_node ?B (RBar r) w"
  have fresh: "?B \<notin> w_nodes w" "(?B, x) \<notin> w_edges w" for x using graph_okD [OF invD(1) [OF inv]] by blast+
  have hb: "holds_bar ?w (ar_sink ar) ?B"
    unfolding holds_bar_def
  proof (intro allI impI)
    fix k' t' assume "w_task ?w k' = Some t'" "at_bar t' = Some ?B"
    then have "?B \<in> w_nodes w" using invD(2) [OF inv, of k' t'] by (auto simp: task_ok_def has_role_def)
    with fresh show "at_status t' = Waiting \<and> at_sink t' = Some (ar_sink ar)" by simp
  qed
  show ?thesis
    using inv_arrive [where w = ?w and k = k and t = t and r = r and ar = ar and B = ?B and n = 1]
      inv_add_bar [OF inv] run mem team fresh hb
    by (simp add: running_def member_def has_role_def)
qed

lemma inv_barrier_join:
  assumes inv: "winv w" and run: "running w k t" and mem: "member w r ar t"
    and cnt: "ar_cnt ar \<noteq> 0" "ar_bar ar = Some B" "n < ar_team ar"
  shows "winv (set_reg r (Some (ar\<lparr>ar_cnt := n\<rparr>)) (arrive k t B (w_brk w) w))"
proof -
  have "reg_ok w r ar" using mem invD(3) [OF inv] by (simp add: member_def)
  then have "has_role w B (RBar r)" "\<And>v. (B, v) \<in> w_edges w \<Longrightarrow> waits_at w (ar_sink ar) v"
    "holds_bar w (ar_sink ar) B"
    using cnt by (auto simp: reg_ok_def)
  from inv_arrive [OF inv run mem this cnt(3)]
  have "winv (set_reg r (Some (ar\<lparr>ar_cnt := n, ar_bar := Some B\<rparr>)) (arrive k t B (w_brk w) w))" .
  moreover have "ar\<lparr>ar_cnt := n, ar_bar := Some B\<rparr> = ar\<lparr>ar_cnt := n\<rparr>" using cnt(2) by (cases ar) simp
  ultimately show ?thesis by simp
qed

lemma inv_barrier_last:
  assumes inv: "winv w" and run: "running w k t" and mem: "member w r ar t"
    and cnt: "ar_cnt ar \<noteq> 0" "ar_bar ar = Some B"
  shows "winv (pass_all (ar_sink ar) (set_reg r (Some (ar\<lparr>ar_cnt := 0\<rparr>)) (arrive k t B (w_brk w) w)))"
proof (rule inv_pass_all)
  have ok: "reg_ok w r ar" using mem invD(3) [OF inv] by (simp add: member_def)
  show "winv (set_reg r (Some (ar\<lparr>ar_cnt := 0\<rparr>)) (arrive k t B (w_brk w) w))"
    by (rule inv_barrier_join [OF inv run mem cnt]) (use ok in \<open>auto simp: reg_ok_def\<close>)
  show "ar_sink ar' \<noteq> ar_sink ar"
    if ar': "w_reg (set_reg r (Some (ar\<lparr>ar_cnt := 0\<rparr>)) (arrive k t B (w_brk w) w)) r' = Some ar'"
      and "ar_cnt ar' \<noteq> 0" for r' ar'
  proof -
    have "r' \<noteq> r" "w_reg w r' = Some ar'" using that by (auto simp: arrive_def split: if_splits)
    then show ?thesis using invD(3) [OF inv, of r' ar'] ok by (auto simp: reg_ok_def has_role_def)
  qed
qed

lemma set_task_add_edge: "set_task k t (add_edge u v w) = add_edge u v (set_task k t w)"
  by (cases w) (simp add: set_task_def add_edge_def)

lemma inv_end_master:
  assumes inv: "winv w" and t: "w_task w k = Some t" "at_status t = Passed" "at_bar t = Some B"
    and mem: "member w r ar t"
  shows "winv (set_reg r (Some (ar\<lparr>ar_master_done := True\<rparr>))
        (set_task k None (add_edge B (ar_sink ar)
          (w\<lparr>w_nodes := w_nodes w - {at_cur t}, w_edges := w_edges w - {(B, at_cur t)}\<rparr>))))"
proof -
  let ?w = "set_task k None (w\<lparr>w_nodes := w_nodes w - {at_cur t}, w_edges := w_edges w - {(B, at_cur t)}\<rparr>)"
  have i: "winv ?w" by (rule inv_drop [OF inv t])
  obtain r0 where r0: "has_role w B (RBar r0)" and c: "w_role w (at_cur t) = RPark k"
    using invD(2) [OF inv t(1)] t(2,3) by (auto simp: task_ok_def has_role_def parked_def)
  then have B: "has_role ?w B (RBar r0)" by (auto simp: has_role_def)
  have idle: "ar_bar ar' \<noteq> Some B" if "w_reg ?w r' = Some ar'" "ar_cnt ar' \<noteq> 0" for r' ar'
    using that invD(3) [OF inv, of r' ar'] t by (auto simp: reg_ok_def holds_bar_def)
  have "w_reg ?w r = Some ar" using mem by (simp add: member_def)
  then show ?thesis
    unfolding set_task_add_edge by (rule inv_bar_sink [OF i _ B]) (use idle in blast)
qed

lemma inv_explicit:
  assumes "winv w" and "running w p t" and "w_task w k = None"
  shows "winv (set_task k (Some (new_atask (w_brk w))) (add_edge (at_cur t) (w_brk w) (add_node (w_brk w) (RCur k) w)))"
  using assms running_cur(1,2) [OF assms(1,2)] by (intro inv_child) (simp_all add: new_atask_def)

lemma inv_implicit_begin:
  assumes inv: "winv w" and ar: "w_reg w r = Some ar" and tp: "w_task w (ar_parent ar) = Some tp"
    and k: "w_task w k = None"
  shows "winv (set_reg r (Some (ar\<lparr>ar_begun := insert tn (ar_begun ar)\<rparr>))
        (set_task k (Some ((new_atask (w_brk w))\<lparr>at_sink := Some (ar_sink ar), at_tn := tn\<rparr>))
          (add_edge (at_cur tp) (w_brk w) (add_node (w_brk w) (RCur k) w))))"
proof -
  have "at_status tp = Forked r" using invD(3) [OF inv ar] tp by (auto simp: reg_ok_def)
  then have "at_cur tp \<in> w_nodes w" "w_role w (at_cur tp) = RCur (ar_parent ar)"
    using invD(2) [OF inv tp] by (auto simp: task_ok_def has_role_def parked_def)
  then have "winv (set_task k (Some ((new_atask (w_brk w))\<lparr>at_sink := Some (ar_sink ar), at_tn := tn\<rparr>))
      (add_edge (at_cur tp) (w_brk w) (add_node (w_brk w) (RCur k) w)))"
    using k by (intro inv_child [OF inv]) (simp_all add: new_atask_def)
  from inv_set_reg [OF this, of r ar] show ?thesis using ar by simp
qed

lemmas inv_steps = inv_explicit inv_parallel_begin inv_implicit_begin inv_barrier_join inv_barrier_last inv_resume inv_implicit_end_plain inv_end_master inv_drop
  inv_parallel_end inv_loop_begin inv_chunk inv_loop_end

theorem inv_step: "omp_step w e w' \<Longrightarrow> winv w \<Longrightarrow> winv w'"
proof (induction rule: omp_step.induct)
  case (initial w k x)
  then show ?case using inv_initial by simp
next
  case (barrier_first w k t r ar B)
  then show ?case using inv_barrier_first by simp
qed (simp_all add: inv_steps)

end
