(* ===== verification/Ompt_Interface.thy ===== *)
theory Ompt_Interface
  imports Tdg_Prelude
begin

text \<open>
  The interface between the runtime and the tool (\<open>src/ompt.h\<close>, \<open>src/callbacks.h\<close>): the events with
  their numbers, the type of the function each event calls, and the prototypes of the functions the
  tool registers.  \<open>INIT_CALLBACK\<close> casts every function to \<open>ompt_callback_t\<close>, so the compiler does not
  compare the two; here they are compared.
\<close>

section \<open>Types of C\<close>

text \<open>A parameter is a value, a pointer or a pointer to \<open>const\<close>, of a type given by its name.\<close>

datatype ctype = Value string | Ptr string | Const_Ptr string

text \<open>A function: what it returns, and its parameters.\<close>

type_synonym csig = "ctype \<times> ctype list"

abbreviation callback_sig :: "ctype list \<Rightarrow> csig" where
  "callback_sig ps \<equiv> (Value ''void'', ps)"

definition typedefs :: "(string \<times> string) list" where
  "typedefs = [(''ompt_id_t'', ''uint64_t''), (''ompt_thread_data_t'', ''ompt_data_t''),
     (''ompt_task_data_t'', ''ompt_data_t''), (''ompt_parallel_data_t'', ''ompt_data_t''),
     (''ompt_wait_id_t'', ''uint64_t'')]"

definition resolve_name :: "string \<Rightarrow> string" where
  "resolve_name t = (case map_of typedefs t of Some u \<Rightarrow> u | None \<Rightarrow> t)"

fun resolve :: "ctype \<Rightarrow> ctype" where
  "resolve (Value t) = Value (resolve_name t)"
| "resolve (Ptr t) = Ptr (resolve_name t)"
| "resolve (Const_Ptr t) = Const_Ptr (resolve_name t)"

fun compatible :: "csig \<Rightarrow> csig \<Rightarrow> bool" where
  "compatible (r, ps) (r', ps') \<longleftrightarrow> resolve r = resolve r' \<and> map resolve ps = map resolve ps'"

section \<open>The types of the callbacks\<close>

definition ompt_callback_thread_begin_t :: csig where
  "ompt_callback_thread_begin_t = callback_sig [Value ''ompt_thread_type_t'', Ptr ''ompt_data_t'']"

definition ompt_callback_thread_end_t :: csig where
  "ompt_callback_thread_end_t = callback_sig [Ptr ''ompt_data_t'']"

definition ompt_callback_implicit_task_t :: csig where
  "ompt_callback_implicit_task_t = callback_sig [Value ''ompt_scope_endpoint_t'', Ptr ''ompt_data_t'',
     Ptr ''ompt_data_t'', Value ''unsigned int'', Value ''unsigned int'']"

definition ompt_callback_parallel_begin_t :: csig where
  "ompt_callback_parallel_begin_t = callback_sig [Ptr ''ompt_data_t'', Const_Ptr ''ompt_frame_t'',
     Ptr ''ompt_data_t'', Value ''unsigned int'', Value ''ompt_invoker_t'', Const_Ptr ''void'']"

definition ompt_callback_parallel_end_t :: csig where
  "ompt_callback_parallel_end_t = callback_sig [Ptr ''ompt_data_t'', Ptr ''ompt_task_data_t'',
     Value ''ompt_invoker_t'', Const_Ptr ''void'']"

definition ompt_callback_task_schedule_t :: csig where
  "ompt_callback_task_schedule_t = callback_sig [Ptr ''ompt_task_data_t'', Value ''ompt_task_status_t'',
     Ptr ''ompt_task_data_t'']"

definition ompt_callback_task_create_t :: csig where
  "ompt_callback_task_create_t = callback_sig [Ptr ''ompt_data_t'', Const_Ptr ''ompt_frame_t'',
     Ptr ''ompt_data_t'', Value ''ompt_task_type_t'', Value ''int'', Const_Ptr ''void'']"

definition ext_callback_task_create_begin_t :: csig where
  "ext_callback_task_create_begin_t = callback_sig [Ptr ''ompt_data_t'', Const_Ptr ''ompt_frame_t'',
     Value ''ompt_task_type_t'']"

definition ompt_callback_task_dependences_t :: csig where
  "ompt_callback_task_dependences_t = callback_sig [Ptr ''ompt_data_t'', Const_Ptr ''ompt_task_dependence_t'',
     Value ''int'']"

definition ompt_callback_task_dependence_t :: csig where
  "ompt_callback_task_dependence_t = callback_sig [Ptr ''ompt_data_t'', Ptr ''ompt_data_t'']"

definition ompt_control_callback_t :: csig where
  "ompt_control_callback_t = callback_sig [Value ''uint64_t'', Value ''uint64_t'']"

definition ompt_callback_mutex_acquire_t :: csig where
  "ompt_callback_mutex_acquire_t = callback_sig [Value ''ompt_mutex_kind_t'', Value ''unsigned int'',
     Value ''unsigned int'', Value ''ompt_wait_id_t'', Const_Ptr ''void'']"

definition ompt_callback_mutex_t :: csig where
  "ompt_callback_mutex_t = callback_sig [Value ''ompt_mutex_kind_t'', Value ''ompt_wait_id_t'', Const_Ptr ''void'']"

definition ompt_callback_lock_init_t :: csig where
  "ompt_callback_lock_init_t = callback_sig [Value ''ompt_mutex_kind_t'', Value ''unsigned int'',
     Value ''unsigned int'', Value ''ompt_wait_id_t'', Const_Ptr ''void'']"

definition ompt_callback_lock_destroy_t :: csig where
  "ompt_callback_lock_destroy_t = callback_sig [Value ''ompt_mutex_kind_t'', Value ''ompt_wait_id_t'', Const_Ptr ''void'']"

definition ompt_callback_nest_lock_t :: csig where
  "ompt_callback_nest_lock_t = callback_sig [Value ''ompt_scope_endpoint_t'', Value ''ompt_wait_id_t'', Const_Ptr ''void'']"

definition ompt_callback_master_t :: csig where
  "ompt_callback_master_t = callback_sig [Value ''ompt_scope_endpoint_t'', Ptr ''ompt_data_t'', Ptr ''ompt_data_t'',
     Const_Ptr ''void'']"

definition ompt_callback_idle_t :: csig where
  "ompt_callback_idle_t = callback_sig [Value ''ompt_scope_endpoint_t'']"

definition ompt_callback_work_t :: csig where
  "ompt_callback_work_t = callback_sig [Value ''ompt_work_type_t'', Value ''ompt_scope_endpoint_t'',
     Ptr ''ompt_data_t'', Ptr ''ompt_data_t'', Value ''uint64_t'', Const_Ptr ''void'']"

text \<open>The type of the loop event depends on the macro \<open>OMPT_STATIC_CHUNKS\<close>.\<close>

definition ext_callback_loop_t :: "bool \<Rightarrow> csig" where
  "ext_callback_loop_t static_chunks = callback_sig
     (if \<not> static_chunks then
        [Value ''ext_loop_sched_t'', Value ''ompt_scope_endpoint_t'', Ptr ''ompt_data_t'', Ptr ''ompt_data_t'',
         Value ''int64_t'', Value ''int64_t'', Value ''int64_t'', Value ''uint64_t'', Value ''int64_t'', Const_Ptr ''void'']
      else
        [Value ''ext_loop_sched_t'', Value ''ompt_scope_endpoint_t'', Ptr ''ompt_data_t'', Ptr ''ompt_data_t'',
         Value ''int64_t'', Const_Ptr ''void''])"

definition ext_callback_chunk_t :: csig where
  "ext_callback_chunk_t = callback_sig [Ptr ''ompt_data_t'', Value ''int64_t'', Value ''int64_t'', Value ''int'']"

definition ompt_callback_sync_region_t :: csig where
  "ompt_callback_sync_region_t = callback_sig [Value ''ompt_sync_region_kind_t'', Value ''ompt_scope_endpoint_t'',
     Ptr ''ompt_data_t'', Ptr ''ompt_data_t'', Const_Ptr ''void'']"

definition ompt_callback_cancel_t :: csig where
  "ompt_callback_cancel_t = callback_sig [Ptr ''ompt_data_t'', Value ''int'', Const_Ptr ''void'']"

definition ompt_callback_flush_t :: csig where
  "ompt_callback_flush_t = callback_sig [Ptr ''ompt_data_t'', Const_Ptr ''void'']"

text \<open>Pointer types that no event uses: the function a lookup returns and the lookup itself, the type
  \<open>INIT_CALLBACK\<close> casts every callback to, and those of an older interface, which passed the data by value.\<close>

definition ompt_interface_fn_t :: csig where
  "ompt_interface_fn_t = callback_sig []"

definition ompt_function_lookup_t :: csig where
  "ompt_function_lookup_t = (Value ''ompt_interface_fn_t'', [Const_Ptr ''char''])"

definition ompt_callback_t :: csig where
  "ompt_callback_t = callback_sig []"

definition ompt_thread_callback_t :: csig where
  "ompt_thread_callback_t = callback_sig [Value ''ompt_thread_data_t'']"

definition ompt_thread_type_callback_t :: csig where
  "ompt_thread_type_callback_t = callback_sig [Value ''ompt_thread_type_t'', Value ''ompt_thread_data_t'']"

definition ompt_wait_callback_t :: csig where
  "ompt_wait_callback_t = callback_sig [Value ''ompt_wait_id_t'']"

definition ompt_parallel_callback_t :: csig where
  "ompt_parallel_callback_t = callback_sig [Value ''ompt_parallel_data_t'', Value ''ompt_task_data_t'']"

definition ompt_new_workshare_callback_t :: csig where
  "ompt_new_workshare_callback_t = callback_sig [Value ''ompt_parallel_data_t'', Value ''ompt_task_data_t'', Ptr ''void'']"

section \<open>The events\<close>

text \<open>\<open>FOREACH_OMPT_EVENT\<close>: the enumeration \<open>ompt_callbacks_t\<close>, the number of each event and the type of its
  callback.\<close>

datatype ompt_callbacks =
  ompt_callback_thread_begin | ompt_callback_thread_end
| ompt_callback_parallel_begin | ompt_callback_parallel_end
| ompt_callback_task_create | ompt_callback_task_schedule | ompt_callback_implicit_task
| ompt_callback_idle | ompt_callback_sync_region_wait | ompt_callback_mutex_released
| ompt_callback_task_dependences | ompt_callback_task_dependence
| ompt_callback_work | ompt_callback_master | ompt_callback_sync_region
| ompt_callback_lock_init | ompt_callback_lock_destroy
| ompt_callback_mutex_acquire | ompt_callback_mutex_acquired
| ompt_callback_nest_lock | ompt_callback_flush | ompt_callback_cancel
| ompt_event_control
| ext_callback_task_create_begin | ext_callback_loop | ext_callback_chunk

fun ompt_event :: "bool \<Rightarrow> ompt_callbacks \<Rightarrow> csig \<times> int" where
  "ompt_event sc ompt_callback_thread_begin = (ompt_callback_thread_begin_t, 1)"
| "ompt_event sc ompt_callback_thread_end = (ompt_callback_thread_end_t, 2)"
| "ompt_event sc ompt_callback_parallel_begin = (ompt_callback_parallel_begin_t, 3)"
| "ompt_event sc ompt_callback_parallel_end = (ompt_callback_parallel_end_t, 4)"
| "ompt_event sc ompt_callback_task_create = (ompt_callback_task_create_t, 5)"
| "ompt_event sc ompt_callback_task_schedule = (ompt_callback_task_schedule_t, 6)"
| "ompt_event sc ompt_callback_implicit_task = (ompt_callback_implicit_task_t, 7)"
| "ompt_event sc ompt_callback_idle = (ompt_callback_idle_t, 13)"
| "ompt_event sc ompt_callback_sync_region_wait = (ompt_callback_sync_region_t, 14)"
| "ompt_event sc ompt_callback_mutex_released = (ompt_callback_mutex_t, 15)"
| "ompt_event sc ompt_callback_task_dependences = (ompt_callback_task_dependences_t, 16)"
| "ompt_event sc ompt_callback_task_dependence = (ompt_callback_task_dependence_t, 17)"
| "ompt_event sc ompt_callback_work = (ompt_callback_work_t, 18)"
| "ompt_event sc ompt_callback_master = (ompt_callback_master_t, 19)"
| "ompt_event sc ompt_callback_sync_region = (ompt_callback_sync_region_t, 21)"
| "ompt_event sc ompt_callback_lock_init = (ompt_callback_lock_init_t, 22)"
| "ompt_event sc ompt_callback_lock_destroy = (ompt_callback_lock_destroy_t, 23)"
| "ompt_event sc ompt_callback_mutex_acquire = (ompt_callback_mutex_acquire_t, 24)"
| "ompt_event sc ompt_callback_mutex_acquired = (ompt_callback_mutex_t, 25)"
| "ompt_event sc ompt_callback_nest_lock = (ompt_callback_nest_lock_t, 26)"
| "ompt_event sc ompt_callback_flush = (ompt_callback_flush_t, 27)"
| "ompt_event sc ompt_callback_cancel = (ompt_callback_cancel_t, 28)"
| "ompt_event sc ompt_event_control = (ompt_control_callback_t, 29)"
| "ompt_event sc ext_callback_task_create_begin = (ext_callback_task_create_begin_t, 80)"
| "ompt_event sc ext_callback_loop = (ext_callback_loop_t sc, 81)"
| "ompt_event sc ext_callback_chunk = (ext_callback_chunk_t, 82)"

datatype ompt_set_result =
  ompt_set_error | ompt_set_never | ompt_set_sometimes | ompt_set_sometimes_paired | ompt_set_always

fun set_result_code :: "ompt_set_result \<Rightarrow> int" where
  "set_result_code ompt_set_error = 0"
| "set_result_code ompt_set_never = 1"
| "set_result_code ompt_set_sometimes = 2"
| "set_result_code ompt_set_sometimes_paired = 3"
| "set_result_code ompt_set_always = 4"

section \<open>The functions of the runtime\<close>

text \<open>\<open>OMPT_API_FUNCTION(r, fn, args)\<close> declares the pointer type \<open>fn_t\<close>.  A pointer to a pointer is a pointer to
  a type whose name ends in \<open>*\<close>.\<close>

definition ompt_get_state_t :: csig where
  "ompt_get_state_t = (Value ''ompt_state_t'', [Ptr ''ompt_wait_id_t''])"

definition ompt_get_thread_data_t :: csig where
  "ompt_get_thread_data_t = (Ptr ''ompt_thread_data_t'', [])"

definition ompt_get_parallel_info_t :: csig where
  "ompt_get_parallel_info_t = (Value ''int'', [Value ''int'', Ptr ''ompt_data_t*'', Ptr ''int''])"

definition ompt_get_task_info_t :: csig where
  "ompt_get_task_info_t = (Value ''int'', [Value ''int'', Ptr ''ompt_task_type_t'', Ptr ''ompt_data_t*'',
     Ptr ''ompt_frame_t*'', Ptr ''ompt_data_t*'', Ptr ''int''])"

definition ompt_set_callback_t :: csig where
  "ompt_set_callback_t = (Value ''int'', [Value ''ompt_callbacks_t'', Value ''ompt_callback_t''])"

definition ompt_get_callback_t :: csig where
  "ompt_get_callback_t = (Value ''int'', [Value ''ompt_callbacks_t'', Ptr ''ompt_callback_t''])"

definition ompt_enumerate_states_t :: csig where
  "ompt_enumerate_states_t = (Value ''int'', [Value ''int'', Ptr ''int'', Ptr ''const char*''])"

definition ompt_get_unique_id_t :: csig where
  "ompt_get_unique_id_t = (Value ''uint64_t'', [])"

text \<open>The placeholders all take nothing and return nothing.\<close>

definition placeholder_types :: "(string \<times> csig) list" where
  "placeholder_types = [(''ompt_idle'', callback_sig []), (''ompt_overhead'', callback_sig []),
     (''ompt_barrier_wait'', callback_sig []), (''ompt_task_wait'', callback_sig []),
     (''ompt_mutex_wait'', callback_sig [])]"

text \<open>The names a lookup knows: \<open>FOREACH_OMPT_INQUIRY_FN\<close> and \<open>FOREACH_OMPT_PLACEHOLDER_FN\<close>.\<close>

definition inquiry_fns :: "string list" where
  "inquiry_fns = [''ompt_enumerate_states'', ''ompt_set_callback'', ''ompt_get_callback'', ''ompt_get_state'',
     ''ompt_get_parallel_info'', ''ompt_get_task_info'', ''ompt_get_thread_data'', ''ompt_get_unique_id'']"

definition placeholder_fns :: "string list" where
  "placeholder_fns = [''ompt_idle'', ''ompt_overhead'', ''ompt_barrier_wait'', ''ompt_task_wait'', ''ompt_mutex_wait'']"

text \<open>The pointer types by their names, as \<open>OMPT_API_FNTYPE\<close> forms them: \<open>_t\<close> is added to the name of the function.\<close>

definition fntype :: "string \<Rightarrow> string" where
  "fntype fn = fn @ ''_t''"

definition pointer_types :: "(string \<times> csig) list" where
  "pointer_types =
     [(''ompt_enumerate_states_t'', ompt_enumerate_states_t), (''ompt_set_callback_t'', ompt_set_callback_t),
      (''ompt_get_callback_t'', ompt_get_callback_t), (''ompt_get_state_t'', ompt_get_state_t),
      (''ompt_get_parallel_info_t'', ompt_get_parallel_info_t), (''ompt_get_task_info_t'', ompt_get_task_info_t),
      (''ompt_get_thread_data_t'', ompt_get_thread_data_t), (''ompt_get_unique_id_t'', ompt_get_unique_id_t)]
     @ map (\<lambda>(fn, sig). (fntype fn, sig)) placeholder_types"

text \<open>\<open>ompt_control\<close>, which a program calls to reach the tool; its event passes the same two numbers on.\<close>

definition ompt_control :: csig where
  "ompt_control = callback_sig [Value ''uint64_t'', Value ''uint64_t'']"

section \<open>The functions of the tool\<close>

text \<open>The functions \<open>cb_thread_begin\<close> to \<open>cb_ext_chunk\<close> of \<open>src/callbacks.h\<close>, by what follows \<open>cb_\<close> in their names.\<close>

datatype callback =
  thread_begin | thread_end | parallel_begin | parallel_end | implicit_task | work
  | task_schedule | task_create | task_dependences | task_dependence | sync_region
  | ext_loop | ext_chunk

fun prototype :: "callback \<Rightarrow> csig" where
  "prototype thread_begin = callback_sig [Value ''ompt_thread_type_t'', Ptr ''ompt_data_t'']"
| "prototype thread_end = callback_sig [Ptr ''ompt_data_t'']"
| "prototype implicit_task = callback_sig [Value ''ompt_scope_endpoint_t'', Ptr ''ompt_data_t'', Ptr ''ompt_data_t'',
     Value ''unsigned int'', Value ''unsigned int'']"
| "prototype parallel_begin = callback_sig [Ptr ''ompt_data_t'', Const_Ptr ''ompt_frame_t'', Ptr ''ompt_data_t'',
     Value ''unsigned int'', Value ''ompt_invoker_t'', Const_Ptr ''void'']"
| "prototype parallel_end = callback_sig [Ptr ''ompt_data_t'', Ptr ''ompt_task_data_t'', Value ''ompt_invoker_t'',
     Const_Ptr ''void'']"
| "prototype task_create = callback_sig [Ptr ''ompt_data_t'', Const_Ptr ''ompt_frame_t'', Ptr ''ompt_data_t'',
     Value ''ompt_task_type_t'', Value ''int'', Const_Ptr ''void'']"
| "prototype task_schedule = callback_sig [Ptr ''ompt_task_data_t'', Value ''ompt_task_status_t'', Ptr ''ompt_task_data_t'']"
| "prototype task_dependences = callback_sig [Ptr ''ompt_data_t'', Const_Ptr ''ompt_task_dependence_t'', Value ''int'']"
| "prototype task_dependence = callback_sig [Ptr ''ompt_data_t'', Ptr ''ompt_data_t'']"
| "prototype work = callback_sig [Value ''ompt_work_type_t'', Value ''ompt_scope_endpoint_t'', Ptr ''ompt_data_t'',
     Ptr ''ompt_data_t'', Value ''uint64_t'', Const_Ptr ''void'']"
| "prototype sync_region = callback_sig [Value ''ompt_sync_region_kind_t'', Value ''ompt_scope_endpoint_t'',
     Ptr ''ompt_data_t'', Ptr ''ompt_data_t'', Const_Ptr ''void'']"
| "prototype ext_loop = callback_sig [Value ''ext_loop_sched_t'', Value ''ompt_scope_endpoint_t'', Ptr ''ompt_data_t'',
     Ptr ''ompt_data_t'', Value ''int64_t'', Value ''int64_t'', Value ''int64_t'', Value ''uint64_t'', Value ''int64_t'',
     Const_Ptr ''void'']"
| "prototype ext_chunk = callback_sig [Ptr ''ompt_data_t'', Value ''int64_t'', Value ''int64_t'', Value ''int'']"

text \<open>\<open>INIT_CALLBACK(func)\<close> registers \<open>cb_func\<close> for \<open>ompt_callback_func\<close>, \<open>INIT_CALLBACK_EXT(func)\<close> registers
  \<open>cb_ext_func\<close> for \<open>ext_callback_func\<close>.\<close>

fun event_of :: "callback \<Rightarrow> ompt_callbacks" where
  "event_of thread_begin = ompt_callback_thread_begin"
| "event_of thread_end = ompt_callback_thread_end"
| "event_of parallel_begin = ompt_callback_parallel_begin"
| "event_of parallel_end = ompt_callback_parallel_end"
| "event_of implicit_task = ompt_callback_implicit_task"
| "event_of work = ompt_callback_work"
| "event_of task_schedule = ompt_callback_task_schedule"
| "event_of task_create = ompt_callback_task_create"
| "event_of task_dependences = ompt_callback_task_dependences"
| "event_of task_dependence = ompt_callback_task_dependence"
| "event_of sync_region = ompt_callback_sync_region"
| "event_of ext_loop = ext_callback_loop"
| "event_of ext_chunk = ext_callback_chunk"

text \<open>What \<open>init_libtdg\<close> looks up, and the pointer type it casts the result to; and the arguments it then calls
  the functions with: \<open>INIT_CALLBACK\<close> calls the first with an event and a callback, the callbacks call the second
  with nothing.\<close>

definition tool_lookups :: "(string \<times> string) list" where
  "tool_lookups = [(''ompt_set_callback'', ''ompt_set_callback_t''), (''ompt_get_thread_data'', ''ompt_get_thread_data_t'')]"

definition lookup_uses :: "(string \<times> ctype list) list" where
  "lookup_uses = [(''ompt_set_callback'', [Value ''ompt_callbacks_t'', Value ''ompt_callback_t'']), (''ompt_get_thread_data'', [])]"

definition registered_callbacks :: "callback list" where
  "registered_callbacks = [thread_begin, thread_end, parallel_begin, parallel_end, implicit_task,
     work, task_schedule, task_create, task_dependences, task_dependence, sync_region,
     ext_loop, ext_chunk]"

text \<open>The two functions the tool hands out in \<open>ompt_start_tool\<close>, with their prototypes in \<open>src/init.cc\<close> and the
  types \<open>ompt_initialize_t\<close> and \<open>ompt_finalize_t\<close> of the struct they are stored in.\<close>

datatype tool_function = fn_init_libtdg | fn_finalize_libtdg

record ompt_fns =
  initialize :: "tool_function option"
  finalize :: "tool_function option"

fun tool_prototype :: "tool_function \<Rightarrow> csig" where
  "tool_prototype fn_init_libtdg = (Value ''int'', [Value ''ompt_function_lookup_t'', Ptr ''ompt_fns_t''])"
| "tool_prototype fn_finalize_libtdg = (Value ''void'', [Ptr ''ompt_fns_t''])"

definition ompt_initialize_t :: csig where
  "ompt_initialize_t = (Value ''int'', [Value ''ompt_function_lookup_t'', Ptr ''ompt_fns_t''])"

definition ompt_finalize_t :: csig where
  "ompt_finalize_t = (Value ''void'', [Ptr ''ompt_fns_t''])"

definition ompt_start_tool :: "uint32 \<Rightarrow> string \<Rightarrow> ompt_fns \<Rightarrow> ompt_fns" where
  "ompt_start_tool omp_version runtime_version g_fns =
     g_fns\<lparr>initialize := Some fn_init_libtdg, finalize := Some fn_finalize_libtdg\<rparr>"

section \<open>Properties\<close>

text \<open>The event a function is registered for calls it with the parameters it expects.\<close>

definition well_typed :: "bool \<Rightarrow> callback \<Rightarrow> bool" where
  "well_typed static_chunks c \<longleftrightarrow> compatible (prototype c) (fst (ompt_event static_chunks (event_of c)))"

text \<open>What the runtime knows after the registrations: the last function set for each number.\<close>

definition dispatch_table :: "bool \<Rightarrow> callback list \<Rightarrow> int \<rightharpoonup> callback" where
  "dispatch_table static_chunks cs = fold (\<lambda>c t. t(snd (ompt_event static_chunks (event_of c)) \<mapsto> c)) cs Map.empty"

lemmas sig_defs = compatible.simps resolve.simps resolve_name_def typedefs_def
  ompt_callback_thread_begin_t_def ompt_callback_thread_end_t_def ompt_callback_implicit_task_t_def
  ompt_callback_parallel_begin_t_def ompt_callback_parallel_end_t_def ompt_callback_task_schedule_t_def
  ompt_callback_task_create_t_def ompt_callback_task_dependences_t_def ompt_callback_task_dependence_t_def
  ompt_callback_work_t_def ext_callback_loop_t_def ext_callback_chunk_t_def ompt_callback_sync_region_t_def

lemmas event_sigs = ompt_control_callback_t_def ompt_callback_mutex_acquire_t_def ompt_callback_mutex_t_def
  ompt_callback_lock_init_t_def ompt_callback_lock_destroy_t_def ompt_callback_nest_lock_t_def
  ompt_callback_master_t_def ompt_callback_idle_t_def ompt_callback_cancel_t_def ompt_callback_flush_t_def
  ext_callback_task_create_begin_t_def

lemma compatible_refl: "compatible sig sig"
  by (cases sig) simp

lemma well_typed_iff: "well_typed sc c \<longleftrightarrow> sc = False \<or> c \<noteq> ext_loop"
proof -
  have "prototype c = fst (ompt_event sc (event_of c))" if "c \<noteq> ext_loop \<or> \<not> sc"
    using that by (cases c) (simp_all add: sig_defs)
  moreover have "\<not> compatible (prototype ext_loop) (fst (ompt_event True (event_of ext_loop)))"
    by (simp add: sig_defs)
  ultimately show ?thesis by (cases sc) (auto simp: well_typed_def compatible_refl)
qed

text \<open>A looked up function is one the runtime offers, cast to its own type and called with the arguments that
  type has.\<close>

definition lookup_ok :: "string \<times> string \<Rightarrow> bool" where
  "lookup_ok = (\<lambda>(fn, ty). fn \<in> set inquiry_fns \<and> ty = fntype fn
     \<and> map_option snd (map_of pointer_types ty) = map_of lookup_uses fn \<and> map_of lookup_uses fn \<noteq> None)"

lemma lookups_ok: "list_all lookup_ok tool_lookups"
  by (simp add: tool_lookups_def lookup_ok_def lookup_uses_def inquiry_fns_def fntype_def pointer_types_def
      ompt_set_callback_t_def ompt_get_thread_data_t_def)

text \<open>No registered function has the type \<open>INIT_CALLBACK\<close> casts it to, and no event passes data by value: the
  casts are needed, and the types of the older interface are unused.\<close>

lemma cast_needed: "\<not> compatible (prototype c) ompt_callback_t"
  by (cases c) (simp_all add: ompt_callback_t_def)

lemma data_by_reference:
  "Value ''ompt_data_t'' \<notin> set (map resolve (snd (fst (ompt_event sc e))))"
  by (cases e) (simp_all add: sig_defs event_sigs)

lemma control_event: "compatible ompt_control (fst (ompt_event sc ompt_event_control))"
  by (simp add: ompt_control_def ompt_control_callback_t_def)

text \<open>Every name of the two lists of functions has a pointer type, and there is no other.\<close>

lemma api_types_declared: "set (map fst pointer_types) = fntype ` set (inquiry_fns @ placeholder_fns)"
  by (simp add: pointer_types_def inquiry_fns_def placeholder_fns_def placeholder_types_def fntype_def)

text \<open>The table of the runtime, when no two functions have the same number.\<close>

lemma fold_updates:
  "inj f \<Longrightarrow> fold (\<lambda>c t. t(f c \<mapsto> c)) cs t (f c) = (if c \<in> set cs then Some c else t (f c))"
  by (induction cs arbitrary: t) (auto dest: injD)

lemma event_numbers_inj: "inj (\<lambda>c. snd (ompt_event sc (event_of c)))"
proof (rule injI)
  fix c c' assume "snd (ompt_event sc (event_of c)) = snd (ompt_event sc (event_of c'))"
  then show "c = c'" by (cases c; cases c'; simp)
qed

lemma all_registered: "c \<in> set registered_callbacks"
  by (cases c) (simp_all add: registered_callbacks_def)

text \<open>
  The casts of \<open>INIT_CALLBACK\<close> are harmless in a build without \<open>OMPT_STATIC_CHUNKS\<close>: the types of all
  registered functions are those the runtime calls them with, up to type definitions, the runtime's
  table leads from the number of each event to the function registered for it, the functions of
  \<open>ompt_start_tool\<close> have the types of the members they are stored in, and the two functions that
  \<open>init_libtdg\<close> looks up by name are functions the runtime offers, cast to the types declared for them and
  called with the arguments these types have.  With \<open>OMPT_STATIC_CHUNKS\<close> the
  loop callback, and only it, has another type than the runtime calls it with.
\<close>

theorem registered_callbacks_well_typed:
  "list_all (well_typed False) registered_callbacks
   \<and> filter (\<lambda>c. \<not> well_typed True c) registered_callbacks = [ext_loop]
   \<and> dispatch_table sc registered_callbacks (snd (ompt_event sc (event_of c))) = Some c
   \<and> map_option (\<lambda>f. compatible (tool_prototype f) ompt_initialize_t) (initialize (ompt_start_tool v r fns)) = Some True
   \<and> map_option (\<lambda>f. compatible (tool_prototype f) ompt_finalize_t) (finalize (ompt_start_tool v r fns)) = Some True
   \<and> list_all lookup_ok tool_lookups"
proof (intro conjI)
  show "list_all (well_typed False) registered_callbacks" by (simp add: list_all_iff well_typed_iff)
  show "filter (\<lambda>c. \<not> well_typed True c) registered_callbacks = [ext_loop]"
    by (simp add: well_typed_iff registered_callbacks_def)
  show "dispatch_table sc registered_callbacks (snd (ompt_event sc (event_of c))) = Some c"
    unfolding dispatch_table_def fold_updates [OF event_numbers_inj] using all_registered by simp
qed (simp_all add: lookups_ok ompt_start_tool_def ompt_initialize_t_def ompt_finalize_t_def compatible_refl)

end
