(* ===== verification/Binary64.thy ===== *)
theory Binary64
  imports Complex_Main
begin

text \<open>
  The \<open>double\<close> of the C++ sources: a real number, every arithmetic operation of which is
  the exact result rounded to the nearest binary64 value, ties to even (53 significant
  bits, smallest exponent -1074).  Not represented: infinities, NaN and the sign of zero;
  the largest finite exponent is not enforced, so an overflow to infinity is outside the
  model.  What the algorithms need of rounding is proved here: it is monotone
  (\<open>rnd_mono\<close>), odd, keeps the sign, and is exact on integers below \<open>2 ^ 53\<close>
  (\<open>rnd_of_int\<close>), which also lets concrete runs be evaluated.
\<close>

type_synonym double = real

definition rne :: "real \<Rightarrow> int" where
  "rne y = (let f = \<lfloor>y\<rfloor>; d = y - real_of_int f
            in if d < 1 / 2 then f else if 1 / 2 < d then f + 1
               else if even f then f else f + 1)"

definition ulp_exp :: "real \<Rightarrow> int" where
  "ulp_exp x = max (\<lfloor>log 2 \<bar>x\<bar>\<rfloor> - 52) (- 1074)"

definition rnd :: "real \<Rightarrow> real" where
  "rnd x = (if x = 0 then 0
            else real_of_int (rne (x / 2 powi ulp_exp x)) * 2 powi ulp_exp x)"

definition fadd :: "double \<Rightarrow> double \<Rightarrow> double" where
  "fadd a b = rnd (a + b)"

definition fsub :: "double \<Rightarrow> double \<Rightarrow> double" where
  "fsub a b = rnd (a - b)"

definition fmul :: "double \<Rightarrow> double \<Rightarrow> double" where
  "fmul a b = rnd (a * b)"

definition fdiv :: "double \<Rightarrow> double \<Rightarrow> double" where
  "fdiv a b = rnd (a / b)"

definition fsqrt :: "double \<Rightarrow> double" where
  "fsqrt a = rnd (sqrt a)"

definition double_of_nat :: "nat \<Rightarrow> double" where
  "double_of_nat n = rnd (real n)"

section \<open>Rounding\<close>

lemma rne_of_int [simp]: "rne (real_of_int k) = k"
  by (simp add: rne_def)

lemma rne_mono: "x \<le> y \<Longrightarrow> rne x \<le> rne y"
proof -
  assume le: "x \<le> y"
  have f: "\<lfloor>x\<rfloor> \<le> \<lfloor>y\<rfloor>" using le by (rule floor_mono)
  show ?thesis
  proof (cases "\<lfloor>x\<rfloor> = \<lfloor>y\<rfloor>")
    case True
    then show ?thesis using le by (auto simp: rne_def Let_def)
  next
    case False
    with f have "\<lfloor>x\<rfloor> + 1 \<le> \<lfloor>y\<rfloor>" by simp
    then show ?thesis by (auto simp: rne_def Let_def)
  qed
qed

lemma rne_uminus: "rne (- x) = - rne x"
proof (cases "x = real_of_int \<lfloor>x\<rfloor>")
  case True
  then show ?thesis by (metis of_int_minus rne_of_int)
next
  case False
  then have f: "\<lfloor>- x\<rfloor> = - \<lfloor>x\<rfloor> - 1" by linarith
  show ?thesis by (simp add: rne_def Let_def f)
qed

lemma floor_log_iff:
  assumes "0 < x" shows "(k \<le> \<lfloor>log 2 x\<rfloor>) = (2 powi k \<le> x)"
proof -
  have "(k \<le> \<lfloor>log 2 x\<rfloor>) = (real_of_int k \<le> log 2 x)" by (simp add: le_floor_iff)
  also have "\<dots> = (2 powr real_of_int k \<le> x)" using assms by (simp add: le_log_iff)
  also have "2 powr real_of_int k = (2 powi k :: real)"
    by (simp add: powr_real_of_int')
  finally show ?thesis .
qed

lemma ulp_exp_uminus [simp]: "ulp_exp (- x) = ulp_exp x"
  by (simp add: ulp_exp_def)

lemma ulp_exp_mono: "0 < x \<Longrightarrow> x \<le> y \<Longrightarrow> ulp_exp x \<le> ulp_exp y"
  unfolding ulp_exp_def
  by (intro max.mono diff_mono floor_mono) auto

lemma grid_shift:
  assumes "e \<le> k"
  shows "real_of_int m * 2 powi k / 2 powi e = real_of_int (m * 2 ^ nat (k - e))"
proof -
  have "(2::real) powi k / 2 powi e = 2 powi (k - e)" by (simp add: power_int_diff)
  also have "\<dots> = real_of_int (2 ^ nat (k - e))" using assms by (simp add: power_int_def)
  finally show ?thesis by (simp only: of_int_mult times_divide_eq_right [symmetric])
qed

lemma rnd_le_grid:
  assumes "x \<le> real_of_int m * 2 powi k" and "ulp_exp x \<le> k" and "x \<noteq> 0"
  shows "rnd x \<le> real_of_int m * 2 powi k"
proof -
  have "x / 2 powi ulp_exp x \<le> real_of_int (m * 2 ^ nat (k - ulp_exp x))"
    using assms by (subst grid_shift [symmetric]) (auto intro: divide_right_mono)
  then have "rne (x / 2 powi ulp_exp x) \<le> m * 2 ^ nat (k - ulp_exp x)"
    by (metis rne_mono rne_of_int)
  then have "real_of_int (rne (x / 2 powi ulp_exp x))
      \<le> real_of_int m * 2 powi k / 2 powi ulp_exp x"
    using assms(2) by (simp only: grid_shift of_int_le_iff)
  then show ?thesis using assms(3) by (simp add: rnd_def field_simps)
qed

lemma rnd_uminus: "rnd (- x) = - rnd x"
  by (simp add: rnd_def rne_uminus)

lemma rnd_ge_grid:
  assumes "real_of_int m * 2 powi k \<le> x" and "ulp_exp x \<le> k" and "x \<noteq> 0"
  shows "real_of_int m * 2 powi k \<le> rnd x"
  using rnd_le_grid [of "- x" "- m" k] assms by (simp add: rnd_uminus)

lemma rnd_grid:
  assumes "ulp_exp (real_of_int m * 2 powi k) \<le> k"
  shows "rnd (real_of_int m * 2 powi k) = real_of_int m * 2 powi k"
  using assms
  by (cases "m = 0") (auto simp: rnd_def [of 0] intro!: antisym rnd_le_grid rnd_ge_grid)

lemma rnd_0 [simp]: "rnd 0 = 0" by (simp add: rnd_def)

lemma rnd_nonneg: "0 \<le> x \<Longrightarrow> 0 \<le> rnd x"
  using rnd_ge_grid [of 0 "ulp_exp x" x] by (cases "x = 0") simp_all

lemma rnd_mono_pos:
  assumes "0 < x" and "x \<le> y" shows "rnd x \<le> rnd y"
proof (cases "ulp_exp x = ulp_exp y")
  case True
  with assms show ?thesis
    by (auto simp: rnd_def intro!: mult_right_mono rne_mono divide_right_mono)
next
  case False
  define k where "k = \<lfloor>log 2 y\<rfloor>"
  from False ulp_exp_mono [OF assms] have lt: "ulp_exp x < ulp_exp y" by simp
  then have "max (\<lfloor>log 2 x\<rfloor> - 52) (- 1074) < max (k - 52) (- 1074)"
    using assms by (simp add: ulp_exp_def k_def)
  then have k: "- 1022 < k" "\<lfloor>log 2 x\<rfloor> < k" by linarith+
  then have uy: "ulp_exp y = k - 52" and ux: "ulp_exp x \<le> k" and klx: "\<not> k \<le> \<lfloor>log 2 x\<rfloor>"
    using assms by (simp_all add: ulp_exp_def flip: k_def)
  have "x \<le> 2 powi k" using klx assms(1) by (simp add: floor_log_iff)
  then have "rnd x \<le> 2 powi k" using rnd_le_grid [of x 1 k] ux assms by simp
  also have "2 powi k \<le> y" using floor_log_iff [of y k] assms by (simp add: k_def)
  then have "2 powi k \<le> rnd y" using rnd_ge_grid [of 1 k y] uy assms by simp
  finally show ?thesis .
qed

lemma rnd_mono: assumes "x \<le> y" shows "rnd x \<le> rnd y"
proof -
  consider "0 < x" | "x \<le> 0" "0 \<le> y" | "y < 0" by linarith
  then show ?thesis
  proof cases
    case 1
    with assms show ?thesis by (simp add: rnd_mono_pos)
  next
    case 2
    with rnd_nonneg [of y] rnd_nonneg [of "- x"] show ?thesis by (simp add: rnd_uminus)
  next
    case 3
    with assms rnd_mono_pos [of "- y" "- x"] show ?thesis by (simp add: rnd_uminus)
  qed
qed

lemma rnd_of_int: assumes "\<bar>m\<bar> < 2 ^ 53" shows "rnd (real_of_int m) = real_of_int m"
proof (cases "m = 0")
  case False
  have "\<not> (53 \<le> \<lfloor>log 2 \<bar>real_of_int m\<bar>\<rfloor>)"
    using assms False by (subst floor_log_iff) (auto simp: power_int_def of_int_less_iff [symmetric, where 'a=real])
  then show ?thesis using rnd_grid [of m 0] by (simp add: ulp_exp_def)
qed simp

lemma rnd_of_nat: "n < 2 ^ 53 \<Longrightarrow> rnd (real n) = real n"
  using rnd_of_int [of "int n"] by simp

lemma rnd_numeral [simp]: "numeral n < (2 ^ 53 :: int) \<Longrightarrow> rnd (numeral n) = numeral n"
  using rnd_of_int [of "numeral n"] by simp

lemma rnd_1 [simp]: "rnd 1 = 1"
  using rnd_of_int [of 1] by simp

lemma rnd_neg_numeral [simp]: "numeral n < (2 ^ 53 :: int) \<Longrightarrow> rnd (- numeral n) = - numeral n"
  by (simp add: rnd_uminus)

section \<open>The arithmetic operations\<close>

lemma fadd_mono: "a \<le> a' \<Longrightarrow> b \<le> b' \<Longrightarrow> fadd a b \<le> fadd a' b'"
  by (simp add: fadd_def rnd_mono)

lemma fsub_nonneg: "b \<le> a \<Longrightarrow> 0 \<le> fsub a b"
  by (simp add: fsub_def rnd_nonneg)

lemma fadd_nonneg: "0 \<le> a \<Longrightarrow> 0 \<le> b \<Longrightarrow> 0 \<le> fadd a b"
  by (simp add: fadd_def rnd_nonneg)

section \<open>Representable values\<close>

definition representable :: "real \<Rightarrow> bool" where
  "representable x \<longleftrightarrow> rnd x = x"

lemma powi_53: "(2::real) powi (e + 53) = 2 ^ 53 * 2 powi e"
proof -
  have "(2::real) powi 53 = 2 ^ 53" by (subst power_int_numeral) simp
  then show ?thesis by (simp add: power_int_add mult.commute)
qed

lemma rne_le_bound: "\<bar>y\<bar> \<le> real_of_int b \<Longrightarrow> \<bar>rne y\<bar> \<le> b"
  using rne_mono [of y "real_of_int b"] rne_mono [of "real_of_int (- b)" y]
  by (simp add: abs_le_iff flip: of_int_minus)

lemma ulp_exp_le:
  assumes "x \<noteq> 0" and "\<bar>x\<bar> < 2 powi (e + 53)" and "- 1074 \<le> e"
  shows "ulp_exp x \<le> e"
proof -
  have "\<not> (e + 53 \<le> \<lfloor>log 2 \<bar>x\<bar>\<rfloor>)" using assms by (subst floor_log_iff) auto
  with assms(3) show ?thesis by (simp add: ulp_exp_def)
qed

lemma scaled_bound:
  assumes "x \<noteq> 0" shows "\<bar>x / 2 powi ulp_exp x\<bar> \<le> real_of_int (2 ^ 53)"
proof -
  have "\<not> (\<lfloor>log 2 \<bar>x\<bar>\<rfloor> + 1 \<le> \<lfloor>log 2 \<bar>x\<bar>\<rfloor>)" by simp
  then have "\<bar>x\<bar> < 2 powi (\<lfloor>log 2 \<bar>x\<bar>\<rfloor> + 1)" using assms by (subst (asm) floor_log_iff) auto
  also have "\<dots> \<le> 2 powi (ulp_exp x + 53)"
    by (rule power_int_increasing) (auto simp: ulp_exp_def)
  also have "\<dots> = 2 ^ 53 * 2 powi ulp_exp x" by (rule powi_53)
  finally show ?thesis by (simp add: abs_divide divide_le_eq)
qed

lemma representable_rnd [simp]: "representable (rnd x)"
proof (cases "x = 0")
  case False
  define e where "e = ulp_exp x"
  define m where "m = rne (x / 2 powi e)"
  have r: "rnd x = real_of_int m * 2 powi e" using False by (simp add: rnd_def m_def e_def)
  have e: "- 1074 \<le> e" by (simp add: e_def ulp_exp_def)
  have "\<bar>m\<bar> \<le> 2 ^ 53" unfolding m_def e_def by (rule rne_le_bound [OF scaled_bound [OF False]])
  then consider "m = 0" | "m \<noteq> 0" "\<bar>m\<bar> < 2 ^ 53" | "\<bar>m\<bar> = 2 ^ 53" by linarith
  then show ?thesis
  proof cases
    case 2
    have "\<bar>real_of_int m * 2 powi e\<bar> < 2 ^ 53 * 2 powi e"
      using 2(2) by (simp add: abs_mult of_int_less_iff [symmetric, where 'a = real])
    also have "\<dots> = 2 powi (e + 53)" by (rule powi_53 [symmetric])
    finally have "ulp_exp (real_of_int m * 2 powi e) \<le> e" using 2 e by (intro ulp_exp_le) auto
    then show ?thesis using rnd_grid r by (simp add: representable_def)
  next
    case 3
    define k where "k = (if m = 2 ^ 53 then 1 else - 1 :: int)"
    have "rnd x = real_of_int k * 2 powi (e + 53)"
      using 3 r by (auto simp: k_def powi_53 abs_if split: if_splits)
    moreover have "ulp_exp (real_of_int k * 2 powi (e + 53)) \<le> e + 53"
      by (rule ulp_exp_le) (use e in \<open>auto simp: k_def abs_mult intro: power_int_strict_increasing\<close>)
    ultimately show ?thesis using rnd_grid [of k "e + 53"] by (simp add: representable_def)
  qed (simp add: r representable_def)
qed (simp add: representable_def)

lemma representable_ops [simp]:
  "representable (fadd a b)" "representable (fsub a b)" "representable (fmul a b)"
  "representable (fdiv a b)" "representable 0"
  by (simp_all add: fadd_def fsub_def fmul_def fdiv_def) (simp add: representable_def)

text \<open>Doubling is exact.\<close>

lemma representable_double: assumes "representable x" shows "representable (2 * x)"
proof (cases "x = 0")
  case False
  define e where "e = ulp_exp x"
  define m where "m = rne (x / 2 powi e)"
  have x: "x = real_of_int m * 2 powi e"
    using assms False by (simp add: representable_def rnd_def m_def e_def)
  have x2: "2 * x = real_of_int m * 2 powi (e + 1)" using x by (simp add: power_int_add)
  have "log 2 \<bar>2 * x\<bar> = log 2 \<bar>x\<bar> + 1" using False by (simp add: abs_mult log_mult)
  then have "ulp_exp (2 * x) \<le> e + 1" 
    unfolding ulp_exp_def e_def by linarith
  then show ?thesis using rnd_grid [of m "e + 1"] by (simp add: representable_def x2)
qed simp

text \<open>The mean of two doubles lies between them.\<close>

lemma fmean_between:
  assumes "representable a" and "representable b" and "a \<le> b"
  shows "a \<le> fdiv (fadd a b) 2" and "fdiv (fadd a b) 2 \<le> b"
proof -
  have "rnd (2 * a) \<le> rnd (a + b)" "rnd (a + b) \<le> rnd (2 * b)"
    using assms(3) by (auto intro: rnd_mono)
  then have "a \<le> fadd a b / 2" "fadd a b / 2 \<le> b"
    using assms representable_double by (auto simp: fadd_def representable_def)
  then have "rnd a \<le> fdiv (fadd a b) 2" "fdiv (fadd a b) 2 \<le> rnd b"
    by (auto simp: fdiv_def intro: rnd_mono)
  then show "a \<le> fdiv (fadd a b) 2" and "fdiv (fadd a b) 2 \<le> b"
    using assms by (simp_all add: representable_def)
qed

text \<open>Adding a non-negative amount never loses what was there.\<close>

lemma fadd_increasing: "representable a \<Longrightarrow> 0 \<le> b \<Longrightarrow> a \<le> fadd a b"
  using rnd_mono [of a "a + b"] by (simp add: fadd_def representable_def)

section \<open>The error of one rounding\<close>

lemma rne_close: "\<bar>real_of_int (rne y) - y\<bar> \<le> 1 / 2"
proof -
  have "y - real_of_int \<lfloor>y\<rfloor> < 1" "0 \<le> y - real_of_int \<lfloor>y\<rfloor>" by linarith+
  then show ?thesis by (simp add: rne_def Let_def abs_le_iff)
qed

lemma rnd_error:
  assumes "2 powi (- 1022) \<le> \<bar>x\<bar>"
  shows "\<bar>rnd x - x\<bar> \<le> \<bar>x\<bar> / 2 ^ 53"
proof -
  have x: "x \<noteq> 0" using assms by (auto simp: power_int_def)
  define k where "k = \<lfloor>log 2 \<bar>x\<bar>\<rfloor>"
  have k: "2 powi k \<le> \<bar>x\<bar>" "- 1022 \<le> k"
    using floor_log_iff [of "\<bar>x\<bar>" k] floor_log_iff [of "\<bar>x\<bar>" "- 1022"] assms x by (auto simp: k_def)
  have "ulp_exp x = max (k - 52) (- 1074)" by (simp add: ulp_exp_def k_def)
  then have e: "ulp_exp x = k - 52" using k(2) by simp
  have "2 powi k = 2 powi (ulp_exp x) * (2 ^ 52 :: real)"
    unfolding e by (subst power_int_diff) (auto simp: power_int_def)
  then have ulp: "2 powi (ulp_exp x) \<le> \<bar>x\<bar> / 2 ^ 52" using k(1) by simp
  have "rnd x - x = (real_of_int (rne (x / 2 powi ulp_exp x)) - x / 2 powi ulp_exp x) * 2 powi ulp_exp x"
    using x by (simp add: rnd_def field_simps)
  then have "\<bar>rnd x - x\<bar> \<le> 1 / 2 * 2 powi ulp_exp x"
    using rne_close [of "x / 2 powi ulp_exp x"] by (simp add: abs_mult mult_right_mono)
  then show ?thesis using ulp by simp
qed

lemma rnd_factor:
  assumes "1 / 2 ^ 100 \<le> \<bar>x\<bar>"
  obtains d where "rnd x = x * (1 + d)" "\<bar>d\<bar> \<le> 1 / 2 ^ 53"
proof -
  have "(2 :: real) powi (- 1022) \<le> 2 powi (- 100)" by (rule power_int_increasing) simp_all
  also have "(2 :: real) powi (- 100) = 1 / 2 ^ 100"
    by (subst power_int_minus, subst power_int_numeral) (rule inverse_eq_divide)
  finally have n: "2 powi (- 1022) \<le> \<bar>x\<bar>" using assms by (rule order_trans)
  have x: "x \<noteq> 0" using assms by auto
  show ?thesis
  proof (rule that [of "(rnd x - x) / x"])
    show "rnd x = x * (1 + (rnd x - x) / x)" using x by (simp add: field_simps)
    show "\<bar>(rnd x - x) / x\<bar> \<le> 1 / 2 ^ 53"
      using rnd_error [OF n] x by (simp add: abs_divide divide_le_eq)
  qed
qed

section \<open>Compounding\<close>

text \<open>\<open>total += total / n\<close>, done \<open>n\<close> times from 5: the value would be at most \<open>5 e\<close> in exact arithmetic, and the
  roundings of every step together do not lift it to 16.\<close>

lemma rnd_le_factor: assumes "1 / 2 ^ 100 \<le> x" shows "rnd x \<le> x * (1 + 1 / 2 ^ 53)"
proof -
  have x: "0 \<le> x" by (rule order_trans [OF _ assms]) simp
  then obtain d where d: "rnd x = x * (1 + d)" "\<bar>d\<bar> \<le> 1 / 2 ^ 53" using rnd_factor [of x] assms by auto
  then have "1 + d \<le> 1 + 1 / 2 ^ 53" using abs_le_D1 by (intro add_left_mono)
  then show ?thesis unfolding d(1) using x by (rule mult_left_mono)
qed

lemma share_bounds:
  assumes "0 < n" and "n \<le> 2 ^ 40" and "5 \<le> t" and "representable t"
  shows "5 \<le> fadd t (fdiv t (real n))" "representable (fadd t (fdiv t (real n)))"
    and "fadd t (fdiv t (real n)) \<le> t * exp ((1 + 1 / 2 ^ 53) / real n + 1 / 2 ^ 53)"
proof -
  let ?u = "1 / 2 ^ 53 :: real"
  have "real n \<le> 2 ^ 40" using assms(2) by (metis of_nat_le_iff of_nat_numeral of_nat_power)
  then have "1 / 2 ^ 100 * real n \<le> 1 / 2 ^ 100 * 2 ^ 40" by (intro mult_left_mono) simp_all
  also have "\<dots> \<le> t" using assms(3) by (rule order_trans [rotated]) simp
  finally have small: "1 / 2 ^ 100 \<le> t / real n" using assms(1) by (simp add: pos_le_divide_eq)
  have q: "fdiv t (real n) \<le> t / real n * (1 + ?u)" using rnd_le_factor [OF small] by (simp add: fdiv_def)
  have q0: "0 \<le> fdiv t (real n)" using assms(3) by (simp add: fdiv_def rnd_nonneg)
  show "representable (fadd t (fdiv t (real n)))" by simp
  show "5 \<le> fadd t (fdiv t (real n))" using fadd_increasing [OF assms(4) q0] assms(3) by simp
  have "1 / 2 ^ 100 \<le> t + fdiv t (real n)" using assms(3) q0 by (rule_tac order_trans [of _ 5]) simp_all
  then have "fadd t (fdiv t (real n)) \<le> (t + fdiv t (real n)) * (1 + ?u)" unfolding fadd_def by (rule rnd_le_factor)
  also have "\<dots> \<le> (t * (1 + (1 + ?u) / real n)) * (1 + ?u)"
    by (rule mult_right_mono) (use q in \<open>simp_all add: algebra_simps\<close>)
  also have "\<dots> \<le> (t * exp ((1 + ?u) / real n)) * exp ?u"
    using assms(3) by (intro mult_mono mult_left_mono exp_ge_add_one_self) simp_all
  finally show "fadd t (fdiv t (real n)) \<le> t * exp ((1 + ?u) / real n + ?u)" by (simp add: exp_add mult.assoc)
qed

lemma compound_bounds:
  assumes "0 < n" and "n \<le> 2 ^ 40"
  defines "f \<equiv> \<lambda>t. fadd t (fdiv t (real n))"
  shows "5 \<le> (f ^^ k) 5 \<and> representable ((f ^^ k) 5)
    \<and> (f ^^ k) 5 \<le> 5 * exp (real k * ((1 + 1 / 2 ^ 53) / real n + 1 / 2 ^ 53))"
proof (induction k)
  case 0
  show ?case by (simp add: representable_def)
next
  case (Suc k)
  let ?c = "(1 + 1 / 2 ^ 53) / real n + 1 / 2 ^ 53"
  have "5 \<le> (f ^^ k) 5" "representable ((f ^^ k) 5)" using Suc.IH by simp_all
  note step = share_bounds [OF assms(1,2) this]
  have "f ((f ^^ k) 5) \<le> (f ^^ k) 5 * exp ?c" unfolding f_def by (rule step(3) [unfolded f_def])
  also have "\<dots> \<le> 5 * exp (real k * ?c) * exp ?c" using Suc.IH by (intro mult_right_mono) simp_all
  also have "\<dots> = 5 * exp (real (Suc k) * ?c)"
    by (simp only: mult.assoc exp_add [symmetric] of_nat_Suc distrib_right mult_1 add.commute)
  finally have "f ((f ^^ k) 5) \<le> 5 * exp (real (Suc k) * ?c)" .
  then show ?case using step(1,2) by (simp add: f_def)
qed

lemma compounded_total:
  assumes "0 < n" and "n \<le> 2 ^ 40"
  shows "5 \<le> ((\<lambda>t. fadd t (fdiv t (real n))) ^^ n) 5" "((\<lambda>t. fadd t (fdiv t (real n))) ^^ n) 5 < 16"
proof -
  show "5 \<le> ((\<lambda>t. fadd t (fdiv t (real n))) ^^ n) 5" using compound_bounds [OF assms] by simp
  have n: "real n \<le> 2 ^ 40" using assms(2) by (metis of_nat_le_iff of_nat_numeral of_nat_power)
  have "real n * ((1 + 1 / 2 ^ 53) / real n + 1 / 2 ^ 53) = 1 + (1 / 2 ^ 53 + real n / 2 ^ 53)"
    using assms(1) by (simp add: field_simps)
  also have "\<dots> \<le> 1 + 1 / 100" using n by (simp add: field_simps)
  finally have "((\<lambda>t. fadd t (fdiv t (real n))) ^^ n) 5 \<le> 5 * exp (1 + 1 / 100)"
    using compound_bounds [OF assms, of n] by (meson exp_le_cancel_iff mult_left_mono order_trans zero_le_numeral)
  also have "exp (1 + 1 / 100 :: real) = exp 1 * exp (1 / 100)" by (rule exp_add)
  also have "5 * (exp 1 * exp (1 / 100)) \<le> 5 * (3 * (1 + 1 / 100 + (1 / 100)\<^sup>2 :: real))"
    using exp_le exp_bound [of "1 / 100"] by (intro mult_left_mono mult_mono) simp_all
  also have "\<dots> < 16" by (simp add: power2_eq_square)
  finally show "((\<lambda>t. fadd t (fdiv t (real n))) ^^ n) 5 < 16" .
qed

lemmas double_eval = fadd_def fsub_def fmul_def fdiv_def fsqrt_def double_of_nat_def

end
