(* ===== verification/Std_Map.thy ===== *)
theory Std_Map
  imports Tdg_Prelude
begin

text \<open>
  The part of \<open>std::map\<close> that libtdg uses, as an association list sorted by key: the
  assignment \<open>m[k] = v\<close>, \<open>m.erase(k)\<close>, lookup, and iteration in ascending key order
  (the list itself).  The locale \<open>ordered_map\<close> states the contract of such a container;
  the sorted list is proved to meet it, and the graph relies on the contract only.
\<close>

section \<open>Operations\<close>

fun map_set :: "'k::linorder \<Rightarrow> 'v \<Rightarrow> ('k \<times> 'v) list \<Rightarrow> ('k \<times> 'v) list" where
  "map_set k v [] = [(k, v)]"
| "map_set k v ((a, b) # ps) =
     (if k < a then (k, v) # (a, b) # ps
      else if k = a then (k, v) # ps
      else (a, b) # map_set k v ps)"

fun map_erase :: "'k::linorder \<Rightarrow> ('k \<times> 'v) list \<Rightarrow> ('k \<times> 'v) list" where
  "map_erase k [] = []"
| "map_erase k ((a, b) # ps) = (if k = a then ps else (a, b) # map_erase k ps)"

definition map_ok :: "('k::linorder \<times> 'v) list \<Rightarrow> bool" where
  "map_ok ps \<longleftrightarrow> sorted_wrt (<) (map fst ps)"

section \<open>The contract\<close>

locale ordered_map =
  fixes mset_at :: "'k::linorder \<Rightarrow> 'v \<Rightarrow> 'm \<Rightarrow> 'm"
    and merase :: "'k \<Rightarrow> 'm \<Rightarrow> 'm"
    and mfind :: "'m \<Rightarrow> 'k \<Rightarrow> 'v option"
    and miter :: "'m \<Rightarrow> ('k \<times> 'v) list"
    and minv :: "'m \<Rightarrow> bool"
  assumes find_set: "minv m \<Longrightarrow> mfind (mset_at k v m) = (mfind m)(k \<mapsto> v)"
    and find_erase: "minv m \<Longrightarrow> mfind (merase k m) = (mfind m)(k := None)"
    and inv_set: "minv m \<Longrightarrow> minv (mset_at k v m)"
    and inv_erase: "minv m \<Longrightarrow> minv (merase k m)"
    and iter_sorted: "minv m \<Longrightarrow> sorted_wrt (<) (map fst (miter m))"
    and iter_find: "minv m \<Longrightarrow> (k, v) \<in> set (miter m) \<longleftrightarrow> mfind m k = Some v"
begin

text \<open>Iteration meets every stored value, and each key once.\<close>

lemma iter_values: "minv m \<Longrightarrow> set (map snd (miter m)) = ran (mfind m)"
  by (force simp: ran_def iter_find [symmetric] image_iff)

lemma iter_keys_distinct: "minv m \<Longrightarrow> distinct (map fst (miter m))"
  using iter_sorted strict_sorted_iff by blast

lemma iter_values_distinct:
  assumes m: "minv m" and inj: "inj_on (mfind m) (dom (mfind m))"
  shows "distinct (map snd (miter m))"
proof -
  have "k = k'" if "(k, v) \<in> set (miter m)" "(k', v) \<in> set (miter m)" for k k' v
    using inj m that unfolding iter_find [OF m] by (metis domI inj_on_contraD)
  then have "inj_on snd (set (miter m))" by (auto intro: inj_onI)
  with iter_keys_distinct [OF m] show ?thesis by (simp add: distinct_map)
qed

text \<open>Erasing a key just set undoes the assignment of a key that was absent.\<close>

lemma find_erase_set: "minv m \<Longrightarrow> mfind m k = None \<Longrightarrow> mfind (merase k (mset_at k v m)) = mfind m"
  by (auto simp: find_set find_erase inv_set)

lemma ran_set: "minv m \<Longrightarrow> mfind m k = None \<Longrightarrow> ran (mfind (mset_at k v m)) = insert v (ran (mfind m))"
  by (simp add: find_set ran_map_upd)

end

section \<open>The sorted list meets it\<close>

lemma map_of_map_set: "map_of (map_set k v ps) = (map_of ps)(k \<mapsto> v)"
  by (induction k v ps rule: map_set.induct) (auto simp: fun_eq_iff)

lemma keys_map_set: "fst ` set (map_set k v ps) = insert k (fst ` set ps)"
  by (induction k v ps rule: map_set.induct) auto

lemma map_ok_map_set: "map_ok ps \<Longrightarrow> map_ok (map_set k v ps)"
  by (induction k v ps rule: map_set.induct) (fastforce simp: map_ok_def keys_map_set)+

lemma keys_map_erase: "fst ` set (map_erase k ps) \<subseteq> fst ` set ps"
  by (induction k ps rule: map_erase.induct) auto

lemma map_ok_map_erase: "map_ok ps \<Longrightarrow> map_ok (map_erase k ps)"
  by (induction k ps rule: map_erase.induct) (use keys_map_erase in \<open>fastforce simp: map_ok_def\<close>)+

lemma map_of_map_erase: "map_ok ps \<Longrightarrow> map_of (map_erase k ps) = (map_of ps)(k := None)"
proof (induction k ps rule: map_erase.induct)
  case (2 k a b ps)
  have "map_of ps a = None" using 2(2) by (force simp: map_ok_def map_of_eq_None_iff)
  with 2 show ?case by (auto simp: map_ok_def fun_eq_iff)
qed simp

lemma map_ok_Nil [simp]: "map_ok []"
  by (simp add: map_ok_def)

lemma map_erase_map_set:
  "map_ok ps \<Longrightarrow> map_of ps k = None \<Longrightarrow> map_erase k (map_set k v ps) = ps"
  by (induction ps) (auto simp: map_ok_def split: if_splits)

interpretation smap: ordered_map map_set map_erase map_of "\<lambda>ps. ps" map_ok
proof unfold_locales
  fix m :: "('a \<times> 'b) list" and k v
  assume "map_ok m"
  then show "(k, v) \<in> set m \<longleftrightarrow> map_of m k = Some v"
    by (simp add: map_ok_def strict_sorted_iff)
qed (auto simp: map_of_map_set map_of_map_erase map_ok_map_set map_ok_map_erase
  dest: map_ok_def [THEN iffD1])

end
