(* ===== verification/Tdg_Graph.thy ===== *)
theory Tdg_Graph
  imports Binary64 Std_Map
begin

text \<open>
  The classes \<open>Edge\<close>, \<open>Node\<close> and \<open>Graph\<close> of \<open>src/graph.h\<close> and \<open>src/graph.cc\<close>.

  A \<open>Node*\<close> is an address into a heap of node records; an \<open>Edge\<close> object is never written
  after its construction and its identity is never observed, so an \<open>Edge*\<close> is the pair of
  addresses it holds.  A null or dangling pointer dereference is \<open>None\<close>.  The members
  \<open>_loopCounter\<close> and \<open>_threadId\<close>, which the constructor leaves uninitialised, are options.
  The mutexes of a node and of the graph protect single operations; an operation here is one
  atomic step.

  The abstract view of a heap is a directed graph (\<open>dom h\<close>, \<open>edge_rel h\<close>); the locale
  \<open>digraph_ops\<close> states what \<open>connectNodes\<close>, \<open>disconnectNodes\<close> and \<open>isConnectedWith\<close>
  promise of it, and the clients of the graph rest on that contract.
\<close>

section \<open>Data\<close>

datatype NodeType =
  ROOT_TASK | IMP_TASK | WS_TASK | CHUNK_TASK | EXP_TASK | BARRIER | TASKWAIT

record Edge =
  getSource :: addr
  getTarget :: addr

record Node =
  n_id :: int64
  n_type :: NodeType
  n_totalTime :: double
  n_visited :: bool
  n_level :: int
  n_finishTime :: double
  n_lastTime :: double
  n_lower :: int64
  n_upper :: int64
  n_loopCounter :: "uint64 option"
  n_threadId :: "int option"
  n_isCritical :: bool
  n_pathLength :: int
  n_pathTime :: double
  n_prevCritical :: "addr option"
  n_numPapiEvents :: uint32
  n_papiVals :: "int list option"
  n_entryEdges :: "Edge list"
  n_exitEdges :: "Edge list"

type_synonym heap = "addr \<rightharpoonup> Node"

definition new_Edge :: "addr \<Rightarrow> addr \<Rightarrow> Edge" where
  "new_Edge s t = \<lparr>getSource = s, getTarget = t\<rparr>"

definition new_Node :: "int64 \<Rightarrow> NodeType \<Rightarrow> double \<Rightarrow> Node" where
  "new_Node i ty total_time =
     \<lparr>n_id = i, n_type = ty, n_totalTime = total_time, n_visited = False,
      n_level = - 1, n_finishTime = 0, n_lastTime = 0, n_lower = 0, n_upper = 0,
      n_loopCounter = None, n_threadId = None,
      n_isCritical = False, n_pathLength = 0, n_pathTime = 0, n_prevCritical = None,
      n_numPapiEvents = 0, n_papiVals = None,
      n_entryEdges = [], n_exitEdges = []\<rparr>"

section \<open>Node operations\<close>

definition upd_node :: "addr \<Rightarrow> (Node \<Rightarrow> Node) \<Rightarrow> heap \<Rightarrow> heap option" where
  "upd_node a f h = do { n \<leftarrow> h a; Some (h(a \<mapsto> f n)) }"

definition addTime :: "double \<Rightarrow> Node \<Rightarrow> Node" where
  "addTime curr_time n =
     n\<lparr>n_totalTime := fadd (n_totalTime n) (fsub curr_time (n_lastTime n)),
       n_lastTime := curr_time\<rparr>"

definition setLastTime :: "double \<Rightarrow> Node \<Rightarrow> Node" where
  "setLastTime last_time n = n\<lparr>n_lastTime := last_time\<rparr>"

definition setLowerUpper :: "int64 \<Rightarrow> int64 \<Rightarrow> Node \<Rightarrow> Node" where
  "setLowerUpper lo up n = n\<lparr>n_lower := lo, n_upper := up\<rparr>"

definition setLoopCounter :: "uint64 \<Rightarrow> Node \<Rightarrow> Node" where
  "setLoopCounter c n = n\<lparr>n_loopCounter := Some c\<rparr>"

definition setThreadId :: "int \<Rightarrow> Node \<Rightarrow> Node" where
  "setThreadId t n = n\<lparr>n_threadId := Some t\<rparr>"

definition initPapiVals :: "uint32 \<Rightarrow> Node \<Rightarrow> Node" where
  "initPapiVals num_papi_events n =
     (if num_papi_events > 0
      then n\<lparr>n_numPapiEvents := num_papi_events,
             n_papiVals := Some (replicate (unat num_papi_events) 0)\<rparr>
      else n\<lparr>n_numPapiEvents := num_papi_events\<rparr>)"

definition isConnectedWith :: "addr \<Rightarrow> addr \<Rightarrow> heap \<Rightarrow> bool option" where
  "isConnectedWith a tgt h = do {
     n \<leftarrow> h a;
     Some (list_ex (\<lambda>e. getTarget e = tgt) (n_exitEdges n)) }"

definition getConnection :: "addr \<Rightarrow> addr \<Rightarrow> heap \<Rightarrow> Edge option option" where
  "getConnection a tgt h = do {
     n \<leftarrow> h a;
     Some (List.find (\<lambda>e. getTarget e = tgt) (n_exitEdges n)) }"

definition maxPredFinishTime :: "addr \<Rightarrow> heap \<Rightarrow> double option" where
  "maxPredFinishTime a h = do {
     n \<leftarrow> h a;
     foldM (\<lambda>e m. do { src \<leftarrow> h (getSource e); Some (max (n_finishTime src) m) })
       (n_entryEdges n) 0 }"

section \<open>Graph operations\<close>

definition connectNodes :: "addr \<Rightarrow> addr \<Rightarrow> heap \<Rightarrow> heap option" where
  "connectNodes src tgt h = do {
     connected \<leftarrow> isConnectedWith src tgt h;
     if \<not> connected then do {
       let e = new_Edge src tgt;
       h1 \<leftarrow> upd_node src (\<lambda>n. n\<lparr>n_exitEdges := n_exitEdges n @ [e]\<rparr>) h;
       upd_node tgt (\<lambda>n. n\<lparr>n_entryEdges := n_entryEdges n @ [e]\<rparr>) h1 }
     else Some h }"

definition disconnectNodes :: "addr \<Rightarrow> addr \<Rightarrow> heap \<Rightarrow> heap option" where
  "disconnectNodes src tgt h = do {
     h1 \<leftarrow> upd_node src
       (\<lambda>n. n\<lparr>n_exitEdges := erase_first (\<lambda>e. getTarget e = tgt) (n_exitEdges n)\<rparr>) h;
     upd_node tgt
       (\<lambda>n. n\<lparr>n_entryEdges := erase_first (\<lambda>e. getSource e = src) (n_entryEdges n)\<rparr>) h1 }"

text \<open>
  The graph proper: the heap with its bump allocator, the static counter \<open>Node::_nextId\<close>
  and the map \<open>_graphNodes\<close>.  An address is never handed out twice.
\<close>

record tdg =
  g_heap :: heap
  g_brk :: addr
  g_nextId :: int64
  g_graphNodes :: "(int64 \<times> addr) list"

definition nextId :: "'a tdg_scheme \<Rightarrow> int64 \<times> 'a tdg_scheme" where
  "nextId s = (g_nextId s, s\<lparr>g_nextId := wrap64 (g_nextId s + 1)\<rparr>)"

definition alloc_node :: "Node \<Rightarrow> 'a tdg_scheme \<Rightarrow> addr \<times> 'a tdg_scheme" where
  "alloc_node n s =
     (g_brk s, s\<lparr>g_heap := (g_heap s)(g_brk s \<mapsto> n), g_brk := Suc (g_brk s)\<rparr>)"

definition delete_node :: "addr \<Rightarrow> 'a tdg_scheme \<Rightarrow> 'a tdg_scheme option" where
  "delete_node a s = do {
     _ \<leftarrow> g_heap s a;
     Some (s\<lparr>g_heap := (g_heap s)(a := None)\<rparr>) }"

definition addNode :: "int64 \<Rightarrow> addr \<Rightarrow> 'a tdg_scheme \<Rightarrow> 'a tdg_scheme" where
  "addNode i a s = s\<lparr>g_graphNodes := map_set i a (g_graphNodes s)\<rparr>"

definition removeNode :: "int64 \<Rightarrow> 'a tdg_scheme \<Rightarrow> 'a tdg_scheme" where
  "removeNode i s = s\<lparr>g_graphNodes := map_erase i (g_graphNodes s)\<rparr>"

definition new_Graph :: tdg where
  "new_Graph = \<lparr>g_heap = Map.empty, g_brk = 0, g_nextId = 1, g_graphNodes = []\<rparr>"

section \<open>The abstract graph of a heap\<close>

definition succs :: "heap \<Rightarrow> addr \<Rightarrow> addr list" where
  "succs h u = (case h u of None \<Rightarrow> [] | Some n \<Rightarrow> map getTarget (n_exitEdges n))"

definition preds :: "heap \<Rightarrow> addr \<Rightarrow> addr list" where
  "preds h v = (case h v of None \<Rightarrow> [] | Some n \<Rightarrow> map getSource (n_entryEdges n))"

definition edge_rel :: "heap \<Rightarrow> (addr \<times> addr) set" where
  "edge_rel h = {(u, v). v \<in> set (succs h u)}"

definition own_edges :: "addr \<Rightarrow> Node \<Rightarrow> bool" where
  "own_edges a n \<longleftrightarrow> (\<forall>e \<in> set (n_exitEdges n). getSource e = a)
                     \<and> (\<forall>e \<in> set (n_entryEdges n). getTarget e = a)"

definition own_heap :: "heap \<Rightarrow> bool" where
  "own_heap h \<longleftrightarrow> (\<forall>a n. h a = Some n \<longrightarrow> own_edges a n)"

definition wf_heap :: "heap \<Rightarrow> bool" where
  "wf_heap h \<longleftrightarrow> finite (dom h)
     \<and> own_heap h
     \<and> (\<forall>a. distinct (succs h a) \<and> distinct (preds h a))
     \<and> (\<forall>u v. v \<in> set (succs h u) \<longleftrightarrow> u \<in> set (preds h v))"

section \<open>How the operations act on the abstract graph\<close>

lemma upd_node_Some [opt_simps]:
  "upd_node a f h = Some h' \<longleftrightarrow> (\<exists>n. h a = Some n \<and> h' = h(a \<mapsto> f n))"
  by (auto simp: upd_node_def opt_simps)

lemma upd_node_ok: "a \<in> dom h \<Longrightarrow> \<exists>h'. upd_node a f h = Some h'"
  by (auto simp: upd_node_def)

lemma succs_upd [simp]:
  "succs (h(a \<mapsto> n)) u = (if u = a then map getTarget (n_exitEdges n) else succs h u)"
  by (simp add: succs_def)

lemma preds_upd [simp]:
  "preds (h(a \<mapsto> n)) v = (if v = a then map getSource (n_entryEdges n) else preds h v)"
  by (simp add: preds_def)

lemma succs_del [simp]: "succs (h(a := None)) u = (if u = a then [] else succs h u)"
  by (simp add: succs_def)

lemma preds_del [simp]: "preds (h(a := None)) v = (if v = a then [] else preds h v)"
  by (simp add: preds_def)

lemma succs_dom: "v \<in> set (succs h u) \<Longrightarrow> u \<in> dom h"
  by (cases "h u") (auto simp: succs_def)

lemma preds_dom: "u \<in> set (preds h v) \<Longrightarrow> v \<in> dom h"
  by (cases "h v") (auto simp: preds_def)

lemma own_heap_pred: "own_heap h \<longleftrightarrow> (\<forall>a. pred_option (own_edges a) (h a))"
  by (auto simp: own_heap_def option.pred_set)

lemma own_heap_upd: "own_heap h \<Longrightarrow> own_edges a n \<Longrightarrow> own_heap (h(a \<mapsto> n))"
  by (auto simp: own_heap_def split: if_splits)

lemma own_heapD: "own_heap h \<Longrightarrow> h a = Some n \<Longrightarrow> own_edges a n"
  by (simp add: own_heap_def)

lemma edge_rel_iff: "(u, v) \<in> edge_rel h \<longleftrightarrow> v \<in> set (succs h u)"
  by (simp add: edge_rel_def)

lemma wf_heapD:
  assumes "wf_heap h"
  shows "finite (dom h)" and "distinct (succs h a)" and "distinct (preds h a)"
    and "own_heap h"
    and "v \<in> set (succs h u) \<longleftrightarrow> u \<in> set (preds h v)"
  using assms by (auto simp: wf_heap_def)

lemma wf_edge_preds: "wf_heap h \<Longrightarrow> (u, v) \<in> edge_rel h \<longleftrightarrow> u \<in> set (preds h v)"
  by (simp add: edge_rel_iff wf_heapD)

lemma wf_succ_dom: "wf_heap h \<Longrightarrow> w \<in> set (succs h u) \<Longrightarrow> w \<in> dom h"
  using preds_dom wf_heapD(5) by blast

lemma wf_pred_dom: "wf_heap h \<Longrightarrow> u \<in> set (preds h w) \<Longrightarrow> u \<in> dom h"
  using succs_dom wf_heapD(5) by blast

lemma wf_edge_dom: "wf_heap h \<Longrightarrow> edge_rel h \<subseteq> dom h \<times> dom h"
  using succs_dom preds_dom wf_heapD(5) unfolding edge_rel_def by blast

lemma wf_heap_empty [simp]: "wf_heap Map.empty"
  by (simp add: wf_heap_def own_heap_def succs_def preds_def)

lemma isConnectedWith_edge:
  "u \<in> dom h \<Longrightarrow> isConnectedWith u v h = Some ((u, v) \<in> edge_rel h)"
  by (auto simp: isConnectedWith_def edge_rel_iff succs_def list_ex_map_eq)

text \<open>
  An update of one node that leaves its edge vectors alone is invisible in the abstract graph.
\<close>

definition keeps_edges :: "(Node \<Rightarrow> Node) \<Rightarrow> bool" where
  "keeps_edges f \<longleftrightarrow> (\<forall>n. n_exitEdges (f n) = n_exitEdges n \<and> n_entryEdges (f n) = n_entryEdges n)"

named_theorems node_frames \<open>node updates that keep the edge vectors\<close>

lemma keeps_edges_setters [node_frames]:
  "keeps_edges (addTime t)" "keeps_edges (setLastTime t)" "keeps_edges (setLowerUpper l u)"
  "keeps_edges (setLoopCounter c)" "keeps_edges (setThreadId i)" "keeps_edges (initPapiVals k)"
  by (simp_all add: keeps_edges_def addTime_def setLastTime_def setLowerUpper_def
      setLoopCounter_def setThreadId_def initPapiVals_def)

lemma upd_node_keeps:
  assumes "upd_node a f h = Some h'" and "keeps_edges f"
  shows "succs h' = succs h" and "preds h' = preds h" and "dom h' = dom h"
    and "edge_rel h' = edge_rel h"
proof -
  obtain n where n: "h a = Some n" "h' = h(a \<mapsto> f n)" using assms(1) by (auto simp: opt_simps)
  then show "succs h' = succs h" and "preds h' = preds h"
    using assms(2) by (auto simp: keeps_edges_def succs_def preds_def)
  then show "edge_rel h' = edge_rel h" by (simp add: edge_rel_def)
  show "dom h' = dom h" using n by auto
qed

lemma upd_node_keeps_wf:
  assumes "upd_node a f h = Some h'" and "keeps_edges f" and "wf_heap h"
  shows "wf_heap h'"
proof -
  have "own_heap h'"
    using assms by (auto simp: opt_simps keeps_edges_def own_edges_def wf_heap_def
        intro!: own_heap_upd dest: own_heapD)
  then show ?thesis using assms(3) by (simp add: wf_heap_def upd_node_keeps [OF assms(1,2)])
qed

text \<open>The same for an update of every node at once.\<close>

definition map_heap :: "(addr \<Rightarrow> Node \<Rightarrow> Node) \<Rightarrow> heap \<Rightarrow> heap" where
  "map_heap f h = (\<lambda>a. map_option (f a) (h a))"

lemma map_heap_frame:
  assumes "\<And>a. keeps_edges (f a)"
  shows "succs (map_heap f h) = succs h" and "preds (map_heap f h) = preds h"
    and "dom (map_heap f h) = dom h" and "edge_rel (map_heap f h) = edge_rel h"
    and "wf_heap (map_heap f h) = wf_heap h"
proof -
  show su: "succs (map_heap f h) = succs h" and pr: "preds (map_heap f h) = preds h"
    using assms by (auto simp: map_heap_def keeps_edges_def succs_def preds_def fun_eq_iff
        split: option.splits)
  show dom: "dom (map_heap f h) = dom h" by (auto simp: map_heap_def)
  show "edge_rel (map_heap f h) = edge_rel h" by (simp add: edge_rel_def su)
  have "own_edges a (f a n) = own_edges a n" for a n
    using assms by (simp add: keeps_edges_def own_edges_def)
  then have "own_heap (map_heap f h) = own_heap h"
    by (simp add: own_heap_pred map_heap_def option.pred_map o_def)
  then show "wf_heap (map_heap f h) = wf_heap h" by (simp add: wf_heap_def su pr dom)
qed

lemma map_heap_comp: "map_heap f (map_heap g h) = map_heap (\<lambda>a. f a \<circ> g a) h"
  by (simp add: map_heap_def fun_eq_iff option.map_comp)

lemma map_heap_upd:
  assumes "h a = Some n"
  shows "(map_heap f h)(a \<mapsto> g (f a n)) = map_heap (f(a := g \<circ> f a)) h"
  using assms by (auto simp: map_heap_def fun_eq_iff)

section \<open>connectNodes and disconnectNodes\<close>

lemma connectNodes_cases:
  assumes "u \<in> dom h" and "v \<in> dom h"
  obtains (old) "(u, v) \<in> edge_rel h" "connectNodes u v h = Some h"
  | (new) h' where "(u, v) \<notin> edge_rel h" "connectNodes u v h = Some h'" "dom h' = dom h"
      "\<And>w. succs h' w = (if w = u then succs h u @ [v] else succs h w)"
      "\<And>w. preds h' w = (if w = v then preds h v @ [u] else preds h w)"
      "own_heap h \<Longrightarrow> own_heap h'"
proof (cases "(u, v) \<in> edge_rel h")
  case True
  with assms show ?thesis by (intro old) (simp_all add: connectNodes_def isConnectedWith_edge)
next
  case False
  define e where "e = new_Edge u v"
  obtain nu where nu: "h u = Some nu" using assms by auto
  define h1 where "h1 = h(u \<mapsto> nu\<lparr>n_exitEdges := n_exitEdges nu @ [e]\<rparr>)"
  have "v \<in> dom h1" using assms by (simp add: h1_def)
  then obtain nv where nv: "h1 v = Some nv" by blast
  define h' where "h' = h1(v \<mapsto> nv\<lparr>n_entryEdges := n_entryEdges nv @ [e]\<rparr>)"
  have "connectNodes u v h = Some h'"
    using False assms nu nv
    by (simp add: connectNodes_def isConnectedWith_edge upd_node_def e_def h1_def h'_def Let_def)
  moreover have "dom h' = dom h" using assms by (auto simp: h'_def h1_def)
  moreover have "succs h' w = (if w = u then succs h u @ [v] else succs h w)" for w
    using nu nv by (auto simp: h'_def h1_def succs_def e_def new_Edge_def)
  moreover have "preds h' w = (if w = v then preds h v @ [u] else preds h w)" for w
    using nu nv by (auto simp: h'_def h1_def preds_def e_def new_Edge_def)
  moreover have "own_heap h'" if "own_heap h"
  proof -
    have own1: "own_heap h1"
      using own_heapD [OF that nu] unfolding h1_def
      by (intro own_heap_upd that) (auto simp: own_edges_def e_def new_Edge_def)
    then show ?thesis using own_heapD [OF own1 nv] unfolding h'_def
      by (intro own_heap_upd) (auto simp: own_edges_def e_def new_Edge_def)
  qed
  ultimately show ?thesis using False by (intro new)
qed

lemma connectNodes_spec:
  assumes "wf_heap h" and "u \<in> dom h" and "v \<in> dom h"
  shows "\<exists>h'. connectNodes u v h = Some h' \<and> wf_heap h' \<and> dom h' = dom h
     \<and> edge_rel h' = insert (u, v) (edge_rel h)"
  using assms(2,3)
proof (cases rule: connectNodes_cases)
  case old
  with assms(1) show ?thesis by (auto simp: insert_absorb)
next
  case (new h')
  have notin: "v \<notin> set (succs h u)" "u \<notin> set (preds h v)"
    using new(1) assms(1) by (auto simp: edge_rel_iff wf_heapD)
  then have "wf_heap h'"
    using assms(1) new(3-6) by (auto simp: wf_heap_def split: if_splits)
  moreover have "edge_rel h' = insert (u, v) (edge_rel h)"
    using new(4) by (auto simp: edge_rel_def split: if_splits)
  ultimately show ?thesis using new by blast
qed

lemma disconnectNodes_spec:
  assumes wf: "wf_heap h" and "u \<in> dom h" and "v \<in> dom h"
  shows "\<exists>h'. disconnectNodes u v h = Some h' \<and> wf_heap h' \<and> dom h' = dom h
     \<and> edge_rel h' = edge_rel h - {(u, v)}"
proof -
  let ?ex = "\<lambda>n. n\<lparr>n_exitEdges := erase_first (\<lambda>e. getTarget e = v) (n_exitEdges n)\<rparr>"
  let ?en = "\<lambda>n. n\<lparr>n_entryEdges := erase_first (\<lambda>e. getSource e = u) (n_entryEdges n)\<rparr>"
  obtain nu where nu: "h u = Some nu" using assms by auto
  define h1 where "h1 = h(u \<mapsto> ?ex nu)"
  have "v \<in> dom h1" using assms by (simp add: h1_def)
  then obtain nv where nv: "h1 v = Some nv" by blast
  define h' where "h' = h1(v \<mapsto> ?en nv)"
  have run: "disconnectNodes u v h = Some h'"
    using nu nv by (simp add: disconnectNodes_def upd_node_def h'_def h1_def)
  have dom: "dom h' = dom h" using assms by (auto simp: h'_def h1_def)
  have su: "succs h' w = (if w = u then removeAll v (succs h u) else succs h w)" for w
    using nu nv wf_heapD(2) [OF wf, of u]
    by (auto simp: h'_def h1_def succs_def map_erase_first_key)
  have pr: "preds h' w = (if w = v then removeAll u (preds h v) else preds h w)" for w
    using nu nv wf_heapD(3) [OF wf, of v]
    by (auto simp: h'_def h1_def preds_def map_erase_first_key split: if_splits)
  have own1: "own_heap h1"
    using own_heapD [OF wf_heapD(4) [OF wf] nu] set_erase_first_subset unfolding h1_def
    by (intro own_heap_upd wf_heapD(4) [OF wf]) (fastforce simp: own_edges_def)
  have own: "own_heap h'"
    using own_heapD [OF own1 nv] set_erase_first_subset unfolding h'_def
    by (intro own_heap_upd own1) (fastforce simp: own_edges_def)
  have "wf_heap h'"
    using wf own unfolding wf_heap_def by (auto simp: dom su pr distinct_removeAll)
  moreover have "edge_rel h' = edge_rel h - {(u, v)}"
    by (auto simp: edge_rel_def su split: if_splits)
  ultimately show ?thesis using run dom by blast
qed

section \<open>The contract of a directed graph\<close>

locale digraph_ops =
  fixes verts :: "'g \<Rightarrow> 'v set"
    and edges :: "'g \<Rightarrow> ('v \<times> 'v) set"
    and ginv :: "'g \<Rightarrow> bool"
    and connect :: "'v \<Rightarrow> 'v \<Rightarrow> 'g \<Rightarrow> 'g option"
    and disconnect :: "'v \<Rightarrow> 'v \<Rightarrow> 'g \<Rightarrow> 'g option"
    and connected :: "'v \<Rightarrow> 'v \<Rightarrow> 'g \<Rightarrow> bool option"
  assumes edges_verts: "ginv g \<Longrightarrow> edges g \<subseteq> verts g \<times> verts g"
    and connect_ok: "ginv g \<Longrightarrow> u \<in> verts g \<Longrightarrow> v \<in> verts g \<Longrightarrow>
      \<exists>g'. connect u v g = Some g' \<and> ginv g' \<and> verts g' = verts g
        \<and> edges g' = insert (u, v) (edges g)"
    and disconnect_ok: "ginv g \<Longrightarrow> u \<in> verts g \<Longrightarrow> v \<in> verts g \<Longrightarrow>
      \<exists>g'. disconnect u v g = Some g' \<and> ginv g' \<and> verts g' = verts g
        \<and> edges g' = edges g - {(u, v)}"
    and connected_ok: "u \<in> verts g \<Longrightarrow> connected u v g = Some ((u, v) \<in> edges g)"
begin

lemma connect_run:
  assumes "ginv g" "u \<in> verts g" "v \<in> verts g" "connect u v g = Some g'"
  shows "ginv g'" "verts g' = verts g" "edges g' = insert (u, v) (edges g)"
  using connect_ok [OF assms(1-3)] assms(4) by auto

lemma disconnect_run:
  assumes "ginv g" "u \<in> verts g" "v \<in> verts g" "disconnect u v g = Some g'"
  shows "ginv g'" "verts g' = verts g" "edges g' = edges g - {(u, v)}"
  using disconnect_ok [OF assms(1-3)] assms(4) by auto

text \<open>An edge into a vertex that cannot reach its source closes no cycle; in particular an edge
  into a different vertex without exits.\<close>

lemma connect_acyclic:
  assumes "ginv g" "u \<in> verts g" "v \<in> verts g" "connect u v g = Some g'"
    and "acyclic (edges g)" and "(v, u) \<notin> (edges g)\<^sup>*"
  shows "acyclic (edges g')"
  using connect_run(3) [OF assms(1-4)] assms(5,6) by (simp add: dag_intros)

lemma connect_dead_end_acyclic:
  assumes "ginv g" "u \<in> verts g" "v \<in> verts g" "connect u v g = Some g'"
    and "acyclic (edges g)" and "u \<noteq> v" and "\<And>w. (v, w) \<notin> edges g"
  shows "acyclic (edges g')"
proof (rule connect_acyclic [OF assms(1-5)])
  show "(v, u) \<notin> (edges g)\<^sup>*"
    using rtrancl_dead_end [OF _ assms(7)] assms(6) by metis
qed

lemma disconnect_acyclic:
  assumes "ginv g" "u \<in> verts g" "v \<in> verts g" "disconnect u v g = Some g'"
    and "acyclic (edges g)"
  shows "acyclic (edges g')"
  using disconnect_run(3) [OF assms(1-4)] assms(5) by (auto intro: dag_intros)

text \<open>Disconnecting what was connected a moment ago restores the edges.\<close>

lemma connect_disconnect:
  assumes "ginv g" "u \<in> verts g" "v \<in> verts g" "(u, v) \<notin> edges g"
  shows "\<exists>g' g''. connect u v g = Some g' \<and> disconnect u v g' = Some g''
    \<and> ginv g'' \<and> verts g'' = verts g \<and> edges g'' = edges g"
proof -
  obtain g' where g': "connect u v g = Some g'" "ginv g'" "verts g' = verts g"
      "edges g' = insert (u, v) (edges g)"
    using connect_ok [OF assms(1-3)] by blast
  then show ?thesis using disconnect_ok [of g' u v] assms by auto
qed

text \<open>A sequence of connections adds exactly the listed edges.\<close>

lemma connect_all:
  assumes "ginv g" and "set ps \<subseteq> verts g \<times> verts g"
  shows "\<exists>g'. foldM (\<lambda>(u, v). connect u v) ps g = Some g' \<and> ginv g' \<and> verts g' = verts g
    \<and> edges g' = edges g \<union> set ps"
  using assms
proof (induction ps arbitrary: g)
  case (Cons p ps)
  obtain u v where p: "p = (u, v)" by (cases p)
  with Cons.prems obtain g1 where g1: "connect u v g = Some g1" "ginv g1" "verts g1 = verts g"
      "edges g1 = insert (u, v) (edges g)"
    using connect_ok [of g u v] by auto
  with Cons.IH [of g1] Cons.prems show ?case by (auto simp: p)
qed simp

end

interpretation hg: digraph_ops "dom :: heap \<Rightarrow> addr set" edge_rel wf_heap
  connectNodes disconnectNodes isConnectedWith
  by unfold_locales
    (auto simp: isConnectedWith_edge dest: wf_edge_dom [THEN subsetD]
      intro: connectNodes_spec disconnectNodes_spec)

section \<open>Well-formed task graphs\<close>

text \<open>
  The invariant of the whole graph object: a well-formed heap below the allocator's mark, and
  \<open>_graphNodes\<close> is exactly the index by identifier of the allocated nodes, whose identifiers
  were handed out already.
\<close>

definition ids_ok :: "'a tdg_scheme \<Rightarrow> bool" where
  "ids_ok s \<longleftrightarrow> 1 \<le> g_nextId s \<and> g_nextId s < 2 ^ 63
     \<and> (\<forall>a n. g_heap s a = Some n \<longrightarrow> 0 \<le> n_id n \<and> n_id n < g_nextId s)"

definition index_ok :: "'a tdg_scheme \<Rightarrow> bool" where
  "index_ok s \<longleftrightarrow> map_ok (g_graphNodes s)
     \<and> (\<forall>i a. map_of (g_graphNodes s) i = Some a \<longleftrightarrow> (\<exists>n. g_heap s a = Some n \<and> n_id n = i))"

definition wf_tdg :: "'a tdg_scheme \<Rightarrow> bool" where
  "wf_tdg s \<longleftrightarrow> wf_heap (g_heap s) \<and> (\<forall>a \<in> dom (g_heap s). a < g_brk s)
     \<and> ids_ok s \<and> index_ok s"

lemma wf_new_Graph: "wf_tdg new_Graph"
  by (simp add: wf_tdg_def ids_ok_def index_ok_def new_Graph_def)

lemma index_inj:
  assumes "index_ok s"
  shows "inj_on (map_of (g_graphNodes s)) (dom (map_of (g_graphNodes s)))"
  using assms unfolding index_ok_def by (fastforce intro!: inj_onI simp: dom_def)

text \<open>Iterating \<open>_graphNodes\<close> meets every allocated node exactly once.\<close>

lemma graphNodes_iter:
  assumes "index_ok s"
  shows "distinct (map snd (g_graphNodes s))"
    and "set (map snd (g_graphNodes s)) = dom (g_heap s)"
proof -
  have ok: "map_ok (g_graphNodes s)" using assms by (simp add: index_ok_def)
  show "distinct (map snd (g_graphNodes s))"
    using smap.iter_values_distinct [OF ok index_inj [OF assms]] by simp
  have "ran (map_of (g_graphNodes s)) = dom (g_heap s)"
    using assms by (auto simp: index_ok_def ran_def dom_def)
  then show "set (map snd (g_graphNodes s)) = dom (g_heap s)"
    using smap.iter_values [OF ok] by simp
qed

section \<open>Properties\<close>

text \<open>A graph of three nodes for examples: a root that leads to a chunk and to an explicit task.\<close>

definition sample_graph :: tdg where
  "sample_graph = \<lparr>g_heap = [
       0 \<mapsto> (new_Node 0 ROOT_TASK 2)\<lparr>n_exitEdges := [new_Edge 0 1, new_Edge 0 2]\<rparr>,
       1 \<mapsto> setThreadId 0 (setLoopCounter 7 ((new_Node 1 CHUNK_TASK 3)\<lparr>n_entryEdges := [new_Edge 0 1]\<rparr>)),
       2 \<mapsto> (new_Node 2 EXP_TASK 1)\<lparr>n_entryEdges := [new_Edge 0 2]\<rparr>],
     g_brk = 3, g_nextId = 3, g_graphNodes = [(0, 0), (1, 1), (2, 2)]\<rparr>"

lemma sample_succs:
  "succs (g_heap sample_graph) u = (if u = 0 then [1, 2] else [])"
  "preds (g_heap sample_graph) u = (if u = 1 \<or> u = 2 then [0] else [])"
  by (auto simp: sample_graph_def succs_def preds_def new_Node_def new_Edge_def setThreadId_def setLoopCounter_def)

lemma sample_dom: "dom (g_heap sample_graph) = {0, 1, 2}"
  by (auto simp: sample_graph_def)

lemma sample_edges: "edge_rel (g_heap sample_graph) = {(0, 1), (0, 2)}"
  by (auto simp: edge_rel_def sample_succs)

lemma wf_sample: "wf_tdg sample_graph"
proof -
  have "own_heap (g_heap sample_graph)"
    by (auto simp: own_heap_def own_edges_def sample_graph_def new_Node_def new_Edge_def setThreadId_def
        setLoopCounter_def split: if_splits)
  then have "wf_heap (g_heap sample_graph)" by (auto simp: wf_heap_def sample_dom sample_succs)
  moreover have "ids_ok sample_graph" "index_ok sample_graph"
    by (auto simp: ids_ok_def index_ok_def sample_graph_def map_ok_def new_Node_def setThreadId_def
        setLoopCounter_def split: if_splits)
  moreover have "g_brk sample_graph = 3" by (simp add: sample_graph_def)
  ultimately show ?thesis by (auto simp: wf_tdg_def sample_dom)
qed

lemma wf_sample_heap: "wf_heap (g_heap sample_graph)"
  using wf_sample by (simp add: wf_tdg_def)

lemma acyclic_sample: "acyclic (edge_rel (g_heap sample_graph))"
  by (rule acyclicI_order [where f = "\<lambda>x. - int x"]) (auto simp: sample_edges)

text \<open>
  C26. \<open>connectNodes\<close> refines the insertion of an edge into an edge set: on a well-formed heap,
  for two allocated nodes, it returns, keeps the heap well-formed (both edge vectors in step, no
  parallel edges) and the set of nodes, and adds exactly the edge from source to target.  An edge
  that exists already is not added again: the heap is unchanged.
\<close>

theorem connectNodes_refines_insert:
  assumes "wf_heap h" and "u \<in> dom h" and "v \<in> dom h"
  shows "\<exists>h'. connectNodes u v h = Some h' \<and> wf_heap h' \<and> dom h' = dom h
    \<and> edge_rel h' = insert (u, v) (edge_rel h) \<and> ((u, v) \<in> edge_rel h \<longrightarrow> h' = h)"
proof -
  obtain h' where h': "connectNodes u v h = Some h'" "wf_heap h'" "dom h' = dom h"
      "edge_rel h' = insert (u, v) (edge_rel h)"
    using hg.connect_ok [OF assms] by blast
  moreover have "h' = h" if "(u, v) \<in> edge_rel h"
    using h'(1) isConnectedWith_edge [OF assms(2), of v] that by (simp add: connectNodes_def)
  ultimately show ?thesis by blast
qed

theorem connectNodes_refines_insert_witness:
  "\<exists>h'. connectNodes 1 2 (g_heap sample_graph) = Some h' \<and> wf_heap h'
    \<and> edge_rel h' = insert (1, 2) (edge_rel (g_heap sample_graph))"
  using connectNodes_refines_insert [OF wf_sample_heap, of 1 2] by (auto simp: sample_dom)

text \<open>
  \<open>disconnectNodes\<close> undoes \<open>connectNodes\<close>: connecting two nodes that had no edge between
  them and disconnecting them again gives back the same heap, every edge vector in its old order.
\<close>

theorem disconnect_undoes_connect:
  assumes "wf_heap h" and "u \<in> dom h" and "v \<in> dom h" and "(u, v) \<notin> edge_rel h"
  shows "\<exists>h'. connectNodes u v h = Some h' \<and> disconnectNodes u v h' = Some h"
proof -
  let ?e = "new_Edge u v"
  let ?f = "\<lambda>n. n\<lparr>n_exitEdges := n_exitEdges n @ [?e]\<rparr>" and ?g = "\<lambda>n. n\<lparr>n_entryEdges := n_entryEdges n @ [?e]\<rparr>"
  obtain n m where n: "h u = Some n" and m: "h v = Some m" using assms(2,3) by blast
  define h1 where "h1 = h(u \<mapsto> ?f n)"
  obtain m1 where m1: "h1 v = Some m1" "m1 = (if v = u then ?f n else m)" using m n by (auto simp: h1_def)
  have run: "connectNodes u v h = Some (h1(v \<mapsto> ?g m1))"
    using isConnectedWith_edge [OF assms(2), of v] assms(4) n m1(1)
    by (simp add: connectNodes_def upd_node_def h1_def Let_def)
  have ex: "erase_first (\<lambda>e. getTarget e = v) (n_exitEdges n @ [?e]) = n_exitEdges n"
    using assms(4) n by (intro erase_first_snoc) (auto simp: edge_rel_def succs_def new_Edge_def)
  have "u \<notin> set (preds h v)" using wf_edge_preds [OF assms(1), of u v] assms(4) by simp
  then have en: "erase_first (\<lambda>e. getSource e = u) (n_entryEdges m @ [?e]) = n_entryEdges m"
    using m by (intro erase_first_snoc) (auto simp: preds_def new_Edge_def)
  have "disconnectNodes u v (h1(v \<mapsto> ?g m1)) = Some h"
    using n m m1 ex en
    by (cases "u = v") (auto simp: disconnectNodes_def upd_node_def h1_def fun_eq_iff)
  with run show ?thesis by blast
qed

theorem disconnect_undoes_connect_witness:
  "\<exists>h'. connectNodes 1 2 (g_heap sample_graph) = Some h'
    \<and> disconnectNodes 1 2 h' = Some (g_heap sample_graph)"
  using disconnect_undoes_connect [OF wf_sample_heap, of 1 2] by (simp add: sample_dom sample_edges)

text \<open>
  The order and repetition of calls does not matter: any sequence of \<open>connectNodes\<close> on
  allocated nodes returns, and adds exactly the edges it lists, each once.
\<close>

theorem connectNodes_sequence:
  assumes "wf_heap h" and "set ps \<subseteq> dom h \<times> dom h"
  shows "\<exists>h'. foldM (\<lambda>(u, v). connectNodes u v) ps h = Some h' \<and> wf_heap h' \<and> dom h' = dom h
    \<and> edge_rel h' = edge_rel h \<union> set ps"
  by (rule hg.connect_all [OF assms])

theorem connectNodes_sequence_witness:
  "\<exists>h'. foldM (\<lambda>(u, v). connectNodes u v) [(1, 2), (1, 2), (0, 2)] (g_heap sample_graph) = Some h'
    \<and> wf_heap h' \<and> edge_rel h' = {(0, 1), (0, 2), (1, 2)}"
  using connectNodes_sequence [OF wf_sample_heap, of "[(1, 2), (1, 2), (0, 2)]"]
  by (auto simp: sample_dom sample_edges)

text \<open>
  \<open>isConnectedWith\<close> and \<open>getConnection\<close> agree with the edges of the graph: the first tells
  whether there is an edge to the target, the second returns that edge, or a null pointer.
\<close>

theorem connection_queries:
  assumes "wf_heap h" and "u \<in> dom h"
  shows "isConnectedWith u v h = Some ((u, v) \<in> edge_rel h)
    \<and> getConnection u v h = Some (if (u, v) \<in> edge_rel h then Some (new_Edge u v) else None)"
proof -
  obtain n where n: "h u = Some n" using assms(2) by blast
  have own: "\<forall>e \<in> set (n_exitEdges n). getSource e = u"
    using own_heapD [OF wf_heapD(4) [OF assms(1)] n] by (simp add: own_edges_def)
  have "List.find (\<lambda>e. getTarget e = v) es = (if v \<in> getTarget ` set es then Some (new_Edge u v) else None)"
    if "\<forall>e \<in> set es. getSource e = u" for es
    using that by (induction es) (auto simp: new_Edge_def)
  from this [OF own] show ?thesis
    using isConnectedWith_edge [OF assms(2), of v] n by (simp add: getConnection_def edge_rel_def succs_def)
qed

theorem connection_queries_witness:
  "isConnectedWith 0 2 (g_heap sample_graph) = Some True
    \<and> getConnection 0 2 (g_heap sample_graph) = Some (Some (new_Edge 0 2))
    \<and> getConnection 1 2 (g_heap sample_graph) = Some None"
  using connection_queries [OF wf_sample_heap, of 0 2] connection_queries [OF wf_sample_heap, of 1 2]
  by (simp add: sample_dom sample_edges)

text \<open>
  \<open>maxPredFinishTime\<close> returns, and its result is the largest finish time of the
  predecessors, or 0 when none is larger.
\<close>

theorem maxPredFinishTime_is_max:
  assumes "wf_heap h" and "a \<in> dom h"
  shows "\<exists>m. maxPredFinishTime a h = Some m \<and> 0 \<le> m
    \<and> (\<forall>u \<in> set (preds h a). n_finishTime (the (h u)) \<le> m)
    \<and> (m = 0 \<or> (\<exists>u \<in> set (preds h a). m = n_finishTime (the (h u))))"
proof -
  obtain n where n: "h a = Some n" using assms(2) by blast
  let ?f = "\<lambda>e. n_finishTime (the (h (getSource e)))"
  have pr: "preds h a = map getSource (n_entryEdges n)" using n by (simp add: preds_def)
  then have "getSource e \<in> dom h" if "e \<in> set (n_entryEdges n)" for e
    using wf_pred_dom [OF assms(1), of "getSource e" a] that by auto
  then have "maxPredFinishTime a h = Some (fold (\<lambda>e m. max (?f e) m) (n_entryEdges n) 0)"
    unfolding maxPredFinishTime_def n by (simp, intro foldM_total) fastforce
  moreover have "fold (\<lambda>e m. max (?f e) m) (n_entryEdges n) 0 = fold (\<lambda>e m. max m (?f e)) (n_entryEdges n) 0"
    by (simp add: max.commute)
  ultimately show ?thesis
    using fold_max_ge_init [of 0 ?f "n_entryEdges n"] fold_max_ge_elem [of _ "n_entryEdges n" ?f 0]
      fold_max_attained [of ?f "n_entryEdges n" 0]
    by (auto simp: pr)
qed

theorem maxPredFinishTime_is_max_witness:
  "\<exists>m. maxPredFinishTime 1 (g_heap sample_graph) = Some m \<and> 0 \<le> m"
  using maxPredFinishTime_is_max [OF wf_sample_heap, of 1] by (auto simp: sample_dom)

text \<open>
  \<open>addTime\<close> never loses time: when the clock has not gone back since the node's last
  timestamp, the node's total (a binary64 number) does not get smaller, whatever the rounding; a
  total that was not negative stays so, and the timestamp is the clock's.
\<close>

theorem addTime_accumulates:
  assumes "representable (n_totalTime n)" and "n_lastTime n \<le> now"
  shows "n_totalTime n \<le> n_totalTime (addTime now n) \<and> representable (n_totalTime (addTime now n))
    \<and> n_lastTime (addTime now n) = now"
  using assms fadd_increasing [OF assms(1) fsub_nonneg [OF assms(2)]] by (simp add: addTime_def)

theorem addTime_accumulates_witness:
  "n_totalTime (setLastTime 4 (new_Node 1 IMP_TASK 2)) \<le> n_totalTime (addTime 7 (setLastTime 4 (new_Node 1 IMP_TASK 2)))
    \<and> n_totalTime (addTime 7 (setLastTime 4 (new_Node 1 IMP_TASK 2))) = 5"
proof -
  have "representable (n_totalTime (setLastTime 4 (new_Node 1 IMP_TASK 2)))"
    using representable_rnd [of 2] by (simp add: setLastTime_def new_Node_def)
  then show ?thesis
    using addTime_accumulates [of "setLastTime 4 (new_Node 1 IMP_TASK 2)" 7]
    by (simp add: setLastTime_def new_Node_def addTime_def double_eval)
qed

text \<open>
  \<open>removeNode\<close> undoes \<open>addNode\<close>: entering a node under an identifier that is not in use and
  erasing it again gives back the same index, in the same order.
\<close>

theorem removeNode_undoes_addNode:
  assumes "map_ok (g_graphNodes s)" and "map_of (g_graphNodes s) i = None"
  shows "removeNode i (addNode i a s) = s"
  using map_erase_map_set [OF assms] by (simp add: addNode_def removeNode_def)

theorem removeNode_undoes_addNode_witness:
  "removeNode 5 (addNode 5 9 sample_graph) = sample_graph"
  by (rule removeNode_undoes_addNode) (simp_all add: sample_graph_def map_ok_def)

end
