(* ===== verification/Longest_Path.thy ===== *)
theory Longest_Path
  imports Tdg_Prelude
begin

text \<open>
  Abstract specification of the two graph algorithms of libtdg: topological orders, and the
  dynamic program that visits the nodes in such an order and gives each the best weight of a
  path that ends there.

  A path is a list of vertices, consecutive ones joined by an edge; its weight extends, vertex
  by vertex, the weight of its first vertex.  The locale \<open>longest_path\<close> asks for one law only,
  that extending is monotone, so it covers the integer lengths and levels as well as the
  rounded floating-point times.  Inside it: what the dynamic program computes is the maximum
  over all paths (\<open>dp_upper\<close>, \<open>dp_attained\<close>).
\<close>

section \<open>Topological orders\<close>

text \<open>Every successor of a listed vertex comes later in the list, or is in the given set.\<close>

primrec topo_upto :: "('v \<Rightarrow> 'v list) \<Rightarrow> 'v set \<Rightarrow> 'v list \<Rightarrow> bool" where
  "topo_upto sc S [] \<longleftrightarrow> True"
| "topo_upto sc S (x # xs) \<longleftrightarrow> set (sc x) \<subseteq> set xs \<union> S \<and> topo_upto sc S xs"

abbreviation topo_ordered :: "('v \<Rightarrow> 'v list) \<Rightarrow> 'v list \<Rightarrow> bool" where
  "topo_ordered sc l \<equiv> topo_upto sc {} l"

lemma topo_upto_mono: "topo_upto sc S l \<Longrightarrow> S \<subseteq> T \<Longrightarrow> topo_upto sc T l"
  by (induction l) auto

lemma topo_upto_append:
  "topo_upto sc S (xs @ ys) \<longleftrightarrow> topo_upto sc (set ys \<union> S) xs \<and> topo_upto sc S ys"
  by (induction xs) auto

lemma topo_upto_drop:
  "topo_upto sc (insert v S) l \<Longrightarrow> (\<And>u. u \<in> set l \<Longrightarrow> v \<notin> set (sc u)) \<Longrightarrow> topo_upto sc S l"
  by (induction l) auto

lemma topo_upto_cong: "(\<And>u. u \<in> set l \<Longrightarrow> sc u = sc' u) \<Longrightarrow> topo_upto sc S l = topo_upto sc' S l"
  by (induction l) auto

text \<open>A list sorted by a rank that grows along the edges is a topological order.\<close>

lemma sorted_rank_topo:
  fixes rank :: "'v \<Rightarrow> 'r::linorder"
  assumes "sorted (map rank l)" and "\<And>u w. u \<in> set l \<Longrightarrow> w \<in> set (sc u) \<Longrightarrow> w \<in> set l \<union> S"
    and "\<And>u w. u \<in> set l \<Longrightarrow> w \<in> set (sc u) \<Longrightarrow> rank u < rank w"
  shows "topo_upto sc S l"
  using assms
proof (induction l arbitrary: S)
  case (Cons x xs)
  have step: "set (sc x) \<subseteq> set xs \<union> S" using Cons.prems(2,3) [of x] by fastforce
  have "w \<in> set xs \<union> S" if "u \<in> set xs" "w \<in> set (sc u)" for u w
  proof (cases "w = x")
    case True
    with Cons.prems(1) Cons.prems(3) [of u w] that show ?thesis by fastforce
  next
    case False
    with Cons.prems(2) [of u w] that show ?thesis by auto
  qed
  then have "topo_upto sc S xs" using Cons.prems by (intro Cons.IH) auto
  with step show ?case by simp
qed simp

text \<open>Seen from the entry edges: in a duplicate-free order the predecessors come first.\<close>

lemma topo_preds_first:
  assumes "topo_ordered sc (xs @ v # ys)" and "distinct (xs @ v # ys)"
    and "\<And>u w. u \<in> set (pr w) \<longleftrightarrow> w \<in> set (sc u)" and "set (pr v) \<subseteq> set (xs @ v # ys)"
  shows "set (pr v) \<subseteq> set xs"
proof
  fix u assume u: "u \<in> set (pr v)"
  then have "v \<in> set (sc u)" using assms(3) by simp
  moreover have "set (sc w) \<subseteq> set ys" if w: "w \<in> set (v # ys)" for w
  proof -
    obtain as bs where "v # ys = as @ w # bs" using split_list [OF w] by blast
    then have "set (sc w) \<subseteq> set bs"
      using assms(1) by (simp add: topo_upto_append)
    with \<open>v # ys = as @ w # bs\<close> show ?thesis by (cases as) auto
  qed
  moreover have "v \<notin> set ys" using assms(2) by simp
  ultimately show "u \<in> set xs" using u assms(4) by auto
qed

definition preds_first :: "('v \<Rightarrow> 'v list) \<Rightarrow> 'v list \<Rightarrow> bool" where
  "preds_first pr l \<longleftrightarrow> (\<forall>xs v ys. l = xs @ v # ys \<longrightarrow> set (pr v) \<subseteq> set xs)"

lemma preds_first_Nil [simp]: "preds_first pr []"
  by (simp add: preds_first_def)

lemma preds_first_snoc [simp]:
  "preds_first pr (l @ [x]) \<longleftrightarrow> preds_first pr l \<and> set (pr x) \<subseteq> set l"
proof
  assume first: "preds_first pr (l @ [x])"
  have "preds_first pr l"
    using first unfolding preds_first_def by (metis append_Cons append_assoc)
  moreover have "set (pr x) \<subseteq> set l" using first by (simp add: preds_first_def)
  ultimately show "preds_first pr l \<and> set (pr x) \<subseteq> set l" ..
next
  assume first: "preds_first pr l \<and> set (pr x) \<subseteq> set l"
  show "preds_first pr (l @ [x])"
    unfolding preds_first_def
  proof (intro allI impI)
    fix xs v ys assume "l @ [x] = xs @ v # ys"
    then show "set (pr v) \<subseteq> set xs"
      using first by (cases ys rule: rev_cases) (auto simp: preds_first_def)
  qed
qed

lemma preds_first_closed: "preds_first pr l \<Longrightarrow> v \<in> set l \<Longrightarrow> set (pr v) \<subseteq> set l"
  by (induction l rule: rev_induct) auto

lemma topo_preds_firstI:
  assumes "topo_ordered sc l" and "distinct l"
    and "\<And>u w. u \<in> set (pr w) \<longleftrightarrow> w \<in> set (sc u)" and "\<And>v. set (pr v) \<subseteq> set l"
  shows "preds_first pr l"
  using assms topo_preds_first [of sc _ _ _ pr] unfolding preds_first_def by metis

section \<open>Paths\<close>

fun is_path :: "('v \<Rightarrow> 'v list) \<Rightarrow> 'v list \<Rightarrow> bool" where
  "is_path sc [] \<longleftrightarrow> False"
| "is_path sc [x] \<longleftrightarrow> True"
| "is_path sc (x # y # ys) \<longleftrightarrow> y \<in> set (sc x) \<and> is_path sc (y # ys)"

lemma is_path_snoc:
  "is_path sc (p @ [v]) \<longleftrightarrow> p = [] \<or> (is_path sc p \<and> v \<in> set (sc (last p)))"
  by (induction sc p rule: is_path.induct) auto

lemma is_path_closed:
  "is_path sc p \<Longrightarrow> hd p \<in> V \<Longrightarrow> (\<And>u w. u \<in> V \<Longrightarrow> w \<in> set (sc u) \<Longrightarrow> w \<in> V) \<Longrightarrow> set p \<subseteq> V"
  by (induction sc p rule: is_path.induct) auto

definition path_weight :: "('v \<Rightarrow> 'w) \<Rightarrow> ('w \<Rightarrow> 'v \<Rightarrow> 'w) \<Rightarrow> 'v list \<Rightarrow> 'w" where
  "path_weight ini ext p = foldl ext (ini (hd p)) (tl p)"

lemma path_weight_single [simp]: "path_weight ini ext [v] = ini v"
  by (simp add: path_weight_def)

lemma path_weight_snoc:
  "p \<noteq> [] \<Longrightarrow> path_weight ini ext (p @ [v]) = ext (path_weight ini ext p) v"
  by (cases p) (simp_all add: path_weight_def)

section \<open>The dynamic program\<close>

definition dp_value :: "('v \<Rightarrow> 'v list) \<Rightarrow> ('v \<Rightarrow> 'w::linorder) \<Rightarrow> ('w \<Rightarrow> 'v \<Rightarrow> 'w)
    \<Rightarrow> ('v \<Rightarrow> 'w) \<Rightarrow> 'v \<Rightarrow> 'w" where
  "dp_value pr ini ext f v = fold (\<lambda>u m. max m (ext (f u) v)) (pr v) (ini v)"

definition dp_step :: "('v \<Rightarrow> 'v list) \<Rightarrow> ('v \<Rightarrow> 'w::linorder) \<Rightarrow> ('w \<Rightarrow> 'v \<Rightarrow> 'w)
    \<Rightarrow> 'v \<Rightarrow> ('v \<Rightarrow> 'w) \<Rightarrow> ('v \<Rightarrow> 'w)" where
  "dp_step pr ini ext v f = f(v := dp_value pr ini ext f v)"

abbreviation dp_run :: "('v \<Rightarrow> 'v list) \<Rightarrow> ('v \<Rightarrow> 'w::linorder) \<Rightarrow> ('w \<Rightarrow> 'v \<Rightarrow> 'w)
    \<Rightarrow> 'v list \<Rightarrow> ('v \<Rightarrow> 'w) \<Rightarrow> ('v \<Rightarrow> 'w)" where
  "dp_run pr ini ext l f \<equiv> fold (dp_step pr ini ext) l f"

lemma dp_step_apply:
  "dp_step pr ini ext v f u = (if u = v then dp_value pr ini ext f v else f u)"
  by (simp add: dp_step_def)

lemma dp_value_cong:
  "(\<And>u. u \<in> set (pr v) \<Longrightarrow> f u = g u) \<Longrightarrow> dp_value pr ini ext f v = dp_value pr ini ext g v"
  unfolding dp_value_def by (rule fold_max_cong) simp

lemma dp_value_upd_other:
  "a \<notin> set (pr v) \<Longrightarrow> dp_value pr ini ext (f(a := x)) v = dp_value pr ini ext f v"
  by (rule dp_value_cong) auto

lemma dp_run_other: "v \<notin> set l \<Longrightarrow> dp_run pr ini ext l f v = f v"
  by (induction l arbitrary: f) (auto simp: dp_step_apply)

text \<open>After a run in an order that lists predecessors first, every value is the value its
  predecessors determine.\<close>

lemma dp_run_fixpoint:
  assumes "preds_first pr l" and "distinct l" and "v \<in> set l"
  shows "dp_run pr ini ext l f v = dp_value pr ini ext (dp_run pr ini ext l f) v"
  using assms
proof (induction l arbitrary: v rule: rev_induct)
  case (snoc x l)
  let ?g = "dp_run pr ini ext l f"
  have run: "dp_run pr ini ext (l @ [x]) f = ?g(x := dp_value pr ini ext ?g x)"
    by (simp add: dp_step_def [of pr ini ext x])
  have "x \<notin> set (pr v)"
    using snoc.prems preds_first_closed [of pr l v] by auto
  then have val: "dp_value pr ini ext (dp_run pr ini ext (l @ [x]) f) v = dp_value pr ini ext ?g v"
    unfolding run by (rule dp_value_upd_other)
  show ?case
  proof (cases "v = x")
    case True
    then have "dp_run pr ini ext (l @ [x]) f v = dp_value pr ini ext ?g v" unfolding run by simp
    then show ?thesis unfolding val .
  next
    case False
    then have "dp_run pr ini ext (l @ [x]) f v = ?g v" unfolding run by simp
    also have "\<dots> = dp_value pr ini ext ?g v" using snoc False by simp
    finally show ?thesis unfolding val .
  qed
qed simp

section \<open>What a solution of the recurrence computes\<close>

locale longest_path =
  fixes ini :: "'v \<Rightarrow> 'w::linorder"
    and ext :: "'w \<Rightarrow> 'v \<Rightarrow> 'w"
  assumes ext_mono: "a \<le> b \<Longrightarrow> ext a v \<le> ext b v"
begin

lemma dp_ge_ini: "ini v \<le> dp_value pr ini ext f v"
  unfolding dp_value_def by (rule fold_max_ge_init)

lemma dp_ge_pred: "u \<in> set (pr v) \<Longrightarrow> ext (f u) v \<le> dp_value pr ini ext f v"
  unfolding dp_value_def by (rule fold_max_ge_elem [where f = "\<lambda>u. ext (f u) v"])

lemma dp_upper:
  assumes fp: "\<And>v. v \<in> V \<Longrightarrow> f v = dp_value pr ini ext f v"
    and adj: "\<And>u w. u \<in> set (pr w) \<longleftrightarrow> w \<in> set (sc u)"
    and p: "is_path sc p" "set p \<subseteq> V"
  shows "path_weight ini ext p \<le> f (last p)"
  using p
proof (induction p rule: rev_induct)
  case (snoc v p)
  have fv: "f v = dp_value pr ini ext f v" using fp snoc.prems(2) by simp
  show ?case
  proof (cases "p = []")
    case True
    then show ?thesis using dp_ge_ini [of v pr f] fv by simp
  next
    case False
    then have "is_path sc p" "last p \<in> set (pr v)"
      using snoc.prems(1) by (auto simp: is_path_snoc adj)
    then have "ext (path_weight ini ext p) v \<le> ext (f (last p)) v"
      using snoc.IH snoc.prems(2) by (intro ext_mono) simp
    also have "\<dots> \<le> f v" using dp_ge_pred \<open>last p \<in> set (pr v)\<close> unfolding fv by blast
    finally show ?thesis using False by (simp add: path_weight_snoc)
  qed
qed simp

lemma dp_attained:
  assumes ord: "preds_first pr l"
    and fp: "\<And>v. v \<in> set l \<Longrightarrow> f v = dp_value pr ini ext f v"
    and adj: "\<And>u w. u \<in> set (pr w) \<longleftrightarrow> w \<in> set (sc u)"
    and v: "v \<in> set l"
  shows "\<exists>p. is_path sc p \<and> last p = v \<and> set p \<subseteq> set l \<and> path_weight ini ext p = f v"
  using assms
proof (induction l arbitrary: v rule: rev_induct)
  case (snoc x l)
  have IH: "\<exists>p. is_path sc p \<and> last p = u \<and> set p \<subseteq> set l \<and> path_weight ini ext p = f u"
    if "u \<in> set l" for u
    using snoc.prems that by (intro snoc.IH) auto
  show ?case
  proof (cases "v \<in> set l")
    case True
    then show ?thesis using IH by fastforce
  next
    case False
    with snoc.prems(4) have v: "v = x" by simp
    have prx: "set (pr v) \<subseteq> set l" using snoc.prems(1) v by simp
    have "f v = ini v \<or> (\<exists>u \<in> set (pr v). f v = ext (f u) v)"
      using fold_max_attained [of "\<lambda>u. ext (f u) v" "pr v" "ini v"] snoc.prems(2,4)
      by (metis dp_value_def)
    then show ?thesis
    proof
      assume "f v = ini v"
      then have "is_path sc [v] \<and> last [v] = v \<and> set [v] \<subseteq> set (l @ [x])
          \<and> path_weight ini ext [v] = f v" using v by simp
      then show ?thesis by blast
    next
      assume "\<exists>u \<in> set (pr v). f v = ext (f u) v"
      then obtain u where u: "u \<in> set (pr v)" "f v = ext (f u) v" by blast
      with IH prx obtain p where p: "is_path sc p" "last p = u" "set p \<subseteq> set l"
          "path_weight ini ext p = f u" by blast
      then have "p \<noteq> []" by auto
      with p u v have "is_path sc (p @ [v]) \<and> set (p @ [v]) \<subseteq> set (l @ [x])
          \<and> path_weight ini ext (p @ [v]) = f v"
        by (auto simp: is_path_snoc path_weight_snoc adj)
      then show ?thesis by (metis last_snoc)
    qed
  qed
qed simp

end

end
