(* ===== verification/Topo_Sort.thy ===== *)
theory Topo_Sort
  imports Tdg_Graph Longest_Path "HOL-Library.Multiset"
begin

text \<open>
  \<open>Graph::visitNode\<close> and \<open>Graph::topoSort\<close> of \<open>src/graph.cc\<close>: a depth-first search that
  collects the nodes in reverse finishing order, a pass that computes the level of each node
  from its entry edges, and a pass that moves the nodes of level 0, 1, ... to the front by
  splicing list elements.

  The recursion of \<open>visitNode\<close> carries the remaining depth of the call stack; running out is
  \<open>None\<close>.  As many frames as there are nodes are enough (\<open>visitNode_runs\<close>).
\<close>

section \<open>The algorithm\<close>

fun visitNode :: "nat \<Rightarrow> addr \<Rightarrow> heap \<times> addr list \<Rightarrow> (heap \<times> addr list) option"
and visitAdj :: "nat \<Rightarrow> Edge list \<Rightarrow> heap \<times> addr list \<Rightarrow> (heap \<times> addr list) option" where
  "visitNode 0 curr_node st = None"
| "visitNode (Suc k) curr_node (h, topo_list) = do {
     n \<leftarrow> h curr_node;
     (h', l') \<leftarrow> visitAdj k (n_exitEdges n) (h(curr_node \<mapsto> n\<lparr>n_visited := True\<rparr>), topo_list);
     Some (h', curr_node # l') }"
| "visitAdj k [] st = Some st"
| "visitAdj k (e # es) (h, topo_list) = do {
     adj_node \<leftarrow> h (getTarget e);
     if \<not> n_visited adj_node then do {
       st \<leftarrow> visitNode k (getTarget e) (h, topo_list);
       visitAdj k es st }
     else visitAdj k es (h, topo_list) }"

definition visit_unmarked :: "nat \<Rightarrow> addr \<Rightarrow> heap \<times> addr list \<Rightarrow> (heap \<times> addr list) option" where
  "visit_unmarked depth a st = do {
     n \<leftarrow> fst st a;
     if \<not> n_visited n then visitNode depth a st else Some st }"

definition setLevel :: "int \<Rightarrow> Node \<Rightarrow> Node" where
  "setLevel l n = n\<lparr>n_level := l\<rparr>"

definition assign_level :: "addr \<Rightarrow> heap \<times> int \<Rightarrow> (heap \<times> int) option" where
  "assign_level a st = (case st of (h, max_level) \<Rightarrow> do {
     n \<leftarrow> h a;
     max_curr_level \<leftarrow>
       foldM (\<lambda>e m. do { src \<leftarrow> h (getSource e); Some (max (n_level src + 1) m) })
         (n_entryEdges n) 0;
     h' \<leftarrow> upd_node a (setLevel max_curr_level) h;
     Some (h', max max_level max_curr_level) })"

text \<open>
  The splicing pass.  A \<open>std::list\<close> with the iterator \<open>start_iter\<close> is the pair of the
  elements before it and the elements from it on.  Inserting before \<open>start_iter\<close> appends to
  the first part; the inner loop leaves the element at \<open>start_iter\<close> in place and walks over
  the rest.  The levels it reads were written by the pass before to these same nodes.
\<close>

definition level_of :: "heap \<Rightarrow> addr \<Rightarrow> int" where
  "level_of h a = (case h a of Some n \<Rightarrow> n_level n | None \<Rightarrow> - 1)"

fun skip_level :: "(addr \<Rightarrow> int) \<Rightarrow> int \<Rightarrow> addr list \<Rightarrow> addr list \<Rightarrow> addr list \<times> addr list" where
  "skip_level lev i before [] = (before, [])"
| "skip_level lev i before (x # xs) =
     (if lev x = i then skip_level lev i (before @ [x]) xs else (before, x # xs))"

fun move_level :: "(addr \<Rightarrow> int) \<Rightarrow> int \<Rightarrow> addr list \<Rightarrow> addr list \<Rightarrow> addr list
    \<Rightarrow> addr list \<times> addr list" where
  "move_level lev i before kept [] = (before, kept)"
| "move_level lev i before kept (x # xs) =
     (if lev x = i then move_level lev i (before @ [x]) kept xs
      else move_level lev i before (kept @ [x]) xs)"

fun level_loop :: "(addr \<Rightarrow> int) \<Rightarrow> nat \<Rightarrow> int \<Rightarrow> addr list \<Rightarrow> addr list \<Rightarrow> addr list" where
  "level_loop lev 0 i before rest = before @ rest"
| "level_loop lev (Suc n) i before rest =
     (case skip_level lev i before rest of
        (before', []) \<Rightarrow> before'
      | (before', start # l_iter) \<Rightarrow>
          (case move_level lev i before' [start] l_iter of
             (before'', rest') \<Rightarrow> level_loop lev n (i + 1) before'' rest'))"

definition order_by_level :: "(addr \<Rightarrow> int) \<Rightarrow> int \<Rightarrow> addr list \<Rightarrow> addr list" where
  "order_by_level lev max_level l = level_loop lev (nat max_level) 0 [] l"

definition topoSort :: "nat \<Rightarrow> addr list \<Rightarrow> 'a tdg_scheme \<Rightarrow> (addr list \<times> 'a tdg_scheme) option" where
  "topoSort depth topo_list s = do {
     (h1, l) \<leftarrow> foldM (visit_unmarked depth) (map snd (g_graphNodes s)) (g_heap s, topo_list);
     (h2, max_level) \<leftarrow> foldM assign_level l (h1, - 1);
     Some (order_by_level (level_of h2) max_level l, s\<lparr>g_heap := h2\<rparr>) }"

section \<open>Marking nodes\<close>

definition visited_set :: "heap \<Rightarrow> addr set" where
  "visited_set h = {a. case h a of Some n \<Rightarrow> n_visited n | None \<Rightarrow> False}"

definition mark :: "addr set \<Rightarrow> heap \<Rightarrow> heap" where
  "mark S = map_heap (\<lambda>a n. if a \<in> S then n\<lparr>n_visited := True\<rparr> else n)"

lemma mark_empty [simp]: "mark {} h = h"
  by (simp add: mark_def map_heap_def fun_eq_iff option.map_ident)

lemma mark_mark: "mark S (mark T h) = mark (S \<union> T) h"
  unfolding mark_def map_heap_comp
  by (rule arg_cong [where f = "\<lambda>f. map_heap f h"]) (auto simp: fun_eq_iff)

lemma mark_one: "h a = Some n \<Longrightarrow> h(a \<mapsto> n\<lparr>n_visited := True\<rparr>) = mark {a} h"
  by (auto simp: mark_def map_heap_def fun_eq_iff option.map_ident)

lemma mark_frame [simp]:
  "succs (mark S h) = succs h" "preds (mark S h) = preds h" "dom (mark S h) = dom h"
  "edge_rel (mark S h) = edge_rel h" "wf_heap (mark S h) = wf_heap h"
  unfolding mark_def by (rule map_heap_frame, simp add: keeps_edges_def)+

lemma visited_mark: "visited_set (mark S h) = visited_set h \<union> (S \<inter> dom h)"
  by (auto simp: visited_set_def mark_def map_heap_def split: option.splits)

section \<open>The depth-first search\<close>

text \<open>
  What a visit from the roots \<open>R\<close> returns: the newly visited nodes in front of the old list,
  each once, reachable from \<open>R\<close>, and, when the graph has no cycle, in topological order up to
  nodes visited before.
\<close>

definition dfs_result :: "heap \<Rightarrow> addr list \<Rightarrow> addr set \<Rightarrow> heap \<times> addr list \<Rightarrow> bool" where
  "dfs_result h l R st \<longleftrightarrow> (\<exists>new. st = (mark (set new) h, new @ l) \<and> distinct new
     \<and> set new \<subseteq> dom h - visited_set h \<and> set new \<subseteq> (edge_rel h)\<^sup>* `` R
     \<and> R \<subseteq> set new \<union> visited_set h
     \<and> (acyclic (edge_rel h) \<longrightarrow> topo_upto (succs h) (visited_set h) new))"

lemma dfs_result_step:
  assumes v: "v \<in> dom h - visited_set h"
    and res: "dfs_result (mark {v} h) l (set (succs h v)) (h', l')"
  shows "dfs_result h l {v} (h', v # l')"
proof -
  have vis: "visited_set (mark {v} h) = insert v (visited_set h)"
    using v by (auto simp: visited_mark)
  obtain new where new: "h' = mark (insert v (set new)) h" "l' = new @ l" "distinct new"
      "set new \<subseteq> dom h - insert v (visited_set h)" "set new \<subseteq> (edge_rel h)\<^sup>* `` set (succs h v)"
      "set (succs h v) \<subseteq> set new \<union> insert v (visited_set h)"
      "acyclic (edge_rel h) \<Longrightarrow> topo_upto (succs h) (insert v (visited_set h)) new"
    using res by (auto simp: dfs_result_def vis mark_mark)
  have nocycle: "v \<notin> set (succs h u)" if wf: "acyclic (edge_rel h)" and u: "u \<in> insert v (set new)" for u
  proof
    assume "v \<in> set (succs h u)"
    then have "(u, v) \<in> edge_rel h" by (simp add: edge_rel_iff)
    moreover have "(v, u) \<in> (edge_rel h)\<^sup>*"
      using u new(5) by (auto simp: edge_rel_iff [symmetric] intro: converse_rtrancl_into_rtrancl)
    ultimately show False using wf by (meson acyclic_def rtrancl_into_trancl2)
  qed
  have "topo_upto (succs h) (visited_set h) (v # new)" if "acyclic (edge_rel h)"
    using new(6) new(7) [OF that] nocycle [OF that]
      topo_upto_drop [of "succs h" v "visited_set h" new] by auto
  moreover have "set (v # new) \<subseteq> (edge_rel h)\<^sup>* `` {v}"
    using new(5) by (auto simp: edge_rel_iff [symmetric] intro: converse_rtrancl_into_rtrancl)
  ultimately show ?thesis
    unfolding dfs_result_def using new v by (intro exI [of _ "v # new"]) auto
qed

lemma dfs_result_append:
  assumes "dfs_result h l R (h1, l1)" and "dfs_result h1 l1 Q st"
  shows "dfs_result h l (R \<union> Q) st"
proof -
  obtain n1 where n1: "h1 = mark (set n1) h" "l1 = n1 @ l" "distinct n1"
      "set n1 \<subseteq> dom h - visited_set h" "set n1 \<subseteq> (edge_rel h)\<^sup>* `` R"
      "R \<subseteq> set n1 \<union> visited_set h" "acyclic (edge_rel h) \<Longrightarrow> topo_upto (succs h) (visited_set h) n1"
    using assms(1) by (auto simp: dfs_result_def)
  have vis: "visited_set h1 = set n1 \<union> visited_set h"
    using n1(4) by (auto simp: n1(1) visited_mark)
  obtain n2 where n2: "st = (mark (set n2) h1, n2 @ l1)" "distinct n2"
      "set n2 \<subseteq> dom h - (set n1 \<union> visited_set h)" "set n2 \<subseteq> (edge_rel h)\<^sup>* `` Q"
      "Q \<subseteq> set n2 \<union> (set n1 \<union> visited_set h)"
      "acyclic (edge_rel h) \<Longrightarrow> topo_upto (succs h) (set n1 \<union> visited_set h) n2"
    using assms(2) unfolding dfs_result_def vis by (auto simp: n1(1))
  show ?thesis unfolding dfs_result_def
    using n1 n2 by (intro exI [of _ "n2 @ n1"]) (auto simp: mark_mark topo_upto_append)
qed

lemma dfs_result_nil: "R \<subseteq> visited_set h \<Longrightarrow> dfs_result h l R (h, l)"
  unfolding dfs_result_def by (intro exI [of _ "[]"]) simp

lemma dfs_result_frame:
  assumes "dfs_result h l R (h', l')"
  shows "wf_heap h' = wf_heap h" "edge_rel h' = edge_rel h" "dom h' = dom h"
    "visited_set h \<subseteq> visited_set h'" "R \<subseteq> visited_set h'"
proof -
  obtain new where new: "h' = mark (set new) h" "set new \<subseteq> dom h - visited_set h"
      "R \<subseteq> set new \<union> visited_set h"
    using assms by (auto simp: dfs_result_def)
  then show "wf_heap h' = wf_heap h" "edge_rel h' = edge_rel h" "dom h' = dom h" by simp_all
  show "visited_set h \<subseteq> visited_set h'" "R \<subseteq> visited_set h'"
    using new(2,3) unfolding new(1) visited_mark by blast+
qed

lemma enter_node:
  assumes wf: "wf_heap h" and v: "v \<in> dom h - visited_set h" and n: "h v = Some n"
    and k: "card (dom h - visited_set h) \<le> Suc k"
  shows "getTarget ` set (n_exitEdges n) \<subseteq> dom (mark {v} h)"
    and "card (dom (mark {v} h) - visited_set (mark {v} h)) \<le> k"
proof -
  have "getTarget ` set (n_exitEdges n) = set (succs h v)" using n by (simp add: succs_def)
  then show "getTarget ` set (n_exitEdges n) \<subseteq> dom (mark {v} h)"
    unfolding mark_frame using wf preds_dom wf_heapD(5) by blast
  have "dom (mark {v} h) - visited_set (mark {v} h) = (dom h - visited_set h) - {v}"
    unfolding visited_mark mark_frame using n by blast
  then show "card (dom (mark {v} h) - visited_set (mark {v} h)) \<le> k"
    using v k by (simp add: card_Diff_singleton)
qed

lemma visitNode_runs:
  shows "wf_heap h \<Longrightarrow> v \<in> dom h - visited_set h \<Longrightarrow>
      card (dom h - visited_set h) \<le> k \<Longrightarrow>
      \<exists>st. visitNode k v (h, l) = Some st \<and> dfs_result h l {v} st"
    and "wf_heap h \<Longrightarrow> getTarget ` set es \<subseteq> dom h \<Longrightarrow>
      card (dom h - visited_set h) \<le> k \<Longrightarrow>
      \<exists>st. visitAdj k es (h, l) = Some st \<and> dfs_result h l (getTarget ` set es) st"
proof (induction k v "(h, l)" and k es "(h, l)" arbitrary: h l and h l
    rule: visitNode_visitAdj.induct)
  case (1 v h l)
  then have "finite (dom h - visited_set h)" by (simp add: wf_heapD)
  with 1 show ?case by auto
next
  case (2 k v h l)
  obtain n where n: "h v = Some n" using 2 by auto
  let ?h1 = "mark {v} h"
  have one: "h(v \<mapsto> n\<lparr>n_visited := True\<rparr>) = ?h1" using n by (rule mark_one)
  have succ: "getTarget ` set (n_exitEdges n) = set (succs h v)" using n by (simp add: succs_def)
  note enter = enter_node [OF 2(2,3) n 2(4)]
  obtain h' l' where run: "visitAdj k (n_exitEdges n) (?h1, l) = Some (h', l')"
      and res: "dfs_result ?h1 l (set (succs h v)) (h', l')"
    using 2(1) [OF n, unfolded one succ mark_frame, OF 2(2)] enter
    unfolding succ mark_frame by (metis surj_pair)
  have "visitNode (Suc k) v (h, l) = Some (h', v # l')" using n run by (simp add: mark_one)
  then show ?case using dfs_result_step [OF 2(3) res] by blast
next
  case (3 k h l)
  then show ?case by (simp add: dfs_result_nil)
next
  case (4 k e es h l)
  let ?t = "getTarget e"
  obtain m where m: "h ?t = Some m" using 4 by auto
  have es: "getTarget ` set es \<subseteq> dom h" using 4(5) by simp
  show ?case
  proof (cases "n_visited m")
    case True
    then have "{?t} \<subseteq> visited_set h" using m by (simp add: visited_set_def)
    then have nil: "dfs_result h l {?t} (h, l)" by (rule dfs_result_nil)
    obtain st where "visitAdj k es (h, l) = Some st" "dfs_result h l (getTarget ` set es) st"
      using 4(3) [OF m _ 4(4) es 4(6)] True by auto
    then show ?thesis using m True dfs_result_append [OF nil] by simp
  next
    case False
    then have t: "?t \<in> dom h - visited_set h" using m by (auto simp: visited_set_def)
    obtain h1 l1 where one: "visitNode k ?t (h, l) = Some (h1, l1)" "dfs_result h l {?t} (h1, l1)"
      using 4(1) [OF m False 4(4) t 4(6)] by (metis surj_pair)
    note frame = dfs_result_frame [OF one(2)]
    have "card (dom h1 - visited_set h1) \<le> card (dom h - visited_set h)"
      unfolding frame(3) using frame(4) 4(4) by (intro card_mono) (auto simp: wf_heapD)
    then obtain st where "visitAdj k es (h1, l1) = Some st" "dfs_result h1 l1 (getTarget ` set es) st"
      using 4(2) [OF m False one(1)] frame(1-3) 4(4,6) es by auto
    then show ?thesis using m False one dfs_result_append [OF one(2)] by simp
  qed
qed

lemma visit_all_runs:
  assumes "wf_heap h" "set as \<subseteq> dom h"
    and "card (dom h - visited_set h) \<le> depth"
  shows "\<exists>st. foldM (visit_unmarked depth) as (h, l) = Some st \<and> dfs_result h l (set as) st"
  using assms
proof (induction as arbitrary: h l)
  case Nil
  then show ?case by (simp add: dfs_result_nil)
next
  case (Cons a as)
  obtain n where n: "h a = Some n" using Cons.prems(2) by auto
  obtain h1 l1 where one: "visit_unmarked depth a (h, l) = Some (h1, l1)"
      "dfs_result h l {a} (h1, l1)"
  proof (cases "n_visited n")
    case True
    then have "dfs_result h l {a} (h, l)" using n by (intro dfs_result_nil) (simp add: visited_set_def)
    then show ?thesis using n True by (intro that [of h l]) (simp_all add: visit_unmarked_def)
  next
    case False
    then have a: "a \<in> dom h - visited_set h" using n by (auto simp: visited_set_def)
    show ?thesis
      using visitNode_runs(1) [OF Cons.prems(1) a Cons.prems(3), of l] n False that
      by (auto simp: visit_unmarked_def)
  qed
  note frame = dfs_result_frame [OF one(2)]
  have "card (dom h1 - visited_set h1) \<le> card (dom h - visited_set h)"
    unfolding frame(3) using frame(4) Cons.prems(1) by (intro card_mono) (auto simp: wf_heapD)
  then obtain st where "foldM (visit_unmarked depth) as (h1, l1) = Some st"
      "dfs_result h1 l1 (set as) st"
    using Cons.IH [of h1 l1] frame(1-3) Cons.prems by auto
  then show ?case using one(1) dfs_result_append [OF one(2)] by simp
qed

section \<open>Levels\<close>

definition with_levels :: "(addr \<Rightarrow> int) \<Rightarrow> heap \<Rightarrow> heap" where
  "with_levels f = map_heap (\<lambda>a. setLevel (f a))"

lemma with_levels_frame [simp]:
  "succs (with_levels f h) = succs h" "preds (with_levels f h) = preds h"
  "dom (with_levels f h) = dom h" "edge_rel (with_levels f h) = edge_rel h"
  "wf_heap (with_levels f h) = wf_heap h"
  unfolding with_levels_def
  by (rule map_heap_frame, simp add: keeps_edges_def setLevel_def)+

lemma with_levels_id: "with_levels (level_of h) h = h"
  by (auto simp: with_levels_def map_heap_def level_of_def setLevel_def fun_eq_iff
      split: option.splits intro!: option.expand)

lemma level_of_with_levels: "a \<in> dom h \<Longrightarrow> level_of (with_levels f h) a = f a"
  by (auto simp: with_levels_def map_heap_def level_of_def setLevel_def)

lemma with_levels_self: "with_levels (level_of (with_levels f h)) h = with_levels f h"
  by (auto simp: with_levels_def map_heap_def level_of_def setLevel_def fun_eq_iff
      split: option.splits intro!: option.map_cong)

abbreviation level_ini :: "addr \<Rightarrow> int" where
  "level_ini \<equiv> \<lambda>_. 0"

abbreviation level_ext :: "int \<Rightarrow> addr \<Rightarrow> int" where
  "level_ext \<equiv> \<lambda>m _. m + 1"

text \<open>One round of the level pass is one step of the dynamic program.\<close>

lemma assign_level_step:
  assumes wf: "wf_heap h" and a: "a \<in> dom h"
  shows "assign_level a (with_levels f h, m) =
    Some (with_levels (dp_step (preds h) level_ini level_ext a f) h,
          max m (dp_value (preds h) level_ini level_ext f a))"
proof -
  obtain n where n: "h a = Some n" using a by blast
  have pr: "preds h a = map getSource (n_entryEdges n)" using n by (simp add: preds_def)
  have src: "getSource e \<in> dom h" if "e \<in> set (n_entryEdges n)" for e
    using wf_edge_dom [OF wf] wf_edge_preds [OF wf, of "getSource e" a] that pr by auto
  have "foldM (\<lambda>e m. do { src \<leftarrow> with_levels f h (getSource e); Some (max (n_level src + 1) m) })
        (n_entryEdges n) 0
      = Some (fold (\<lambda>e m. max m (f (getSource e) + 1)) (n_entryEdges n) 0)"
    using src by (intro foldM_total)
      (fastforce simp: with_levels_def map_heap_def setLevel_def max.commute)
  also have "fold (\<lambda>e m. max m (f (getSource e) + 1)) (n_entryEdges n) 0
      = dp_value (preds h) level_ini level_ext f a"
    by (simp add: dp_value_def pr fold_map o_def)
  finally have val: "foldM (\<lambda>e m. do { src \<leftarrow> with_levels f h (getSource e);
        Some (max (n_level src + 1) m) }) (n_entryEdges n) 0
      = Some (dp_value (preds h) level_ini level_ext f a)" .
  have "(with_levels f h)(a \<mapsto> setLevel k (setLevel (f a) n)) = with_levels (f(a := k)) h" for k
    using n by (auto simp: with_levels_def map_heap_def setLevel_def fun_eq_iff)
  then show ?thesis
    using n val by (simp add: assign_level_def upd_node_def dp_step_def with_levels_def
        map_heap_def setLevel_def)
qed

lemma assign_levels_run:
  assumes "wf_heap h" and "set l \<subseteq> dom h"
  shows "foldM assign_level l (with_levels f h, m) =
    Some (with_levels (dp_run (preds h) level_ini level_ext l f) h,
          snd (fold (\<lambda>a (g, k). (dp_step (preds h) level_ini level_ext a g,
                 max k (dp_value (preds h) level_ini level_ext g a))) l (f, m)))"
  using assms(2)
proof (induction l arbitrary: f m)
  case (Cons a l)
  then show ?case using assign_level_step [OF assms(1), of a f m] by simp
qed simp

lemma level_fold_fst:
  "fst (fold (\<lambda>a (g, k). (F a g, max k (G g a))) l (f, m)) = fold F l f"
  by (induction l arbitrary: f m) auto

text \<open>The largest level returned bounds the level of every listed node.\<close>

lemma level_fold_snd:
  fixes m :: int
  assumes "distinct l"
  shows "a \<in> set l \<Longrightarrow> dp_run pr ini ext l f a \<le>
    snd (fold (\<lambda>a (g, k). (dp_step pr ini ext a g, max k (dp_value pr ini ext g a))) l (f, m))"
    and "m \<le> snd (fold (\<lambda>a (g, k). (dp_step pr ini ext a g, max k (dp_value pr ini ext g a))) l (f, m))"
  using assms
proof (induction l arbitrary: f m)
  case (Cons x xs)
  {
    case 1
    show ?case
    proof (cases "a = x")
      case True
      then have "dp_run pr ini ext (x # xs) f a = dp_value pr ini ext f x"
        using 1 by (simp add: dp_run_other dp_step_apply)
      then show ?thesis
        using Cons(2) [of "max m (dp_value pr ini ext f x)" "dp_step pr ini ext x f"] 1 by simp
    next
      case False
      then show ?thesis using Cons(1) 1 by simp
    qed
  next
    case 2
    then show ?case
      using Cons(2) [of "max m (dp_value pr ini ext f x)" "dp_step pr ini ext x f"] by simp
  }
qed simp_all

interpretation level_dp: longest_path level_ini level_ext
  by unfold_locales simp

section \<open>The splicing pass is a stable sort\<close>

lemma skip_level_eq:
  "skip_level lev i bef l = (bef @ takeWhile (\<lambda>x. lev x = i) l, dropWhile (\<lambda>x. lev x = i) l)"
  by (induction l arbitrary: bef) auto

lemma move_level_eq:
  "move_level lev i bef kept l =
     (bef @ filter (\<lambda>x. lev x = i) l, kept @ filter (\<lambda>x. lev x \<noteq> i) l)"
  by (induction l arbitrary: bef kept) auto

lemma filter_takeWhile_dropWhile:
  "filter P l = takeWhile P l @ filter P (dropWhile P l)"
  "filter (\<lambda>x. \<not> P x) l = filter (\<lambda>x. \<not> P x) (dropWhile P l)"
  by (induction l) auto

lemma level_round:
  "(case skip_level lev i bef l of (b, []) \<Rightarrow> k b []
     | (b, x # xs) \<Rightarrow> (case move_level lev i b [x] xs of (b', r) \<Rightarrow> k b' r))
   = k (bef @ filter (\<lambda>x. lev x = i) l) (filter (\<lambda>x. lev x \<noteq> i) l)"
proof (cases "dropWhile (\<lambda>x. lev x = i) l")
  case Nil
  then have tw: "takeWhile (\<lambda>x. lev x = i) l = l" by (metis append_Nil2 takeWhile_dropWhile_id)
  have "\<forall>x \<in> set l. lev x = i" using Nil by (simp add: dropWhile_eq_Nil_conv)
  then show ?thesis unfolding skip_level_eq Nil tw by simp
next
  case (Cons x xs)
  then have "lev x \<noteq> i" using hd_dropWhile [of "\<lambda>x. lev x = i" l] by simp
  with Cons show ?thesis
    using filter_takeWhile_dropWhile [of "\<lambda>x. lev x = i" l]
    by (simp add: skip_level_eq move_level_eq)
qed

lemma sort_key_least_first:
  assumes "\<forall>x \<in> set l. (i :: int) \<le> lev x"
  shows "sort_key lev l = filter (\<lambda>x. lev x = i) l @ sort_key lev (filter (\<lambda>x. lev x \<noteq> i) l)"
proof (rule properties_for_sort_key)
  show "mset (filter (\<lambda>x. lev x = i) l @ sort_key lev (filter (\<lambda>x. lev x \<noteq> i) l)) = mset l"
    by (simp add: mset_filter multiset_partition [symmetric])
  show "filter (\<lambda>x. lev k = lev x) (filter (\<lambda>x. lev x = i) l @ sort_key lev (filter (\<lambda>x. lev x \<noteq> i) l))
      = filter (\<lambda>x. lev k = lev x) l" for k
    by (cases "lev k = i")
      (auto simp: eq_commute [of "lev k"] sort_key_stable filter_empty_conv intro!: filter_cong)
  show "sorted (map lev (filter (\<lambda>x. lev x = i) l @ sort_key lev (filter (\<lambda>x. lev x \<noteq> i) l)))"
    using assms sorted_map_same [of lev "\<lambda>_. i" l] by (auto simp: sorted_append)
qed

lemma level_loop_Nil: "level_loop lev n i bef [] = bef"
  by (cases n) simp_all

lemma level_loop_round:
  "level_loop lev (Suc n) i bef rest = level_loop lev n (i + 1)
     (bef @ filter (\<lambda>x. lev x = i) rest) (filter (\<lambda>x. lev x \<noteq> i) rest)"
  using level_round [where k = "level_loop lev n (i + 1)" and lev = lev and i = i
      and bef = bef and l = rest]
  by (auto simp: level_loop_Nil split: prod.splits list.splits)

lemma mset_level_loop: "mset (level_loop lev n i bef rest) = mset bef + mset rest"
  by (induction n arbitrary: i bef rest)
    (auto simp: level_loop_round mset_filter multiset_partition [symmetric] simp del: level_loop.simps(2))

lemma set_order_by_level: "set (order_by_level lev m l) = set l"
  unfolding order_by_level_def by (rule mset_eq_setD) (simp add: mset_level_loop)

lemma level_loop_sort:
  assumes "\<forall>x \<in> set rest. i \<le> lev x \<and> lev x \<le> i + int n"
  shows "level_loop lev n i bef rest = bef @ sort_key lev rest"
  using assms
proof (induction n arbitrary: i bef rest)
  case 0
  then have "\<forall>x \<in> set rest. lev x = i" by force
  then have "sorted (map lev rest)" by (simp add: sorted_iff_nth_mono)
  then show ?case by (simp add: sort_key_id_if_sorted)
next
  case (Suc n)
  have "level_loop lev (Suc n) i bef rest = level_loop lev n (i + 1)
      (bef @ filter (\<lambda>x. lev x = i) rest) (filter (\<lambda>x. lev x \<noteq> i) rest)"
    by (rule level_loop_round)
  also have "\<dots> = bef @ sort_key lev rest"
    using Suc sort_key_least_first [of rest i lev] by (subst Suc.IH) auto
  finally show ?case .
qed

lemma order_by_level_sort:
  assumes "\<forall>x \<in> set l. 0 \<le> lev x \<and> lev x \<le> m"
  shows "order_by_level lev m l = sort_key lev l"
proof (cases "l = []")
  case True
  then show ?thesis by (cases "nat m") (simp_all add: order_by_level_def)
next
  case False
  then have "0 \<le> m" using assms by (metis last_in_set order_trans)
  then show ?thesis
    using assms level_loop_sort [of l 0 lev "nat m" "[]"] by (simp add: order_by_level_def)
qed

section \<open>The whole sort\<close>

text \<open>
  The three passes together, on a well-formed acyclic graph whose nodes are unmarked: the nodes
  of the graph, each once, sorted by level, successors after predecessors; the level solves the
  longest-path recurrence; nothing but marks and levels changes.
\<close>

definition topo_result :: "'a tdg_scheme \<Rightarrow> addr list \<Rightarrow> 'a tdg_scheme \<Rightarrow> bool" where
  "topo_result s l s' \<longleftrightarrow>
     distinct l \<and> set l = dom (g_heap s)
     \<and> topo_ordered (succs (g_heap s)) l
     \<and> sorted (map (level_of (g_heap s')) l)
     \<and> (\<forall>v \<in> set l. level_of (g_heap s') v
          = dp_value (preds (g_heap s)) level_ini level_ext (level_of (g_heap s')) v)
     \<and> s' = s\<lparr>g_heap := with_levels (level_of (g_heap s')) (mark (dom (g_heap s)) (g_heap s))\<rparr>"

lemma preds_firstI:
  assumes "wf_heap h" "topo_ordered (succs h) l" "distinct l" "set l = dom h"
  shows "preds_first (preds h) l"
  using assms(2,3)
proof (rule topo_preds_firstI)
  show "u \<in> set (preds h w) \<longleftrightarrow> w \<in> set (succs h u)" for u w using wf_heapD(5) [OF assms(1)] by simp
  show "set (preds h v) \<subseteq> set l" for v using wf_pred_dom [OF assms(1)] assms(4) by blast
qed

lemma level_pass:
  assumes wf: "wf_heap h" and ord: "topo_ordered (succs h) l" and dis: "distinct l"
    and set: "set l = dom h"
  defines "f \<equiv> dp_run (preds h) level_ini level_ext l (level_of h)"
  shows "\<exists>m. foldM assign_level l (h, - 1) = Some (with_levels f h, m)
      \<and> (\<forall>v \<in> set l. 0 \<le> f v \<and> f v \<le> m)"
    and "v \<in> set l \<Longrightarrow> f v = dp_value (preds h) level_ini level_ext f v"
proof -
  show fp: "f v = dp_value (preds h) level_ini level_ext f v" if "v \<in> set l" for v
    unfolding f_def using preds_firstI [OF wf ord dis set] dis that by (rule dp_run_fixpoint)
  have "0 \<le> f v" if "v \<in> set l" for v
    using level_dp.dp_ge_ini [where v = v and pr = "preds h" and f = f] fp [OF that] by simp
  then show "\<exists>m. foldM assign_level l (h, - 1) = Some (with_levels f h, m)
      \<and> (\<forall>v \<in> set l. 0 \<le> f v \<and> f v \<le> m)"
    using assign_levels_run [OF wf, of l "level_of h" "- 1"] set level_fold_snd(1) [OF dis]
    by (simp add: with_levels_id f_def)
qed

lemma topoSort_runs:
  assumes wf: "wf_tdg s" and dag: "acyclic (edge_rel (g_heap s))"
    and unmarked: "visited_set (g_heap s) = {}" and depth: "card (dom (g_heap s)) \<le> depth"
  shows "\<exists>l s'. topoSort depth [] s = Some (l, s') \<and> topo_result s l s'"
proof -
  let ?h = "g_heap s"
  have wfh: "wf_heap ?h" and idx: "index_ok s" using wf by (simp_all add: wf_tdg_def)
  obtain new where run1: "foldM (visit_unmarked depth) (map snd (g_graphNodes s)) (?h, [])
        = Some (mark (set new) ?h, new)"
      and new: "distinct new" "set new = dom ?h" "topo_ordered (succs ?h) new"
    using visit_all_runs [OF wfh, of "map snd (g_graphNodes s)" depth "[]"]
      graphNodes_iter(2) [OF idx] depth unmarked dag
    unfolding dfs_result_def by auto
  let ?h1 = "mark (dom ?h) ?h"
  define f where "f = dp_run (preds ?h1) level_ini level_ext new (level_of ?h1)"
  obtain m where run2: "foldM assign_level new (?h1, - 1) = Some (with_levels f ?h1, m)"
      and bnd: "\<forall>v \<in> set new. 0 \<le> f v \<and> f v \<le> m"
    using level_pass(1) [of ?h1 new] wfh new unfolding f_def by auto
  have fp: "f v = dp_value (preds ?h) level_ini level_ext f v" if "v \<in> set new" for v
    using level_pass(2) [of ?h1 new v] wfh new that unfolding f_def by simp
  let ?h2 = "with_levels f ?h1"
  let ?l = "sort_key (level_of ?h2) new"
  have lev: "level_of ?h2 v = f v" if "v \<in> set new" for v
    using level_of_with_levels [of v ?h1 f] that new(2) by simp
  have "order_by_level (level_of ?h2) m new = ?l"
    using bnd lev by (intro order_by_level_sort) simp
  with run1 run2 new(2) have run: "topoSort depth [] s = Some (?l, s\<lparr>g_heap := ?h2\<rparr>)"
    by (simp add: topoSort_def)
  have preds_new: "u \<in> set new" if "u \<in> set (preds ?h v)" for u v
    using that wf_pred_dom [OF wfh] new(2) by blast
  have lev_fp: "level_of ?h2 v = dp_value (preds ?h) level_ini level_ext (level_of ?h2) v"
    if "v \<in> set new" for v
    using fp [OF that] lev [OF that] lev preds_new
      dp_value_cong [of "preds ?h" v f "level_of ?h2"] by metis
  have up: "level_of ?h2 u < level_of ?h2 w" if "u \<in> set new" "w \<in> set (succs ?h u)" for u w
  proof -
    have uw: "u \<in> set (preds ?h w)" using that wf_heapD(5) [OF wfh] by simp
    then have "w \<in> set new" using preds_dom new(2) by simp
    then show ?thesis
      using level_dp.dp_ge_pred [where f = "level_of ?h2" and pr = "preds ?h" and v = w, OF uw] lev_fp by simp
  qed
  have "topo_ordered (succs ?h) ?l"
    using up wf_succ_dom [OF wfh] new(2)
    by (intro sorted_rank_topo [where rank = "level_of ?h2"]) simp_all
  then have "topo_result s ?l (s\<lparr>g_heap := ?h2\<rparr>)"
    unfolding topo_result_def using new(1,2) lev_fp
    by (simp add: with_levels_self)
  with run show ?thesis by blast
qed

text \<open>On any well-formed graph, cyclic or not, the sort returns.\<close>

lemma topoSort_returns_aux:
  assumes wf: "wf_tdg s" and depth: "card (dom (g_heap s)) \<le> depth"
  shows "\<exists>l s'. topoSort depth [] s = Some (l, s') \<and> set l \<subseteq> dom (g_heap s)"
proof -
  let ?h = "g_heap s"
  have wfh: "wf_heap ?h" and idx: "index_ok s" using wf by (simp_all add: wf_tdg_def)
  have "card (dom ?h - visited_set ?h) \<le> depth"
    using depth card_mono [of "dom ?h" "dom ?h - visited_set ?h"] wfh by (simp add: wf_heapD)
  then obtain new where run1: "foldM (visit_unmarked depth) (map snd (g_graphNodes s)) (?h, [])
        = Some (mark (set new) ?h, new)" and new: "set new \<subseteq> dom ?h - visited_set ?h"
    using visit_all_runs [OF wfh, of "map snd (g_graphNodes s)" depth "[]"] graphNodes_iter(2) [OF idx]
    unfolding dfs_result_def by auto
  let ?h1 = "mark (set new) ?h"
  obtain f m where run2: "foldM assign_level new (?h1, - 1) = Some (with_levels f ?h1, m)"
    using assign_levels_run [of ?h1 new "level_of ?h1" "- 1"] wfh new
    by (simp add: with_levels_id subset_iff)
  show ?thesis using run1 run2 new by (auto simp: topoSort_def set_order_by_level)
qed

section \<open>Properties\<close>

lemma sample_unvisited: "visited_set (g_heap sample_graph) = {}"
  by (auto simp: visited_set_def sample_graph_def new_Node_def setThreadId_def setLoopCounter_def split: option.splits)

text \<open>
  C8. \<open>topoSort\<close> on a well-formed acyclic graph whose nodes are unmarked returns every node of
  the graph exactly once, successors after predecessors and levels in ascending order, and leaves
  nodes, edges and index of the graph as they were.  A call stack as deep as the graph has nodes
  is enough.
\<close>

theorem topoSort_sorts:
  assumes "wf_tdg s" and "acyclic (edge_rel (g_heap s))" and "visited_set (g_heap s) = {}"
    and "card (dom (g_heap s)) \<le> depth"
  shows "\<exists>l s'. topoSort depth [] s = Some (l, s') \<and> distinct l \<and> set l = dom (g_heap s)
    \<and> topo_ordered (succs (g_heap s)) l \<and> sorted (map (level_of (g_heap s')) l)
    \<and> edge_rel (g_heap s') = edge_rel (g_heap s) \<and> dom (g_heap s') = dom (g_heap s)
    \<and> g_graphNodes s' = g_graphNodes s"
proof -
  obtain l s' where run: "topoSort depth [] s = Some (l, s')" and res: "topo_result s l s'"
    using topoSort_runs [OF assms] by blast
  define f where "f = level_of (g_heap s')"
  have s': "s' = s\<lparr>g_heap := with_levels f (mark (dom (g_heap s)) (g_heap s))\<rparr>"
    using res by (simp add: topo_result_def f_def)
  have "edge_rel (g_heap s') = edge_rel (g_heap s)" "dom (g_heap s') = dom (g_heap s)"
    "g_graphNodes s' = g_graphNodes s"
    by (simp_all add: s' edge_rel_def)
  then show ?thesis using run res unfolding topo_result_def by blast
qed

theorem topoSort_sorts_witness:
  "\<exists>l s'. topoSort 3 [] sample_graph = Some (l, s') \<and> distinct l \<and> set l = {0, 1, 2}
    \<and> topo_ordered (succs (g_heap sample_graph)) l"
  using topoSort_sorts [OF wf_sample acyclic_sample sample_unvisited, of 3] by (auto simp: sample_dom)

text \<open>
  C9. The level \<open>topoSort\<close> gives a node is the number of edges of the longest path that ends at
  it: no path that ends at the node has more, and one has that many.
\<close>

theorem topoSort_level_is_longest_path:
  assumes "wf_tdg s" and "acyclic (edge_rel (g_heap s))" and "visited_set (g_heap s) = {}"
    and "card (dom (g_heap s)) \<le> depth" and "topoSort depth [] s = Some (l, s')" and "v \<in> dom (g_heap s)"
  shows "(\<forall>p. is_path (succs (g_heap s)) p \<and> set p \<subseteq> dom (g_heap s) \<and> last p = v
        \<longrightarrow> int (length p) - 1 \<le> level_of (g_heap s') v)
    \<and> (\<exists>p. is_path (succs (g_heap s)) p \<and> set p \<subseteq> dom (g_heap s) \<and> last p = v
        \<and> int (length p) - 1 = level_of (g_heap s') v)"
proof -
  let ?h = "g_heap s"
  have res: "topo_result s l s'" using topoSort_runs [OF assms(1-4)] assms(5) by auto
  have wfh: "wf_heap ?h" using assms(1) by (simp add: wf_tdg_def)
  have l: "distinct l" "set l = dom ?h" "topo_ordered (succs ?h) l"
    and fp: "\<And>v. v \<in> set l \<Longrightarrow> level_of (g_heap s') v = dp_value (preds ?h) level_ini level_ext (level_of (g_heap s')) v"
    using res by (simp_all add: topo_result_def)
  have adj: "u \<in> set (preds ?h w) \<longleftrightarrow> w \<in> set (succs ?h u)" for u w using wf_heapD(5) [OF wfh] by simp
  have pw: "path_weight level_ini level_ext p = int (length p) - 1" if "p \<noteq> []" for p :: "addr list"
    using that by (induction p rule: rev_nonempty_induct) (simp_all add: path_weight_snoc)
  have "int (length p) - 1 \<le> level_of (g_heap s') v"
    if p: "is_path (succs ?h) p" "set p \<subseteq> dom ?h" "last p = v" for p
  proof (cases "p = []")
    case False
    then show ?thesis using level_dp.dp_upper [of "set l", OF fp adj p(1)] p(2,3) l(2) pw by simp
  qed (use p in simp)
  moreover obtain p where p: "is_path (succs ?h) p" "last p = v" "set p \<subseteq> set l"
      "path_weight level_ini level_ext p = level_of (g_heap s') v"
    using level_dp.dp_attained [OF preds_firstI [OF wfh l(3,1,2)] fp adj, of v] assms(6) l(2) by blast
  moreover have "p \<noteq> []" using p(1) by auto
  ultimately show ?thesis using pw l(2) by metis
qed

theorem topoSort_level_is_longest_path_witness:
  "\<exists>l s'. topoSort 3 [] sample_graph = Some (l, s')
    \<and> (\<exists>p. is_path (succs (g_heap sample_graph)) p \<and> last p = 2 \<and> int (length p) - 1 = level_of (g_heap s') 2)"
proof -
  have depth: "card (dom (g_heap sample_graph)) \<le> 3" by (simp add: sample_dom)
  obtain l s' where run: "topoSort 3 [] sample_graph = Some (l, s')"
    using topoSort_runs [OF wf_sample acyclic_sample sample_unvisited depth] by blast
  show ?thesis
    using run topoSort_level_is_longest_path [OF wf_sample acyclic_sample sample_unvisited depth run, of 2]
    by (auto simp: sample_dom)
qed

text \<open>
  C19. The splicing pass of \<open>topoSort\<close>, which moves the nodes of one level after the other to the
  front of the list, is a stable sort by level: it equals \<open>sort_key\<close> whenever the levels lie
  between 0 and the maximum it is told.
\<close>

theorem order_by_level_is_stable_sort:
  assumes "\<forall>x \<in> set l. 0 \<le> lev x \<and> lev x \<le> m"
  shows "order_by_level lev m l = sort_key lev l"
  by (rule order_by_level_sort [OF assms])

theorem order_by_level_is_stable_sort_witness:
  "order_by_level (\<lambda>x. int x mod 3) 2 [5, 4, 3, 2, 1, 0] = [3, 0, 4, 1, 5, 2]"
proof -
  have "order_by_level (\<lambda>x. int x mod 3) 2 [5, 4, 3, 2, 1, 0] = sort_key (\<lambda>x. int x mod 3) [5, 4, 3, 2, 1, 0]"
    by (rule order_by_level_is_stable_sort) simp
  then show ?thesis by simp
qed

text \<open>
  C20. \<open>topoSort\<close> returns on every well-formed graph, with or without cycles and whatever nodes are
  marked already, given a call stack as deep as the graph has nodes.
\<close>

theorem topoSort_terminates:
  assumes "wf_tdg s" and "card (dom (g_heap s)) \<le> depth"
  shows "\<exists>l s'. topoSort depth [] s = Some (l, s') \<and> set l \<subseteq> dom (g_heap s)"
  by (rule topoSort_returns_aux [OF assms])

theorem topoSort_terminates_witness:
  "\<exists>l s'. topoSort 3 [] sample_graph = Some (l, s') \<and> set l \<subseteq> {0, 1, 2}"
  using topoSort_terminates [OF wf_sample, of 3] by (simp add: sample_dom)

end
