(* ===== verification/Critical_Path.thy ===== *)
theory Critical_Path
  imports Topo_Sort
begin

text \<open>
  \<open>CriticalPathMetric\<close> of \<open>src/metrics.h\<close> and \<open>src/metrics.cc\<close>: one pass over the
  topologically sorted nodes computes for each the longest path that ends there, by number of
  edges and by time, and remembers the predecessor on the longest path by time; then the
  remembered predecessors are followed from the last critical node and every node met is marked.

  The member \<open>_critical_path_len\<close>, which the constructor leaves uninitialised, is an option.
  The marking loop follows pointers with nothing in the code to bound it, so it is a partial
  function; \<open>mark_critical_follows\<close> shows that it returns.
\<close>

section \<open>The metric\<close>

record CriticalPathMetric =
  cp_time_len :: double
  cp_len :: "int option"

definition new_CriticalPathMetric :: CriticalPathMetric where
  "new_CriticalPathMetric = \<lparr>cp_time_len = - 1, cp_len = None\<rparr>"

text \<open>The loop over the entry edges: longest length, longest time, predecessor so far.\<close>

definition cp_entry :: "heap \<Rightarrow> double \<Rightarrow> Edge \<Rightarrow> int \<times> double \<times> addr option
    \<Rightarrow> (int \<times> double \<times> addr option) option" where
  "cp_entry h total_time e st = (case st of (max_curr_path_len, max_curr_path_time, prev) \<Rightarrow> do {
     src \<leftarrow> h (getSource e);
     let path_inc = n_pathLength src + 1;
     let max_curr_path_len' =
       (if path_inc > max_curr_path_len then path_inc else max_curr_path_len);
     let time_inc = fadd (n_pathTime src) total_time;
     Some (if time_inc > max_curr_path_time
           then (max_curr_path_len', time_inc, Some (getSource e))
           else (max_curr_path_len', max_curr_path_time, prev)) })"

definition setPaths :: "int \<Rightarrow> double \<Rightarrow> addr option \<Rightarrow> Node \<Rightarrow> Node" where
  "setPaths len tm prev n = n\<lparr>n_prevCritical := prev, n_pathLength := len, n_pathTime := tm\<rparr>"

definition cp_visit :: "addr \<Rightarrow> heap \<times> double \<times> int \<times> addr option
    \<Rightarrow> (heap \<times> double \<times> int \<times> addr option) option" where
  "cp_visit curr_node st =
     (case st of (h, critical_path_time_len, critical_path_len, last_critical_node) \<Rightarrow> do {
     n \<leftarrow> h curr_node;
     (max_curr_path_len, max_curr_path_time, prev) \<leftarrow>
       foldM (cp_entry h (n_totalTime n)) (n_entryEdges n) (0, n_totalTime n, n_prevCritical n);
     h' \<leftarrow> upd_node curr_node (setPaths max_curr_path_len max_curr_path_time prev) h;
     let critical_path_len' = (if max_curr_path_len > critical_path_len
                               then max_curr_path_len else critical_path_len);
     Some (if max_curr_path_time > critical_path_time_len
           then (h', max_curr_path_time, critical_path_len', Some curr_node)
           else (h', critical_path_time_len, critical_path_len', last_critical_node)) })"

definition setIsCritical :: "bool \<Rightarrow> Node \<Rightarrow> Node" where
  "setIsCritical b n = n\<lparr>n_isCritical := b\<rparr>"

partial_function (option) mark_critical ::
    "addr option \<Rightarrow> heap \<Rightarrow> double \<Rightarrow> (heap \<times> double) option" where
  "mark_critical last_critical_node h time_sum =
     (case last_critical_node of
        None \<Rightarrow> Some (h, time_sum)
      | Some a \<Rightarrow> (case h a of
            None \<Rightarrow> None
          | Some n \<Rightarrow> mark_critical (n_prevCritical n) (h(a \<mapsto> setIsCritical True n))
                        (fadd time_sum (n_totalTime n))))"

definition computeCriticalPath :: "nat \<Rightarrow> CriticalPathMetric \<Rightarrow> 'a tdg_scheme
    \<Rightarrow> (CriticalPathMetric \<times> 'a tdg_scheme) option" where
  "computeCriticalPath depth m s = do {
     (topo_list, s1) \<leftarrow> topoSort depth [] s;
     (h2, critical_path_time_len, critical_path_len, last_critical_node) \<leftarrow>
       foldM cp_visit topo_list (g_heap s1, 0, 0, None);
     (h3, total_time_on_criticial_path) \<leftarrow> mark_critical last_critical_node h2 0;
     Some (m\<lparr>cp_time_len := critical_path_time_len, cp_len := Some critical_path_len\<rparr>,
           s1\<lparr>g_heap := h3\<rparr>) }"

definition cp_getMetric :: "nat \<Rightarrow> CriticalPathMetric \<Rightarrow> 'a tdg_scheme
    \<Rightarrow> (double \<times> CriticalPathMetric \<times> 'a tdg_scheme) option" where
  "cp_getMetric depth m s = do {
     (m', s') \<leftarrow> (if cp_time_len m < 0 then computeCriticalPath depth m s else Some (m, s));
     Some (cp_time_len m', m', s') }"

section \<open>The pass as a dynamic program\<close>

definition node_time :: "heap \<Rightarrow> addr \<Rightarrow> double" where
  "node_time h a = (case h a of Some n \<Rightarrow> n_totalTime n | None \<Rightarrow> 0)"

definition time_ext :: "heap \<Rightarrow> double \<Rightarrow> addr \<Rightarrow> double" where
  "time_ext h t v = fadd t (node_time h v)"

interpretation time_dp: longest_path "node_time h" "time_ext h" for h
  by unfold_locales (simp add: time_ext_def fadd_mono)

definition with_paths :: "(addr \<Rightarrow> int) \<Rightarrow> (addr \<Rightarrow> double) \<Rightarrow> (addr \<Rightarrow> addr option) \<Rightarrow> heap \<Rightarrow> heap"
  where "with_paths fl ft fp = map_heap (\<lambda>a. setPaths (fl a) (ft a) (fp a))"

lemma with_paths_frame [simp]:
  "succs (with_paths fl ft fp h) = succs h" "preds (with_paths fl ft fp h) = preds h"
  "dom (with_paths fl ft fp h) = dom h" "edge_rel (with_paths fl ft fp h) = edge_rel h"
  "wf_heap (with_paths fl ft fp h) = wf_heap h"
  unfolding with_paths_def
  by (rule map_heap_frame, simp add: keeps_edges_def setPaths_def)+

text \<open>The predecessor the inner loop remembers.\<close>

definition prev_value :: "(addr \<Rightarrow> double) \<Rightarrow> addr list \<Rightarrow> double \<times> addr option \<Rightarrow> double \<times> addr option"
  where "prev_value tm us st =
     fold (\<lambda>u (m, p). if tm u > m then (tm u, Some u) else (m, p)) us st"

lemma prev_value_fst: "fst (prev_value tm us (m, p)) = fold (\<lambda>u m. max m (tm u)) us m"
  by (induction us arbitrary: m p) (auto simp: prev_value_def max_def)

lemma prev_value_snd:
  "snd (prev_value tm us (m, p)) = p \<and> fst (prev_value tm us (m, p)) = m
   \<or> (\<exists>u \<in> set us. snd (prev_value tm us (m, p)) = Some u \<and> fst (prev_value tm us (m, p)) = tm u)"
proof (induction us arbitrary: m p)
  case (Cons v vs)
  show ?case
    using Cons [of "tm v" "Some v"] Cons [of m p] by (auto simp: prev_value_def)
qed (simp add: prev_value_def)

lemma cp_entries_run:
  assumes "\<And>e. e \<in> set es \<Longrightarrow> getSource e \<in> dom h"
  shows "foldM (cp_entry (with_paths fl ft fp h) t) es (len, tm, prev) =
    Some (fold (\<lambda>e m. max m (fl (getSource e) + 1)) es len,
          prev_value (\<lambda>u. fadd (ft u) t) (map getSource es) (tm, prev))"
  using assms
proof (induction es arbitrary: len tm prev)
  case (Cons e es)
  obtain n where "h (getSource e) = Some n" using Cons.prems by fastforce
  then have "cp_entry (with_paths fl ft fp h) t e (len, tm, prev) =
      Some (max len (fl (getSource e) + 1),
        if fadd (ft (getSource e)) t > tm then (fadd (ft (getSource e)) t, Some (getSource e))
        else (tm, prev))"
    by (auto simp: cp_entry_def with_paths_def map_heap_def setPaths_def Let_def max_def)
  then show ?case using Cons by (simp add: prev_value_def split: if_splits)
qed (simp add: prev_value_def)

text \<open>One round of the pass, on the values alone.\<close>

type_synonym cp_values =
  "(addr \<Rightarrow> int) \<times> (addr \<Rightarrow> double) \<times> (addr \<Rightarrow> addr option) \<times> double \<times> int \<times> addr option"

definition len_value :: "heap \<Rightarrow> (addr \<Rightarrow> int) \<Rightarrow> addr \<Rightarrow> int" where
  "len_value h = dp_value (preds h) level_ini level_ext"

definition time_value :: "heap \<Rightarrow> (addr \<Rightarrow> double) \<Rightarrow> addr \<Rightarrow> double" where
  "time_value h = dp_value (preds h) (node_time h) (time_ext h)"

definition prev_of :: "heap \<Rightarrow> (addr \<Rightarrow> double) \<Rightarrow> addr option \<Rightarrow> addr \<Rightarrow> addr option" where
  "prev_of h ft p a = snd (prev_value (\<lambda>u. time_ext h (ft u) a) (preds h a) (node_time h a, p))"

definition cp_step :: "heap \<Rightarrow> addr \<Rightarrow> cp_values \<Rightarrow> cp_values" where
  "cp_step h a st = (case st of (fl, ft, fp, T, L, lc) \<Rightarrow>
     (fl(a := len_value h fl a), ft(a := time_value h ft a), fp(a := prev_of h ft (fp a) a),
      max T (time_value h ft a), max L (len_value h fl a),
      if time_value h ft a > T then Some a else lc))"

definition cp_heap :: "heap \<Rightarrow> cp_values \<Rightarrow> heap \<times> double \<times> int \<times> addr option" where
  "cp_heap h st = (case st of (fl, ft, fp, T, L, lc) \<Rightarrow> (with_paths fl ft fp h, T, L, lc))"

lemma prev_value_time:
  "prev_value (\<lambda>u. time_ext h (ft u) a) (preds h a) (node_time h a, p)
     = (time_value h ft a, prev_of h ft p a)"
  by (simp add: prod_eq_iff prev_value_fst prev_of_def time_value_def dp_value_def)

lemma with_paths_upd:
  assumes "h a = Some n"
  shows "(with_paths fl ft fp h)(a \<mapsto> setPaths l t p (setPaths (fl a) (ft a) (fp a) n))
    = with_paths (fl(a := l)) (ft(a := t)) (fp(a := p)) h"
  using assms by (auto simp: with_paths_def map_heap_def setPaths_def fun_eq_iff)

lemma cp_visit_step:
  assumes wf: "wf_heap h" and a: "a \<in> dom h"
  shows "cp_visit a (cp_heap h st) = Some (cp_heap h (cp_step h a st))"
proof -
  obtain fl ft fp T L lc where st: "st = (fl, ft, fp, T, L, lc)" by (cases st)
  obtain n where n: "h a = Some n" using a by blast
  let ?h = "with_paths fl ft fp h"
  have na: "?h a = Some (setPaths (fl a) (ft a) (fp a) n)"
    using n by (simp add: with_paths_def map_heap_def)
  have pr: "preds h a = map getSource (n_entryEdges n)" using n by (simp add: preds_def)
  have src: "getSource e \<in> dom h" if "e \<in> set (n_entryEdges n)" for e
    using wf_pred_dom [OF wf, of _ a] that pr by auto
  have t: "node_time h a = n_totalTime n" using n by (simp add: node_time_def)
  have "foldM (cp_entry ?h (n_totalTime n)) (n_entryEdges n) (0, n_totalTime n, fp a)
      = Some (len_value h fl a, time_value h ft a, prev_of h ft (fp a) a)"
    using cp_entries_run [OF src, where fl = fl and ft = ft and fp = fp and t = "n_totalTime n"]
      prev_value_time [of h ft a "fp a"]
    by (simp add: len_value_def dp_value_def pr fold_map o_def time_ext_def t)
  then show ?thesis
    using na with_paths_upd [of h a n fl ft fp] n
    by (simp add: st cp_visit_def cp_heap_def cp_step_def upd_node_def setPaths_def Let_def max_def)
qed

lemma cp_visits_run:
  assumes "wf_heap h" and "set l \<subseteq> dom h"
  shows "foldM cp_visit l (cp_heap h st) = Some (cp_heap h (fold (cp_step h) l st))"
  using assms(2) by (induction l arbitrary: st) (auto simp: cp_visit_step [OF assms(1)])

section \<open>What the pass computes\<close>

text \<open>The invariant of the pass after the nodes \<open>xs\<close>.\<close>

definition best_of :: "'w::linorder \<Rightarrow> addr list \<Rightarrow> (addr \<Rightarrow> 'w) \<Rightarrow> 'w \<Rightarrow> bool" where
  "best_of z xs f b \<longleftrightarrow> z \<le> b \<and> (\<forall>v \<in> set xs. f v \<le> b) \<and> (b = z \<or> (\<exists>v \<in> set xs. f v = b))"

definition prev_ok :: "heap \<Rightarrow> (addr \<Rightarrow> double) \<Rightarrow> (addr \<Rightarrow> addr option) \<Rightarrow> addr \<Rightarrow> bool" where
  "prev_ok h ft fp v \<longleftrightarrow>
     (case fp v of None \<Rightarrow> ft v = node_time h v
      | Some u \<Rightarrow> u \<in> set (preds h v) \<and> ft v = time_ext h (ft u) v)"

definition cp_inv :: "heap \<Rightarrow> addr list \<Rightarrow> cp_values \<Rightarrow> bool" where
  "cp_inv h xs st \<longleftrightarrow> (case st of (fl, ft, fp, T, L, lc) \<Rightarrow>
     (\<forall>v \<in> set xs. fl v = len_value h fl v \<and> ft v = time_value h ft v \<and> prev_ok h ft fp v)
     \<and> (\<forall>v. v \<notin> set xs \<longrightarrow> fp v = None)
     \<and> best_of 0 xs ft T \<and> best_of 0 xs fl L
     \<and> (case lc of None \<Rightarrow> T = 0 | Some v \<Rightarrow> v \<in> set xs \<and> ft v = T \<and> 0 < T))"

lemma prev_of_ok:
  "prev_of h ft None a = None \<and> time_value h ft a = node_time h a
   \<or> (\<exists>u \<in> set (preds h a). prev_of h ft None a = Some u \<and> time_value h ft a = time_ext h (ft u) a)"
  using prev_value_snd [of "\<lambda>u. time_ext h (ft u) a" "preds h a" "node_time h a" None]
  unfolding prev_value_time by simp

lemma best_of_snoc:
  assumes "best_of z xs f b" and "\<And>v. v \<in> set xs \<Longrightarrow> g v = f v"
  shows "best_of z (xs @ [a]) g (max b (g a))"
  using assms unfolding best_of_def by (auto simp: max_def)

lemma cp_inv_step:
  assumes inv: "cp_inv h xs st" and a: "a \<notin> set xs"
    and ord: "\<And>v. v \<in> set (xs @ [a]) \<Longrightarrow> set (preds h v) \<subseteq> set xs"
  shows "cp_inv h (xs @ [a]) (cp_step h a st)"
proof -
  obtain fl ft fp T L lc where st: "st = (fl, ft, fp, T, L, lc)" by (cases st)
  let ?fl = "fl(a := len_value h fl a)" and ?ft = "ft(a := time_value h ft a)"
    and ?fp = "fp(a := prev_of h ft (fp a) a)"
  have keep: "\<And>v. v \<in> set xs \<Longrightarrow> ?fl v = fl v \<and> ?ft v = ft v \<and> ?fp v = fp v" using a by auto
  have len: "len_value h ?fl v = len_value h fl v"
    and tim: "time_value h ?ft v = time_value h ft v" if "v \<in> set (xs @ [a])" for v
    unfolding len_value_def time_value_def using ord [OF that] a
    by (auto intro!: dp_value_upd_other)
  have prev: "prev_ok h ?ft ?fp v" if v: "v \<in> set (xs @ [a])" for v
  proof (cases "v = a")
    case True
    have fpa: "fp a = None" using inv a by (simp add: st cp_inv_def)
    have "a \<notin> set (preds h a)" using ord [of a] a by auto
    with fpa prev_of_ok [of h ft a] show ?thesis
      by (auto simp: True prev_ok_def split: option.splits)
  next
    case False
    with v inv have "prev_ok h ft fp v" by (simp add: st cp_inv_def)
    moreover have "a \<notin> set (preds h v)" using ord [OF v] a by auto
    ultimately show ?thesis using False by (auto simp: prev_ok_def split: option.splits)
  qed
  have vals: "?fl v = len_value h ?fl v \<and> ?ft v = time_value h ?ft v" if v: "v \<in> set (xs @ [a])" for v
    using inv len [OF v] tim [OF v] v by (auto simp: st cp_inv_def)
  have best: "best_of 0 (xs @ [a]) ?ft (max T (?ft a))" "best_of 0 (xs @ [a]) ?fl (max L (?fl a))"
    using inv keep by (auto simp: st cp_inv_def simp del: fun_upd_apply intro!: best_of_snoc)
  have crit: "case (if ?ft a > T then Some a else lc) of None \<Rightarrow> max T (?ft a) = 0
      | Some v \<Rightarrow> v \<in> set (xs @ [a]) \<and> ?ft v = max T (?ft a) \<and> 0 < max T (?ft a)"
    using inv keep unfolding st cp_inv_def best_of_def by (auto simp: max_def split: option.splits)
  have eq: "cp_step h a st = (?fl, ?ft, ?fp, max T (?ft a), max L (?fl a), if ?ft a > T then Some a else lc)"
    by (simp add: cp_step_def st)
  have "?fp v = None" if "v \<notin> set (xs @ [a])" for v
    using inv that by (simp add: st cp_inv_def)
  then show ?thesis unfolding cp_inv_def eq prod.case using prev vals best crit by blast
qed

lemma cp_inv_run:
  assumes "preds_first (preds h) l" and "distinct l" and "\<And>v. fp v = None"
  shows "cp_inv h l (fold (cp_step h) l (fl, ft, fp, 0, 0, None))"
  using assms(1,2)
proof (induction l rule: rev_induct)
  case Nil
  then show ?case using assms(3) by (simp add: cp_inv_def best_of_def)
next
  case (snoc a xs)
  have ord: "set (preds h v) \<subseteq> set xs" if v: "v \<in> set (xs @ [a])" for v
    using snoc.prems(1) preds_first_closed [of "preds h" xs v] v by auto
  show ?case using cp_inv_step [OF _ _ ord] snoc by simp
qed

section \<open>Following the remembered predecessors\<close>

primrec follows :: "('v \<Rightarrow> 'v option) \<Rightarrow> 'v option \<Rightarrow> 'v list \<Rightarrow> bool" where
  "follows pv x [] \<longleftrightarrow> x = None"
| "follows pv x (v # q) \<longleftrightarrow> x = Some v \<and> follows pv (pv v) q"

definition mark_crit :: "addr set \<Rightarrow> heap \<Rightarrow> heap" where
  "mark_crit S = map_heap (\<lambda>a n. if a \<in> S then setIsCritical True n else n)"

definition prev_ptr :: "heap \<Rightarrow> addr \<Rightarrow> addr option" where
  "prev_ptr h a = (case h a of Some n \<Rightarrow> n_prevCritical n | None \<Rightarrow> None)"

lemma mark_crit_upd:
  assumes "h a = Some n"
  shows "mark_crit S (h(a \<mapsto> setIsCritical True n)) = mark_crit (insert a S) h"
  using assms by (auto simp: mark_crit_def map_heap_def fun_eq_iff setIsCritical_def)

lemma mark_critical_follows:
  assumes "follows (prev_ptr h) x q" and "set q \<subseteq> dom h"
  shows "mark_critical x h t = Some (mark_crit (set q) h, fold (\<lambda>v t. fadd t (node_time h v)) q t)"
  using assms
proof (induction q arbitrary: x h t)
  case Nil
  then show ?case
    by (simp add: mark_critical.simps mark_crit_def map_heap_def option.map_ident)
next
  case (Cons v q)
  obtain n where n: "h v = Some n" using Cons.prems by auto
  define h' where "h' = h(v \<mapsto> setIsCritical True n)"
  have "prev_ptr h' = prev_ptr h" and tm: "node_time h' = node_time h" and "dom h' = dom h"
    using n by (auto simp: h'_def prev_ptr_def node_time_def setIsCritical_def fun_eq_iff)
  then have "mark_critical (prev_ptr h v) h' (fadd t (node_time h v))
      = Some (mark_crit (set q) h', fold (\<lambda>v t. fadd t (node_time h' v)) q (fadd t (node_time h v)))"
    using Cons.prems by (intro Cons.IH) simp_all
  moreover have "mark_critical x h t = mark_critical (prev_ptr h v) h' (fadd t (node_time h v))"
    using Cons.prems n by (subst mark_critical.simps) (simp add: prev_ptr_def node_time_def h'_def)
  moreover have "mark_crit (set q) h' = mark_crit (insert v (set q)) h"
    unfolding h'_def using n by (rule mark_crit_upd)
  ultimately show ?case using tm by simp
qed

text \<open>The remembered predecessors lead back along a path of the full weight.\<close>

lemma prev_path:
  assumes ord: "preds_first (preds h) l"
    and ok: "\<And>v. v \<in> set l \<Longrightarrow> prev_ok h ft fp v" and wf: "wf_heap h" and v: "v \<in> set l"
  shows "\<exists>p. is_path (succs h) p \<and> last p = v \<and> set p \<subseteq> set l
    \<and> path_weight (node_time h) (time_ext h) p = ft v \<and> follows fp (Some v) (rev p)"
  using assms(1,2,4)
proof (induction l arbitrary: v rule: rev_induct)
  case (snoc x xs)
  have IH: "\<exists>p. is_path (succs h) p \<and> last p = u \<and> set p \<subseteq> set xs
      \<and> path_weight (node_time h) (time_ext h) p = ft u \<and> follows fp (Some u) (rev p)"
    if "u \<in> set xs" for u
    using snoc.prems that by (intro snoc.IH) auto
  show ?case
  proof (cases "v \<in> set xs")
    case True
    then show ?thesis using IH by fastforce
  next
    case False
    with snoc.prems have v: "v = x" and okv: "prev_ok h ft fp v" by auto
    show ?thesis
    proof (cases "fp v")
      case None
      with okv v have "is_path (succs h) [v] \<and> last [v] = v \<and> set [v] \<subseteq> set (xs @ [x])
          \<and> path_weight (node_time h) (time_ext h) [v] = ft v \<and> follows fp (Some v) (rev [v])"
        by (simp add: prev_ok_def)
      then show ?thesis by blast
    next
      case (Some u)
      with okv have u: "u \<in> set (preds h v)" "ft v = time_ext h (ft u) v" by (auto simp: prev_ok_def)
      moreover have "u \<in> set xs" using snoc.prems(1) v u by auto
      then obtain p where p: "is_path (succs h) p" "last p = u" "set p \<subseteq> set xs"
          "path_weight (node_time h) (time_ext h) p = ft u" "follows fp (Some u) (rev p)"
        using IH by blast
      moreover have "p \<noteq> []" using p(1) by auto
      moreover have "v \<in> set (succs h u)" using u wf_heapD(5) [OF wf] by simp
      ultimately have "is_path (succs h) (p @ [v]) \<and> last (p @ [v]) = v \<and> set (p @ [v]) \<subseteq> set (xs @ [x])
          \<and> path_weight (node_time h) (time_ext h) (p @ [v]) = ft v \<and> follows fp (Some v) (rev (p @ [v]))"
        using v Some by (auto simp: is_path_snoc path_weight_snoc)
      then show ?thesis by blast
    qed
  qed
qed simp

section \<open>The computation on a fresh graph\<close>

text \<open>No analysis has run on the nodes yet, as after their construction.\<close>

definition unanalysed :: "heap \<Rightarrow> bool" where
  "unanalysed h \<longleftrightarrow>
     (\<forall>a n. h a = Some n \<longrightarrow> \<not> n_visited n \<and> n_prevCritical n = None \<and> \<not> n_isCritical n)"

definition critical_set :: "heap \<Rightarrow> addr set" where
  "critical_set h = {a. case h a of Some n \<Rightarrow> n_isCritical n | None \<Rightarrow> False}"

text \<open>A path of the graph, its length in time as the code adds it up, from the first node to the
  last, and its length in edges.\<close>

definition graph_path :: "heap \<Rightarrow> addr list \<Rightarrow> bool" where
  "graph_path h p \<longleftrightarrow> is_path (succs h) p \<and> set p \<subseteq> dom h"

definition time_of_path :: "heap \<Rightarrow> addr list \<Rightarrow> double" where
  "time_of_path h p = foldl (\<lambda>t v. fadd t (node_time h v)) (node_time h (hd p)) (tl p)"

definition edges_of_path :: "addr list \<Rightarrow> int" where
  "edges_of_path p = int (length p) - 1"

lemma time_of_path_weight: "time_of_path h p = path_weight (node_time h) (time_ext h) p"
  by (simp add: time_of_path_def path_weight_def time_ext_def [abs_def])

lemma edges_of_path_weight: "p \<noteq> [] \<Longrightarrow> edges_of_path p = path_weight level_ini level_ext p"
proof (induction p rule: rev_induct)
  case (snoc v p)
  then show ?case by (cases "p = []") (simp_all add: edges_of_path_def path_weight_snoc)
qed simp

definition path_len :: "heap \<Rightarrow> addr \<Rightarrow> int" where
  "path_len h a = (case h a of Some n \<Rightarrow> n_pathLength n | None \<Rightarrow> 0)"

definition path_time :: "heap \<Rightarrow> addr \<Rightarrow> double" where
  "path_time h a = (case h a of Some n \<Rightarrow> n_pathTime n | None \<Rightarrow> 0)"

lemma with_paths_id: "with_paths (path_len h) (path_time h) (prev_ptr h) h = h"
  by (auto simp: with_paths_def map_heap_def path_len_def path_time_def prev_ptr_def setPaths_def
      fun_eq_iff split: option.splits intro!: option.expand)

lemma prev_ptr_with_paths: "a \<in> dom h \<Longrightarrow> prev_ptr (with_paths fl ft fp h) a = fp a"
  by (auto simp: prev_ptr_def with_paths_def map_heap_def setPaths_def)

lemma critical_mark: "critical_set (mark_crit S h) = critical_set h \<union> (S \<inter> dom h)"
  by (auto simp: critical_set_def mark_crit_def map_heap_def setIsCritical_def split: option.splits)

lemma critical_with_paths: "critical_set (with_paths fl ft fp h) = critical_set h"
  by (auto simp: critical_set_def with_paths_def map_heap_def setPaths_def split: option.splits)

lemma follows_cong:
  "(\<And>v. v \<in> set q \<Longrightarrow> pv v = pv' v) \<Longrightarrow> follows pv x q = follows pv' x q"
  by (induction q arbitrary: x) auto

text \<open>What the topological sort leaves behind for the pass.\<close>

lemma topo_result_frame:
  assumes "topo_result s l s'"
  shows "succs (g_heap s') = succs (g_heap s)" "preds (g_heap s') = preds (g_heap s)"
    "dom (g_heap s') = dom (g_heap s)" "wf_heap (g_heap s') = wf_heap (g_heap s)"
    "node_time (g_heap s') = node_time (g_heap s)"
    "critical_set (g_heap s') = critical_set (g_heap s)" "prev_ptr (g_heap s') = prev_ptr (g_heap s)"
proof -
  obtain f where h: "g_heap s' = with_levels f (mark (dom (g_heap s)) (g_heap s))"
    using assms unfolding topo_result_def by (metis tdg.select_convs(1) tdg.update_convs(1) tdg.surjective)
  show "succs (g_heap s') = succs (g_heap s)" "preds (g_heap s') = preds (g_heap s)"
    "dom (g_heap s') = dom (g_heap s)" "wf_heap (g_heap s') = wf_heap (g_heap s)"
    by (simp_all add: h)
  show "node_time (g_heap s') = node_time (g_heap s)" "prev_ptr (g_heap s') = prev_ptr (g_heap s)"
    "critical_set (g_heap s') = critical_set (g_heap s)"
    by (auto simp: h node_time_def prev_ptr_def critical_set_def with_levels_def mark_def
        map_heap_def setLevel_def fun_eq_iff split: option.splits)
qed

definition best_path :: "heap \<Rightarrow> (addr list \<Rightarrow> 'w::linorder) \<Rightarrow> 'w \<Rightarrow> 'w \<Rightarrow> bool" where
  "best_path h w z b \<longleftrightarrow> z \<le> b \<and> (\<forall>p. graph_path h p \<longrightarrow> w p \<le> b)
     \<and> (b = z \<or> (\<exists>p. graph_path h p \<and> w p = b))"

lemma graph_path_last: "graph_path h p \<Longrightarrow> last p \<in> dom h"
  using last_in_set [of p] by (cases "p = []") (auto simp: graph_path_def simp del: last_in_set)

lemma best_pathI:
  assumes "best_of z l f b" and "set l = dom h"
    and "\<And>p. graph_path h p \<Longrightarrow> w p \<le> f (last p)"
    and "\<And>v. v \<in> set l \<Longrightarrow> \<exists>p. graph_path h p \<and> w p = f v"
  shows "best_path h w z b"
  unfolding best_path_def
proof (intro conjI allI impI)
  show "z \<le> b" using assms(1) by (simp add: best_of_def)
  show "w p \<le> b" if "graph_path h p" for p
    using assms(1) assms(3) [OF that] graph_path_last [OF that] assms(2)
    unfolding best_of_def by force
  show "b = z \<or> (\<exists>p. graph_path h p \<and> w p = b)"
    using assms(1,4) unfolding best_of_def by metis
qed

lemma cp_inv_best:
  assumes inv: "cp_inv h l (fl, ft, fp, T, L, lc)" and wf: "wf_heap h" and set: "set l = dom h"
    and ord: "preds_first (preds h) l"
  shows "best_path h (time_of_path h) 0 T" and "best_path h edges_of_path 0 L"
proof -
  have adj: "u \<in> set (preds h w) \<longleftrightarrow> w \<in> set (succs h u)" for u w using wf_heapD(5) [OF wf] by simp
  have ft: "\<And>v. v \<in> set l \<Longrightarrow> ft v = dp_value (preds h) (node_time h) (time_ext h) ft v"
    and fl: "\<And>v. v \<in> set l \<Longrightarrow> fl v = dp_value (preds h) level_ini level_ext fl v"
    and best: "best_of 0 l ft T" "best_of 0 l fl L"
    using inv by (auto simp: cp_inv_def time_value_def len_value_def)
  show "best_path h (time_of_path h) 0 T"
  proof (rule best_pathI [OF best(1) set])
    show "time_of_path h p \<le> ft (last p)" if "graph_path h p" for p
      using time_dp.dp_upper [where V = "set l", OF ft adj] that set
      by (simp add: graph_path_def time_of_path_weight)
    show "\<exists>p. graph_path h p \<and> time_of_path h p = ft v" if "v \<in> set l" for v
      using time_dp.dp_attained [OF ord ft adj that] set
      by (auto simp: graph_path_def time_of_path_weight)
  qed
  show "best_path h edges_of_path 0 L"
  proof (rule best_pathI [OF best(2) set])
    show "edges_of_path p \<le> fl (last p)" if "graph_path h p" for p
      using level_dp.dp_upper [where V = "set l", OF fl adj] that set
      by (cases "p = []") (auto simp: graph_path_def edges_of_path_weight)
    show "\<exists>p. graph_path h p \<and> edges_of_path p = fl v" if "v \<in> set l" for v
      using level_dp.dp_attained [OF ord fl adj that] set edges_of_path_weight
      by (metis graph_path_def is_path.simps(1))
  qed
qed

lemma cp_inv_chain:
  assumes inv: "cp_inv h l (fl, ft, fp, T, L, lc)" and wf: "wf_heap h" and set: "set l = dom h"
    and ord: "preds_first (preds h) l"
  shows "\<exists>p. follows (prev_ptr (with_paths fl ft fp h)) lc (rev p)
    \<and> (p = [] \<and> T = 0 \<or> graph_path h p \<and> time_of_path h p = T \<and> 0 < T)"
proof (cases lc)
  case None
  then show ?thesis using inv by (intro exI [of _ "[]"]) (simp add: cp_inv_def)
next
  case (Some v)
  with inv have v: "v \<in> set l" "ft v = T" "0 < T"
    and ok: "\<And>v. v \<in> set l \<Longrightarrow> prev_ok h ft fp v" by (auto simp: cp_inv_def)
  obtain p where p: "is_path (succs h) p" "set p \<subseteq> set l" "follows fp (Some v) (rev p)"
      "path_weight (node_time h) (time_ext h) p = ft v"
    using prev_path [OF ord ok wf v(1)] by blast
  moreover have "follows (prev_ptr (with_paths fl ft fp h)) (Some v) (rev p)"
    using p(2,3) set by (subst follows_cong [where pv' = fp]) (simp_all add: prev_ptr_with_paths subset_iff)
  ultimately show ?thesis using v set Some
    by (intro exI [of _ p]) (simp add: graph_path_def time_of_path_weight)
qed

text \<open>
  Everything of a node but what the analysis writes.  Both passes and the marking leave it alone.
\<close>

definition static :: "Node \<Rightarrow> Node" where
  "static n = n\<lparr>n_visited := False, n_level := 0, n_isCritical := False, n_pathLength := 0,
     n_pathTime := 0, n_prevCritical := None\<rparr>"

definition static_view :: "heap \<Rightarrow> heap" where
  "static_view h = (\<lambda>a. map_option static (h a))"

lemma static_view_map_heap:
  "(\<And>a n. static (f a n) = static n) \<Longrightarrow> static_view (map_heap f h) = static_view h"
  by (simp add: static_view_def map_heap_def option.map_comp o_def)

lemma static_view_passes [simp]:
  "static_view (mark S h) = static_view h" "static_view (with_levels fl h) = static_view h"
  "static_view (with_paths f g p h) = static_view h" "static_view (mark_crit S h) = static_view h"
  unfolding mark_def with_levels_def with_paths_def mark_crit_def
  by (rule static_view_map_heap,
      simp add: static_def setLevel_def setPaths_def setIsCritical_def)+

lemma static_view_eqD:
  assumes "static_view h' = static_view h"
  shows "dom h' = dom h" and "\<And>a n. h a = Some n \<Longrightarrow> \<exists>n'. h' a = Some n' \<and> static n' = static n"
proof -
  have eq: "map_option static (h' a) = map_option static (h a)" for a
    using assms by (metis static_view_def)
  show "\<exists>n'. h' a = Some n' \<and> static n' = static n" if "h a = Some n" for a n
    using eq [of a] that by (cases "h' a") auto
  show "dom h' = dom h" using eq by (metis (no_types, lifting) domIff option.map_disc_iff set_eqI)
qed

lemma visited_analysed:
  "visited_set (with_levels f h) = visited_set h" "visited_set (with_paths fl ft fp h) = visited_set h"
  "visited_set (mark_crit S h) = visited_set h"
  by (auto simp: visited_set_def with_levels_def with_paths_def mark_crit_def map_heap_def
      setLevel_def setPaths_def setIsCritical_def split: option.splits if_splits)

lemma topo_result_static:
  assumes "topo_result s l s'"
  shows "s' = s\<lparr>g_heap := g_heap s'\<rparr>" and "static_view (g_heap s') = static_view (g_heap s)"
    and "visited_set (g_heap s') = dom (g_heap s)"
proof -
  obtain f where s': "s' = s\<lparr>g_heap := with_levels f (mark (dom (g_heap s)) (g_heap s))\<rparr>"
    using assms unfolding topo_result_def by blast
  then have h: "g_heap s' = with_levels f (mark (dom (g_heap s)) (g_heap s))" by simp
  show "s' = s\<lparr>g_heap := g_heap s'\<rparr>" using s' h by simp
  show "static_view (g_heap s') = static_view (g_heap s)" by (simp add: h)
  show "visited_set (g_heap s') = dom (g_heap s)"
    by (auto simp: h visited_analysed visited_mark) (auto simp: visited_set_def split: option.splits)
qed

definition analysed :: "'a tdg_scheme \<Rightarrow> 'a tdg_scheme \<Rightarrow> bool" where
  "analysed s s' \<longleftrightarrow> s' = s\<lparr>g_heap := g_heap s'\<rparr> \<and> static_view (g_heap s') = static_view (g_heap s)
     \<and> visited_set (g_heap s') = dom (g_heap s)"

lemma analysed_after_sort:
  assumes res: "topo_result s l s1"
  shows "analysed s (s1\<lparr>g_heap := mark_crit P (with_paths fl ft fp (g_heap s1))\<rparr>)"
proof -
  have "s1\<lparr>g_heap := X\<rparr> = s\<lparr>g_heap := X\<rparr>" for X
    by (subst topo_result_static(1) [OF res]) simp
  then show ?thesis
    using topo_result_static(2,3) [OF res] by (simp add: analysed_def visited_analysed)
qed

lemma computeCriticalPath_runs:
  assumes wf: "wf_tdg s" and dag: "acyclic (edge_rel (g_heap s))"
    and fresh: "unanalysed (g_heap s)" and depth: "card (dom (g_heap s)) \<le> depth"
  shows "\<exists>m' s' L p. computeCriticalPath depth m s = Some (m', s')
    \<and> best_path (g_heap s) (time_of_path (g_heap s)) 0 (cp_time_len m')
    \<and> cp_len m' = Some L \<and> best_path (g_heap s) edges_of_path 0 L
    \<and> analysed s s' \<and> critical_set (g_heap s') = set p
    \<and> (p = [] \<and> cp_time_len m' = 0
        \<or> graph_path (g_heap s) p \<and> time_of_path (g_heap s) p = cp_time_len m' \<and> 0 < cp_time_len m')"
proof -
  let ?h = "g_heap s"
  have wfh: "wf_heap ?h" using wf by (simp add: wf_tdg_def)
  have "visited_set ?h = {}" and crit: "critical_set ?h = {}" and prev: "\<And>a. prev_ptr ?h a = None"
    using fresh by (auto simp: unanalysed_def visited_set_def critical_set_def prev_ptr_def
        split: option.splits)
  then obtain l s1 where run1: "topoSort depth [] s = Some (l, s1)" and res: "topo_result s l s1"
    using topoSort_runs [OF wf dag _ depth] by blast
  let ?h1 = "g_heap s1"
  note frame = topo_result_frame [OF res]
  have set: "set l = dom ?h1" and dis: "distinct l" and topo: "topo_ordered (succs ?h1) l"
    using res by (simp_all add: topo_result_def frame)
  have wf1: "wf_heap ?h1" using wfh frame by simp
  note ord = preds_firstI [OF wf1 topo dis set]
  obtain fl ft fp T L lc where st: "fold (cp_step ?h1) l
      (path_len ?h1, path_time ?h1, prev_ptr ?h1, 0, 0, None) = (fl, ft, fp, T, L, lc)"
    by (metis prod.exhaust)
  let ?h2 = "with_paths fl ft fp ?h1"
  have run2: "foldM cp_visit l (?h1, 0, 0, None) = Some (?h2, T, L, lc)"
    using cp_visits_run [OF wf1, of l "(path_len ?h1, path_time ?h1, prev_ptr ?h1, 0, 0, None)"] set
    by (simp add: cp_heap_def st with_paths_id)
  have inv: "cp_inv ?h1 l (fl, ft, fp, T, L, lc)"
    using cp_inv_run [OF ord dis, where fp = "prev_ptr ?h1"] prev frame by (simp flip: st)
  obtain p where fol: "follows (prev_ptr ?h2) lc (rev p)"
      and p: "p = [] \<and> T = 0 \<or> graph_path ?h1 p \<and> time_of_path ?h1 p = T \<and> 0 < T"
    using cp_inv_chain [OF inv wf1 set ord] by blast
  have sub: "set p \<subseteq> dom ?h1" using p by (auto simp: graph_path_def)
  then obtain t where run3: "mark_critical lc ?h2 0 = Some (mark_crit (set p) ?h2, t)"
    using mark_critical_follows [OF fol] by simp
  have crit': "critical_set (mark_crit (set p) ?h2) = set p"
    using sub crit frame by (auto simp: critical_mark critical_with_paths)
  have gp: "graph_path ?h1 = graph_path ?h" "time_of_path ?h1 = time_of_path ?h"
    by (simp_all add: graph_path_def time_of_path_def frame fun_eq_iff)
  have best: "best_path ?h (time_of_path ?h) 0 T" "best_path ?h edges_of_path 0 L"
    using cp_inv_best [OF inv wf1 set ord] by (simp_all add: best_path_def gp)
  have an: "analysed s (s1\<lparr>g_heap := mark_crit (set p) ?h2\<rparr>)"
    by (rule analysed_after_sort [OF res])
  show ?thesis
    using run1 run2 run3 crit' best p an unfolding gp computeCriticalPath_def by auto
qed

section \<open>Properties\<close>

lemma sample_unanalysed: "unanalysed (g_heap sample_graph)"
  by (simp add: unanalysed_def sample_graph_def new_Node_def setThreadId_def setLoopCounter_def split: if_splits)

text \<open>
  C6. \<open>computeCriticalPath\<close> on a fresh, well-formed, acyclic graph returns the weight of the
  heaviest path: no path of the graph takes longer than the time it reports, and some path takes
  exactly that long (or the time is 0 and no path takes longer), where the time of a path is the
  binary64 sum of its nodes' times in order.
\<close>

theorem critical_time_is_maximal:
  assumes "wf_tdg s" and "acyclic (edge_rel (g_heap s))" and "unanalysed (g_heap s)"
    and "card (dom (g_heap s)) \<le> depth"
  shows "\<exists>m' s'. computeCriticalPath depth m s = Some (m', s')
    \<and> (\<forall>p. graph_path (g_heap s) p \<longrightarrow> time_of_path (g_heap s) p \<le> cp_time_len m')
    \<and> (cp_time_len m' = 0 \<or> (\<exists>p. graph_path (g_heap s) p \<and> time_of_path (g_heap s) p = cp_time_len m'))"
  using computeCriticalPath_runs [OF assms, of m] unfolding best_path_def by blast

theorem critical_time_is_maximal_witness:
  "\<exists>m' s'. computeCriticalPath 3 new_CriticalPathMetric sample_graph = Some (m', s')
    \<and> time_of_path (g_heap sample_graph) [0, 1] \<le> cp_time_len m'"
proof -
  have "graph_path (g_heap sample_graph) [0, 1]" by (simp add: graph_path_def sample_succs sample_dom)
  then show ?thesis
    using critical_time_is_maximal [OF wf_sample acyclic_sample sample_unanalysed, of 3 new_CriticalPathMetric]
    by (auto simp: sample_dom)
qed

text \<open>
  C18. The length \<open>computeCriticalPath\<close> reports is the largest number of edges of a path of the
  graph: no path has more, and some path has that many (0 for a graph without edges).
\<close>

theorem critical_length_is_maximal:
  assumes "wf_tdg s" and "acyclic (edge_rel (g_heap s))" and "unanalysed (g_heap s)"
    and "card (dom (g_heap s)) \<le> depth"
  shows "\<exists>m' s' len. computeCriticalPath depth m s = Some (m', s') \<and> cp_len m' = Some len
    \<and> (\<forall>p. graph_path (g_heap s) p \<longrightarrow> int (length p) - 1 \<le> len)
    \<and> (len = 0 \<or> (\<exists>p. graph_path (g_heap s) p \<and> int (length p) - 1 = len))"
  using computeCriticalPath_runs [OF assms, of m] unfolding best_path_def edges_of_path_def by blast

theorem critical_length_is_maximal_witness:
  "\<exists>m' s' len. computeCriticalPath 3 new_CriticalPathMetric sample_graph = Some (m', s')
    \<and> cp_len m' = Some len \<and> 1 \<le> len"
proof -
  have "graph_path (g_heap sample_graph) [0, 1]" by (simp add: graph_path_def sample_succs sample_dom)
  then show ?thesis
    using critical_length_is_maximal [OF wf_sample acyclic_sample sample_unanalysed, of 3 new_CriticalPathMetric]
    by (fastforce simp: sample_dom)
qed

text \<open>
  C7. The nodes \<open>computeCriticalPath\<close> marks as critical, which the dot file draws with a double
  circle, are exactly the nodes of one path whose time is the reported time; nothing is marked
  when no path takes any time.
\<close>

theorem marked_nodes_form_critical_path:
  assumes "wf_tdg s" and "acyclic (edge_rel (g_heap s))" and "unanalysed (g_heap s)"
    and "card (dom (g_heap s)) \<le> depth"
  shows "\<exists>m' s' p. computeCriticalPath depth m s = Some (m', s') \<and> critical_set (g_heap s') = set p
    \<and> (p = [] \<and> cp_time_len m' = 0
       \<or> graph_path (g_heap s) p \<and> time_of_path (g_heap s) p = cp_time_len m' \<and> 0 < cp_time_len m')"
  using computeCriticalPath_runs [OF assms, of m] by blast

theorem marked_nodes_form_critical_path_witness:
  "\<exists>m' s' p. computeCriticalPath 3 new_CriticalPathMetric sample_graph = Some (m', s')
    \<and> critical_set (g_heap s') = set p \<and> (p = [] \<or> graph_path (g_heap sample_graph) p)"
  using marked_nodes_form_critical_path [OF wf_sample acyclic_sample sample_unanalysed, of 3 new_CriticalPathMetric]
  by (fastforce simp: sample_dom)

end
