(* ===== verification/Out_Stream.thy ===== *)
theory Out_Stream
  imports Binary64 Tdg_Prelude
begin

text \<open>
  A \<open>std::ostream\<close> as the sequence of the values inserted into it with \<open>operator<<\<close>: the text of
  an integer, an address or a character string is fixed by its value, and how the library renders a double
  (six significant digits) plays no part in what the sources decide.
\<close>

datatype out_item = OStr string | OInt int | OPtr uint64 | ODouble double | Endl

text \<open>A call that returns, or ends the process with an exit status.\<close>

datatype 'a outcome = Returns 'a | Exits int

type_synonym out_text = "out_item list"

text \<open>The lines of a text, as a reader of the file sees them.\<close>

fun out_lines :: "out_text \<Rightarrow> out_text list" where
  "out_lines [] = []"
| "out_lines (Endl # xs) = [] # out_lines xs"
| "out_lines (x # xs) = (case out_lines xs of [] \<Rightarrow> [[x]] | l # ls \<Rightarrow> (x # l) # ls)"

lemma out_lines_line:
  "Endl \<notin> set l \<Longrightarrow> out_lines (l @ Endl # xs) = l # out_lines xs"
  by (induction l rule: out_lines.induct) auto

lemma out_lines_concat:
  "\<forall>l \<in> set ls. Endl \<notin> set l \<Longrightarrow> out_lines (concat (map (\<lambda>l. l @ [Endl]) ls)) = ls"
  by (induction ls) (simp_all add: out_lines_line)

definition unlines :: "out_text list \<Rightarrow> out_text" where
  "unlines ls = concat (map (\<lambda>l. l @ [Endl]) ls)"

lemma unlines_simps [simp]:
  "unlines [] = []" "unlines (l # ls) = l @ Endl # unlines ls"
  "unlines (ls @ ls') = unlines ls @ unlines ls'"
  by (simp_all add: unlines_def)

lemma out_lines_unlines: "\<forall>l \<in> set ls. Endl \<notin> set l \<Longrightarrow> out_lines (unlines ls) = ls"
  by (simp add: unlines_def out_lines_concat)

end
