(* ===== verification/Total_Time.thy ===== *)
theory Total_Time
  imports Tdg_Graph Out_Stream "HOL-Library.Multiset"
begin

text \<open>
  \<open>compute_stats\<close> of \<open>src/graph.cc\<close> and \<open>TotalTimeMetric\<close> of \<open>src/metrics.h\<close> and
  \<open>src/metrics.cc\<close>: the statistics of the nodes' times.

  \<open>compute_stats\<close> keeps the size of the vector in an \<open>unsigned int\<close>; it is \<open>None\<close> where the code
  reads outside the vector or divides by zero.  The members the constructor of the metric leaves
  uninitialised are options, and printing one of them is \<open>None\<close>.
\<close>

section \<open>compute_stats\<close>

definition compute_stats :: "double list \<Rightarrow>
    (double \<times> double \<times> double \<times> double \<times> double list) option" where
  "compute_stats arr =
     (let arr_size = (word_of_nat (length arr) :: uint32);
          seen = take (unat arr_size) arr;
          sum = fold (\<lambda>x t. fadd t x) seen 0;
          avg = fdiv sum (double_of_nat (unat arr_size));
          squares = fold (\<lambda>x v. let diff = fsub x avg in fadd v (fmul diff diff)) seen 0;
          variance = fdiv squares (double_of_nat (unat arr_size));
          stddev = fsqrt variance;
          arr' = sort arr;
          mid = length arr' div 2
      in if arr_size = 0 then None
         else Some (sum, avg, stddev,
           if length arr' mod 2 = 0 then fdiv (fadd (arr' ! mid) (arr' ! (mid - 1))) 2 else arr' ! mid,
           arr'))"

section \<open>The metric\<close>

record TotalTimeMetric =
  tt_total_time :: double
  tt_avg_time :: "double option"
  tt_stddev :: "double option"
  tt_med_time :: "double option"
  tt_times_arr :: "double list"
  tt_numChunks :: uint32
  tt_totalChunkTimes :: double
  tt_numExplicitTasks :: uint32
  tt_totalExplicitTimes :: double

definition new_TotalTimeMetric :: TotalTimeMetric where
  "new_TotalTimeMetric = \<lparr>tt_total_time = - 1, tt_avg_time = None, tt_stddev = None,
     tt_med_time = None, tt_times_arr = [], tt_numChunks = 0, tt_totalChunkTimes = 0,
     tt_numExplicitTasks = 0, tt_totalExplicitTimes = 0\<rparr>"

definition count_node :: "Node \<Rightarrow> TotalTimeMetric \<Rightarrow> TotalTimeMetric" where
  "count_node n m =
     (let m1 = m\<lparr>tt_times_arr := tt_times_arr m @ [n_totalTime n]\<rparr>;
          m2 = (if n_type n = CHUNK_TASK
                then m1\<lparr>tt_numChunks := tt_numChunks m1 + 1,
                        tt_totalChunkTimes := fadd (tt_totalChunkTimes m1) (n_totalTime n)\<rparr>
                else m1)
      in if n_type n = EXP_TASK
         then m2\<lparr>tt_numExplicitTasks := tt_numExplicitTasks m2 + 1,
                 tt_totalExplicitTimes := fadd (tt_totalExplicitTimes m2) (n_totalTime n)\<rparr>
         else m2)"

definition tt_init :: "'a tdg_scheme \<Rightarrow> TotalTimeMetric \<Rightarrow> TotalTimeMetric option" where
  "tt_init s m = do {
     m1 \<leftarrow> foldM (\<lambda>(i, a) m. do { n \<leftarrow> g_heap s a; Some (count_node n m) })
            (g_graphNodes s) (m\<lparr>tt_total_time := 0\<rparr>);
     if length (tt_times_arr m1) > 0 then do {
       (sum, avg, stddev, median, arr) \<leftarrow> compute_stats (tt_times_arr m1);
       Some (m1\<lparr>tt_total_time := sum, tt_avg_time := Some avg, tt_stddev := Some stddev,
                tt_med_time := Some median, tt_times_arr := arr\<rparr>) }
     else Some m1 }"

definition tt_getMetric :: "TotalTimeMetric \<Rightarrow> double" where
  "tt_getMetric m = tt_total_time m"

definition tt_printMetric :: "TotalTimeMetric \<Rightarrow> out_text option" where
  "tt_printMetric m = do {
     avg \<leftarrow> tt_avg_time m;
     stddev \<leftarrow> tt_stddev m;
     median \<leftarrow> tt_med_time m;
     let arr = tt_times_arr m;
     let sz = length arr;
     Some (
       [OStr ''Total time (ms): '', ODouble (tt_total_time m), Endl,
        OStr ''Total tasks: '', OInt (int sz), Endl,
        OStr ''Total chunks time: '', ODouble (tt_totalChunkTimes m), Endl,
        OStr ''Total chunks: '', OInt (uint (tt_numChunks m)), Endl,
        OStr ''Total explicit time: '', ODouble (tt_totalExplicitTimes m), Endl,
        OStr ''Total explicit tasks: '', OInt (uint (tt_numExplicitTasks m)), Endl,
        OStr ''Average time per task: '', ODouble avg, Endl,
        OStr ''Task time stddev: '', ODouble stddev, Endl,
        OStr ''Median time: '', ODouble median, Endl] @
       (if sz > 0 then
         [OStr ''Min task time: '', ODouble (arr ! 0), Endl,
          OStr ''Max task time: '', ODouble (arr ! (sz - 1)), Endl,
          OStr ''1st quartile: '', ODouble (arr ! (sz div 4)), Endl,
          OStr ''2nd quartile (median): '', ODouble (arr ! (sz div 2)), Endl,
          OStr ''3rd quartile: '', ODouble (arr ! (sz * 3 div 4)), Endl]
        else [])) }"

section \<open>The statistics\<close>

definition fsum :: "double list \<Rightarrow> double" where
  "fsum xs = fold (\<lambda>x t. fadd t x) xs 0"

text \<open>The middle element, or the mean of the two middle ones.\<close>

definition median_of :: "double list \<Rightarrow> double" where
  "median_of arr = (if even (length arr)
     then fdiv (fadd (sort arr ! (length arr div 2)) (sort arr ! (length arr div 2 - 1))) 2
     else sort arr ! (length arr div 2))"

lemma fsum_representable: "representable t \<Longrightarrow> representable (fold (\<lambda>x t. fadd t x) xs t)"
  by (induction xs arbitrary: t) auto

text \<open>Leaving out times can only make a sum smaller, whatever the rounding.\<close>

lemma fsum_filter_le:
  assumes "representable t'" and "t \<le> t'" and "\<forall>x \<in> set xs. 0 \<le> f x"
  shows "fold (\<lambda>x t. fadd t (f x)) (filter P xs) t \<le> fold (\<lambda>x t. fadd t (f x)) xs t'"
  using assms
proof (induction xs arbitrary: t t')
  case (Cons x xs)
  have "t \<le> fadd t' (f x)" using Cons.prems fadd_increasing [of t' "f x"] by simp
  moreover have "fadd t (f x) \<le> fadd t' (f x)" using Cons.prems(2) by (intro fadd_mono) auto
  ultimately show ?case using Cons.IH [of "fadd t' (f x)"] Cons.prems(3) by simp
qed simp

lemma length_uint32: "length xs < 2 ^ 32 \<Longrightarrow> unat (word_of_nat (length xs) :: uint32) = length xs"
  by (rule unat_word_of_nat) simp

lemma fold_squares_nonneg:
  "0 \<le> v \<Longrightarrow> 0 \<le> fold (\<lambda>x v. fadd v (fmul (fsub x c) (fsub x c))) xs v"
proof (induction xs arbitrary: v)
  case (Cons x xs)
  have "0 \<le> fadd v (fmul (fsub x c) (fsub x c))"
    using Cons.prems by (intro fadd_nonneg) (simp_all add: fmul_def rnd_nonneg)
  with Cons.IH show ?case by simp
qed simp

lemma compute_stats_runs:
  assumes "arr \<noteq> []" and "length arr < 2 ^ 32"
  shows "\<exists>stddev. 0 \<le> stddev \<and> compute_stats arr = Some (fsum arr,
      fdiv (fsum arr) (double_of_nat (length arr)), stddev, median_of arr, sort arr)"
proof -
  have sz: "unat (word_of_nat (length arr) :: uint32) = length arr" using assms by (simp add: length_uint32)
  have nz: "(word_of_nat (length arr) :: uint32) \<noteq> 0"
  proof
    assume "(word_of_nat (length arr) :: uint32) = 0"
    then have "length arr = 0" using sz by simp
    with assms(1) show False by simp
  qed
  define avg where "avg = fdiv (fsum arr) (double_of_nat (length arr))"
  define squares where "squares = fold (\<lambda>x v. fadd v (fmul (fsub x avg) (fsub x avg))) arr 0"
  define stddev where "stddev = fsqrt (fdiv squares (double_of_nat (length arr)))"
  have "0 \<le> stddev"
    using fold_squares_nonneg [of 0 avg arr]
    by (simp add: stddev_def squares_def fsqrt_def fdiv_def double_of_nat_def rnd_nonneg)
  moreover have "compute_stats arr = Some (fsum arr, avg, stddev, median_of arr, sort arr)"
    unfolding compute_stats_def Let_def sz take_all [OF order_refl] fsum_def [symmetric]
      avg_def [symmetric] squares_def [symmetric] stddev_def [symmetric] length_sort
      if_not_P [OF nz] even_iff_mod_2_eq_zero median_of_def
    by (rule refl)
  ultimately show ?thesis by (auto simp: avg_def)
qed

lemma sorted_between:
  assumes "sorted xs" and "i < length xs"
  shows "xs ! 0 \<le> xs ! i" and "xs ! i \<le> xs ! (length xs - 1)"
  using assms by (auto intro: sorted_nth_mono)

lemma sort_ends:
  assumes "arr \<noteq> []"
  shows "sort arr ! 0 = Min (set arr)" and "sort arr ! (length arr - 1) = Max (set arr)"
proof -
  have ne: "sort arr \<noteq> []" using assms by (metis set_empty set_sort)
  have el: "x \<in> set arr \<longleftrightarrow> (\<exists>i < length arr. x = sort arr ! i)" for x
    using in_set_conv_nth [of x "sort arr"] by auto
  have l: "0 < length arr" "length arr - 1 < length arr" using assms by auto
  note b = sorted_between [OF sorted_sort, of _ arr]
  show "sort arr ! 0 = Min (set arr)"
    using el b(1) l by (intro Min_eqI [symmetric]) auto
  show "sort arr ! (length arr - 1) = Max (set arr)"
    using el b(2) l(2) by (intro Max_eqI [symmetric]) (auto simp del: One_nat_def)
qed

lemma median_between:
  assumes "arr \<noteq> []" and "\<forall>x \<in> set arr. representable x"
  shows "sort arr ! ((length arr - 1) div 2) \<le> median_of arr"
    and "median_of arr \<le> sort arr ! (length arr div 2)"
proof -
  let ?m = "length arr div 2"
  have m: "?m < length arr" using assms(1) by simp
  have r: "representable (sort arr ! i)" if "i < length arr" for i
    using assms(2) that nth_mem [of i "sort arr"] by simp
  have "sort arr ! (?m - 1) \<le> fdiv (fadd (sort arr ! (?m - 1)) (sort arr ! ?m)) 2"
    "fdiv (fadd (sort arr ! (?m - 1)) (sort arr ! ?m)) 2 \<le> sort arr ! ?m"
    using m by (auto intro!: fmean_between r sorted_nth_mono)
  moreover have "(length arr - 1) div 2 = (if even (length arr) then ?m - 1 else ?m)"
    using assms(1) by (auto elim!: evenE oddE)
  ultimately show "sort arr ! ((length arr - 1) div 2) \<le> median_of arr"
      and "median_of arr \<le> sort arr ! ?m"
    by (auto simp: median_of_def fadd_def add.commute)
qed

section \<open>The pass over the graph\<close>

definition nodes_in_order :: "'a tdg_scheme \<Rightarrow> Node list" where
  "nodes_in_order s = map (\<lambda>(i, a). the (g_heap s a)) (g_graphNodes s)"

definition is_type :: "NodeType \<Rightarrow> Node \<Rightarrow> bool" where
  "is_type ty n \<longleftrightarrow> n_type n = ty"

lemma count_nodes:
  fixes m :: TotalTimeMetric
  defines "m' ns \<equiv> fold count_node ns m"
  shows "tt_times_arr (m' ns) = tt_times_arr m @ map n_totalTime ns"
    and "tt_numChunks (m' ns) = tt_numChunks m + word_of_nat (length (filter (is_type CHUNK_TASK) ns))"
    and "tt_numExplicitTasks (m' ns) = tt_numExplicitTasks m + word_of_nat (length (filter (is_type EXP_TASK) ns))"
    and "tt_totalChunkTimes (m' ns) =
      fold (\<lambda>n t. fadd t (n_totalTime n)) (filter (is_type CHUNK_TASK) ns) (tt_totalChunkTimes m)"
    and "tt_totalExplicitTimes (m' ns) =
      fold (\<lambda>n t. fadd t (n_totalTime n)) (filter (is_type EXP_TASK) ns) (tt_totalExplicitTimes m)"
  unfolding m'_def
  by (induction ns arbitrary: m) (simp_all add: count_node_def Let_def is_type_def)

lemma nodes_pass:
  assumes "index_ok s"
  shows "foldM (\<lambda>(i, a) m. do { n \<leftarrow> g_heap s a; Some (count_node n m) }) (g_graphNodes s) m
    = Some (fold count_node (nodes_in_order s) m)"
proof -
  have "a \<in> dom (g_heap s)" if "(i, a) \<in> set (g_graphNodes s)" for i a
    using graphNodes_iter(2) [OF assms] that by force
  then have "foldM (\<lambda>(i, a) m. do { n \<leftarrow> g_heap s a; Some (count_node n m) }) (g_graphNodes s) m
      = Some (fold (\<lambda>(i, a). count_node (the (g_heap s a))) (g_graphNodes s) m)"
    by (intro foldM_total) fastforce
  then show ?thesis by (simp add: nodes_in_order_def fold_map o_def case_prod_unfold)
qed

lemma nodes_in_order_times:
  assumes "index_ok s"
  shows "mset (nodes_in_order s) = image_mset (\<lambda>a. the (g_heap s a)) (mset_set (dom (g_heap s)))"
proof -
  note it = graphNodes_iter [OF assms]
  have "mset (map snd (g_graphNodes s)) = mset_set (dom (g_heap s))"
    using it mset_set_set [OF it(1)] by simp
  moreover have "nodes_in_order s = map (\<lambda>a. the (g_heap s a)) (map snd (g_graphNodes s))"
    by (simp add: nodes_in_order_def case_prod_unfold)
  ultimately show ?thesis by (metis mset_map)
qed

definition node_times :: "'a tdg_scheme \<Rightarrow> double list" where
  "node_times s = map n_totalTime (nodes_in_order s)"

definition fresh_count :: "'a tdg_scheme \<Rightarrow> TotalTimeMetric" where
  "fresh_count s = fold count_node (nodes_in_order s) (new_TotalTimeMetric\<lparr>tt_total_time := 0\<rparr>)"

lemma tt_init_empty:
  assumes "index_ok s" and "dom (g_heap s) = {}"
  shows "tt_init s new_TotalTimeMetric = Some (new_TotalTimeMetric\<lparr>tt_total_time := 0\<rparr>)"
proof -
  have "g_graphNodes s = []" using graphNodes_iter(2) [OF assms(1)] assms(2) by simp
  then show ?thesis by (simp add: tt_init_def new_TotalTimeMetric_def)
qed

lemma tt_init_runs:
  assumes "index_ok s" and "dom (g_heap s) \<noteq> {}" and "card (dom (g_heap s)) < 2 ^ 32"
  shows "\<exists>stddev. 0 \<le> stddev \<and> tt_init s new_TotalTimeMetric = Some ((fresh_count s)\<lparr>
       tt_total_time := fsum (node_times s),
       tt_avg_time := Some (fdiv (fsum (node_times s)) (double_of_nat (card (dom (g_heap s))))),
       tt_stddev := Some stddev, tt_med_time := Some (median_of (node_times s)),
       tt_times_arr := sort (node_times s)\<rparr>)"
proof -
  note it = graphNodes_iter [OF assms(1)]
  have len: "length (node_times s) = card (dom (g_heap s))"
    using distinct_card [OF it(1)] it(2) by (simp add: node_times_def nodes_in_order_def)
  have "finite (dom (g_heap s))" by (metis it(2) List.finite_set)
  then have ne: "node_times s \<noteq> []" using len assms(2) by force
  have arr: "tt_times_arr (fresh_count s) = node_times s"
    by (simp add: fresh_count_def count_nodes new_TotalTimeMetric_def node_times_def)
  obtain stddev where "0 \<le> stddev" "compute_stats (node_times s) = Some (fsum (node_times s),
      fdiv (fsum (node_times s)) (double_of_nat (card (dom (g_heap s)))), stddev,
      median_of (node_times s), sort (node_times s))"
    using compute_stats_runs [OF ne] len assms(3) by auto
  then show ?thesis
    using ne arr
    by (intro exI [of _ stddev])
      (simp add: tt_init_def nodes_pass [OF assms(1)] fresh_count_def [symmetric])
qed

section \<open>Properties\<close>

lemma sample_nodes:
  "nodes_in_order sample_graph = [
     (new_Node 0 ROOT_TASK 2)\<lparr>n_exitEdges := [new_Edge 0 1, new_Edge 0 2]\<rparr>,
     setThreadId 0 (setLoopCounter 7 ((new_Node 1 CHUNK_TASK 3)\<lparr>n_entryEdges := [new_Edge 0 1]\<rparr>)),
     (new_Node 2 EXP_TASK 1)\<lparr>n_entryEdges := [new_Edge 0 2]\<rparr>]"
  by (simp add: nodes_in_order_def sample_graph_def)

lemma sample_index: "index_ok sample_graph"
  using wf_sample by (simp add: wf_tdg_def)

lemma times_in_order:
  assumes "index_ok s" shows "set (node_times s) = {n_totalTime n |a n. g_heap s a = Some n}"
proof -
  have "set_mset (mset (nodes_in_order s)) = {n. \<exists>a. g_heap s a = Some n}"
    unfolding nodes_in_order_times [OF assms]
    using graphNodes_iter(2) [OF assms] finite_set [of "map snd (g_graphNodes s)"] by (force simp: image_iff)
  then show ?thesis by (auto simp: node_times_def)
qed

lemma length_filter_type:
  assumes "index_ok s"
  shows "length (filter (is_type ty) (nodes_in_order s)) = card {a. \<exists>n. g_heap s a = Some n \<and> n_type n = ty}"
proof -
  note it = graphNodes_iter [OF assms]
  let ?P = "\<lambda>a. is_type ty (the (g_heap s a))"
  have "nodes_in_order s = map (\<lambda>a. the (g_heap s a)) (map snd (g_graphNodes s))"
    by (simp add: nodes_in_order_def case_prod_unfold)
  then have "length (filter (is_type ty) (nodes_in_order s)) = length (filter ?P (map snd (g_graphNodes s)))"
    by (simp add: filter_map o_def)
  also have "\<dots> = card (set (filter ?P (map snd (g_graphNodes s))))"
    using it(1) by (intro distinct_card [symmetric] distinct_filter)
  also have "set (filter ?P (map snd (g_graphNodes s))) = {a \<in> dom (g_heap s). ?P a}"
    using it(2) by simp
  also have "\<dots> = {a. \<exists>n. g_heap s a = Some n \<and> n_type n = ty}" by (auto simp: is_type_def)
  finally show ?thesis .
qed

lemma tt_init_counts:
  assumes "index_ok s" and "dom (g_heap s) \<noteq> {}" and "card (dom (g_heap s)) < 2 ^ 32"
    and "\<forall>a n. g_heap s a = Some n \<longrightarrow> 0 \<le> n_totalTime n"
  shows "\<exists>m. tt_init s new_TotalTimeMetric = Some m
    \<and> tt_numChunks m = word_of_nat (card {a. \<exists>n. g_heap s a = Some n \<and> n_type n = CHUNK_TASK})
    \<and> tt_numExplicitTasks m = word_of_nat (card {a. \<exists>n. g_heap s a = Some n \<and> n_type n = EXP_TASK})
    \<and> tt_totalChunkTimes m \<le> tt_getMetric m \<and> tt_totalExplicitTimes m \<le> tt_getMetric m
    \<and> tt_avg_time m \<noteq> None \<and> tt_stddev m \<noteq> None \<and> tt_med_time m \<noteq> None
    \<and> length (tt_times_arr m) = card (dom (g_heap s))"
proof -
  have nn: "\<forall>n \<in> set (nodes_in_order s). 0 \<le> n_totalTime n"
    using times_in_order [OF assms(1)] assms(4) by (force simp: node_times_def)
  have le: "fold (\<lambda>n t. fadd t (n_totalTime n)) (filter P (nodes_in_order s)) 0 \<le> fsum (node_times s)" for P
    using fsum_filter_le [of 0 0 "nodes_in_order s" n_totalTime P] nn representable_rnd [of 0]
    by (simp add: fsum_def node_times_def fold_map o_def)
  note c = count_nodes [of "nodes_in_order s" "new_TotalTimeMetric\<lparr>tt_total_time := 0\<rparr>"]
  have len: "length (node_times s) = card (dom (g_heap s))"
    using distinct_card [OF graphNodes_iter(1) [OF assms(1)]] graphNodes_iter(2) [OF assms(1)]
    by (simp add: node_times_def nodes_in_order_def)
  from tt_init_runs [OF assms(1-3)] show ?thesis
    using le c len length_filter_type [OF assms(1)]
    by (auto simp: fresh_count_def new_TotalTimeMetric_def tt_getMetric_def)
qed

text \<open>
  C30. \<open>compute_stats\<close> of a non-empty vector (of a size an \<open>unsigned int\<close> holds) of binary64 numbers
  returns the vector sorted, with the same elements, their sum and average, a standard deviation
  that is not negative, and a median that lies between the two middle elements.
\<close>

theorem compute_stats_correct:
  assumes "arr \<noteq> []" and "length arr < 2 ^ 32" and "\<forall>x \<in> set arr. representable x"
  shows "\<exists>stddev median arr'. compute_stats arr =
      Some (fsum arr, fdiv (fsum arr) (double_of_nat (length arr)), stddev, median, arr')
    \<and> 0 \<le> stddev \<and> sorted arr' \<and> mset arr' = mset arr
    \<and> arr' ! ((length arr - 1) div 2) \<le> median \<and> median \<le> arr' ! (length arr div 2)"
  using compute_stats_runs [OF assms(1,2)] median_between [OF assms(1,3)] by fastforce

theorem compute_stats_correct_witness:
  "\<exists>stddev median arr'. compute_stats [3, 1, 2] = Some (6, 2, stddev, median, arr')
    \<and> 0 \<le> stddev \<and> sorted arr' \<and> mset arr' = mset [3, 1, 2]"
proof -
  have "\<forall>x \<in> set [3, 1, 2 :: double]. representable x"
    using representable_rnd [of 3] representable_rnd [of 2] representable_rnd [of 1] by simp
  from compute_stats_correct [of "[3, 1, 2]", OF _ _ this] show ?thesis
    by (auto simp: fsum_def double_eval)
qed

text \<open>
  \<open>TotalTimeMetric::init\<close> on a graph with nodes counts the chunks and the explicit tasks among
  them, and neither the time it adds up for the chunks nor the time for the explicit tasks exceeds
  the total time, if no node has a negative time; the rounding of the sums cannot break this.
\<close>

theorem total_time_counts:
  assumes "index_ok s" and "dom (g_heap s) \<noteq> {}" and "card (dom (g_heap s)) < 2 ^ 32"
    and "\<forall>a n. g_heap s a = Some n \<longrightarrow> 0 \<le> n_totalTime n"
  shows "\<exists>m. tt_init s new_TotalTimeMetric = Some m
    \<and> tt_numChunks m = word_of_nat (card {a. \<exists>n. g_heap s a = Some n \<and> n_type n = CHUNK_TASK})
    \<and> tt_numExplicitTasks m = word_of_nat (card {a. \<exists>n. g_heap s a = Some n \<and> n_type n = EXP_TASK})
    \<and> tt_totalChunkTimes m \<le> tt_getMetric m \<and> tt_totalExplicitTimes m \<le> tt_getMetric m"
  using tt_init_counts [OF assms] by blast

theorem total_time_counts_witness:
  "\<exists>m. tt_init sample_graph new_TotalTimeMetric = Some m \<and> tt_totalChunkTimes m \<le> tt_getMetric m"
proof -
  have "\<forall>a n. g_heap sample_graph a = Some n \<longrightarrow> 0 \<le> n_totalTime n"
    by (simp add: sample_graph_def new_Node_def setThreadId_def setLoopCounter_def split: if_splits)
  from total_time_counts [OF sample_index _ _ this] show ?thesis by (auto simp: sample_dom)
qed

lemma split_at_take_drop: "take k (drop i xs) = ys \<Longrightarrow> \<exists>before rest. xs = before @ ys @ rest"
  by (metis append_take_drop_id)

text \<open>
  The report of \<open>TotalTimeMetric\<close> on a graph with nodes can be printed, and its lines for the
  shortest and the longest task time show the minimum and the maximum of the times of the nodes.
\<close>

theorem report_shows_min_and_max:
  assumes "index_ok s" and "dom (g_heap s) \<noteq> {}" and "card (dom (g_heap s)) < 2 ^ 32"
  defines "T \<equiv> {n_totalTime n |a n. g_heap s a = Some n}"
  shows "\<exists>m before rest. tt_init s new_TotalTimeMetric = Some m \<and> tt_printMetric m = Some (before @
      [OStr ''Min task time: '', ODouble (Min T), Endl, OStr ''Max task time: '', ODouble (Max T), Endl] @ rest)"
proof -
  obtain stddev where run: "tt_init s new_TotalTimeMetric = Some ((fresh_count s)\<lparr>
       tt_total_time := fsum (node_times s),
       tt_avg_time := Some (fdiv (fsum (node_times s)) (double_of_nat (card (dom (g_heap s))))),
       tt_stddev := Some stddev, tt_med_time := Some (median_of (node_times s)),
       tt_times_arr := sort (node_times s)\<rparr>)" (is "_ = Some ?m")
    using tt_init_runs [OF assms(1-3)] by blast
  have ts: "set (node_times s) = T" using times_in_order [OF assms(1)] by (simp add: T_def)
  then have ne: "node_times s \<noteq> []" using assms(2) by (auto simp: T_def)
  have sn: "sort (node_times s) \<noteq> []" using ne by (metis set_empty set_sort)
  have "\<exists>out. tt_printMetric ?m = Some out \<and> take 6 (drop 27 out) = [OStr ''Min task time: '', ODouble (Min T), Endl,
      OStr ''Max task time: '', ODouble (Max T), Endl]"
    using sn sort_ends [OF ne] by (simp add: tt_printMetric_def Let_def ts)
  then show ?thesis using run split_at_take_drop by metis
qed

theorem report_shows_min_and_max_witness:
  "\<exists>m before rest T. tt_init sample_graph new_TotalTimeMetric = Some m \<and> tt_printMetric m = Some (before @
      [OStr ''Min task time: '', ODouble (Min T), Endl, OStr ''Max task time: '', ODouble (Max T), Endl] @ rest)"
  using report_shows_min_and_max [OF sample_index] by (simp add: sample_dom) blast

text \<open>
  On an empty graph \<open>TotalTimeMetric::init\<close> leaves the average, the standard deviation and the
  median uninitialised, and \<open>printMetric\<close>, which prints them all the same, reads them.
\<close>

theorem empty_report_reads_uninitialised:
  assumes "index_ok s" and "dom (g_heap s) = {}"
  shows "\<exists>m. tt_init s new_TotalTimeMetric = Some m \<and> tt_printMetric m = None"
  using tt_init_empty [OF assms] by (simp add: tt_printMetric_def new_TotalTimeMetric_def)

theorem empty_report_reads_uninitialised_witness:
  "\<exists>m. tt_init new_Graph new_TotalTimeMetric = Some m \<and> tt_printMetric m = None"
  using empty_report_reads_uninitialised [of new_Graph] wf_new_Graph by (simp add: wf_tdg_def new_Graph_def)

end
