(* ===== verification/Env_Tokens.thy ===== *)
theory Env_Tokens
  imports Tdg_Prelude
begin

text \<open>
  \<open>parse_tokens\<close> of \<open>src/init.cc\<close>, which splits the value of an environment variable at its
  commas, with the parts of \<open>std::string\<close> it uses.  Positions are \<open>size_t\<close> words, so the step
  \<open>last_pos = curr_pos + 1\<close> wraps from \<open>npos\<close> to \<open>0\<close> after the last token, and the number of
  tokens is an \<open>unsigned int\<close>.  \<open>substr\<close> throws when its start is beyond the end: \<open>None\<close>.

  \<open>split_on\<close> is the reference: what splitting at a separator means.
\<close>

section \<open>std::string\<close>

definition npos :: uint64 where
  "npos = - 1"

definition str_find :: "char \<Rightarrow> string \<Rightarrow> uint64 \<Rightarrow> uint64" where
  "str_find c s pos =
     (let k = unat pos; r = takeWhile (\<lambda>x. x \<noteq> c) (drop k s) in
      if k + length r < length s then word_of_nat (k + length r) else npos)"

definition str_substr :: "string \<Rightarrow> uint64 \<Rightarrow> uint64 \<Rightarrow> string option" where
  "str_substr s pos n =
     (if unat pos > length s then None
      else Some (take (min (unat n) (length s - unat pos)) (drop (unat pos) s)))"

section \<open>parse_tokens\<close>

primrec parse_loop :: "nat \<Rightarrow> string \<Rightarrow> uint64 \<Rightarrow> string list \<Rightarrow> string list option" where
  "parse_loop 0 env_str last_pos tokens_v = Some tokens_v"
| "parse_loop (Suc i) env_str last_pos tokens_v = (
     let curr_pos = str_find CHR '','' env_str last_pos in do {
       token \<leftarrow> str_substr env_str last_pos (if curr_pos = npos then npos else curr_pos - last_pos);
       parse_loop i env_str (curr_pos + 1) (tokens_v @ [token]) })"

definition parse_tokens :: "string option \<Rightarrow> string list \<Rightarrow> string list option" where
  "parse_tokens env_var tokens_v =
     (case env_var of
        None \<Rightarrow> Some tokens_v
      | Some env_str \<Rightarrow>
          let num_tokens = (if length env_str > 0
                then word_of_nat (count_list env_str CHR '','' + 1) else 0 :: uint32)
          in parse_loop (unat num_tokens) env_str 0 tokens_v)"

section \<open>Splitting at a separator\<close>

fun split_on :: "'a \<Rightarrow> 'a list \<Rightarrow> 'a list list" where
  "split_on c [] = [[]]"
| "split_on c (x # xs) =
     (if x = c then [] # split_on c xs
      else (x # hd (split_on c xs)) # tl (split_on c xs))"

fun join_with :: "'a \<Rightarrow> 'a list list \<Rightarrow> 'a list" where
  "join_with c [] = []"
| "join_with c [t] = t"
| "join_with c (t # ts) = t @ c # join_with c ts"

lemma split_on_nonempty [simp]: "split_on c xs \<noteq> []"
  by (cases xs) auto

lemma split_on_none: "c \<notin> set xs \<Longrightarrow> split_on c xs = [xs]"
  by (induction xs) auto

lemma split_on_sep: "c \<notin> set xs \<Longrightarrow> split_on c (xs @ c # ys) = xs # split_on c ys"
  by (induction xs) auto

lemma length_split_on: "length (split_on c xs) = count_list xs c + 1"
  by (induction xs) auto

lemma split_on_no_sep: "t \<in> set (split_on c xs) \<Longrightarrow> c \<notin> set t"
proof (induction xs arbitrary: t)
  case (Cons x xs)
  then show ?case
    by (auto split: if_splits dest: list.set_sel(2) [OF split_on_nonempty])
qed simp

lemma join_split_on: "join_with c (split_on c xs) = xs"
proof (induction xs)
  case (Cons x xs)
  then show ?case by (cases "split_on c xs" rule: remdups_adj.cases) (auto simp: split_on_nonempty)
qed simp

lemma split_on_join:
  assumes "ts \<noteq> []" and "\<forall>t \<in> set ts. c \<notin> set t"
  shows "split_on c (join_with c ts) = ts"
  using assms by (induction c ts rule: join_with.induct) (auto simp: split_on_none split_on_sep)

section \<open>The loop splits\<close>

lemma unat_npos: "unat npos = 2 ^ 64 - 1"
  by (simp add: npos_def unsigned_minus_1_eq_mask mask_eq_exp_minus_1)

lemma str_find_none:
  assumes "length s < 2 ^ 64 - 1" and "k \<le> length s" and "c \<notin> set (drop k s)"
  shows "str_find c s (word_of_nat k) = npos" and "str_substr s (word_of_nat k) npos = Some (drop k s)"
proof -
  have k: "unat (word_of_nat k :: uint64) = k" using assms by (intro unat_word_of_nat) simp
  have tw: "takeWhile (\<lambda>x. x \<noteq> c) (drop k s) = drop k s"
    using assms(3) by (intro takeWhile_eq_all_conv [THEN iffD2]) blast
  show "str_find c s (word_of_nat k) = npos"
    unfolding str_find_def k Let_def tw using assms(2) by simp
  show "str_substr s (word_of_nat k) npos = Some (drop k s)"
    using assms(1,2) by (simp add: str_substr_def k unat_npos)
qed

lemma str_find_some:
  assumes len: "length s < 2 ^ 64 - 1" and dr: "drop k s = xs @ c # ys" and "c \<notin> set xs"
  defines "j \<equiv> k + length xs"
  shows "str_find c s (word_of_nat k) = word_of_nat j" and "word_of_nat j \<noteq> npos"
    and "str_substr s (word_of_nat k) (word_of_nat j - word_of_nat k) = Some xs"
    and "Suc j \<le> length s" and "drop (Suc j) s = ys"
proof -
  have "length (drop k s) = length xs + 1 + length ys" by (simp add: dr)
  then have ls: "length s = j + 1 + length ys" by (simp add: j_def)
  then show "Suc j \<le> length s" by simp
  have uj: "unat (word_of_nat j :: uint64) = j"
    using len ls by (intro unat_word_of_nat) simp
  have k: "unat (word_of_nat k :: uint64) = k"
    using len ls by (intro unat_word_of_nat) (simp add: j_def)
  have "\<forall>x \<in> set xs. x \<noteq> c" using assms(3) by blast
  then have tw: "takeWhile (\<lambda>x. x \<noteq> c) (drop k s) = xs" by (simp add: dr takeWhile_append2)
  show "str_find c s (word_of_nat k) = word_of_nat j"
    unfolding str_find_def k Let_def tw using ls by (simp add: j_def)
  show "word_of_nat j \<noteq> npos"
  proof
    assume "word_of_nat j = npos"
    then have "j = unat npos" using uj by simp
    then show False using len ls by (simp add: unat_npos)
  qed
  have "word_of_nat j - word_of_nat k = (word_of_nat (length xs) :: uint64)" by (simp add: j_def)
  moreover have "unat (word_of_nat (length xs) :: uint64) = length xs"
    using len ls by (intro unat_word_of_nat) (simp add: j_def)
  ultimately show "str_substr s (word_of_nat k) (word_of_nat j - word_of_nat k) = Some xs"
    using ls by (simp add: str_substr_def k dr j_def)
  have "drop (Suc j) s = drop (Suc (length xs)) (drop k s)" by (simp add: j_def add.commute)
  then show "drop (Suc j) s = ys" by (simp add: dr)
qed

lemma parse_loop_splits:
  assumes "length s < 2 ^ 64 - 1" and "k \<le> length s"
    and "m = count_list (drop k s) CHR '',''"
  shows "parse_loop (Suc m) s (word_of_nat k) acc = Some (acc @ split_on CHR '','' (drop k s))"
  using assms(2,3)
proof (induction m arbitrary: k acc)
  case 0
  then have "CHR '','' \<notin> set (drop k s)" by (metis count_list_0_iff)
  then show ?case using str_find_none [OF assms(1) 0(1)] by (simp add: split_on_none)
next
  case (Suc m)
  have "count_list (drop k s) CHR '','' \<noteq> 0" using Suc.prems(2) by simp
  then have "CHR '','' \<in> set (drop k s)" by (simp only: count_list_0_iff not_not)
  from split_list_first [OF this]
  obtain xs ys where dr: "drop k s = xs @ CHR '','' # ys" and nin: "CHR '','' \<notin> set xs" by blast
  define j where "j = k + length xs"
  note f = str_find_some [OF assms(1) dr nin, folded j_def]
  have cnt: "m = count_list (drop (Suc j) s) CHR '',''"
    using Suc.prems(2) nin by (simp add: f(5) dr count_notin)
  have nxt: "(word_of_nat j :: uint64) + 1 = word_of_nat (Suc j)" by simp
  have "parse_loop (Suc (Suc m)) s (word_of_nat k) acc
      = parse_loop (Suc m) s (word_of_nat (Suc j)) (acc @ [xs])"
    unfolding parse_loop.simps(2) [of "Suc m"] Let_def f(1) nxt if_not_P [OF f(2)] f(3)
    by (rule Option.bind.bind_lunit)
  also have "\<dots> = Some ((acc @ [xs]) @ split_on CHR '','' (drop (Suc j) s))"
    by (rule Suc.IH [OF f(4) cnt])
  finally show ?case using nin by (simp add: f(5) dr split_on_sep)
qed

lemma parse_tokens_splits:
  assumes "length s < 2 ^ 32 - 1"
  shows "parse_tokens (Some s) acc = Some (acc @ (if s = [] then [] else split_on CHR '','' s))"
proof (cases "s = []")
  case False
  have "count_list s CHR '','' + 1 < 2 ^ 32"
    using count_le_length [of s "CHR '',''"] assms by linarith
  then have "unat (word_of_nat (count_list s CHR '','' + 1) :: uint32) = Suc (count_list s CHR '','')"
    by (subst unat_word_of_nat) simp_all
  then show ?thesis
    using False parse_loop_splits [of s 0 "count_list s CHR '',''" acc] assms
    by (simp add: parse_tokens_def del: parse_loop.simps)
qed (simp add: parse_tokens_def)

section \<open>Properties\<close>

text \<open>
  C29. \<open>parse_tokens\<close> is splitting at commas: for every value an environment variable can have in
  practice it appends the substrings between commas, empty ones included, to the vector; an empty
  value has no tokens, and so has an unset variable.  In particular no \<open>substr\<close> throws, although
  the position kept after the last token has wrapped around to 0.
\<close>

theorem parse_tokens_is_split:
  assumes "length s < 2 ^ 31 - 1"
  shows "parse_tokens (Some s) acc = Some (acc @ (if s = [] then [] else split_on CHR '','' s))
    \<and> parse_tokens None acc = Some acc"
  using parse_tokens_splits [of s acc] assms by (simp add: parse_tokens_def)

theorem parse_tokens_is_split_witness:
  "parse_tokens (Some ''tim,,cri'') [''x''] = Some [''x'', ''tim'', '''', ''cri'']"
  using parse_tokens_is_split [of "''tim,,cri''" "[''x'']"] by simp

text \<open>
  Joining names with commas and parsing the result gives back the names, in order, provided no
  name contains a comma and the list is not a single empty name.
\<close>

theorem parse_tokens_of_join:
  assumes "ts \<noteq> []" and "ts \<noteq> [[]]" and "\<forall>t \<in> set ts. CHR '','' \<notin> set t"
    and "length (join_with CHR '','' ts) < 2 ^ 31 - 1"
  shows "parse_tokens (Some (join_with CHR '','' ts)) [] = Some ts"
proof -
  have "join_with CHR '','' ts \<noteq> []" using assms(1,2) by (cases ts rule: remdups_adj.cases) auto
  then show ?thesis
    using parse_tokens_splits [of "join_with CHR '','' ts" "[]"] split_on_join [OF assms(1,3)] assms(4) by simp
qed

theorem parse_tokens_of_join_witness:
  "parse_tokens (Some (join_with CHR '','' [''tim'', ''cri'', ''dot''])) [] = Some [''tim'', ''cri'', ''dot'']"
  using parse_tokens_of_join [of "[''tim'', ''cri'', ''dot'']"] by simp

end
