(* ===== verification/Ompt_Callbacks.thy ===== *)
theory Ompt_Callbacks
  imports Tdg_Graph Out_Stream
begin

text \<open>
  The OMPT callbacks of \<open>src/callbacks.h\<close> and \<open>src/callbacks.cc\<close> (built with
  \<open>HAVE_PAPI\<close>, as the Makefile does), which grow the task graph while the program runs.

  The tool's state extends the graph with the objects the callbacks allocate (one heap per
  struct), the \<open>ptr\<close> member of every \<open>ompt_data_t\<close> the runtime owns (numbered; a
  callback argument is such a number, or \<open>None\<close> for a null \<open>ompt_data_t*\<close>), and
  \<open>g_finalNode\<close>.  Two things come from outside: \<open>t_clock k\<close> is what the \<open>k\<close>-th call of
  \<open>ftimer_msec\<close> returns, and \<open>t_papi k\<close> what the \<open>k\<close>-th call of \<open>PAPI_stop\<close> stores, event
  by event (\<open>None\<close> when the call fails, which the code ignores); \<open>PAPI_start\<close> has no effect
  on the tool's memory.  The remaining PAPI functions, whose failure ends the process, and the
  thread's \<open>ompt_data_t\<close>, which \<open>g_get_thread_data_f\<close> returns, are arguments of the callbacks
  that use them.

  A callback is one atomic step; it returns \<open>None\<close> where it would dereference a null or freed
  pointer.
\<close>

section \<open>State\<close>

record WorksharingData =
  ws_start_node :: "addr option"
  ws_sink_node :: "addr option"
  ws_last_chunk_node :: "addr option"

record TaskData =
  td_curr_task_node :: "addr option"
  td_curr_ws_data :: "addr option"
  td_curr_barrier_node :: "addr option"
  td_sink_node :: "addr option"
  td_threadNum :: int

record ParallelRegionData =
  pr_parent_task_data :: "addr option"
  pr_sink_node :: "addr option"
  pr_team_size :: uint32
  pr_barrier_cnt :: uint32
  pr_curr_barrier_node :: "addr option"

record ThreadData =
  th_loopCounter :: uint64
  th_papiEventset :: int

definition new_WorksharingData :: WorksharingData where
  "new_WorksharingData =
     \<lparr>ws_start_node = None, ws_sink_node = None, ws_last_chunk_node = None\<rparr>"

definition new_TaskData :: TaskData where
  "new_TaskData = \<lparr>td_curr_task_node = None, td_curr_ws_data = None,
     td_curr_barrier_node = None, td_sink_node = None, td_threadNum = 0\<rparr>"

definition new_ParallelRegionData :: ParallelRegionData where
  "new_ParallelRegionData = \<lparr>pr_parent_task_data = None, pr_sink_node = None,
     pr_team_size = 0, pr_barrier_cnt = 0, pr_curr_barrier_node = None\<rparr>"

record tool = tdg +
  t_finalNode :: "addr option"
  t_tasks :: "addr \<rightharpoonup> TaskData"
  t_ws :: "addr \<rightharpoonup> WorksharingData"
  t_pars :: "addr \<rightharpoonup> ParallelRegionData"
  t_threads :: "addr \<rightharpoonup> ThreadData"
  t_brk :: addr
  t_taskPtr :: "nat \<Rightarrow> addr option"
  t_parPtr :: "nat \<Rightarrow> addr option"
  t_thrPtr :: "nat \<Rightarrow> addr option"
  t_clock :: "nat \<Rightarrow> double"
  t_clockCalls :: nat
  t_papi :: "nat \<Rightarrow> (nat \<Rightarrow> int) option"
  t_papiCalls :: nat
  t_papiNumEvents :: uint32
  t_papiEvents :: "int list"

datatype ompt_scope_endpoint = ompt_scope_begin | ompt_scope_end

datatype ompt_task_type = ompt_task_initial | ompt_task_implicit | ompt_task_explicit | ompt_task_target

datatype ompt_sync_region_kind =
  ompt_sync_region_barrier | ompt_sync_region_taskwait | ompt_sync_region_taskgroup



section \<open>Access to the tool's memory\<close>

definition node_upd :: "addr option \<Rightarrow> (Node \<Rightarrow> Node) \<Rightarrow> tool \<Rightarrow> tool option" where
  "node_upd p f s = do {
     a \<leftarrow> p;
     h \<leftarrow> upd_node a f (g_heap s);
     Some (s\<lparr>g_heap := h\<rparr>) }"

definition connect :: "addr option \<Rightarrow> addr option \<Rightarrow> tool \<Rightarrow> tool option" where
  "connect p q s = do {
     a \<leftarrow> p; b \<leftarrow> q;
     h \<leftarrow> connectNodes a b (g_heap s);
     Some (s\<lparr>g_heap := h\<rparr>) }"

definition disconnect :: "addr option \<Rightarrow> addr option \<Rightarrow> tool \<Rightarrow> tool option" where
  "disconnect p q s = do {
     a \<leftarrow> p; b \<leftarrow> q;
     h \<leftarrow> disconnectNodes a b (g_heap s);
     Some (s\<lparr>g_heap := h\<rparr>) }"

definition task_ref :: "addr option \<Rightarrow> tool \<Rightarrow> TaskData option" where
  "task_ref p s = do { a \<leftarrow> p; t_tasks s a }"

definition task_set :: "addr option \<Rightarrow> TaskData \<Rightarrow> tool \<Rightarrow> tool option" where
  "task_set p td s = do { a \<leftarrow> p; _ \<leftarrow> t_tasks s a; Some (s\<lparr>t_tasks := (t_tasks s)(a \<mapsto> td)\<rparr>) }"

definition ws_ref :: "addr option \<Rightarrow> tool \<Rightarrow> WorksharingData option" where
  "ws_ref p s = do { a \<leftarrow> p; t_ws s a }"

definition par_ref :: "addr option \<Rightarrow> tool \<Rightarrow> ParallelRegionData option" where
  "par_ref p s = do { a \<leftarrow> p; t_pars s a }"

definition ftimer_msec :: "tool \<Rightarrow> double \<times> tool" where
  "ftimer_msec s = (t_clock s (t_clockCalls s), s\<lparr>t_clockCalls := Suc (t_clockCalls s)\<rparr>)"

definition endPapiCounters :: "addr option \<Rightarrow> tool \<Rightarrow> tool option" where
  "endPapiCounters p s =
     node_upd p (\<lambda>n. case t_papi s (t_papiCalls s) of
           None \<Rightarrow> n
         | Some vals \<Rightarrow> n\<lparr>n_papiVals := map_option (\<lambda>_.
             map vals [0..<unat (n_numPapiEvents n)]) (n_papiVals n)\<rparr>)
       (s\<lparr>t_papiCalls := Suc (t_papiCalls s)\<rparr>)"

text \<open>\<open>p->addTime( ftimer_msec() )\<close> and \<open>p->setLastTime( ftimer_msec() )\<close>.\<close>

definition add_time_now :: "addr option \<Rightarrow> tool \<Rightarrow> tool option" where
  "add_time_now p s = (case ftimer_msec s of (t, s1) \<Rightarrow> node_upd p (addTime t) s1)"

definition set_time_now :: "addr option \<Rightarrow> tool \<Rightarrow> tool option" where
  "set_time_now p s = (case ftimer_msec s of (t, s1) \<Rightarrow> node_upd p (setLastTime t) s1)"

section \<open>Helper functions\<close>

definition create_clean_node :: "NodeType \<Rightarrow> bool \<Rightarrow> 'a tdg_scheme \<Rightarrow> addr \<times> 'a tdg_scheme" where
  "create_clean_node ty gen_id s =
     (let (nid, s1) = (if gen_id then nextId s else (0, s));
          (node, s2) = alloc_node (new_Node nid ty 0) s1
      in (node, addNode nid node s2))"

definition create_new_node :: "NodeType \<Rightarrow> addr option \<Rightarrow> bool \<Rightarrow> tool \<Rightarrow> (addr \<times> tool) option" where
  "create_new_node ty parent_node set_time s = do {
     let (node, s1) = create_clean_node ty (parent_node \<noteq> None) s;
     s2 \<leftarrow> (if parent_node \<noteq> None then connect parent_node (Some node) s1 else Some s1);
     s3 \<leftarrow> (if set_time then set_time_now (Some node) s2 else Some s2);
     Some (node, s3) }"

section \<open>Threads\<close>

definition cb_thread_begin :: "int option \<Rightarrow> (int \<Rightarrow> int \<Rightarrow> bool) \<Rightarrow> nat \<Rightarrow> tool \<Rightarrow> tool outcome" where
  "cb_thread_begin papi_create papi_add thread_data s =
     (case papi_create of
        None \<Rightarrow> Exits (- 1)
      | Some eventset \<Rightarrow>
          if list_all (papi_add eventset) (take (unat (t_papiNumEvents s)) (t_papiEvents s)) then
            Returns (s\<lparr>t_threads := (t_threads s)(t_brk s \<mapsto>
                         \<lparr>th_loopCounter = 0, th_papiEventset = eventset\<rparr>),
                       t_brk := Suc (t_brk s),
                       t_thrPtr := (t_thrPtr s)(thread_data := Some (t_brk s))\<rparr>)
          else Exits (- 1))"

definition cb_thread_end :: "(int \<Rightarrow> bool) \<Rightarrow> (int \<Rightarrow> bool) \<Rightarrow> nat \<Rightarrow> tool \<Rightarrow> tool outcome option" where
  "cb_thread_end papi_cleanup papi_destroy thread_data s = do {
     a \<leftarrow> t_thrPtr s thread_data;
     th \<leftarrow> t_threads s a;
     Some (if \<not> papi_cleanup (th_papiEventset th) then Exits (- 1)
           else if \<not> papi_destroy (th_papiEventset th) then Exits (- 1)
           else Returns (s\<lparr>t_threads := (t_threads s)(a := None)\<rparr>)) }"

section \<open>Parallel regions and implicit tasks\<close>

definition alloc_task :: "TaskData \<Rightarrow> tool \<Rightarrow> addr \<times> tool" where
  "alloc_task td s =
     (t_brk s, s\<lparr>t_tasks := (t_tasks s)(t_brk s \<mapsto> td), t_brk := Suc (t_brk s)\<rparr>)"

definition cb_parallel_begin :: "nat \<Rightarrow> nat \<Rightarrow> uint32 \<Rightarrow> tool \<Rightarrow> tool option" where
  "cb_parallel_begin parent_task_data parallel_data requested_team_size s = do {
     let parent = t_taskPtr s parent_task_data;
     td \<leftarrow> task_ref parent s;
     s1 \<leftarrow> add_time_now (td_curr_task_node td) s;
     let (sink, s2) = create_clean_node IMP_TASK True s1;
     let par_info = new_ParallelRegionData\<lparr>pr_parent_task_data := parent,
                      pr_sink_node := Some sink, pr_team_size := requested_team_size\<rparr>;
     Some (s2\<lparr>t_pars := (t_pars s2)(t_brk s2 \<mapsto> par_info), t_brk := Suc (t_brk s2),
              t_parPtr := (t_parPtr s2)(parallel_data := Some (t_brk s2))\<rparr>) }"

definition cb_parallel_end :: "nat \<Rightarrow> tool \<Rightarrow> tool option" where
  "cb_parallel_end parallel_data s = do {
     a \<leftarrow> t_parPtr s parallel_data;
     par_info \<leftarrow> t_pars s a;
     td \<leftarrow> task_ref (pr_parent_task_data par_info) s;
     s1 \<leftarrow> task_set (pr_parent_task_data par_info)
            (td\<lparr>td_curr_task_node := pr_sink_node par_info\<rparr>) s;
     s2 \<leftarrow> set_time_now (pr_sink_node par_info) s1;
     Some (s2\<lparr>t_finalNode := pr_sink_node par_info,
              t_pars := (t_pars s2)(a := None),
              t_parPtr := (t_parPtr s2)(parallel_data := None)\<rparr>) }"

definition implicit_task_begin :: "nat \<Rightarrow> nat \<Rightarrow> uint32 \<Rightarrow> tool \<Rightarrow> tool option" where
  "implicit_task_begin parallel_data task_data thread_num s = do {
     par_info \<leftarrow> par_ref (t_parPtr s parallel_data) s;
     parent \<leftarrow> task_ref (pr_parent_task_data par_info) s;
     (node, s1) \<leftarrow> create_new_node IMP_TASK (td_curr_task_node parent) True s;
     let td = new_TaskData\<lparr>td_curr_task_node := Some node,
                td_sink_node := pr_sink_node par_info, td_threadNum := sint thread_num\<rparr>;
     let (a, s2) = alloc_task td s1;
     Some (s2\<lparr>t_taskPtr := (t_taskPtr s2)(task_data := Some a)\<rparr>) }"

definition implicit_task_end :: "nat \<Rightarrow> uint32 \<Rightarrow> tool \<Rightarrow> tool option" where
  "implicit_task_end task_data thread_num s = do {
     a \<leftarrow> t_taskPtr s task_data;
     td \<leftarrow> t_tasks s a;
     s3 \<leftarrow> (if td_curr_barrier_node td \<noteq> None then do {
              s1 \<leftarrow> disconnect (td_curr_barrier_node td) (td_curr_task_node td) s;
              c \<leftarrow> td_curr_task_node td;
              n \<leftarrow> g_heap s1 c;
              s2 \<leftarrow> delete_node c (removeNode (n_id n) s1);
              (if thread_num = 0 then connect (td_curr_barrier_node td) (td_sink_node td) s2
               else Some s2) }
            else do {
              s1 \<leftarrow> add_time_now (td_curr_task_node td) s;
              connect (td_curr_task_node td) (td_sink_node td) s1 });
     Some (s3\<lparr>t_tasks := (t_tasks s3)(a := None),
              t_taskPtr := (t_taskPtr s3)(task_data := None)\<rparr>) }"

definition cb_implicit_task :: "ompt_scope_endpoint \<Rightarrow> nat \<Rightarrow> nat \<Rightarrow> uint32 \<Rightarrow> uint32 \<Rightarrow> tool \<Rightarrow> tool option" where
  "cb_implicit_task endpoint parallel_data task_data team_size thread_num s =
     (case endpoint of
        ompt_scope_begin \<Rightarrow> implicit_task_begin parallel_data task_data thread_num s
      | ompt_scope_end \<Rightarrow> implicit_task_end task_data thread_num s)"

section \<open>Explicit tasks\<close>

definition cb_task_create :: "nat option \<Rightarrow> nat \<Rightarrow> ompt_task_type \<Rightarrow> tool \<Rightarrow> tool option" where
  "cb_task_create parent_task_data new_task_data ty s = do {
     (if ty = ompt_task_initial then do {
        (node, s1) \<leftarrow> create_new_node ROOT_TASK None True s;
        let (a, s2) = alloc_task (new_TaskData\<lparr>td_curr_task_node := Some node\<rparr>) s1;
        Some (s2\<lparr>t_taskPtr := (t_taskPtr s2)(new_task_data := Some a),
                 t_finalNode := Some node\<rparr>) }
      else if ty = ompt_task_explicit then do {
        p \<leftarrow> parent_task_data;
        parent_node \<leftarrow> (case t_taskPtr s p of
           None \<Rightarrow> Some None
         | Some q \<Rightarrow> do { td \<leftarrow> t_tasks s q; Some (td_curr_task_node td) });
        (node, s1) \<leftarrow> create_new_node EXP_TASK parent_node True s;
        let (a, s2) = alloc_task (new_TaskData\<lparr>td_curr_task_node := Some node\<rparr>) s1;
        Some (s2\<lparr>t_taskPtr := (t_taskPtr s2)(new_task_data := Some a)\<rparr>) }
      else Some s) }"

definition cb_task_schedule :: "nat \<Rightarrow> nat \<Rightarrow> tool \<Rightarrow> tool option" where
  "cb_task_schedule first_task_data second_task_data s = do {
     s1 \<leftarrow> (case t_taskPtr s first_task_data of
        None \<Rightarrow> Some s
      | Some a \<Rightarrow> do { td \<leftarrow> t_tasks s a; add_time_now (td_curr_task_node td) s });
     (case t_taskPtr s second_task_data of
        None \<Rightarrow> Some s1
      | Some a \<Rightarrow> do { td \<leftarrow> t_tasks s1 a; set_time_now (td_curr_task_node td) s1 }) }"

text \<open>The bodies of these three callbacks are empty.\<close>

definition cb_task_dependences :: "nat \<Rightarrow> tool \<Rightarrow> tool option" where
  "cb_task_dependences task_data s = Some s"

definition cb_task_dependence :: "nat \<Rightarrow> nat \<Rightarrow> tool \<Rightarrow> tool option" where
  "cb_task_dependence src_task_data sink_task_data s = Some s"

definition cb_work :: "ompt_scope_endpoint \<Rightarrow> nat \<Rightarrow> nat \<Rightarrow> uint64 \<Rightarrow> tool \<Rightarrow> tool option" where
  "cb_work endpoint parallel_data task_data cnt s = Some s"

section \<open>Barriers\<close>

definition enter_barrier :: "addr option \<Rightarrow> addr \<Rightarrow> ParallelRegionData \<Rightarrow> tool \<Rightarrow>
    (addr option \<times> bool \<times> tool) option" where
  "enter_barrier curr_node a par_info s =
     (if pr_barrier_cnt par_info = 0 then do {
        (b, s1) \<leftarrow> create_new_node BARRIER curr_node True s;
        Some (Some b, True, s1\<lparr>t_pars := (t_pars s1)(a \<mapsto>
           par_info\<lparr>pr_barrier_cnt := 1, pr_curr_barrier_node := Some b\<rparr>)\<rparr>) }
      else do {
        s1 \<leftarrow> connect curr_node (pr_curr_barrier_node par_info) s;
        let cnt = pr_barrier_cnt par_info + 1;
        Some (pr_curr_barrier_node par_info, False, s1\<lparr>t_pars := (t_pars s1)(a \<mapsto>
           par_info\<lparr>pr_barrier_cnt := if cnt \<ge> pr_team_size par_info then 0 else cnt\<rparr>)\<rparr>) })"

definition barrier_begin :: "addr option \<Rightarrow> addr \<Rightarrow> ParallelRegionData \<Rightarrow> tool \<Rightarrow> tool option" where
  "barrier_begin cur a par_info s = do {
     td \<leftarrow> task_ref cur s;
     s1 \<leftarrow> add_time_now (td_curr_task_node td) s;
     (barrier_node, new_barrier, s2) \<leftarrow> enter_barrier (td_curr_task_node td) a par_info s1;
     s3 \<leftarrow> task_set cur (td\<lparr>td_curr_barrier_node := barrier_node\<rparr>) s2;
     (node, s4) \<leftarrow> create_new_node IMP_TASK barrier_node True s3;
     s5 \<leftarrow> task_set cur (td\<lparr>td_curr_barrier_node := barrier_node,
                             td_curr_task_node := Some node\<rparr>) s4;
     (if new_barrier then connect barrier_node (Some node) s5 else Some s5) }"

definition cb_sync_region :: "ompt_sync_region_kind \<Rightarrow> ompt_scope_endpoint \<Rightarrow> nat option \<Rightarrow> nat \<Rightarrow>
    tool \<Rightarrow> tool option" where
  "cb_sync_region kind endpoint parallel_data task_data s = do {
     p \<leftarrow> parallel_data;
     let cur = t_taskPtr s task_data;
     (if kind = ompt_sync_region_barrier then
        (case t_parPtr s p of
           None \<Rightarrow> Some s
         | Some a \<Rightarrow> do {
             par_info \<leftarrow> t_pars s a;
             (if pr_team_size par_info > 1 then
                (case endpoint of
                   ompt_scope_begin \<Rightarrow> barrier_begin cur a par_info s
                 | ompt_scope_end \<Rightarrow> do {
                     td \<leftarrow> task_ref cur s;
                     set_time_now (td_curr_task_node td) s })
              else Some s) })
      else Some s) }"

section \<open>Worksharing loops\<close>

definition ws_set :: "addr option \<Rightarrow> WorksharingData \<Rightarrow> tool \<Rightarrow> tool option" where
  "ws_set p ws s = do { a \<leftarrow> p; _ \<leftarrow> t_ws s a; Some (s\<lparr>t_ws := (t_ws s)(a \<mapsto> ws)\<rparr>) }"

definition thread_ref :: "nat \<Rightarrow> tool \<Rightarrow> ThreadData option" where
  "thread_ref thread_data s = do { a \<leftarrow> t_thrPtr s thread_data; t_threads s a }"

text \<open>\<open>last_chunk_node->endPapiCounters(..); last_chunk_node->addTime( ftimer_msec() )\<close>.\<close>

definition finish_chunk :: "nat \<Rightarrow> addr option \<Rightarrow> tool \<Rightarrow> tool option" where
  "finish_chunk thread_data last_chunk_node s = do {
     _ \<leftarrow> thread_ref thread_data s;
     s1 \<leftarrow> endPapiCounters last_chunk_node s;
     add_time_now last_chunk_node s1 }"

definition loop_begin :: "nat \<Rightarrow> int64 \<Rightarrow> int64 \<Rightarrow> tool \<Rightarrow> tool option" where
  "loop_begin task_data lo up s = do {
     td \<leftarrow> task_ref (t_taskPtr s task_data) s;
     s1 \<leftarrow> add_time_now (td_curr_task_node td) s;
     (start, s2) \<leftarrow> create_new_node WS_TASK (td_curr_task_node td) True s1;
     s3 \<leftarrow> node_upd (Some start) (setLowerUpper lo up) s2;
     let (sink, s4) = create_clean_node IMP_TASK True s3;
     let s5 = s4\<lparr>t_ws := (t_ws s4)(t_brk s4 \<mapsto>
                  new_WorksharingData\<lparr>ws_start_node := Some start, ws_sink_node := Some sink\<rparr>),
                 t_brk := Suc (t_brk s4)\<rparr>;
     task_set (t_taskPtr s task_data) (td\<lparr>td_curr_ws_data := Some (t_brk s4)\<rparr>) s5 }"

definition loop_end :: "nat \<Rightarrow> nat \<Rightarrow> tool \<Rightarrow> tool option" where
  "loop_end thread_data task_data s = do {
     td \<leftarrow> task_ref (t_taskPtr s task_data) s;
     a \<leftarrow> td_curr_ws_data td;
     ws \<leftarrow> t_ws s a;
     s1 \<leftarrow> (if ws_last_chunk_node ws \<noteq> None then finish_chunk thread_data (ws_last_chunk_node ws) s
           else do {
             s' \<leftarrow> add_time_now (ws_start_node ws) s;
             connect (ws_start_node ws) (ws_sink_node ws) s' });
     s2 \<leftarrow> set_time_now (ws_sink_node ws) s1;
     s3 \<leftarrow> task_set (t_taskPtr s task_data)
            (td\<lparr>td_curr_task_node := ws_sink_node ws, td_curr_ws_data := None\<rparr>)
            (s2\<lparr>t_ws := (t_ws s2)(a := None)\<rparr>);
     b \<leftarrow> t_thrPtr s thread_data;
     th \<leftarrow> t_threads s3 b;
     Some (s3\<lparr>t_threads := (t_threads s3)(b \<mapsto>
                th\<lparr>th_loopCounter := th_loopCounter th + 1\<rparr>)\<rparr>) }"

definition cb_ext_loop :: "ompt_scope_endpoint \<Rightarrow> nat \<Rightarrow> nat \<Rightarrow> int64 \<Rightarrow> int64 \<Rightarrow> tool \<Rightarrow> tool option" where
  "cb_ext_loop endpoint thread_data task_data lo up s =
     (case endpoint of
        ompt_scope_begin \<Rightarrow> loop_begin task_data lo up s
      | ompt_scope_end \<Rightarrow> loop_end thread_data task_data s)"

definition new_chunk :: "nat \<Rightarrow> TaskData \<Rightarrow> int64 \<Rightarrow> int64 \<Rightarrow> tool \<Rightarrow> tool option" where
  "new_chunk thread_data td lo up s = do {
     ws \<leftarrow> ws_ref (td_curr_ws_data td) s;
     (chunk, s1) \<leftarrow> create_new_node CHUNK_TASK (ws_start_node ws) True s;
     th \<leftarrow> thread_ref thread_data s1;
     s2 \<leftarrow> node_upd (Some chunk) (setLowerUpper lo up) s1;
     s3 \<leftarrow> node_upd (Some chunk) (setLoopCounter (th_loopCounter th)) s2;
     s4 \<leftarrow> node_upd (Some chunk) (setThreadId (td_threadNum td)) s3;
     s5 \<leftarrow> ws_set (td_curr_ws_data td) (ws\<lparr>ws_last_chunk_node := Some chunk\<rparr>) s4;
     s6 \<leftarrow> connect (Some chunk) (ws_sink_node ws) s5;
     node_upd (Some chunk) (initPapiVals (t_papiNumEvents s6)) s6 }"

definition cb_ext_chunk :: "nat \<Rightarrow> nat \<Rightarrow> int64 \<Rightarrow> int64 \<Rightarrow> bool \<Rightarrow> tool \<Rightarrow> tool option" where
  "cb_ext_chunk thread_data task_data lo up last_chunk s = do {
     td \<leftarrow> task_ref (t_taskPtr s task_data) s;
     ws \<leftarrow> ws_ref (td_curr_ws_data td) s;
     s1 \<leftarrow> (if ws_last_chunk_node ws \<noteq> None
           then (if \<not> last_chunk then finish_chunk thread_data (ws_last_chunk_node ws) s else Some s)
           else add_time_now (ws_start_node ws) s);
     (if \<not> last_chunk then new_chunk thread_data td lo up s1 else Some s1) }"

end
