(* ===== verification/Tdg_Output.thy ===== *)
theory Tdg_Output
  imports Tdg_Graph Out_Stream
begin

text \<open>
  The files the tool writes: \<open>Node::idToStr\<close>, \<open>Node::papiValsToStr\<close>, \<open>Node::printToStream\<close> and
  \<open>Graph::printDotFile\<close> of \<open>src/graph.cc\<close> (built with \<open>HAVE_PAPI\<close>), which write the graph in
  dot format, and \<open>LogFileMetric::printMetric\<close> of \<open>src/metrics.cc\<close>, which lists the chunks.

  Whether a file can be opened is an argument; when it cannot the process exits with status -2.
  Reading a member that was never set (\<open>_loopCounter\<close>, \<open>_threadId\<close>) or a missing counter array
  is \<open>None\<close>.
\<close>

section \<open>Nodes\<close>

fun getTypeStr :: "NodeType \<Rightarrow> string" where
  "getTypeStr ROOT_TASK = ''ROOT_TASK''"
| "getTypeStr IMP_TASK = ''IMP_TASK''"
| "getTypeStr WS_TASK = ''WS_TASK''"
| "getTypeStr CHUNK_TASK = ''CHUNK_TASK''"
| "getTypeStr EXP_TASK = ''EXP_TASK''"
| "getTypeStr BARRIER = ''BARRIER''"
| "getTypeStr TASKWAIT = ''TASKWAIT''"

fun getFillColor :: "NodeType \<Rightarrow> string" where
  "getFillColor ROOT_TASK = ''dimgray''"
| "getFillColor IMP_TASK = ''darkgoldenrod1''"
| "getFillColor WS_TASK = ''darkolivegreen3''"
| "getFillColor CHUNK_TASK = ''bisque''"
| "getFillColor EXP_TASK = ''deepskyblue''"
| "getFillColor BARRIER = ''firebrick1''"
| "getFillColor TASKWAIT = ''crimson''"

definition idToStr :: "Node \<Rightarrow> out_text option" where
  "idToStr n =
     (if n_type n = CHUNK_TASK then do {
        c \<leftarrow> n_loopCounter n;
        Some [OInt (uint c), OStr '' ['', OInt (n_lower n), OStr '', '', OInt (n_upper n), OStr '']''] }
      else Some [OInt (n_id n)])"

definition papiValsToStr :: "string \<Rightarrow> Node \<Rightarrow> out_text option" where
  "papiValsToStr sep_str n =
     (let k = unat (n_numPapiEvents n) in
      if k = 0 then Some []
      else do {
        vals \<leftarrow> n_papiVals n;
        if k \<le> length vals then Some (concat (map (\<lambda>v. [OStr sep_str, OInt v]) (take k vals)))
        else None })"

definition printToStream :: "Node \<Rightarrow> out_text option" where
  \<open>printToStream n = do {
     ident \<leftarrow> idToStr n;
     papi \<leftarrow> papiValsToStr '' * '' n;
     Some ([OInt (n_id n), OStr '' [style="filled" label="'', ODouble (n_totalTime n), OStr '' * '']
       @ ident @ papi
       @ [OStr ''" type="'', OStr (getTypeStr (n_type n)), OStr ''"'',
          OStr (if n_isCritical n then '' shape="doublecircle"'' else ''''),
          OStr '' fillcolor="'', OStr (getFillColor (n_type n)), OStr ''"];'', Endl]) }\<close>

section \<open>The dot file\<close>

definition print_edge :: "heap \<Rightarrow> Node \<Rightarrow> Edge \<Rightarrow> out_text \<Rightarrow> out_text option" where
  "print_edge h curr_node e out = do {
     adj_node \<leftarrow> h (getTarget e);
     Some (out @ [OInt (n_id curr_node), OStr '' -> '', OInt (n_id adj_node), OStr '';'', Endl]) }"

definition print_node :: "heap \<Rightarrow> int64 \<times> addr \<Rightarrow> out_text \<Rightarrow> out_text option" where
  "print_node h p out = do {
     curr_node \<leftarrow> h (snd p);
     txt \<leftarrow> printToStream curr_node;
     foldM (print_edge h curr_node) (n_exitEdges curr_node) (out @ txt) }"

definition printDotFile :: "bool \<Rightarrow> 'a tdg_scheme \<Rightarrow> out_text outcome option" where
  "printDotFile is_open s =
     (if \<not> is_open then Some (Exits (- 2))
      else do {
        out \<leftarrow> foldM (print_node (g_heap s)) (g_graphNodes s) [OStr ''digraph {'', Endl];
        Some (Returns (out @ [OStr ''}'', Endl])) })"

section \<open>The log file\<close>

definition log_chunk :: "heap \<Rightarrow> int64 \<times> addr \<Rightarrow> out_text \<Rightarrow> out_text option" where
  "log_chunk h p out = do {
     curr_node \<leftarrow> h (snd p);
     if n_type curr_node = CHUNK_TASK then do {
       tid \<leftarrow> n_threadId curr_node;
       c \<leftarrow> n_loopCounter curr_node;
       papi \<leftarrow> papiValsToStr '' '' curr_node;
       Some (out @ [OInt (n_id curr_node), OStr ''  '', ODouble (n_totalTime curr_node), OStr ''  '',
                OInt tid, OStr ''  '', OInt (uint c), OStr ''  ['', OInt (n_lower curr_node),
                OStr '','', OInt (n_upper curr_node), OStr ''] ''] @ papi @ [Endl]) }
     else Some out }"

definition log_printMetric :: "bool \<Rightarrow> 'a tdg_scheme \<Rightarrow> out_text outcome option" where
  "log_printMetric is_open s =
     (if \<not> is_open then Some (Exits (- 2))
      else do {
        out \<leftarrow> foldM (log_chunk (g_heap s)) (g_graphNodes s) [];
        Some (Returns out) })"

section \<open>Reading the files back\<close>

text \<open>The nodes whose printing meets only initialised members.\<close>

definition printable :: "Node \<Rightarrow> bool" where
  "printable n \<longleftrightarrow> (n_type n = CHUNK_TASK \<longrightarrow> n_loopCounter n \<noteq> None \<and> n_threadId n \<noteq> None)
     \<and> (n_numPapiEvents n \<noteq> 0 \<longrightarrow>
          (\<exists>vals. n_papiVals n = Some vals \<and> length vals = unat (n_numPapiEvents n)))"

definition dot_node_line :: "out_text \<Rightarrow> int64 option" where
  \<open>dot_node_line l = (case l of
     OInt i # OStr str # _ \<Rightarrow> if str = '' [style="filled" label="'' then Some i else None
   | _ \<Rightarrow> None)\<close>

definition dot_edge_line :: "out_text \<Rightarrow> (int64 \<times> int64) option" where
  "dot_edge_line l = (case l of
     OInt i # OStr arrow # OInt j # _ \<Rightarrow> if arrow = '' -> '' then Some (i, j) else None
   | _ \<Rightarrow> None)"

definition dot_nodes :: "out_text \<Rightarrow> int64 list" where
  "dot_nodes out = List.map_filter dot_node_line (out_lines out)"

definition dot_edges :: "out_text \<Rightarrow> (int64 \<times> int64) list" where
  "dot_edges out = List.map_filter dot_edge_line (out_lines out)"

lemma papiValsToStr_ok:
  assumes "printable n"
  shows "\<exists>t. papiValsToStr sep n = Some t \<and> Endl \<notin> set t"
  using assms unfolding printable_def papiValsToStr_def
  by (cases "n_numPapiEvents n = 0") (auto simp: Let_def unat_eq_zero)

lemma idToStr_ok: "printable n \<Longrightarrow> \<exists>t. idToStr n = Some t \<and> Endl \<notin> set t"
  by (cases "n_type n = CHUNK_TASK") (auto simp: idToStr_def printable_def)

lemma printToStream_ok:
  assumes "printable n"
  shows "\<exists>l. printToStream n = Some (l @ [Endl]) \<and> Endl \<notin> set l
    \<and> dot_node_line l = Some (n_id n) \<and> dot_edge_line l = None"
proof -
  obtain p where p: "papiValsToStr '' * '' n = Some p" "Endl \<notin> set p"
    using papiValsToStr_ok [OF assms] by blast
  obtain i where i: "idToStr n = Some i" "Endl \<notin> set i"
    using idToStr_ok [OF assms] by blast
  show ?thesis
    using p i by (simp add: printToStream_def dot_node_line_def dot_edge_line_def)
qed

definition node_line :: "Node \<Rightarrow> out_text" where
  "node_line n = butlast (the (printToStream n))"

lemma node_line:
  assumes "printable n"
  shows "printToStream n = Some (node_line n @ [Endl])" and "Endl \<notin> set (node_line n)"
    and "dot_node_line (node_line n) = Some (n_id n)" and "dot_edge_line (node_line n) = None"
  using printToStream_ok [OF assms] by (auto simp: node_line_def)

definition id_of :: "heap \<Rightarrow> addr \<Rightarrow> int64" where
  "id_of h a = (case h a of Some n \<Rightarrow> n_id n | None \<Rightarrow> 0)"

definition edge_text :: "heap \<Rightarrow> addr \<Rightarrow> addr \<Rightarrow> out_text" where
  "edge_text h u v = [OInt (id_of h u), OStr '' -> '', OInt (id_of h v), OStr '';'']"

definition dot_lines :: "heap \<Rightarrow> addr \<Rightarrow> out_text list" where
  "dot_lines h a = node_line (the (h a)) # map (edge_text h a) (succs h a)"

lemma print_edges_run:
  assumes "h a = Some n" and "\<forall>e \<in> set es. getTarget e \<in> dom h"
  shows "foldM (print_edge h n) es out = Some (out @ unlines (map (edge_text h a) (map getTarget es)))"
  using assms
proof (induction es arbitrary: out)
  case (Cons e es)
  obtain m where m: "h (getTarget e) = Some m" using Cons.prems(2) by auto
  then have "print_edge h n e out = Some (out @ edge_text h a (getTarget e) @ [Endl])"
    using Cons.prems(1) by (simp add: print_edge_def edge_text_def id_of_def)
  then show ?case using Cons by simp
qed simp

lemma print_node_run:
  assumes "wf_heap h" and "h a = Some n" and "printable n"
  shows "print_node h (i, a) out = Some (out @ unlines (dot_lines h a))"
proof -
  have su: "succs h a = map getTarget (n_exitEdges n)" using assms(2) by (simp add: succs_def)
  then have "\<forall>e \<in> set (n_exitEdges n). getTarget e \<in> dom h"
    using wf_succ_dom [OF assms(1), of _ a] by auto
  from print_edges_run [OF assms(2) this] show ?thesis
    using assms(2,3) by (simp add: print_node_def node_line dot_lines_def su)
qed

lemma print_nodes_run:
  assumes "wf_heap h" and "\<forall>p \<in> set ps. \<exists>n. h (snd p) = Some n \<and> printable n"
  shows "foldM (print_node h) ps out = Some (out @ unlines (concat (map (dot_lines h \<circ> snd) ps)))"
  using assms(2)
proof (induction ps arbitrary: out)
  case (Cons p ps)
  obtain i a where p: "p = (i, a)" by (cases p)
  with Cons.prems obtain n where "h a = Some n" "printable n" by auto
  from print_node_run [OF assms(1) this] Cons show ?case by (simp add: p)
qed simp

lemma edge_text_decode:
  "dot_edge_line (edge_text h u v) = Some (id_of h u, id_of h v)"
  "dot_node_line (edge_text h u v) = None" "Endl \<notin> set (edge_text h u v)"
  by (simp_all add: edge_text_def dot_edge_line_def dot_node_line_def)

lemma dot_lines_decode:
  assumes "h a = Some n" and "printable n"
  shows "List.map_filter dot_node_line (dot_lines h a) = [n_id n]"
    and "List.map_filter dot_edge_line (dot_lines h a) = map (\<lambda>v. (id_of h a, id_of h v)) (succs h a)"
    and "\<forall>l \<in> set (dot_lines h a). Endl \<notin> set l"
proof -
  have no: "List.map_filter dot_node_line (map (edge_text h a) vs) = []" for vs
    by (induction vs) (simp_all add: edge_text_decode map_filter_simps)
  have ed: "List.map_filter dot_edge_line (map (edge_text h a) vs) = map (\<lambda>v. (id_of h a, id_of h v)) vs" for vs
    by (induction vs) (simp_all add: edge_text_decode map_filter_simps)
  show "List.map_filter dot_node_line (dot_lines h a) = [n_id n]"
    and "List.map_filter dot_edge_line (dot_lines h a) = map (\<lambda>v. (id_of h a, id_of h v)) (succs h a)"
    using assms by (simp_all add: dot_lines_def map_filter_simps node_line no ed)
  show "\<forall>l \<in> set (dot_lines h a). Endl \<notin> set l"
    using assms by (auto simp: dot_lines_def node_line edge_text_decode)
qed

lemma map_filter_concat:
  "List.map_filter f (concat xss) = concat (map (List.map_filter f) xss)"
  by (induction xss) (simp_all add: map_filter_def)

lemma map_filter_append: "List.map_filter f (xs @ ys) = List.map_filter f xs @ List.map_filter f ys"
  by (simp add: map_filter_def)

definition all_printable :: "heap \<Rightarrow> bool" where
  "all_printable h \<longleftrightarrow> (\<forall>a n. h a = Some n \<longrightarrow> printable n)"

lemma index_entries:
  assumes "index_ok s" and "(i, a) \<in> set (g_graphNodes s)"
  shows "\<exists>n. g_heap s a = Some n \<and> n_id n = i"
  using assms smap.iter_find [of "g_graphNodes s" i a] by (simp add: index_ok_def)

lemma printDotFile_runs:
  assumes wf: "wf_tdg s" and pr: "all_printable (g_heap s)"
  shows "\<exists>out. printDotFile True s = Some (Returns out)
    \<and> dot_nodes out = map fst (g_graphNodes s)
    \<and> dot_edges out = concat (map (\<lambda>(i, a). map (\<lambda>v. (i, id_of (g_heap s) v)) (succs (g_heap s) a))
        (g_graphNodes s))"
proof -
  let ?h = "g_heap s" and ?ps = "g_graphNodes s"
  let ?body = "concat (map (dot_lines ?h \<circ> snd) ?ps)"
  let ?ls = "[OStr ''digraph {''] # ?body @ [[OStr ''}'']]"
  have wfh: "wf_heap ?h" and ix: "index_ok s" using wf by (simp_all add: wf_tdg_def)
  have node: "\<exists>n. ?h a = Some n \<and> n_id n = i \<and> printable n" if "(i, a) \<in> set ?ps" for i a
    using index_entries [OF ix that] pr by (auto simp: all_printable_def)
  have run: "printDotFile True s = Some (Returns (unlines ?ls))"
    using print_nodes_run [OF wfh] node by (fastforce simp: printDotFile_def)
  have "\<forall>l \<in> set ?ls. Endl \<notin> set l"
    using node dot_lines_decode(3) by fastforce
  then have ol: "out_lines (unlines ?ls) = ?ls" unfolding unlines_def by (rule out_lines_concat)
  have nodes: "map (List.map_filter dot_node_line \<circ> (dot_lines ?h \<circ> snd)) ?ps = map (\<lambda>(i, a). [i]) ?ps"
    using node dot_lines_decode(1) by (fastforce intro!: map_cong)
  have edges: "map (List.map_filter dot_edge_line \<circ> (dot_lines ?h \<circ> snd)) ?ps
      = map (\<lambda>(i, a). map (\<lambda>v. (i, id_of ?h v)) (succs ?h a)) ?ps"
    using node dot_lines_decode(2) by (fastforce intro!: map_cong simp: id_of_def)
  have "dot_nodes (unlines ?ls) = map fst ?ps"
    unfolding dot_nodes_def ol
    by (simp add: map_filter_simps map_filter_append map_filter_concat nodes dot_node_line_def
        case_prod_unfold)
  moreover have "dot_edges (unlines ?ls)
      = concat (map (\<lambda>(i, a). map (\<lambda>v. (i, id_of ?h v)) (succs ?h a)) ?ps)"
    unfolding dot_edges_def ol
    by (simp add: map_filter_simps map_filter_append map_filter_concat edges dot_edge_line_def)
  ultimately show ?thesis using run by blast
qed

text \<open>The edges read back are the edges of the graph, by identifier, each once.\<close>

lemma id_of_inj:
  assumes "index_ok s" shows "inj_on (id_of (g_heap s)) (dom (g_heap s))"
proof (rule inj_onI)
  fix a b assume ab: "a \<in> dom (g_heap s)" "b \<in> dom (g_heap s)" and eq: "id_of (g_heap s) a = id_of (g_heap s) b"
  obtain n m where n: "g_heap s a = Some n" "g_heap s b = Some m" using ab by auto
  have "map_of (g_graphNodes s) (n_id n) = Some a" "map_of (g_graphNodes s) (n_id m) = Some b"
    using assms n by (auto simp: index_ok_def)
  with eq n show "a = b" by (simp add: id_of_def)
qed

lemma edge_ids_set:
  assumes ix: "index_ok s" and wfh: "wf_heap (g_heap s)"
  shows "set (concat (map (\<lambda>(i, a). map (\<lambda>v. (i, id_of (g_heap s) v)) (succs (g_heap s) a)) (g_graphNodes s)))
    = map_prod (id_of (g_heap s)) (id_of (g_heap s)) ` edge_rel (g_heap s)" (is "?L = ?R")
proof -
  have ent: "(i, a) \<in> set (g_graphNodes s) \<longleftrightarrow> a \<in> dom (g_heap s) \<and> i = id_of (g_heap s) a" for i a
    using smap.iter_find [of "g_graphNodes s" i a] ix by (auto simp: index_ok_def id_of_def)
  show ?thesis
    using succs_dom by (force simp: ent edge_rel_def image_iff)
qed

lemma distinct_keyed:
  assumes "distinct (map fst ps)" and "\<forall>(i, a) \<in> set ps. distinct (f a)"
  shows "distinct (concat (map (\<lambda>(i, a). map (\<lambda>v. (i, v)) (f a)) ps))"
  using assms
proof (induction ps)
  case (Cons p ps)
  then show ?case by (force simp: distinct_map inj_on_def split: prod.splits)
qed simp

lemma edge_ids_distinct:
  assumes ix: "index_ok s" and wfh: "wf_heap (g_heap s)"
  shows "distinct (concat (map (\<lambda>(i, a). map (\<lambda>v. (i, id_of (g_heap s) v)) (succs (g_heap s) a)) (g_graphNodes s)))"
proof -
  have "distinct (map (id_of (g_heap s)) (succs (g_heap s) a))" for a
  proof -
    have "set (succs (g_heap s) a) \<subseteq> dom (g_heap s)" using wf_succ_dom [OF wfh] by blast
    then show ?thesis
      using wf_heapD(2) [OF wfh] inj_on_subset [OF id_of_inj [OF ix]] by (simp add: distinct_map)
  qed
  moreover have "distinct (map fst (g_graphNodes s))"
    using ix smap.iter_keys_distinct by (auto simp: index_ok_def)
  ultimately show ?thesis
    using distinct_keyed [of "g_graphNodes s" "\<lambda>a. map (id_of (g_heap s)) (succs (g_heap s) a)"]
    by (simp add: o_def)
qed

text \<open>The log has one line per chunk, in the order of the identifiers.\<close>

definition log_line :: "Node \<Rightarrow> out_text" where
  "log_line n = [OInt (n_id n), OStr ''  '', ODouble (n_totalTime n), OStr ''  '',
     OInt (the (n_threadId n)), OStr ''  '', OInt (uint (the (n_loopCounter n))), OStr ''  ['',
     OInt (n_lower n), OStr '','', OInt (n_upper n), OStr ''] ''] @ the (papiValsToStr '' '' n)"

definition chunks_in_order :: "'a tdg_scheme \<Rightarrow> Node list" where
  "chunks_in_order s = filter (\<lambda>n. n_type n = CHUNK_TASK) (map (\<lambda>p. the (g_heap s (snd p))) (g_graphNodes s))"

lemma log_chunks_run:
  assumes "\<forall>p \<in> set ps. \<exists>n. h (snd p) = Some n \<and> printable n"
  shows "foldM (log_chunk h) ps out = Some (out @ unlines (map log_line
    (filter (\<lambda>n. n_type n = CHUNK_TASK) (map (\<lambda>p. the (h (snd p))) ps))))"
  using assms
proof (induction ps arbitrary: out)
  case (Cons p ps)
  then obtain n where n: "h (snd p) = Some n" "printable n" by auto
  obtain t where t: "papiValsToStr '' '' n = Some t" using papiValsToStr_ok [OF n(2)] by blast
  have "log_chunk h p out = Some (out @ (if n_type n = CHUNK_TASK then log_line n @ [Endl] else []))"
    using n t by (auto simp: log_chunk_def log_line_def printable_def)
  then show ?case using Cons n by simp
qed simp

lemma log_printMetric_runs:
  assumes wf: "wf_tdg s" and pr: "all_printable (g_heap s)"
  shows "\<exists>out. log_printMetric True s = Some (Returns out) \<and> out_lines out = map log_line (chunks_in_order s)"
proof -
  have ix: "index_ok s" using wf by (simp add: wf_tdg_def)
  have node: "\<exists>n. g_heap s (snd p) = Some n \<and> printable n" if "p \<in> set (g_graphNodes s)" for p
    using index_entries [OF ix, of "fst p" "snd p"] that pr by (auto simp: all_printable_def)
  have "Endl \<notin> set (log_line n)" if "printable n" for n
    using papiValsToStr_ok [OF that, of "'' ''"] by (auto simp: log_line_def)
  then have "\<forall>l \<in> set (map log_line (chunks_in_order s)). Endl \<notin> set l"
    using node by (fastforce simp: chunks_in_order_def)
  then have "out_lines (unlines (map log_line (chunks_in_order s))) = map log_line (chunks_in_order s)"
    unfolding unlines_def by (rule out_lines_concat)
  moreover have "log_printMetric True s = Some (Returns (unlines (map log_line (chunks_in_order s))))"
    using log_chunks_run [of "g_graphNodes s" "g_heap s"] node
    by (simp add: log_printMetric_def chunks_in_order_def)
  ultimately show ?thesis by blast
qed

section \<open>Properties\<close>

lemma sample_printable: "all_printable (g_heap sample_graph)"
  by (simp add: all_printable_def printable_def sample_graph_def new_Node_def setThreadId_def setLoopCounter_def
      split: if_splits)

lemma sample_ids:
  "id_of (g_heap sample_graph) 0 = 0" "id_of (g_heap sample_graph) 1 = 1" "id_of (g_heap sample_graph) (Suc 0) = 1"
  "id_of (g_heap sample_graph) 2 = 2"
  by (simp_all add: id_of_def sample_graph_def new_Node_def setThreadId_def setLoopCounter_def)

lemma chunks_in_order_ids:
  assumes "index_ok s" shows "sorted (map n_id (chunks_in_order s)) \<and> distinct (map n_id (chunks_in_order s))"
proof -
  let ?f = "\<lambda>p. the (g_heap s (snd p))" and ?P = "\<lambda>n. n_type n = CHUNK_TASK"
  have ids: "n_id (?f p) = fst p" if "p \<in> set (g_graphNodes s)" for p
    using index_entries [OF assms, of "fst p" "snd p"] that by auto
  have "map n_id (chunks_in_order s) = map fst (filter (?P \<circ> ?f) (g_graphNodes s))"
    using ids by (auto simp: chunks_in_order_def filter_map o_def)
  moreover have "sorted (map fst (g_graphNodes s))" "distinct (map fst (g_graphNodes s))"
    using assms by (auto simp: index_ok_def map_ok_def strict_sorted_iff)
  ultimately show ?thesis using sorted_filter [of fst] distinct_map_filter by metis
qed

text \<open>
  C27. The dot file can be read back: on a well-formed graph whose nodes can be printed, the node
  lines of the file are the identifiers of the graph, in ascending order, and the edge lines are
  exactly the edges of the graph by identifier, none twice.  Different nodes have different
  identifiers, so the file determines the graph.
\<close>

theorem dot_file_round_trip:
  assumes "wf_tdg s" and "all_printable (g_heap s)"
  shows "\<exists>out. printDotFile True s = Some (Returns out)
    \<and> sorted (dot_nodes out) \<and> set (dot_nodes out) = id_of (g_heap s) ` dom (g_heap s)
    \<and> set (dot_edges out) = map_prod (id_of (g_heap s)) (id_of (g_heap s)) ` edge_rel (g_heap s)
    \<and> distinct (dot_edges out) \<and> inj_on (id_of (g_heap s)) (dom (g_heap s))"
proof -
  have ix: "index_ok s" and wfh: "wf_heap (g_heap s)" using assms(1) by (simp_all add: wf_tdg_def)
  obtain out where out: "printDotFile True s = Some (Returns out)" "dot_nodes out = map fst (g_graphNodes s)"
      "dot_edges out = concat (map (\<lambda>(i, a). map (\<lambda>v. (i, id_of (g_heap s) v)) (succs (g_heap s) a)) (g_graphNodes s))"
    using printDotFile_runs [OF assms] by blast
  have "fst p = id_of (g_heap s) (snd p)" if "p \<in> set (g_graphNodes s)" for p
    using index_entries [OF ix, of "fst p" "snd p"] that by (auto simp: id_of_def)
  then have "set (map fst (g_graphNodes s)) = id_of (g_heap s) ` set (map snd (g_graphNodes s))"
    by (force simp: image_iff)
  moreover have "sorted (map fst (g_graphNodes s))" using ix by (simp add: index_ok_def map_ok_def strict_sorted_iff)
  ultimately show ?thesis
    using out edge_ids_set [OF ix wfh] edge_ids_distinct [OF ix wfh] id_of_inj [OF ix] graphNodes_iter(2) [OF ix]
    by (intro exI [of _ out]) simp
qed

theorem dot_file_round_trip_witness:
  "\<exists>out. printDotFile True sample_graph = Some (Returns out) \<and> set (dot_edges out) = {(0, 1), (0, 2)}"
  using dot_file_round_trip [OF wf_sample sample_printable] by (auto simp: sample_edges sample_ids)

text \<open>
  \<open>LogFileMetric::printMetric\<close> writes one line per chunk of the graph, in ascending order of
  the identifiers, and nothing else; the line holds identifier, time, thread, loop, bounds and
  counters of the chunk.
\<close>

theorem log_file_lists_chunks:
  assumes "wf_tdg s" and "all_printable (g_heap s)"
  shows "\<exists>out. log_printMetric True s = Some (Returns out) \<and> out_lines out = map log_line (chunks_in_order s)
    \<and> sorted (map n_id (chunks_in_order s)) \<and> distinct (map n_id (chunks_in_order s))
    \<and> set (chunks_in_order s) = {n. (\<exists>a. g_heap s a = Some n) \<and> n_type n = CHUNK_TASK}"
proof -
  have ix: "index_ok s" using assms(1) by (simp add: wf_tdg_def)
  have "set (chunks_in_order s) = {n \<in> (\<lambda>a. the (g_heap s a)) ` set (map snd (g_graphNodes s)). n_type n = CHUNK_TASK}"
    by (auto simp: chunks_in_order_def)
  then have "set (chunks_in_order s) = {n. (\<exists>a. g_heap s a = Some n) \<and> n_type n = CHUNK_TASK}"
    unfolding graphNodes_iter(2) [OF ix] by (force simp: image_iff)
  then show ?thesis using log_printMetric_runs [OF assms] chunks_in_order_ids [OF ix] by blast
qed

theorem log_file_lists_chunks_witness:
  "\<exists>out. log_printMetric True sample_graph = Some (Returns out) \<and> length (out_lines out) = 1"
proof -
  have "length (chunks_in_order sample_graph) = 1"
    by (simp add: chunks_in_order_def sample_graph_def new_Node_def setThreadId_def setLoopCounter_def)
  then show ?thesis using log_file_lists_chunks [OF wf_sample sample_printable] by (metis length_map)
qed

end
