(* ===== verification/Callback_Graph.thy ===== *)
theory Callback_Graph
  imports Ompt_Callbacks Tdg_Output
begin

text \<open>
  What the callbacks do to the task graph.  The first part follows single steps (a node created,
  an edge added, a time recorded) through the relation \<open>grows\<close>; the second gives for every
  callback of \<open>src/callbacks.cc\<close> the nodes and edges it adds and the objects it writes, under the
  hypothesis that the pointers it follows are valid.
\<close>

section \<open>How a callback changes the graph\<close>

text \<open>Identifiers of the allocated nodes.\<close>

definition node_ids :: "heap \<Rightarrow> addr \<Rightarrow> int64 option" where
  "node_ids h a = map_option n_id (h a)"

lemma node_ids_simps [simp]:
  "node_ids (h(a \<mapsto> n)) = (node_ids h)(a \<mapsto> n_id n)"
  "node_ids (h(a := None)) = (node_ids h)(a := None)"
  by (auto simp: node_ids_def fun_eq_iff)

lemma index_ok_ids:
  "index_ok s \<longleftrightarrow> map_ok (g_graphNodes s)
     \<and> (\<forall>i a. map_of (g_graphNodes s) i = Some a \<longleftrightarrow> node_ids (g_heap s) a = Some i)"
  by (simp add: index_ok_def node_ids_def)

lemma ids_ok_ids:
  "ids_ok s \<longleftrightarrow> 1 \<le> g_nextId s \<and> g_nextId s < 2 ^ 63
     \<and> (\<forall>a i. node_ids (g_heap s) a = Some i \<longrightarrow> 0 \<le> i \<and> i < g_nextId s)"
  by (auto simp: ids_ok_def node_ids_def)

lemma wf_tdg_heap:
  assumes "wf_tdg s" and "wf_heap h" and "dom h = dom (g_heap s)"
    and "node_ids h = node_ids (g_heap s)"
  shows "wf_tdg (s\<lparr>g_heap := h\<rparr>)"
  using assms by (simp add: wf_tdg_def index_ok_ids ids_ok_ids)

text \<open>
  How a node may change while the program runs: its type stays, it is not marked by any
  analysis, and what could be printed can be printed still.
\<close>

definition fresh_flags :: "Node \<Rightarrow> bool" where
  "fresh_flags n \<longleftrightarrow> \<not> n_visited n \<and> n_prevCritical n = None \<and> \<not> n_isCritical n"

definition evolves :: "Node \<Rightarrow> Node \<Rightarrow> bool" where
  "evolves n n' \<longleftrightarrow> n_type n' = n_type n \<and> (fresh_flags n \<longrightarrow> fresh_flags n')
     \<and> (printable n \<longrightarrow> printable n')"

definition nodes_evolve :: "heap \<Rightarrow> heap \<Rightarrow> bool" where
  "nodes_evolve h h' \<longleftrightarrow> (\<forall>a n n'. h a = Some n \<longrightarrow> h' a = Some n' \<longrightarrow> evolves n n')"

text \<open>A heap no analysis has run on, and whose nodes can all be printed.\<close>

definition heap_ok :: "heap \<Rightarrow> bool" where
  "heap_ok h \<longleftrightarrow> (\<forall>a n. h a = Some n \<longrightarrow> fresh_flags n \<and> printable n)"

lemma evolves_refl [simp]: "evolves n n"
  by (simp add: evolves_def)

lemma evolves_edges [simp]:
  "evolves n (n\<lparr>n_exitEdges := es\<rparr>)" "evolves n (n\<lparr>n_entryEdges := es\<rparr>)"
  by (simp_all add: evolves_def fresh_flags_def printable_def)

lemma nodes_evolve_trans:
  assumes "nodes_evolve h h1" and "nodes_evolve h1 h2" and "dom h \<subseteq> dom h1"
  shows "nodes_evolve h h2"
  unfolding nodes_evolve_def
proof (intro allI impI)
  fix a n n2 assume n: "h a = Some n" "h2 a = Some n2"
  then obtain n1 where n1: "h1 a = Some n1" using assms(3) by blast
  have "evolves n n1" "evolves n1 n2" using assms(1,2) n n1 by (auto simp: nodes_evolve_def)
  then show "evolves n n2" by (simp add: evolves_def)
qed

lemma nodes_evolve_refl [simp]: "nodes_evolve h h"
  by (simp add: nodes_evolve_def)

lemma upd_node_evolves:
  assumes "upd_node a f h = Some h'" and "\<And>n. evolves n (f n)"
  shows "nodes_evolve h h'"
  unfolding nodes_evolve_def
proof (intro allI impI)
  fix b n n' assume n: "h b = Some n" "h' b = Some n'"
  obtain m where "h a = Some m" "h' = h(a \<mapsto> f m)" using assms(1) by (auto simp: opt_simps)
  with n assms(2) show "evolves n n'" by (cases "b = a") auto
qed

definition keeps_node :: "(Node \<Rightarrow> Node) \<Rightarrow> bool" where
  "keeps_node f \<longleftrightarrow> keeps_edges f \<and> (\<forall>n. n_id (f n) = n_id n \<and> evolves n (f n))"

lemma keeps_node_setters [node_frames]:
  "keeps_node (addTime t)" "keeps_node (setLastTime t)" "keeps_node (setLowerUpper l u)"
  "keeps_node (setLoopCounter c)" "keeps_node (setThreadId i)" "keeps_node (initPapiVals k)"
  using keeps_edges_setters
  by (simp_all add: keeps_node_def evolves_def fresh_flags_def printable_def addTime_def
      setLastTime_def setLowerUpper_def setLoopCounter_def setThreadId_def initPapiVals_def
      word_gt_0)


lemma upd_node_ids:
  "upd_node a f h = Some h' \<Longrightarrow> (\<And>n. n_id (f n) = n_id n) \<Longrightarrow> node_ids h' = node_ids h"
  by (auto simp: upd_node_def node_ids_def split: bind_splits)

lemma connectNodes_ids: "connectNodes u v h = Some h' \<Longrightarrow> node_ids h' = node_ids h"
  unfolding connectNodes_def Let_def
  by (auto split: bind_splits if_splits dest!: upd_node_ids)

lemma disconnectNodes_ids: "disconnectNodes u v h = Some h' \<Longrightarrow> node_ids h' = node_ids h"
  unfolding disconnectNodes_def
  by (auto split: bind_splits dest!: upd_node_ids)

lemma connectNodes_evolves: "connectNodes u v h = Some h' \<Longrightarrow> nodes_evolve h h'"
proof -
  assume run: "connectNodes u v h = Some h'"
  show ?thesis
  proof (cases "h' = h")
    case False
    with run obtain h1 where h1: "upd_node u (\<lambda>n. n\<lparr>n_exitEdges := n_exitEdges n @ [new_Edge u v]\<rparr>) h = Some h1"
      "upd_node v (\<lambda>n. n\<lparr>n_entryEdges := n_entryEdges n @ [new_Edge u v]\<rparr>) h1 = Some h'"
      unfolding connectNodes_def Let_def by (auto split: bind_splits if_splits)
    have "dom h \<subseteq> dom h1" using h1(1) by (auto simp: upd_node_def split: bind_splits)
    with nodes_evolve_trans [OF upd_node_evolves [OF h1(1)] upd_node_evolves [OF h1(2)]] show ?thesis
      by simp
  qed simp
qed

text \<open>
  What an operation on the graph leaves alone: the tool's own objects and the pointers of the
  runtime; only the graph, the clock and the PAPI calls move.
\<close>

definition same_tool :: "tool \<Rightarrow> tool \<Rightarrow> bool" where
  "same_tool s s' \<longleftrightarrow> t_finalNode s' = t_finalNode s \<and> t_tasks s' = t_tasks s \<and> t_ws s' = t_ws s
     \<and> t_pars s' = t_pars s \<and> t_threads s' = t_threads s \<and> t_brk s' = t_brk s
     \<and> t_taskPtr s' = t_taskPtr s \<and> t_parPtr s' = t_parPtr s \<and> t_thrPtr s' = t_thrPtr s
     \<and> t_papiNumEvents s' = t_papiNumEvents s \<and> t_papiEvents s' = t_papiEvents s"


text \<open>
  \<open>grows s s' V E k\<close>: from \<open>s\<close> to \<open>s'\<close> the graph gains exactly the nodes \<open>V\<close> and the edges \<open>E\<close>
  and stays well-formed, with \<open>k\<close> allocations; old nodes evolve, new ones are unmarked and
  printable; the tool's own objects are untouched.  \<open>grows0\<close> leaves out that the new nodes are
  printable, which a chunk becomes only when its members have been set.
\<close>

definition grows0 :: "tool \<Rightarrow> tool \<Rightarrow> addr set \<Rightarrow> (addr \<times> addr) set \<Rightarrow> nat \<Rightarrow> bool" where
  "grows0 s s' V E k \<longleftrightarrow> same_tool s s' \<and> wf_tdg s' \<and> dom (g_heap s') = dom (g_heap s) \<union> V
     \<and> edge_rel (g_heap s') = edge_rel (g_heap s) \<union> E
     \<and> g_brk s' = g_brk s + k \<and> g_nextId s \<le> g_nextId s' \<and> g_nextId s' \<le> g_nextId s + int k
     \<and> nodes_evolve (g_heap s) (g_heap s')
     \<and> (\<forall>a \<in> V. pred_option fresh_flags (g_heap s' a))"

definition grows :: "tool \<Rightarrow> tool \<Rightarrow> addr set \<Rightarrow> (addr \<times> addr) set \<Rightarrow> nat \<Rightarrow> bool" where
  "grows s s' V E k \<longleftrightarrow> grows0 s s' V E k \<and> (\<forall>a \<in> V. pred_option printable (g_heap s' a))"

lemma grows_weaken: "grows s s' V E k \<Longrightarrow> grows0 s s' V E k"
  by (simp add: grows_def)

lemma grows_no_nodes: "grows s s' {} E k = grows0 s s' {} E k"
  by (simp add: grows_def)

lemma grows0_trans:
  assumes "grows0 s s1 V1 E1 k1" and "grows0 s1 s2 V2 E2 k2"
  shows "grows0 s s2 (V1 \<union> V2) (E1 \<union> E2) (k1 + k2)"
proof -
  have ev: "nodes_evolve (g_heap s) (g_heap s1)" "nodes_evolve (g_heap s1) (g_heap s2)"
    and d: "dom (g_heap s) \<subseteq> dom (g_heap s1)" and d1: "V1 \<subseteq> dom (g_heap s1)"
    and f1: "\<forall>a \<in> V1. pred_option fresh_flags (g_heap s1 a)"
    and f2: "\<forall>a \<in> V2. pred_option fresh_flags (g_heap s2 a)"
    using assms by (auto simp: grows0_def)
  have "pred_option fresh_flags (g_heap s2 a)" if a: "a \<in> V1" for a
  proof (cases "g_heap s2 a")
    case (Some n2)
    obtain n1 where "g_heap s1 a = Some n1" using d1 a by blast
    then show ?thesis using ev(2) f1 a Some by (auto simp: nodes_evolve_def evolves_def)
  qed simp
  then have "\<forall>a \<in> V1 \<union> V2. pred_option fresh_flags (g_heap s2 a)" using f2 by blast
  moreover have "nodes_evolve (g_heap s) (g_heap s2)" by (rule nodes_evolve_trans [OF ev d])
  moreover have "same_tool s s2" using assms by (simp add: grows0_def same_tool_def)
  ultimately show ?thesis using assms by (auto simp: grows0_def)
qed

lemma grows_trans:
  assumes "grows s s1 V1 E1 k1" and "grows s1 s2 V2 E2 k2"
  shows "grows s s2 (V1 \<union> V2) (E1 \<union> E2) (k1 + k2)"
proof -
  have ev: "nodes_evolve (g_heap s1) (g_heap s2)" and d1: "V1 \<subseteq> dom (g_heap s1)"
    using assms by (auto simp: grows_def grows0_def)
  have "pred_option printable (g_heap s2 a)" if a: "a \<in> V1" for a
  proof (cases "g_heap s2 a")
    case (Some n2)
    obtain n1 where "g_heap s1 a = Some n1" using d1 a by blast
    then show ?thesis using ev assms(1) a Some by (auto simp: nodes_evolve_def evolves_def grows_def)
  qed simp
  then show ?thesis using grows0_trans [OF grows_weaken grows_weaken, OF assms] assms by (auto simp: grows_def)
qed

lemma grows_refl: "wf_tdg s \<Longrightarrow> grows s s {} {} 0"
  by (simp add: grows_def grows0_def same_tool_def)

lemma node_upd_ok:
  assumes "wf_tdg s" and "a \<in> dom (g_heap s)" and "keeps_node f"
  shows "\<exists>s'. node_upd (Some a) f s = Some s' \<and> grows s s' {} {} 0"
proof -
  obtain h where h: "upd_node a f (g_heap s) = Some h" using upd_node_ok [OF assms(2)] by blast
  have ke: "keeps_edges f" using assms(3) by (simp add: keeps_node_def)
  have "wf_tdg (s\<lparr>g_heap := h\<rparr>)"
    using assms(1,3) upd_node_keeps_wf [OF h ke] upd_node_keeps(3) [OF h ke] upd_node_ids [OF h]
    by (intro wf_tdg_heap) (auto simp: keeps_node_def wf_tdg_def)
  moreover have "nodes_evolve (g_heap s) h"
    using assms(3) by (intro upd_node_evolves [OF h]) (simp add: keeps_node_def)
  ultimately show ?thesis
    using upd_node_keeps [OF h ke] by (simp add: node_upd_def h grows_def grows0_def same_tool_def)
qed

lemma wf_tdg_clock [simp]: "wf_tdg (s\<lparr>t_clockCalls := k\<rparr>) = wf_tdg s"
  "wf_tdg (s\<lparr>t_papiCalls := k\<rparr>) = wf_tdg s"
  by (simp_all add: wf_tdg_def ids_ok_def index_ok_def)


lemma node_upd_after:
  assumes "grows s s1 {} {} 0" and "a \<in> dom (g_heap s)" and "keeps_node f"
  shows "\<exists>s'. node_upd (Some a) f s1 = Some s' \<and> grows s s' {} {} 0"
proof -
  have "wf_tdg s1" "a \<in> dom (g_heap s1)" using assms by (simp_all add: grows_def grows0_def)
  then obtain s' where "node_upd (Some a) f s1 = Some s'" "grows s1 s' {} {} 0"
    using node_upd_ok assms(3) by blast
  with grows_trans [OF assms(1)] show ?thesis by fastforce
qed

lemma timers_ok:
  assumes "wf_tdg s" and "a \<in> dom (g_heap s)"
  shows "\<exists>s'. add_time_now (Some a) s = Some s' \<and> grows s s' {} {} 0"
    and "\<exists>s'. set_time_now (Some a) s = Some s' \<and> grows s s' {} {} 0"
    and "\<exists>s'. endPapiCounters (Some a) s = Some s' \<and> grows s s' {} {} 0"
proof -
  have c: "grows s (s\<lparr>t_clockCalls := Suc (t_clockCalls s)\<rparr>) {} {} 0"
    and p: "grows s (s\<lparr>t_papiCalls := Suc (t_papiCalls s)\<rparr>) {} {} 0"
    using assms(1) by (simp_all add: grows_def grows0_def same_tool_def)
  show "\<exists>s'. add_time_now (Some a) s = Some s' \<and> grows s s' {} {} 0"
    using node_upd_after [OF c assms(2)] by (simp add: add_time_now_def ftimer_msec_def node_frames)
  show "\<exists>s'. set_time_now (Some a) s = Some s' \<and> grows s s' {} {} 0"
    using node_upd_after [OF c assms(2)] by (simp add: set_time_now_def ftimer_msec_def node_frames)
  show "\<exists>s'. endPapiCounters (Some a) s = Some s' \<and> grows s s' {} {} 0"
    unfolding endPapiCounters_def
    by (rule node_upd_after [OF p assms(2)])
      (auto simp: keeps_node_def keeps_edges_def evolves_def fresh_flags_def printable_def
        split: option.splits)
qed

lemma connect_ok:
  assumes "wf_tdg s" and "a \<in> dom (g_heap s)" and "b \<in> dom (g_heap s)"
  shows "\<exists>s'. connect (Some a) (Some b) s = Some s' \<and> grows s s' {} {(a, b)} 0"
proof -
  have wf: "wf_heap (g_heap s)" using assms(1) by (simp add: wf_tdg_def)
  obtain h where h: "connectNodes a b (g_heap s) = Some h" "wf_heap h" "dom h = dom (g_heap s)"
      "edge_rel h = insert (a, b) (edge_rel (g_heap s))"
    using hg.connect_ok [OF wf assms(2,3)] by blast
  have "wf_tdg (s\<lparr>g_heap := h\<rparr>)"
    using assms(1) h connectNodes_ids [OF h(1)] by (intro wf_tdg_heap) auto
  then show ?thesis
    using h connectNodes_evolves [OF h(1)] by (simp add: connect_def grows_def grows0_def same_tool_def)
qed

lemma fresh_id:
  assumes wf: "wf_tdg s" and root: "gen_id \<or> (\<forall>a n. g_heap s a = Some n \<longrightarrow> n_id n \<noteq> 0)"
  shows "node_ids (g_heap s) a \<noteq> Some (if gen_id then g_nextId s else 0)"
proof -
  have "i < g_nextId s" if "node_ids (g_heap s) a = Some i" for i
    using wf that by (simp add: wf_tdg_def ids_ok_ids)
  with root show ?thesis by (auto simp: node_ids_def split: if_splits)
qed

lemma create_clean_node_ok:
  assumes wf: "wf_tdg s" and room: "g_nextId s + 1 < 2 ^ 63"
    and root: "gen_id \<or> (\<forall>a n. g_heap s a = Some n \<longrightarrow> n_id n \<noteq> 0)"
  shows "\<exists>s'. create_clean_node ty gen_id s = (g_brk s, s') \<and> grows0 s s' {g_brk s} {} 1
     \<and> (ty \<noteq> CHUNK_TASK \<longrightarrow> grows s s' {g_brk s} {} 1)
     \<and> g_heap s' = (g_heap s)(g_brk s \<mapsto> new_Node (if gen_id then g_nextId s else 0) ty 0)"
proof -
  define nid where "nid = (if gen_id then g_nextId s else 0)"
  define n where "n = new_Node nid ty 0"
  define h where "h = (g_heap s)(g_brk s \<mapsto> n)"
  define s' where "s' = snd (create_clean_node ty gen_id s)"
  have wr: "wrap64 (g_nextId s + 1) = g_nextId s + 1"
    using wf room by (intro wrap64_id) (auto simp: wf_tdg_def ids_ok_def)
  have run: "create_clean_node ty gen_id s = (g_brk s, s')" "g_heap s' = h"
    "g_brk s' = Suc (g_brk s)" "g_graphNodes s' = map_set nid (g_brk s) (g_graphNodes s)"
    "g_nextId s' = g_nextId s + (if gen_id then 1 else 0)" "same_tool s s'"
    by (simp_all add: s'_def create_clean_node_def nextId_def alloc_node_def addNode_def Let_def
        h_def n_def nid_def wr same_tool_def)
  have fresh: "g_brk s \<notin> dom (g_heap s)" using wf by (auto simp: wf_tdg_def)
  then have free: "g_heap s (g_brk s) = None" by blast
  have nid_new: "node_ids (g_heap s) a \<noteq> Some nid" for a
    using fresh_id [OF wf root] by (simp add: nid_def)
  have idn: "node_ids (g_heap s) (g_brk s) = None" using free by (simp add: node_ids_def)
  have nedges: "n_exitEdges n = []" "n_entryEdges n = []" "n_id n = nid"
    by (simp_all add: n_def new_Node_def)
  have empty: "succs (g_heap s) (g_brk s) = []" "preds (g_heap s) (g_brk s) = []"
    using free by (simp_all add: succs_def preds_def)
  have su: "succs h u = succs (g_heap s) u" and pr: "preds h u = preds (g_heap s) u" for u
    by (auto simp: h_def nedges empty)
  have own: "own_heap h" unfolding h_def
    using wf by (intro own_heap_upd) (auto simp: wf_tdg_def wf_heap_def own_edges_def nedges)
  have "wf_heap h"
    using wf own unfolding wf_tdg_def wf_heap_def by (simp add: su pr) (simp add: h_def)
  moreover have "\<forall>a \<in> dom h. a < g_brk s'"
    using wf by (auto simp: h_def run(3) wf_tdg_def less_SucI)
  moreover have "ids_ok s'"
    using wf room unfolding wf_tdg_def ids_ok_ids run h_def
    by (auto simp: nedges nid_def intro: less_imp_le)
  moreover have "index_ok s'"
    using wf nid_new idn unfolding wf_tdg_def index_ok_ids run h_def
    by (auto simp: nedges map_of_map_set map_ok_map_set)
  ultimately have "wf_tdg s'" by (simp add: wf_tdg_def run)
  moreover have "edge_rel h = edge_rel (g_heap s)" by (simp add: edge_rel_def su)
  moreover have "nodes_evolve (g_heap s) h"
    using free by (simp add: nodes_evolve_def h_def)
  moreover have "fresh_flags n" by (simp add: n_def new_Node_def fresh_flags_def)
  moreover have "ty \<noteq> CHUNK_TASK \<longrightarrow> printable n" by (simp add: n_def new_Node_def printable_def)
  ultimately show ?thesis using run by (auto simp: grows_def grows0_def h_def n_def nid_def)
qed

lemma create_new_node_grows:
  assumes wf: "wf_tdg s" and room: "g_nextId s + 1 < 2 ^ 63" and p: "p \<in> dom (g_heap s)"
  shows "\<exists>s'. create_new_node ty (Some p) set_time s = Some (g_brk s, s')
     \<and> grows0 s s' {g_brk s} {(p, g_brk s)} 1
     \<and> (ty \<noteq> CHUNK_TASK \<longrightarrow> grows s s' {g_brk s} {(p, g_brk s)} 1)"
proof -
  obtain s1 where s1: "create_clean_node ty True s = (g_brk s, s1)" "grows0 s s1 {g_brk s} {} 1"
      "ty \<noteq> CHUNK_TASK \<longrightarrow> grows s s1 {g_brk s} {} 1"
    using create_clean_node_ok [OF wf room, of True ty] by auto
  then have d1: "wf_tdg s1" "p \<in> dom (g_heap s1)" "g_brk s \<in> dom (g_heap s1)"
    using p by (auto simp: grows0_def)
  obtain s2 where s2: "connect (Some p) (Some (g_brk s)) s1 = Some s2"
      "grows s1 s2 {} {(p, g_brk s)} 0"
    using connect_ok [OF d1] by blast
  have d2: "wf_tdg s2" "g_brk s \<in> dom (g_heap s2)" using s2(2) d1 by (auto simp: grows_def grows0_def)
  obtain s3 where s3: "(if set_time then set_time_now (Some (g_brk s)) s2 else Some s2) = Some s3"
      "grows s2 s3 {} {} 0"
    using timers_ok(2) [OF d2] grows_refl [OF d2(1)] by (cases set_time) auto
  have g: "grows s1 s3 {} {(p, g_brk s)} 0" using grows_trans [OF s2(2) s3(2)] by simp
  show ?thesis
    using s1 s2(1) s3(1) grows0_trans [OF s1(2) grows_weaken [OF g]] grows_trans [OF _ g, of s "{g_brk s}" "{}" 1]
    by (auto simp: create_new_node_def)
qed

lemma create_new_node_ok:
  assumes "wf_tdg s" and "g_nextId s + 1 < 2 ^ 63" and "p \<in> dom (g_heap s)" and "ty \<noteq> CHUNK_TASK"
  shows "\<exists>s'. create_new_node ty (Some p) set_time s = Some (g_brk s, s')
     \<and> grows s s' {g_brk s} {(p, g_brk s)} 1"
  using create_new_node_grows [OF assms(1-3)] assms(4) by blast

lemma create_root_ok:
  assumes wf: "wf_tdg s" and room: "g_nextId s + 1 < 2 ^ 63"
    and root: "\<forall>a n. g_heap s a = Some n \<longrightarrow> n_id n \<noteq> 0" and ty: "ty \<noteq> CHUNK_TASK"
  shows "\<exists>s'. create_new_node ty None set_time s = Some (g_brk s, s')
     \<and> grows s s' {g_brk s} {} 1"
proof -
  obtain s1 where s1: "create_clean_node ty False s = (g_brk s, s1)" "grows s s1 {g_brk s} {} 1"
    using create_clean_node_ok [OF wf room, of False ty] root ty by auto
  then have d1: "wf_tdg s1" "g_brk s \<in> dom (g_heap s1)" by (auto simp: grows_def grows0_def)
  obtain s3 where s3: "set_time_now (Some (g_brk s)) s1 = Some s3" "grows s1 s3 {} {} 0"
    using timers_ok(2) [OF d1] by blast
  show ?thesis
    using s1 s3 grows_trans [OF s1(2) s3(2)]
    by (cases set_time) (simp_all add: create_new_node_def)
qed

text \<open>Growth by edges into nodes that are new or have no exits keeps the graph acyclic.\<close>

lemma grows_fresh_acyclic:
  assumes "grows s s' V {(p, g_brk s)} k" and "wf_tdg s" and "acyclic (edge_rel (g_heap s))"
    and "p \<in> dom (g_heap s)"
  shows "acyclic (edge_rel (g_heap s'))"
proof -
  have fresh: "g_brk s \<notin> dom (g_heap s)" using assms(2) by (auto simp: wf_tdg_def)
  then have "(g_brk s, w) \<notin> edge_rel (g_heap s)" for w
    using wf_edge_dom assms(2) by (fastforce simp: wf_tdg_def)
  then have "(g_brk s, p) \<notin> (edge_rel (g_heap s))\<^sup>*"
    using rtrancl_dead_end fresh assms(4) by metis
  then show ?thesis using assms(1,3) by (simp add: grows_def grows0_def acyclic_insert_new)
qed

text \<open>The contents of a node but for its edge vectors.\<close>

definition payload :: "Node \<Rightarrow> Node" where
  "payload n = n\<lparr>n_entryEdges := [], n_exitEdges := []\<rparr>"

definition payload_at :: "tool \<Rightarrow> addr \<Rightarrow> Node option" where
  "payload_at s a = map_option payload (g_heap s a)"

lemma payload_at_fields [simp]:
  "payload_at (s\<lparr>t_clockCalls := x1\<rparr>) = payload_at s" "payload_at (s\<lparr>t_ws := x2\<rparr>) = payload_at s"
  by (simp_all add: payload_at_def fun_eq_iff)

definition on_payload :: "(Node \<Rightarrow> Node) \<Rightarrow> bool" where
  "on_payload f \<longleftrightarrow> (\<forall>n. payload (f n) = f (payload n))"

lemma on_payload_setters [node_frames]:
  "on_payload (addTime t)" "on_payload (setLastTime t)" "on_payload (setLowerUpper l u)"
  "on_payload (setLoopCounter c)" "on_payload (setThreadId i)" "on_payload (initPapiVals k)"
  by (simp_all add: on_payload_def payload_def addTime_def setLastTime_def setLowerUpper_def
      setLoopCounter_def setThreadId_def initPapiVals_def)

lemma payload_new_Node [simp]: "payload (new_Node i ty t) = new_Node i ty t"
  by (simp add: payload_def new_Node_def)

lemma node_upd_payload:
  assumes "node_upd (Some a) f s = Some s'" and "on_payload f"
  shows "payload_at s' = (payload_at s)(a := map_option f (payload_at s a))"
  using assms by (auto simp: node_upd_def upd_node_def payload_at_def on_payload_def fun_eq_iff
      split: bind_splits)

lemma upd_edges_payload:
  assumes "upd_node a f h = Some h'" and "\<And>n. payload (f n) = payload n"
  shows "map_option payload (h' b) = map_option payload (h b)"
  using assms by (auto simp: upd_node_def split: bind_splits)

lemma connect_payload:
  assumes "connect p q s = Some s'" shows "payload_at s' = payload_at s"
proof -
  obtain a b h where h: "connectNodes a b (g_heap s) = Some h" and s': "s' = s\<lparr>g_heap := h\<rparr>"
    using assms by (auto simp: connect_def split: bind_splits)
  have "map_option payload (h c) = map_option payload (g_heap s c)" for c
    using h unfolding connectNodes_def Let_def
    by (auto split: bind_splits if_splits dest!: upd_edges_payload [where b = c] simp: payload_def)
  then show ?thesis by (simp add: payload_at_def s' fun_eq_iff)
qed

section \<open>The callbacks\<close>

lemma wf_tdg_fields [simp]:
  "wf_tdg (s\<lparr>t_finalNode := x1\<rparr>) = wf_tdg s" "wf_tdg (s\<lparr>t_tasks := x2\<rparr>) = wf_tdg s"
  "wf_tdg (s\<lparr>t_ws := x3\<rparr>) = wf_tdg s" "wf_tdg (s\<lparr>t_pars := x4\<rparr>) = wf_tdg s"
  "wf_tdg (s\<lparr>t_threads := x5\<rparr>) = wf_tdg s" "wf_tdg (s\<lparr>t_brk := x6\<rparr>) = wf_tdg s"
  "wf_tdg (s\<lparr>t_taskPtr := x7\<rparr>) = wf_tdg s" "wf_tdg (s\<lparr>t_parPtr := x8\<rparr>) = wf_tdg s"
  by (simp_all add: wf_tdg_def ids_ok_def index_ok_def)

text \<open>A write to the tool's objects commutes with the growth of the graph.\<close>

lemma grows_fields:
  assumes "grows s s1 V E k"
  shows "grows (s\<lparr>t_finalNode := x1\<rparr>) (s1\<lparr>t_finalNode := x1\<rparr>) V E k"
    "grows (s\<lparr>t_tasks := x2\<rparr>) (s1\<lparr>t_tasks := x2\<rparr>) V E k"
    "grows (s\<lparr>t_ws := x3\<rparr>) (s1\<lparr>t_ws := x3\<rparr>) V E k"
    "grows (s\<lparr>t_pars := x4\<rparr>) (s1\<lparr>t_pars := x4\<rparr>) V E k"
    "grows (s\<lparr>t_threads := x5\<rparr>) (s1\<lparr>t_threads := x5\<rparr>) V E k"
    "grows (s\<lparr>t_brk := x6\<rparr>) (s1\<lparr>t_brk := x6\<rparr>) V E k"
    "grows (s\<lparr>t_taskPtr := x7\<rparr>) (s1\<lparr>t_taskPtr := x7\<rparr>) V E k"
    "grows (s\<lparr>t_parPtr := x8\<rparr>) (s1\<lparr>t_parPtr := x8\<rparr>) V E k"
  using assms by (simp_all add: grows_def grows0_def same_tool_def)

lemma grows0D:
  assumes "grows0 s s1 V E k"
  shows "wf_tdg s1" and "dom (g_heap s1) = dom (g_heap s) \<union> V" and "g_brk s1 = g_brk s + k"
    and "g_nextId s1 \<le> g_nextId s + int k" and "edge_rel (g_heap s1) = edge_rel (g_heap s) \<union> E"
    and "t_tasks s1 = t_tasks s" and "t_ws s1 = t_ws s" and "t_pars s1 = t_pars s"
    and "t_threads s1 = t_threads s" and "t_brk s1 = t_brk s" and "t_taskPtr s1 = t_taskPtr s"
    and "t_parPtr s1 = t_parPtr s" and "t_thrPtr s1 = t_thrPtr s" and "t_finalNode s1 = t_finalNode s"
    and "t_papiNumEvents s1 = t_papiNumEvents s"
  using assms by (simp_all add: grows0_def same_tool_def)

lemmas growsD = grows0D [OF grows_weaken]

lemma grows0_ws:
  "grows0 s s1 V E k \<Longrightarrow> grows0 (s\<lparr>t_ws := x3\<rparr>) (s1\<lparr>t_ws := x3\<rparr>) V E k"
  by (simp add: grows0_def same_tool_def)

text \<open>What the callbacks follow: a task's data and current node, a loop's nodes.\<close>

definition task_at :: "tool \<Rightarrow> nat \<Rightarrow> addr \<Rightarrow> TaskData \<Rightarrow> addr \<Rightarrow> bool" where
  "task_at s k a td c \<longleftrightarrow> t_taskPtr s k = Some a \<and> t_tasks s a = Some td
     \<and> td_curr_task_node td = Some c \<and> c \<in> dom (g_heap s)"

definition loop_at :: "tool \<Rightarrow> TaskData \<Rightarrow> addr \<Rightarrow> WorksharingData \<Rightarrow> addr \<Rightarrow> addr \<Rightarrow> bool" where
  "loop_at s td w ws st sk \<longleftrightarrow> td_curr_ws_data td = Some w \<and> t_ws s w = Some ws
     \<and> ws_start_node ws = Some st \<and> ws_sink_node ws = Some sk \<and> {st, sk} \<subseteq> dom (g_heap s)
     \<and> pred_option (\<lambda>c. c \<in> dom (g_heap s)) (ws_last_chunk_node ws)"

definition thread_at :: "tool \<Rightarrow> nat \<Rightarrow> addr \<Rightarrow> ThreadData \<Rightarrow> bool" where
  "thread_at s thr b th \<longleftrightarrow> t_thrPtr s thr = Some b \<and> t_threads s b = Some th"

lemma cb_parallel_begin_ok:
  assumes "wf_tdg s" and "g_nextId s + 1 < 2 ^ 63" and t: "task_at s k a td c"
  shows "\<exists>s'. cb_parallel_begin k p team s = Some s' \<and> grows (s\<lparr>
      t_pars := (t_pars s)(t_brk s \<mapsto> new_ParallelRegionData\<lparr>pr_parent_task_data := Some a,
                  pr_sink_node := Some (g_brk s), pr_team_size := team\<rparr>),
      t_brk := Suc (t_brk s), t_parPtr := (t_parPtr s)(p := Some (t_brk s))\<rparr>) s' {g_brk s} {} 1"
proof -
  obtain s1 where s1: "add_time_now (Some c) s = Some s1" "grows s s1 {} {} 0"
    using timers_ok(1) [of s c] assms by (auto simp: task_at_def)
  note d1 = growsD [OF s1(2)]
  obtain s2 where s2: "create_clean_node IMP_TASK True s1 = (g_brk s1, s2)" "grows s1 s2 {g_brk s1} {} 1"
    using create_clean_node_ok [OF d1(1), of True IMP_TASK] d1 assms(2) by auto
  have g: "grows s s2 {g_brk s} {} 1" using grows_trans [OF s1(2) s2(2)] d1 by simp
  note d2 = growsD [OF g]
  show ?thesis
    using t s1 s2(1) d1 d2 grows_fields [OF grows_fields(6) [OF grows_fields(4) [OF g]]]
    by (simp add: cb_parallel_begin_def task_at_def task_ref_def)
qed

lemma implicit_task_begin_ok:
  assumes "wf_tdg s" and "g_nextId s + 1 < 2 ^ 63"
    and "t_parPtr s p = Some q" and "t_pars s q = Some par" and "pr_parent_task_data par = Some a"
    and "t_tasks s a = Some td" and "td_curr_task_node td = Some c" and "c \<in> dom (g_heap s)"
  shows "\<exists>s'. implicit_task_begin p k tn s = Some s' \<and> grows (s\<lparr>
      t_tasks := (t_tasks s)(t_brk s \<mapsto> new_TaskData\<lparr>td_curr_task_node := Some (g_brk s),
                  td_sink_node := pr_sink_node par, td_threadNum := sint tn\<rparr>),
      t_brk := Suc (t_brk s), t_taskPtr := (t_taskPtr s)(k := Some (t_brk s))\<rparr>)
      s' {g_brk s} {(c, g_brk s)} 1"
proof -
  obtain s1 where s1: "create_new_node IMP_TASK (Some c) True s = Some (g_brk s, s1)"
      "grows s s1 {g_brk s} {(c, g_brk s)} 1"
    using create_new_node_ok [OF assms(1,2,8)] by blast
  note d1 = growsD [OF s1(2)]
  show ?thesis
    using assms s1(1) d1 grows_fields(7) [OF grows_fields(6) [OF grows_fields(2) [OF s1(2)]]]
    by (simp add: implicit_task_begin_def par_ref_def task_ref_def alloc_task_def)
qed

lemma cb_task_create_initial_ok:
  assumes "wf_tdg s" and "g_nextId s + 1 < 2 ^ 63" and "\<forall>a n. g_heap s a = Some n \<longrightarrow> n_id n \<noteq> 0"
  shows "\<exists>s'. cb_task_create parent k ompt_task_initial s = Some s' \<and> grows (s\<lparr>
      t_tasks := (t_tasks s)(t_brk s \<mapsto> new_TaskData\<lparr>td_curr_task_node := Some (g_brk s)\<rparr>),
      t_brk := Suc (t_brk s), t_taskPtr := (t_taskPtr s)(k := Some (t_brk s)),
      t_finalNode := Some (g_brk s)\<rparr>) s' {g_brk s} {} 1"
proof -
  obtain s1 where s1: "create_new_node ROOT_TASK None True s = Some (g_brk s, s1)"
      "grows s s1 {g_brk s} {} 1"
    using create_root_ok [OF assms] by blast
  note d1 = growsD [OF s1(2)]
  show ?thesis
    using s1(1) d1 grows_fields(1) [OF grows_fields(7) [OF grows_fields(6) [OF grows_fields(2) [OF s1(2)]]]]
    by (simp add: cb_task_create_def alloc_task_def)
qed

lemma cb_task_create_explicit_ok:
  assumes "wf_tdg s" and "g_nextId s + 1 < 2 ^ 63" and t: "task_at s p a td c"
  shows "\<exists>s'. cb_task_create (Some p) k ompt_task_explicit s = Some s' \<and> grows (s\<lparr>
      t_tasks := (t_tasks s)(t_brk s \<mapsto> new_TaskData\<lparr>td_curr_task_node := Some (g_brk s)\<rparr>),
      t_brk := Suc (t_brk s), t_taskPtr := (t_taskPtr s)(k := Some (t_brk s))\<rparr>)
      s' {g_brk s} {(c, g_brk s)} 1"
proof -
  obtain s1 where s1: "create_new_node EXP_TASK (Some c) True s = Some (g_brk s, s1)"
      "grows s s1 {g_brk s} {(c, g_brk s)} 1"
    using create_new_node_ok [OF assms(1,2), of c EXP_TASK True] t by (auto simp: task_at_def)
  note d1 = growsD [OF s1(2)]
  show ?thesis
    using t s1(1) d1 grows_fields(7) [OF grows_fields(6) [OF grows_fields(2) [OF s1(2)]]]
    by (simp add: cb_task_create_def alloc_task_def task_at_def)
qed

lemma cb_parallel_end_ok:
  assumes "wf_tdg s" and "t_parPtr s p = Some q" and "t_pars s q = Some par"
    and "pr_parent_task_data par = Some a" and "t_tasks s a = Some td"
    and "pr_sink_node par = Some sk" and "sk \<in> dom (g_heap s)"
  shows "\<exists>s'. cb_parallel_end p s = Some s' \<and> grows (s\<lparr>
      t_tasks := (t_tasks s)(a \<mapsto> td\<lparr>td_curr_task_node := Some sk\<rparr>), t_finalNode := Some sk,
      t_pars := (t_pars s)(q := None), t_parPtr := (t_parPtr s)(p := None)\<rparr>) s' {} {} 0"
proof -
  define s1 where "s1 = s\<lparr>t_tasks := (t_tasks s)(a \<mapsto> td\<lparr>td_curr_task_node := Some sk\<rparr>)\<rparr>"
  obtain s2 where s2: "set_time_now (Some sk) s1 = Some s2" "grows s1 s2 {} {} 0"
    using timers_ok(2) [of s1 sk] assms by (auto simp: s1_def)
  note d2 = growsD [OF s2(2)]
  show ?thesis
    using assms s2(1) d2 grows_fields(8) [OF grows_fields(4) [OF grows_fields(1) [OF s2(2)]]]
    by (simp add: cb_parallel_end_def task_ref_def task_set_def s1_def)
qed

lemma implicit_task_end_plain_ok:
  assumes "wf_tdg s" and t: "task_at s k a td c" and "td_curr_barrier_node td = None"
    and "td_sink_node td = Some sk" and "sk \<in> dom (g_heap s)"
  shows "\<exists>s'. implicit_task_end k tn s = Some s' \<and> grows (s\<lparr>
      t_tasks := (t_tasks s)(a := None), t_taskPtr := (t_taskPtr s)(k := None)\<rparr>) s' {} {(c, sk)} 0"
proof -
  obtain s1 where s1: "add_time_now (Some c) s = Some s1" "grows s s1 {} {} 0"
    using timers_ok(1) [of s c] assms by (auto simp: task_at_def)
  note d1 = growsD [OF s1(2)]
  obtain s2 where s2: "connect (Some c) (Some sk) s1 = Some s2" "grows s1 s2 {} {(c, sk)} 0"
    using connect_ok [OF d1(1), of c sk] assms d1(2) by (auto simp: task_at_def)
  have g: "grows s s2 {} {(c, sk)} 0" using grows_trans [OF s1(2) s2(2)] by simp
  note d2 = growsD [OF g]
  show ?thesis
    using assms s1(1) s2(1) d2 grows_fields(7) [OF grows_fields(2) [OF g]]
    by (simp add: implicit_task_end_def task_at_def)
qed

lemma cb_task_schedule_ok:
  assumes "wf_tdg s"
    and "\<And>a. t_taskPtr s k1 = Some a \<or> t_taskPtr s k2 = Some a \<Longrightarrow>
      \<exists>td c. t_tasks s a = Some td \<and> td_curr_task_node td = Some c \<and> c \<in> dom (g_heap s)"
  shows "\<exists>s'. cb_task_schedule k1 k2 s = Some s' \<and> grows s s' {} {} 0"
proof -
  have "\<exists>s1. (case t_taskPtr s k1 of None \<Rightarrow> Some s
      | Some a \<Rightarrow> do { td \<leftarrow> t_tasks s a; add_time_now (td_curr_task_node td) s }) = Some s1
      \<and> grows s s1 {} {} 0"
    using assms timers_ok(1) [OF assms(1)] grows_refl [OF assms(1)]
    by (cases "t_taskPtr s k1") fastforce+
  then obtain s1 where s1: "(case t_taskPtr s k1 of None \<Rightarrow> Some s
      | Some a \<Rightarrow> do { td \<leftarrow> t_tasks s a; add_time_now (td_curr_task_node td) s }) = Some s1"
      "grows s s1 {} {} 0" by blast
  note d1 = growsD [OF s1(2)]
  show ?thesis
  proof (cases "t_taskPtr s k2")
    case (Some a)
    then obtain td c where td: "t_tasks s a = Some td" "td_curr_task_node td = Some c" "c \<in> dom (g_heap s)"
      using assms(2) by blast
    then obtain s2 where s2: "set_time_now (Some c) s1 = Some s2" "grows s1 s2 {} {} 0"
      using timers_ok(2) [OF d1(1), of c] d1(2) by auto
    show ?thesis
      using s1(1) s2(1) td Some d1(6) grows_trans [OF s1(2) s2(2)] by (simp add: cb_task_schedule_def)
  qed (use s1 in \<open>simp add: cb_task_schedule_def\<close>)
qed

lemma barrier_first_ok:
  assumes "wf_tdg s" and "g_nextId s + 2 < 2 ^ 63" and t: "task_at s k a td c"
    and "pr_barrier_cnt par = 0"
  defines "B \<equiv> g_brk s" and "N \<equiv> Suc (g_brk s)"
  shows "\<exists>s'. barrier_begin (Some a) q par s = Some s' \<and> grows (s\<lparr>
      t_pars := (t_pars s)(q \<mapsto> par\<lparr>pr_barrier_cnt := 1, pr_curr_barrier_node := Some B\<rparr>),
      t_tasks := (t_tasks s)(a \<mapsto> td\<lparr>td_curr_barrier_node := Some B, td_curr_task_node := Some N\<rparr>)\<rparr>)
      s' {B, N} {(c, B), (B, N)} 2"
proof -
  let ?par = "par\<lparr>pr_barrier_cnt := 1, pr_curr_barrier_node := Some B\<rparr>"
  have c: "c \<in> dom (g_heap s)" and ta: "t_tasks s a = Some td" and tc: "td_curr_task_node td = Some c"
    using t by (auto simp: task_at_def)
  obtain s1 where s1: "add_time_now (Some c) s = Some s1" "grows s s1 {} {} 0"
    using timers_ok(1) [OF assms(1) c] by blast
  note d1 = growsD [OF s1(2)]
  obtain s2 where s2: "create_new_node BARRIER (Some c) True s1 = Some (B, s2)" "grows s1 s2 {B} {(c, B)} 1"
    using create_new_node_ok [OF d1(1), of c BARRIER True] d1 assms(2) c by (auto simp: B_def)
  have g2: "grows s s2 {B} {(c, B)} 1" using grows_trans [OF s1(2) s2(2)] by simp
  define s3 where "s3 = s2\<lparr>t_pars := (t_pars s)(q \<mapsto> ?par),
      t_tasks := (t_tasks s)(a \<mapsto> td\<lparr>td_curr_barrier_node := Some B\<rparr>)\<rparr>"
  note d2 = growsD [OF g2]
  have d3: "wf_tdg s3" "g_nextId s3 + 1 < 2 ^ 63" "B \<in> dom (g_heap s3)" "g_brk s3 = N"
    using d2 assms(2) by (simp_all add: s3_def N_def)
  obtain s4 where s4: "create_new_node IMP_TASK (Some B) True s3 = Some (N, s4)" "grows s3 s4 {N} {(B, N)} 1"
    using create_new_node_ok [OF d3(1-3), of IMP_TASK True] d3(4) by auto
  note d4 = growsD [OF s4(2)]
  define s5 where "s5 = s4\<lparr>t_tasks := (t_tasks s)(a \<mapsto>
      td\<lparr>td_curr_barrier_node := Some B, td_curr_task_node := Some N\<rparr>)\<rparr>"
  obtain s6 where s6: "connect (Some B) (Some N) s5 = Some s6" "grows s5 s6 {} {(B, N)} 0"
    using connect_ok [of s5 B N] d4 d3(3) by (auto simp: s5_def)
  have run: "barrier_begin (Some a) q par s = Some s6"
    using assms(4) ta tc s1(1) s2(1) s4(1) s6(1) d2 d4
    by (simp add: barrier_begin_def enter_barrier_def task_ref_def task_set_def s3_def s5_def)
  let ?s0 = "s\<lparr>t_pars := (t_pars s)(q \<mapsto> ?par),
      t_tasks := (t_tasks s)(a \<mapsto> td\<lparr>td_curr_barrier_node := Some B, td_curr_task_node := Some N\<rparr>)\<rparr>"
  have "grows ?s0 s6 ({B} \<union> {N} \<union> {}) ({(c, B)} \<union> {(B, N)} \<union> {(B, N)}) (1 + 1 + 0)"
  proof (rule grows_trans [OF grows_trans s6(2)])
    show "grows (s3\<lparr>t_tasks := (t_tasks s)(a \<mapsto> td\<lparr>td_curr_barrier_node := Some B,
        td_curr_task_node := Some N\<rparr>)\<rparr>) s5 {N} {(B, N)} 1"
      unfolding s5_def by (rule grows_fields(2) [OF s4(2)])
    show "grows ?s0 (s3\<lparr>t_tasks := (t_tasks s)(a \<mapsto> td\<lparr>td_curr_barrier_node := Some B,
        td_curr_task_node := Some N\<rparr>)\<rparr>) {B} {(c, B)} 1"
      unfolding s3_def using grows_fields(2) [OF grows_fields(4) [OF g2]] by simp
  qed
  then show ?thesis using run by (auto simp: insert_commute numeral_2_eq_2)
qed

lemma barrier_join_ok:
  assumes "wf_tdg s" and "g_nextId s + 1 < 2 ^ 63" and t: "task_at s k a td c"
    and "pr_barrier_cnt par \<noteq> 0" and "pr_curr_barrier_node par = Some B" and "B \<in> dom (g_heap s)"
  defines "N \<equiv> g_brk s"
    and "cnt \<equiv> (if pr_barrier_cnt par + 1 \<ge> pr_team_size par then 0 else pr_barrier_cnt par + 1)"
  shows "\<exists>s'. barrier_begin (Some a) q par s = Some s' \<and> grows (s\<lparr>
      t_pars := (t_pars s)(q \<mapsto> par\<lparr>pr_barrier_cnt := cnt\<rparr>),
      t_tasks := (t_tasks s)(a \<mapsto> td\<lparr>td_curr_barrier_node := Some B, td_curr_task_node := Some N\<rparr>)\<rparr>)
      s' {N} {(c, B), (B, N)} 1"
proof -
  have c: "c \<in> dom (g_heap s)" and ta: "t_tasks s a = Some td" and tc: "td_curr_task_node td = Some c"
    using t by (auto simp: task_at_def)
  obtain s1 where s1: "add_time_now (Some c) s = Some s1" "grows s s1 {} {} 0"
    using timers_ok(1) [OF assms(1) c] by blast
  note d1 = growsD [OF s1(2)]
  obtain s2 where s2: "connect (Some c) (Some B) s1 = Some s2" "grows s1 s2 {} {(c, B)} 0"
    using connect_ok [OF d1(1), of c B] d1(2) c assms(6) by auto
  have g2: "grows s s2 {} {(c, B)} 0" using grows_trans [OF s1(2) s2(2)] by simp
  define s3 where "s3 = s2\<lparr>t_pars := (t_pars s)(q \<mapsto> par\<lparr>pr_barrier_cnt := cnt\<rparr>),
      t_tasks := (t_tasks s)(a \<mapsto> td\<lparr>td_curr_barrier_node := Some B\<rparr>)\<rparr>"
  note d2 = growsD [OF g2]
  have d3: "wf_tdg s3" "g_nextId s3 + 1 < 2 ^ 63" "B \<in> dom (g_heap s3)" "g_brk s3 = N"
    using d2 assms(2,6) by (simp_all add: s3_def N_def)
  obtain s4 where s4: "create_new_node IMP_TASK (Some B) True s3 = Some (N, s4)" "grows s3 s4 {N} {(B, N)} 1"
    using create_new_node_ok [OF d3(1-3), of IMP_TASK True] d3(4) by auto
  note d4 = growsD [OF s4(2)]
  define s5 where "s5 = s4\<lparr>t_tasks := (t_tasks s)(a \<mapsto>
      td\<lparr>td_curr_barrier_node := Some B, td_curr_task_node := Some N\<rparr>)\<rparr>"
  have run: "barrier_begin (Some a) q par s = Some s5"
    using assms(4,5) ta tc s1(1) s2(1) s4(1) d2 d4
    by (simp add: barrier_begin_def enter_barrier_def task_ref_def task_set_def s3_def s5_def cnt_def Let_def)
  let ?s0 = "s\<lparr>t_pars := (t_pars s)(q \<mapsto> par\<lparr>pr_barrier_cnt := cnt\<rparr>),
      t_tasks := (t_tasks s)(a \<mapsto> td\<lparr>td_curr_barrier_node := Some B, td_curr_task_node := Some N\<rparr>)\<rparr>"
  have "grows ?s0 s5 ({} \<union> {N}) ({(c, B)} \<union> {(B, N)}) (0 + 1)"
  proof (rule grows_trans)
    show "grows (s3\<lparr>t_tasks := (t_tasks s)(a \<mapsto> td\<lparr>td_curr_barrier_node := Some B,
        td_curr_task_node := Some N\<rparr>)\<rparr>) s5 {N} {(B, N)} 1"
      unfolding s5_def by (rule grows_fields(2) [OF s4(2)])
    show "grows ?s0 (s3\<lparr>t_tasks := (t_tasks s)(a \<mapsto> td\<lparr>td_curr_barrier_node := Some B,
        td_curr_task_node := Some N\<rparr>)\<rparr>) {} {(c, B)} 0"
      unfolding s3_def using grows_fields(2) [OF grows_fields(4) [OF g2]] by simp
  qed
  then show ?thesis using run by (auto simp: insert_commute)
qed

lemma barrier_end_ok:
  assumes "wf_tdg s" and t: "task_at s k a td c"
  shows "\<exists>s'. do { td \<leftarrow> task_ref (t_taskPtr s k) s; set_time_now (td_curr_task_node td) s } = Some s'
    \<and> grows s s' {} {} 0"
  using timers_ok(2) [of s c] assms by (auto simp: task_at_def task_ref_def)

lemma loop_begin_ok:
  assumes "wf_tdg s" and "g_nextId s + 2 < 2 ^ 63" and t: "task_at s k a td c"
  defines "st \<equiv> g_brk s" and "sk \<equiv> Suc (g_brk s)"
  shows "\<exists>s'. loop_begin k lo up s = Some s' \<and> grows (s\<lparr>
      t_ws := (t_ws s)(t_brk s \<mapsto> new_WorksharingData\<lparr>ws_start_node := Some st, ws_sink_node := Some sk\<rparr>),
      t_brk := Suc (t_brk s),
      t_tasks := (t_tasks s)(a \<mapsto> td\<lparr>td_curr_ws_data := Some (t_brk s)\<rparr>)\<rparr>) s' {st, sk} {(c, st)} 2"
proof -
  have c: "c \<in> dom (g_heap s)" and tp: "t_taskPtr s k = Some a" and ta: "t_tasks s a = Some td"
    and tc: "td_curr_task_node td = Some c"
    using t by (auto simp: task_at_def)
  obtain s1 where s1: "add_time_now (Some c) s = Some s1" "grows s s1 {} {} 0"
    using timers_ok(1) [OF assms(1) c] by blast
  note d1 = growsD [OF s1(2)]
  obtain s2 where s2: "create_new_node WS_TASK (Some c) True s1 = Some (st, s2)" "grows s1 s2 {st} {(c, st)} 1"
    using create_new_node_ok [OF d1(1), of c WS_TASK True] d1 assms(2) c by (auto simp: st_def)
  note d2 = growsD [OF s2(2)]
  obtain s3 where s3: "node_upd (Some st) (setLowerUpper lo up) s2 = Some s3" "grows s2 s3 {} {} 0"
    using node_upd_ok [OF d2(1), of st "setLowerUpper lo up"] d2(2) node_frames by auto
  have g3: "grows s s3 {st} {(c, st)} 1" using grows_trans [OF s1(2) grows_trans [OF s2(2) s3(2)]] by simp
  note d3 = growsD [OF g3]
  obtain s4 where s4: "create_clean_node IMP_TASK True s3 = (sk, s4)" "grows s3 s4 {sk} {} 1"
    using create_clean_node_ok [OF d3(1), of True IMP_TASK] d3 assms(2) by (auto simp: sk_def)
  have g4: "grows s s4 {st, sk} {(c, st)} 2"
    using grows_trans [OF g3 s4(2)] by (simp add: insert_commute numeral_2_eq_2)
  note d4 = growsD [OF g4]
  show ?thesis
    using tp ta tc s1(1) s2(1) s3(1) s4(1) d4
      grows_fields(2) [OF grows_fields(6) [OF grows_fields(3) [OF g4]]]
    by (simp add: loop_begin_def task_ref_def task_set_def)
qed

lemma finish_chunk_ok:
  assumes "wf_tdg s" and "thread_at s thr b th" and "c \<in> dom (g_heap s)"
  shows "\<exists>s'. finish_chunk thr (Some c) s = Some s' \<and> grows s s' {} {} 0"
proof -
  obtain s1 where s1: "endPapiCounters (Some c) s = Some s1" "grows s s1 {} {} 0"
    using timers_ok(3) [OF assms(1,3)] by blast
  note d1 = growsD [OF s1(2)]
  obtain s2 where s2: "add_time_now (Some c) s1 = Some s2" "grows s1 s2 {} {} 0"
    using timers_ok(1) [OF d1(1), of c] d1(2) assms(3) by auto
  show ?thesis
    using assms(2) s1(1) s2(1) grows_trans [OF s1(2) s2(2)]
    by (simp add: finish_chunk_def thread_ref_def thread_at_def)
qed

lemma loop_end_ok:
  assumes wf: "wf_tdg s" and t: "task_at s k a td c" and l: "loop_at s td w ws st sk"
    and th: "thread_at s thr b th"
  shows "\<exists>s'. loop_end thr k s = Some s' \<and> grows (s\<lparr>
      t_ws := (t_ws s)(w := None),
      t_tasks := (t_tasks s)(a \<mapsto> td\<lparr>td_curr_task_node := Some sk, td_curr_ws_data := None\<rparr>),
      t_threads := (t_threads s)(b \<mapsto> th\<lparr>th_loopCounter := th_loopCounter th + 1\<rparr>)\<rparr>) s'
      {} (if ws_last_chunk_node ws = None then {(st, sk)} else {}) 0"
proof -
  let ?E = "if ws_last_chunk_node ws = None then {(st, sk)} else {}"
  have ld: "td_curr_ws_data td = Some w" "t_ws s w = Some ws" "ws_start_node ws = Some st"
    "ws_sink_node ws = Some sk" "st \<in> dom (g_heap s)" "sk \<in> dom (g_heap s)"
    and lc: "pred_option (\<lambda>c. c \<in> dom (g_heap s)) (ws_last_chunk_node ws)"
    using l by (auto simp: loop_at_def)
  have "\<exists>s1. (if ws_last_chunk_node ws \<noteq> None then finish_chunk thr (ws_last_chunk_node ws) s
           else do { s' \<leftarrow> add_time_now (ws_start_node ws) s;
             connect (ws_start_node ws) (ws_sink_node ws) s' }) = Some s1 \<and> grows s s1 {} ?E 0"
  proof (cases "ws_last_chunk_node ws")
    case None
    obtain s0 where s0: "add_time_now (Some st) s = Some s0" "grows s s0 {} {} 0"
      using timers_ok(1) [OF wf ld(5)] by blast
    note d0 = growsD [OF s0(2)]
    obtain s1 where s1: "connect (Some st) (Some sk) s0 = Some s1" "grows s0 s1 {} {(st, sk)} 0"
      using connect_ok [OF d0(1), of st sk] d0(2) ld(5,6) by auto
    show ?thesis using None ld s0(1) s1(1) grows_trans [OF s0(2) s1(2)] by simp
  next
    case (Some x)
    then show ?thesis using finish_chunk_ok [OF wf th, of x] lc by simp
  qed
  then obtain s1 where s1: "(if ws_last_chunk_node ws \<noteq> None then finish_chunk thr (ws_last_chunk_node ws) s
           else do { s' \<leftarrow> add_time_now (ws_start_node ws) s;
             connect (ws_start_node ws) (ws_sink_node ws) s' }) = Some s1" and g1: "grows s s1 {} ?E 0"
    by blast
  note d1 = growsD [OF g1]
  obtain s2 where s2: "set_time_now (Some sk) s1 = Some s2" "grows s1 s2 {} {} 0"
    using timers_ok(2) [OF d1(1), of sk] d1(2) ld(6) by auto
  have g2: "grows s s2 {} ?E 0" using grows_trans [OF g1 s2(2)] by simp
  note d2 = growsD [OF g2]
  show ?thesis
    using t th ld s1 s2(1) d2 grows_fields(5) [OF grows_fields(2) [OF grows_fields(3) [OF g2]]]
    by (simp add: loop_end_def task_at_def thread_at_def task_ref_def task_set_def del: not_None_eq)
qed

text \<open>A new chunk, with what it records.\<close>

lemma create_new_node_payload:
  assumes "create_new_node ty (Some p) True s = Some (b, s')"
  shows "payload_at s' = (payload_at s)(g_brk s \<mapsto>
    setLastTime (t_clock s (t_clockCalls s)) (new_Node (g_nextId s) ty 0))"
proof -
  obtain s1 where s1: "create_clean_node ty True s = (g_brk s, s1)"
      "g_heap s1 = (g_heap s)(g_brk s \<mapsto> new_Node (g_nextId s) ty 0)"
      "t_clock s1 = t_clock s" "t_clockCalls s1 = t_clockCalls s"
    by (simp add: create_clean_node_def nextId_def alloc_node_def addNode_def)
  obtain s2 where s2: "connect (Some p) (Some (g_brk s)) s1 = Some s2"
      "set_time_now (Some (g_brk s)) s2 = Some s'"
    using assms s1(1) by (auto simp: create_new_node_def split: bind_splits)
  have clk: "t_clock s2 = t_clock s" "t_clockCalls s2 = t_clockCalls s"
    using s2(1) s1(3,4) by (auto simp: connect_def split: bind_splits)
  have p1: "payload_at s1 = (payload_at s)(g_brk s \<mapsto> new_Node (g_nextId s) ty 0)"
    by (auto simp: payload_at_def s1(2) fun_eq_iff)
  have "node_upd (Some (g_brk s)) (setLastTime (t_clock s (t_clockCalls s)))
      (s2\<lparr>t_clockCalls := Suc (t_clockCalls s)\<rparr>) = Some s'"
    using s2(2) clk by (simp add: set_time_now_def ftimer_msec_def)
  from node_upd_payload [OF this] show ?thesis
    using connect_payload [OF s2(1)] p1 by (simp add: node_frames)
qed

definition chunk_record :: "tool \<Rightarrow> double \<Rightarrow> TaskData \<Rightarrow> ThreadData \<Rightarrow> int64 \<Rightarrow> int64 \<Rightarrow> Node" where
  "chunk_record s t td th lo up =
     initPapiVals (t_papiNumEvents s) (setThreadId (td_threadNum td)
       (setLoopCounter (th_loopCounter th) (setLowerUpper lo up
         (setLastTime t (new_Node (g_nextId s) CHUNK_TASK 0)))))"

lemma printable_payload: "printable (payload n) = printable n"
  by (simp add: printable_def payload_def)

lemma printable_chunk_record: "printable (chunk_record s t td th lo up)"
  by (simp add: printable_def chunk_record_def initPapiVals_def setThreadId_def setLoopCounter_def
      setLowerUpper_def setLastTime_def new_Node_def word_gt_0)

lemma new_chunk_ok:
  assumes wf: "wf_tdg s" and room: "g_nextId s + 1 < 2 ^ 63" and l: "loop_at s td w ws st sk"
    and th: "thread_at s thr b th"
  defines "C \<equiv> g_brk s"
  shows "\<exists>s'. new_chunk thr td lo up s = Some s'
    \<and> grows (s\<lparr>t_ws := (t_ws s)(w \<mapsto> ws\<lparr>ws_last_chunk_node := Some C\<rparr>)\<rparr>) s' {C} {(st, C), (C, sk)} 1
    \<and> payload_at s' = (payload_at s)(C \<mapsto> chunk_record s (t_clock s (t_clockCalls s)) td th lo up)"
proof -
  let ?u1 = "setLowerUpper lo up" and ?u2 = "setLoopCounter (th_loopCounter th)"
    and ?u3 = "setThreadId (td_threadNum td)" and ?u4 = "initPapiVals (t_papiNumEvents s)"
  have ld: "td_curr_ws_data td = Some w" "t_ws s w = Some ws" "ws_start_node ws = Some st"
    "ws_sink_node ws = Some sk" "st \<in> dom (g_heap s)" "sk \<in> dom (g_heap s)"
    using l by (auto simp: loop_at_def)
  obtain s1 where s1: "create_new_node CHUNK_TASK (Some st) True s = Some (C, s1)" "grows0 s s1 {C} {(st, C)} 1"
    using create_new_node_grows [OF wf room ld(5), of CHUNK_TASK True] by (auto simp: C_def)
  note d1 = grows0D [OF s1(2)]
  have C1: "C \<in> dom (g_heap s1)" using d1(2) by simp
  obtain s2 where s2: "node_upd (Some C) ?u1 s1 = Some s2" "grows s1 s2 {} {} 0"
    using node_upd_ok [OF d1(1) C1, of ?u1] node_frames by auto
  obtain s3 where s3: "node_upd (Some C) ?u2 s2 = Some s3" "grows s1 s3 {} {} 0"
    using node_upd_after [OF s2(2) C1, of ?u2] node_frames by auto
  obtain s4 where s4: "node_upd (Some C) ?u3 s3 = Some s4" "grows s1 s4 {} {} 0"
    using node_upd_after [OF s3(2) C1, of ?u3] node_frames by auto
  define s5 where "s5 = s4\<lparr>t_ws := (t_ws s)(w \<mapsto> ws\<lparr>ws_last_chunk_node := Some C\<rparr>)\<rparr>"
  have g4: "grows0 s s4 {C} {(st, C)} 1" using grows0_trans [OF s1(2) grows_weaken [OF s4(2)]] by simp
  have g5: "grows0 (s\<lparr>t_ws := (t_ws s)(w \<mapsto> ws\<lparr>ws_last_chunk_node := Some C\<rparr>)\<rparr>) s5 {C} {(st, C)} 1"
    unfolding s5_def by (rule grows0_ws [OF g4])
  note d4 = grows0D [OF g4] and d5 = grows0D [OF g5]
  obtain s6 where s6: "connect (Some C) (Some sk) s5 = Some s6" "grows s5 s6 {} {(C, sk)} 0"
    using connect_ok [OF d5(1), of C sk] d5(2) ld(6) by auto
  note d6 = growsD [OF s6(2)]
  obtain s7 where s7: "node_upd (Some C) ?u4 s6 = Some s7" "grows s6 s7 {} {} 0"
    using node_upd_ok [OF d6(1), of C ?u4] node_frames d6(2) d5(2) by auto
  have run: "new_chunk thr td lo up s = Some s7"
    using ld th s1(1) s2(1) s3(1) s4(1) s6(1) s7(1) d1 d4 d5(15) d6(15)
    by (simp add: new_chunk_def ws_ref_def ws_set_def thread_ref_def thread_at_def s5_def)
  have g7: "grows0 (s\<lparr>t_ws := (t_ws s)(w \<mapsto> ws\<lparr>ws_last_chunk_node := Some C\<rparr>)\<rparr>) s7
      {C} {(st, C), (C, sk)} 1"
    using grows0_trans [OF grows0_trans [OF g5 grows_weaken [OF s6(2)]] grows_weaken [OF s7(2)]]
    by (simp add: insert_commute)
  have pay: "payload_at s7 = (payload_at s)(C \<mapsto> chunk_record s (t_clock s (t_clockCalls s)) td th lo up)"
    using create_new_node_payload [OF s1(1)] connect_payload [OF s6(1)]
      node_upd_payload [OF s2(1)] node_upd_payload [OF s3(1)] node_upd_payload [OF s4(1)]
      node_upd_payload [OF s7(1)]
    by (simp add: node_frames chunk_record_def C_def s5_def)
  obtain n where n: "g_heap s7 C = Some n" using grows0D(2) [OF g7] by auto
  then have "payload n = chunk_record s (t_clock s (t_clockCalls s)) td th lo up"
    using fun_cong [OF pay, of C] by (simp add: payload_at_def)
  then have "printable n" using printable_chunk_record printable_payload by metis
  then show ?thesis using run g7 pay n by (auto simp: grows_def)
qed

lemma cb_ext_chunk_ok:
  assumes wf: "wf_tdg s" and room: "g_nextId s + 1 < 2 ^ 63" and t: "task_at s k a td c"
    and l: "loop_at s td w ws st sk" and th: "thread_at s thr b th"
  defines "C \<equiv> g_brk s"
  shows "\<exists>s' t. cb_ext_chunk thr k lo up False s = Some s'
    \<and> grows (s\<lparr>t_ws := (t_ws s)(w \<mapsto> ws\<lparr>ws_last_chunk_node := Some C\<rparr>)\<rparr>) s' {C} {(st, C), (C, sk)} 1
    \<and> payload_at s' C = Some (chunk_record s t td th lo up)"
    and "\<exists>s'. cb_ext_chunk thr k lo up True s = Some s' \<and> grows s s' {} {} 0"
proof -
  have ld: "td_curr_ws_data td = Some w" "t_ws s w = Some ws" "ws_start_node ws = Some st"
    "ws_sink_node ws = Some sk" "st \<in> dom (g_heap s)" "sk \<in> dom (g_heap s)"
    and lc: "pred_option (\<lambda>c. c \<in> dom (g_heap s)) (ws_last_chunk_node ws)"
    using l by (auto simp: loop_at_def)
  have "\<exists>s1. (if ws_last_chunk_node ws \<noteq> None
           then (if \<not> last_chunk then finish_chunk thr (ws_last_chunk_node ws) s else Some s)
           else add_time_now (ws_start_node ws) s) = Some s1 \<and> grows s s1 {} {} 0" for last_chunk
    using finish_chunk_ok [OF wf th] timers_ok(1) [OF wf ld(5)] grows_refl [OF wf] lc ld(3)
    by (cases "ws_last_chunk_node ws") auto
  then obtain f where f: "\<And>last_chunk. (if ws_last_chunk_node ws \<noteq> None
           then (if \<not> last_chunk then finish_chunk thr (ws_last_chunk_node ws) s else Some s)
           else add_time_now (ws_start_node ws) s) = Some (f last_chunk)"
      and gf: "\<And>last_chunk. grows s (f last_chunk) {} {} 0" by metis
  have pre: "t_taskPtr s k = Some a" "t_tasks s a = Some td" using t by (auto simp: task_at_def)
  show "\<exists>s'. cb_ext_chunk thr k lo up True s = Some s' \<and> grows s s' {} {} 0"
    using f [of True] gf [of True] pre ld
    by (simp add: cb_ext_chunk_def task_ref_def ws_ref_def del: not_None_eq)
  note d1 = growsD [OF gf [of False]]
  have l1: "loop_at (f False) td w ws st sk" and th1: "thread_at (f False) thr b th"
    using l th d1 by (auto simp: loop_at_def thread_at_def)
  obtain s' where s': "new_chunk thr td lo up (f False) = Some s'"
      and g: "grows ((f False)\<lparr>t_ws := (t_ws (f False))(w \<mapsto> ws\<lparr>ws_last_chunk_node := Some (g_brk (f False))\<rparr>)\<rparr>)
        s' {g_brk (f False)} {(st, g_brk (f False)), (g_brk (f False), sk)} 1"
      and p: "payload_at s' = (payload_at (f False))(g_brk (f False) \<mapsto>
        chunk_record (f False) (t_clock (f False) (t_clockCalls (f False))) td th lo up)"
    using new_chunk_ok [OF d1(1) _ l1 th1, of lo up] d1(4) room by auto
  have "cb_ext_chunk thr k lo up False s = Some s'"
    using f [of False] pre ld s' by (simp add: cb_ext_chunk_def task_ref_def ws_ref_def del: not_None_eq)
  moreover have "grows (s\<lparr>t_ws := (t_ws s)(w \<mapsto> ws\<lparr>ws_last_chunk_node := Some C\<rparr>)\<rparr>) s' {C} {(st, C), (C, sk)} 1"
    using grows_trans [OF grows_fields(3) [OF gf [of False]] g] d1 by (simp add: C_def)
  moreover have "g_nextId (f False) = g_nextId s" using gf [of False] by (simp add: grows_def grows0_def)
  ultimately show "\<exists>s' t. cb_ext_chunk thr k lo up False s = Some s'
    \<and> grows (s\<lparr>t_ws := (t_ws s)(w \<mapsto> ws\<lparr>ws_last_chunk_node := Some C\<rparr>)\<rparr>) s' {C} {(st, C), (C, sk)} 1
    \<and> payload_at s' C = Some (chunk_record s t td th lo up)"
    using p d1 by (auto simp: C_def chunk_record_def)
qed

text \<open>
  The end of an implicit task after a barrier takes the task's last node out of the graph again.
\<close>

lemma disconnectNodes_evolves:
  assumes "disconnectNodes u v h = Some h'" shows "nodes_evolve h h'"
proof -
  obtain h1 where h1: "upd_node u (\<lambda>n. n\<lparr>n_exitEdges := erase_first (\<lambda>e. getTarget e = v) (n_exitEdges n)\<rparr>) h = Some h1"
    "upd_node v (\<lambda>n. n\<lparr>n_entryEdges := erase_first (\<lambda>e. getSource e = u) (n_entryEdges n)\<rparr>) h1 = Some h'"
    using assms unfolding disconnectNodes_def by (auto split: bind_splits)
  have "dom h \<subseteq> dom h1" using h1(1) by (auto simp: upd_node_def split: bind_splits)
  with nodes_evolve_trans [OF upd_node_evolves [OF h1(1)] upd_node_evolves [OF h1(2)]] show ?thesis by simp
qed

lemma wf_heap_delete_isolated:
  assumes "wf_heap h" and "succs h c = []" and "preds h c = []"
  shows "wf_heap (h(c := None))" and "edge_rel (h(c := None)) = edge_rel h"
proof -
  have "c \<notin> set (succs h u)" "c \<notin> set (preds h u)" for u
    using wf_heapD(5) [OF assms(1), of c u] wf_heapD(5) [OF assms(1), of u c] assms(2,3) by simp_all
  then show "wf_heap (h(c := None))"
    using assms unfolding wf_heap_def own_heap_def by (auto split: if_splits)
  show "edge_rel (h(c := None)) = edge_rel h" using assms(2) by (auto simp: edge_rel_def split: if_splits)
qed

definition drops :: "tool \<Rightarrow> tool \<Rightarrow> addr \<Rightarrow> (addr \<times> addr) set \<Rightarrow> bool" where
  "drops s s' c E \<longleftrightarrow> same_tool s s' \<and> wf_tdg s' \<and> dom (g_heap s') = dom (g_heap s) - {c}
     \<and> edge_rel (g_heap s') = E \<and> g_brk s' = g_brk s \<and> g_nextId s' = g_nextId s
     \<and> nodes_evolve (g_heap s) (g_heap s')"

lemma index_ok_drop:
  assumes ok: "index_ok s" and c: "g_heap s c = Some n"
  shows "index_ok (s\<lparr>g_heap := (g_heap s)(c := None), g_graphNodes := map_erase (n_id n) (g_graphNodes s)\<rparr>)"
    (is "index_ok ?s")
proof -
  let ?h = "g_heap s"
  have mo: "map_ok (g_graphNodes s)"
    and ix: "\<And>i a. map_of (g_graphNodes s) i = Some a \<longleftrightarrow> node_ids ?h a = Some i"
    using ok by (auto simp: index_ok_ids)
  have idc: "node_ids ?h c = Some (n_id n)" using c by (simp add: node_ids_def)
  then have "map_of (g_graphNodes s) (n_id n) = Some c" using ix by simp
  then have uniq: "node_ids ?h a = Some (n_id n) \<Longrightarrow> a = c" for a using ix [of "n_id n" a] by simp
  have "map_of (g_graphNodes ?s) i = Some a \<longleftrightarrow> node_ids (g_heap ?s) a = Some i" for i a
  proof -
    have m2: "map_of (g_graphNodes ?s) i = (if i = n_id n then None else map_of (g_graphNodes s) i)"
      by (simp add: map_of_map_erase [OF mo])
    have n2: "node_ids (g_heap ?s) a = (if a = c then None else node_ids ?h a)" by simp
    show ?thesis
    proof (cases "i = n_id n")
      case True
      then show ?thesis unfolding m2 n2 using uniq [of a] by (cases "a = c") auto
    next
      case False
      then show ?thesis unfolding m2 n2 using ix [of i a] idc by simp
    qed
  qed
  then show ?thesis using mo by (simp add: index_ok_ids map_ok_map_erase del: node_ids_simps)
qed

lemma wf_tdg_drop:
  assumes wf: "wf_tdg s" and c: "g_heap s c = Some n" and iso: "succs (g_heap s) c = []" "preds (g_heap s) c = []"
  shows "wf_tdg (s\<lparr>g_heap := (g_heap s)(c := None), g_graphNodes := map_erase (n_id n) (g_graphNodes s)\<rparr>)"
    (is "wf_tdg ?s")
proof -
  have "wf_heap (g_heap ?s)" using wf wf_heap_delete_isolated(1) [OF _ iso] by (simp add: wf_tdg_def)
  moreover have "\<forall>a \<in> dom (g_heap ?s). a < g_brk ?s" using wf by (auto simp: wf_tdg_def)
  moreover have "ids_ok ?s" using wf by (simp add: wf_tdg_def ids_ok_ids)
  moreover have "index_ok ?s" using wf c by (intro index_ok_drop) (simp_all add: wf_tdg_def)
  ultimately show ?thesis by (simp add: wf_tdg_def)
qed

lemma drop_node_ok:
  assumes wf: "wf_tdg s" and B: "B \<in> dom (g_heap s)" and c: "c \<in> dom (g_heap s)"
    and "\<And>u. (u, c) \<in> edge_rel (g_heap s) \<Longrightarrow> u = B" and "\<And>v. (c, v) \<notin> edge_rel (g_heap s)"
  shows "\<exists>s1 n s2. disconnect (Some B) (Some c) s = Some s1 \<and> g_heap s1 c = Some n
    \<and> delete_node c (removeNode (n_id n) s1) = Some s2
    \<and> drops s s2 c (edge_rel (g_heap s) - {(B, c)})"
proof -
  have wfh: "wf_heap (g_heap s)" using wf by (simp add: wf_tdg_def)
  obtain h1 where h1: "disconnectNodes B c (g_heap s) = Some h1" "wf_heap h1" "dom h1 = dom (g_heap s)"
      "edge_rel h1 = edge_rel (g_heap s) - {(B, c)}"
    using hg.disconnect_ok [OF wfh B c] by blast
  define s1 where "s1 = s\<lparr>g_heap := h1\<rparr>"
  have wf1: "wf_tdg s1"
    unfolding s1_def using wf_tdg_heap [OF wf h1(2,3)] disconnectNodes_ids [OF h1(1)] by simp
  have "c \<in> dom h1" using h1(3) c by simp
  then obtain n where n: "h1 c = Some n" by blast
  have "(c, v) \<notin> edge_rel h1" "(u, c) \<notin> edge_rel h1" for u v
    using assms(4) [of u] assms(5) [of v] by (auto simp: h1(4))
  then have no: "v \<notin> set (succs h1 c)" "v \<notin> set (preds h1 c)" for v
    using wf_edge_preds [OF h1(2), of v c] by (simp_all add: edge_rel_iff)
  have iso: "succs h1 c = []" "preds h1 c = []"
    using no(1) [of "hd (succs h1 c)"] no(2) [of "hd (preds h1 c)"] hd_in_set by blast+
  define s2 where "s2 = s\<lparr>g_heap := h1(c := None), g_graphNodes := map_erase (n_id n) (g_graphNodes s)\<rparr>"
  have "wf_tdg s2" using wf_tdg_drop [OF wf1, of c n] n iso by (simp add: s1_def s2_def)
  moreover have "nodes_evolve (g_heap s) (h1(c := None))"
    using disconnectNodes_evolves [OF h1(1)] by (auto simp: nodes_evolve_def)
  ultimately have "drops s s2 c (edge_rel (g_heap s) - {(B, c)})"
    using h1(3,4) wf_heap_delete_isolated(2) [OF h1(2) iso] by (simp add: drops_def s2_def same_tool_def)
  moreover have "disconnect (Some B) (Some c) s = Some s1" using h1(1) by (simp add: disconnect_def s1_def)
  moreover have "delete_node c (removeNode (n_id n) s1) = Some s2"
    using n by (simp add: delete_node_def removeNode_def s1_def s2_def)
  moreover have "g_heap s1 c = Some n" using n by (simp add: s1_def)
  ultimately show ?thesis by blast
qed

lemma drops_fields:
  "drops s s1 c E \<Longrightarrow> drops (s\<lparr>t_tasks := x2\<rparr>) (s1\<lparr>t_tasks := x2\<rparr>) c E"
  "drops s s1 c E \<Longrightarrow> drops (s\<lparr>t_taskPtr := x7\<rparr>) (s1\<lparr>t_taskPtr := x7\<rparr>) c E"
  by (simp_all add: drops_def same_tool_def)

lemma drops_connect:
  assumes "drops s s1 c E" and "B \<in> dom (g_heap s) - {c}" and "sk \<in> dom (g_heap s) - {c}"
  shows "\<exists>s2. connect (Some B) (Some sk) s1 = Some s2 \<and> drops s s2 c (insert (B, sk) E)"
proof -
  have "wf_tdg s1" "B \<in> dom (g_heap s1)" "sk \<in> dom (g_heap s1)" using assms by (simp_all add: drops_def)
  then obtain s2 where s2: "connect (Some B) (Some sk) s1 = Some s2" "grows s1 s2 {} {(B, sk)} 0"
    using connect_ok by blast
  have "nodes_evolve (g_heap s) (g_heap s2)" 
    unfolding nodes_evolve_def
  proof (intro allI impI)
    fix a n n2 assume n: "g_heap s a = Some n" "g_heap s2 a = Some n2"
    then have "a \<in> dom (g_heap s1)" using s2(2) by (auto simp: grows_def grows0_def)
    then obtain n1 where n1: "g_heap s1 a = Some n1" by blast
    then have "evolves n n1" "evolves n1 n2"
      using n assms(1) s2(2) by (auto simp: drops_def grows_def grows0_def nodes_evolve_def)
    then show "evolves n n2" by (simp add: evolves_def)
  qed
  then show ?thesis using s2 assms(1) by (auto simp: drops_def grows_def grows0_def same_tool_def)
qed

lemma implicit_task_end_barrier_ok:
  assumes wf: "wf_tdg s" and t: "task_at s k a td c" and cb: "td_curr_barrier_node td = Some B"
    and B: "B \<in> dom (g_heap s)" "B \<noteq> c"
    and iso: "\<And>u. (u, c) \<in> edge_rel (g_heap s) \<Longrightarrow> u = B" "\<And>v. (c, v) \<notin> edge_rel (g_heap s)"
    and sk: "tn = 0 \<Longrightarrow> td_sink_node td = Some sk \<and> sk \<in> dom (g_heap s) - {c}"
  shows "\<exists>s'. implicit_task_end k tn s = Some s' \<and> drops (s\<lparr>
      t_tasks := (t_tasks s)(a := None), t_taskPtr := (t_taskPtr s)(k := None)\<rparr>) s' c
      (edge_rel (g_heap s) - {(B, c)} \<union> (if tn = 0 then {(B, sk)} else {}))"
proof -
  have tt: "t_taskPtr s k = Some a" "t_tasks s a = Some td" "td_curr_task_node td = Some c" "c \<in> dom (g_heap s)"
    using t by (auto simp: task_at_def)
  obtain s1 n s2 where s2: "disconnect (Some B) (Some c) s = Some s1" "g_heap s1 c = Some n"
    "delete_node c (removeNode (n_id n) s1) = Some s2" "drops s s2 c (edge_rel (g_heap s) - {(B, c)})"
    using drop_node_ok [OF wf B(1) tt(4) iso] by blast
  let ?E = "edge_rel (g_heap s) - {(B, c)} \<union> (if tn = 0 then {(B, sk)} else {})"
  have "\<exists>s3. (if tn = 0 then connect (Some B) (td_sink_node td) s2 else Some s2) = Some s3 \<and> drops s s3 c ?E"
    using s2(4) drops_connect [OF s2(4), of B sk] B sk by (cases "tn = 0") auto
  then obtain s3 where s3: "(if tn = 0 then connect (Some B) (td_sink_node td) s2 else Some s2) = Some s3"
      "drops s s3 c ?E" by blast
  have "implicit_task_end k tn s = Some (s3\<lparr>t_tasks := (t_tasks s3)(a := None), t_taskPtr := (t_taskPtr s3)(k := None)\<rparr>)"
    using tt cb s2(1-3) s3(1) by (cases "tn = 0") (simp_all add: implicit_task_end_def)
  moreover have "t_tasks s3 = t_tasks s" "t_taskPtr s3 = t_taskPtr s" using s3(2) by (simp_all add: drops_def same_tool_def)
  ultimately show ?thesis using drops_fields(2) [OF drops_fields(1) [OF s3(2)]] by simp
qed

section \<open>Properties\<close>

text \<open>
  A tool state for examples: the root (node 0) is the current node of task 0, which is in a
  worksharing loop from node 1 to node 2; task 1 is at node 3; region 0 was begun for three
  threads, with sink 4; thread 0 is alive.
\<close>

definition sample_tool :: tool where
  "sample_tool = \<lparr>g_heap = [
       0 \<mapsto> (new_Node 0 ROOT_TASK 0)\<lparr>n_exitEdges := [new_Edge 0 1]\<rparr>,
       1 \<mapsto> (new_Node 1 WS_TASK 0)\<lparr>n_entryEdges := [new_Edge 0 1]\<rparr>,
       2 \<mapsto> new_Node 2 IMP_TASK 0, 3 \<mapsto> new_Node 3 IMP_TASK 0, 4 \<mapsto> new_Node 4 IMP_TASK 0],
     g_brk = 5, g_nextId = 5, g_graphNodes = [(0, 0), (1, 1), (2, 2), (3, 3), (4, 4)],
     t_finalNode = Some 0,
     t_tasks = [0 \<mapsto> new_TaskData\<lparr>td_curr_task_node := Some 0, td_curr_ws_data := Some 2, td_threadNum := 5\<rparr>,
                1 \<mapsto> new_TaskData\<lparr>td_curr_task_node := Some 3, td_sink_node := Some 4\<rparr>],
     t_ws = [2 \<mapsto> new_WorksharingData\<lparr>ws_start_node := Some 1, ws_sink_node := Some 2\<rparr>],
     t_pars = [3 \<mapsto> new_ParallelRegionData\<lparr>pr_parent_task_data := Some 0, pr_sink_node := Some 4, pr_team_size := 3\<rparr>],
     t_threads = [4 \<mapsto> \<lparr>th_loopCounter = 9, th_papiEventset = 0\<rparr>], t_brk = 5,
     t_taskPtr = (\<lambda>_. None)(0 := Some 0, 1 := Some 1), t_parPtr = (\<lambda>_. None)(0 := Some 3),
     t_thrPtr = (\<lambda>_. None)(0 := Some 4), t_clock = real, t_clockCalls = 0, t_papi = (\<lambda>_. None),
     t_papiCalls = 0, t_papiNumEvents = 0, t_papiEvents = []\<rparr>"

lemma sample_tool_succs:
  "succs (g_heap sample_tool) u = (if u = 0 then [1] else [])"
  "preds (g_heap sample_tool) u = (if u = 1 then [0] else [])"
  by (auto simp: sample_tool_def succs_def preds_def new_Node_def new_Edge_def)

lemma sample_tool_dom: "dom (g_heap sample_tool) = {0, 1, 2, 3, 4}"
  by (auto simp: sample_tool_def)

lemma sample_tool_edges: "edge_rel (g_heap sample_tool) = {(0, 1)}"
  by (auto simp: edge_rel_def sample_tool_succs)

lemma wf_sample_tool: "wf_tdg sample_tool"
proof -
  have "own_heap (g_heap sample_tool)"
    by (auto simp: own_heap_def own_edges_def sample_tool_def new_Node_def new_Edge_def split: if_splits)
  then have "wf_heap (g_heap sample_tool)" by (auto simp: wf_heap_def sample_tool_dom sample_tool_succs)
  moreover have "ids_ok sample_tool" "index_ok sample_tool"
    by (auto simp: ids_ok_def index_ok_def sample_tool_def map_ok_def new_Node_def split: if_splits)
  moreover have "g_brk sample_tool = 5" by (simp add: sample_tool_def)
  ultimately show ?thesis by (auto simp: wf_tdg_def sample_tool_dom)
qed

lemma sample_tool_sel:
  "g_brk sample_tool = 5" "g_nextId sample_tool = 5"
  "t_parPtr sample_tool 0 = Some 3" "t_taskPtr sample_tool 2 = None"
  "t_pars sample_tool 3 = Some (new_ParallelRegionData\<lparr>pr_parent_task_data := Some 0, pr_sink_node := Some 4, pr_team_size := 3\<rparr>)"
  by (simp_all add: sample_tool_def)

lemma sample_tool_at:
  "task_at sample_tool 0 0 (new_TaskData\<lparr>td_curr_task_node := Some 0, td_curr_ws_data := Some 2, td_threadNum := 5\<rparr>) 0"
  "task_at sample_tool 1 1 (new_TaskData\<lparr>td_curr_task_node := Some 3, td_sink_node := Some 4\<rparr>) 3"
  "loop_at sample_tool (new_TaskData\<lparr>td_curr_task_node := Some 0, td_curr_ws_data := Some 2, td_threadNum := 5\<rparr>) 2
     (new_WorksharingData\<lparr>ws_start_node := Some 1, ws_sink_node := Some 2\<rparr>) 1 2"
  "thread_at sample_tool 0 4 \<lparr>th_loopCounter = 9, th_papiEventset = 0\<rparr>"
  by (auto simp: task_at_def loop_at_def thread_at_def sample_tool_def new_TaskData_def new_WorksharingData_def)

text \<open>
  \<open>create_new_node\<close> with a parent returns a node that was not allocated before, with an
  identifier no node of the graph has, entered in the index, and with a single new edge, from the
  parent; the graph stays well-formed, and acyclic if it was.
\<close>

theorem create_new_node_extends_graph:
  assumes "wf_tdg s" and "g_nextId s + 1 < 2 ^ 63" and "p \<in> dom (g_heap s)" and "ty \<noteq> CHUNK_TASK"
    and "acyclic (edge_rel (g_heap s))"
  shows "\<exists>a s'. create_new_node ty (Some p) set_time s = Some (a, s') \<and> a \<notin> dom (g_heap s)
    \<and> dom (g_heap s') = insert a (dom (g_heap s)) \<and> edge_rel (g_heap s') = insert (p, a) (edge_rel (g_heap s))
    \<and> wf_tdg s' \<and> acyclic (edge_rel (g_heap s'))"
proof -
  obtain s' where s': "create_new_node ty (Some p) set_time s = Some (g_brk s, s')"
      and g: "grows s s' {g_brk s} {(p, g_brk s)} 1"
    using create_new_node_ok [OF assms(1-4)] by blast
  have "g_brk s \<notin> dom (g_heap s)" using assms(1) by (auto simp: wf_tdg_def)
  then show ?thesis
    using s' growsD [OF g] grows_fresh_acyclic [OF g assms(1,5,3)] by (intro exI [of _ "g_brk s"] exI [of _ s']) simp
qed

theorem create_new_node_extends_graph_witness:
  "\<exists>a s'. create_new_node EXP_TASK (Some 3) True sample_tool = Some (a, s') \<and> wf_tdg s'
    \<and> edge_rel (g_heap s') = {(3, a), (0, 1)}"
proof -
  have "acyclic (edge_rel (g_heap sample_tool))"
    by (rule acyclicI_order [where f = "\<lambda>x. - int x"]) (auto simp: sample_tool_edges)
  from create_new_node_extends_graph [OF wf_sample_tool _ _ _ this, of 3 EXP_TASK True]
  show ?thesis by (auto simp: sample_tool_sel sample_tool_dom sample_tool_edges)
qed

text \<open>
  C28. \<open>cb_ext_chunk\<close> for a chunk that is not the last signal adds one chunk node between the start
  and the sink of the loop, and nothing else; the node records the bounds it is given, the loop
  counter of the thread and the thread number of the task, under a fresh identifier.
\<close>

theorem chunk_is_recorded:
  assumes "wf_tdg s" and "g_nextId s + 1 < 2 ^ 63" and "task_at s k a td c" and "loop_at s td w ws st sk"
    and "thread_at s thr b th"
  shows "\<exists>s' n. cb_ext_chunk thr k lo up False s = Some s' \<and> wf_tdg s'
    \<and> dom (g_heap s') = insert (g_brk s) (dom (g_heap s))
    \<and> edge_rel (g_heap s') = edge_rel (g_heap s) \<union> {(st, g_brk s), (g_brk s, sk)}
    \<and> g_heap s' (g_brk s) = Some n \<and> n_type n = CHUNK_TASK \<and> n_id n = g_nextId s
    \<and> n_lower n = lo \<and> n_upper n = up \<and> n_loopCounter n = Some (th_loopCounter th)
    \<and> n_threadId n = Some (td_threadNum td)"
proof -
  obtain s' t where run: "cb_ext_chunk thr k lo up False s = Some s'"
      and g: "grows (s\<lparr>t_ws := (t_ws s)(w \<mapsto> ws\<lparr>ws_last_chunk_node := Some (g_brk s)\<rparr>)\<rparr>) s'
        {g_brk s} {(st, g_brk s), (g_brk s, sk)} 1"
      and p: "payload_at s' (g_brk s) = Some (chunk_record s t td th lo up)"
    using cb_ext_chunk_ok(1) [OF assms] by blast
  obtain n where n: "g_heap s' (g_brk s) = Some n" "payload n = chunk_record s t td th lo up"
    using p by (auto simp: payload_at_def)
  have eq: "n_type n = n_type (payload n)" "n_id n = n_id (payload n)" "n_lower n = n_lower (payload n)"
    "n_upper n = n_upper (payload n)" "n_loopCounter n = n_loopCounter (payload n)" "n_threadId n = n_threadId (payload n)"
    by (simp_all add: payload_def)
  have "n_type n = CHUNK_TASK" "n_id n = g_nextId s" "n_lower n = lo" "n_upper n = up"
    "n_loopCounter n = Some (th_loopCounter th)" "n_threadId n = Some (td_threadNum td)"
    unfolding eq n(2)
    by (simp_all add: chunk_record_def initPapiVals_def setThreadId_def setLoopCounter_def setLowerUpper_def
        setLastTime_def new_Node_def)
  then show ?thesis using run growsD [OF g] n(1) by (intro exI [of _ s'] exI [of _ n]) simp
qed

theorem chunk_is_recorded_witness:
  "\<exists>s' n. cb_ext_chunk 0 0 10 20 False sample_tool = Some s' \<and> g_heap s' 5 = Some n
    \<and> n_lower n = 10 \<and> n_upper n = 20 \<and> n_loopCounter n = Some 9 \<and> n_threadId n = Some 5
    \<and> edge_rel (g_heap s') = {(0, 1), (1, 5), (5, 2)}"
proof -
  have "g_nextId sample_tool + 1 < 2 ^ 63" by (simp add: sample_tool_sel)
  from chunk_is_recorded [OF wf_sample_tool this sample_tool_at(1,3,4), of 10 20] show ?thesis
    by (auto simp: sample_tool_sel sample_tool_edges insert_commute)
qed

text \<open>
  A loop in which a thread gets no chunk: after the callbacks for its begin and its end the
  loop's start leads straight to its sink, the start follows the task's node, the sink is the
  task's current node, the task is in no loop, and the thread's loop counter has gone up by one.
\<close>

theorem loop_without_chunks:
  assumes "wf_tdg s" and "g_nextId s + 2 < 2 ^ 63" and t: "task_at s k a td c" and th: "thread_at s thr b th"
  defines "st \<equiv> g_brk s" and "sk \<equiv> Suc (g_brk s)"
  shows "\<exists>s1 s2. cb_ext_loop ompt_scope_begin thr k lo up s = Some s1
    \<and> cb_ext_loop ompt_scope_end thr k lo up s1 = Some s2 \<and> wf_tdg s2
    \<and> dom (g_heap s2) = dom (g_heap s) \<union> {st, sk}
    \<and> edge_rel (g_heap s2) = edge_rel (g_heap s) \<union> {(c, st), (st, sk)}
    \<and> task_at s2 k a (td\<lparr>td_curr_task_node := Some sk, td_curr_ws_data := None\<rparr>) sk
    \<and> thread_at s2 thr b (th\<lparr>th_loopCounter := th_loopCounter th + 1\<rparr>)"
proof -
  let ?ws = "new_WorksharingData\<lparr>ws_start_node := Some st, ws_sink_node := Some sk\<rparr>"
  let ?td = "td\<lparr>td_curr_ws_data := Some (t_brk s)\<rparr>"
  obtain s1 where run1: "loop_begin k lo up s = Some s1" and g1: "grows (s\<lparr>
      t_ws := (t_ws s)(t_brk s \<mapsto> ?ws), t_brk := Suc (t_brk s), t_tasks := (t_tasks s)(a \<mapsto> ?td)\<rparr>) s1 {st, sk} {(c, st)} 2"
    using loop_begin_ok [OF assms(1-3)] unfolding st_def sk_def by blast
  note d1 = growsD [OF g1]
  have t1: "task_at s1 k a ?td c" using t d1 by (simp add: task_at_def)
  have l1: "loop_at s1 ?td (t_brk s) ?ws st sk" using d1 by (simp add: loop_at_def new_WorksharingData_def)
  have th1: "thread_at s1 thr b th" using th d1 by (simp add: thread_at_def)
  obtain s2 where run2: "loop_end thr k s1 = Some s2" and g2: "grows (s1\<lparr>t_ws := (t_ws s1)(t_brk s := None),
      t_tasks := (t_tasks s1)(a \<mapsto> ?td\<lparr>td_curr_task_node := Some sk, td_curr_ws_data := None\<rparr>),
      t_threads := (t_threads s1)(b \<mapsto> th\<lparr>th_loopCounter := th_loopCounter th + 1\<rparr>)\<rparr>) s2 {} {(st, sk)} 0"
    using loop_end_ok [OF d1(1) t1 l1 th1] by (auto simp: new_WorksharingData_def)
  note d2 = growsD [OF g2]
  have "task_at s2 k a (td\<lparr>td_curr_task_node := Some sk, td_curr_ws_data := None\<rparr>) sk"
    using t1 d2 d1(2) by (cases td) (simp add: task_at_def)
  moreover have "thread_at s2 thr b (th\<lparr>th_loopCounter := th_loopCounter th + 1\<rparr>)"
    using th1 d2 by (simp add: thread_at_def)
  ultimately show ?thesis
    using run1 run2 d1 d2 by (intro exI [of _ s1] exI [of _ s2]) (simp add: cb_ext_loop_def Un_commute)
qed

theorem loop_without_chunks_witness:
  "\<exists>s1 s2. cb_ext_loop ompt_scope_begin 0 1 0 7 sample_tool = Some s1
    \<and> cb_ext_loop ompt_scope_end 0 1 0 7 s1 = Some s2 \<and> edge_rel (g_heap s2) = {(0, 1), (3, 5), (5, 6)}"
proof -
  have "g_nextId sample_tool + 2 < 2 ^ 63" by (simp add: sample_tool_sel)
  from loop_without_chunks [OF wf_sample_tool this sample_tool_at(2,4), of 0 7] show ?thesis
    by (auto simp: sample_tool_sel sample_tool_edges insert_commute)
qed

text \<open>
  Arriving at a barrier of a team of several threads: the callback returns; the first thread to
  arrive creates the barrier node, every other one joins the node of the first; in both cases the
  task's node leads to the barrier, the barrier to a new node, and that is where the task
  continues.  The count goes up by one and back to 0 when it reaches the size of the team.
\<close>

theorem barrier_arrival:
  assumes "wf_tdg s" and "g_nextId s + 2 < 2 ^ 63" and t: "task_at s k a td c"
    and q: "t_parPtr s r = Some q" "t_pars s q = Some par" and team: "1 < pr_team_size par"
    and bar: "pr_barrier_cnt par \<noteq> 0 \<Longrightarrow> pr_curr_barrier_node par = Some B' \<and> B' \<in> dom (g_heap s)"
  defines "B \<equiv> if pr_barrier_cnt par = 0 then g_brk s else B'"
    and "N \<equiv> if pr_barrier_cnt par = 0 then Suc (g_brk s) else g_brk s"
  shows "\<exists>s' par'. cb_sync_region ompt_sync_region_barrier ompt_scope_begin (Some r) k s = Some s' \<and> wf_tdg s'
    \<and> dom (g_heap s') = dom (g_heap s) \<union> {B, N} \<and> edge_rel (g_heap s') = edge_rel (g_heap s) \<union> {(c, B), (B, N)}
    \<and> task_at s' k a (td\<lparr>td_curr_barrier_node := Some B, td_curr_task_node := Some N\<rparr>) N
    \<and> t_pars s' q = Some par' \<and> pr_curr_barrier_node par' = Some B
    \<and> pr_barrier_cnt par' = (if pr_barrier_cnt par + 1 \<ge> pr_team_size par then 0 else pr_barrier_cnt par + 1)"
proof -
  have run: "cb_sync_region ompt_sync_region_barrier ompt_scope_begin (Some r) k s = barrier_begin (Some a) q par s"
    using t q team by (simp add: cb_sync_region_def task_at_def)
  show ?thesis
  proof (cases "pr_barrier_cnt par = 0")
    case True
    then obtain s' where s': "barrier_begin (Some a) q par s = Some s'" and g: "grows (s\<lparr>
        t_pars := (t_pars s)(q \<mapsto> par\<lparr>pr_barrier_cnt := 1, pr_curr_barrier_node := Some B\<rparr>),
        t_tasks := (t_tasks s)(a \<mapsto> td\<lparr>td_curr_barrier_node := Some B, td_curr_task_node := Some N\<rparr>)\<rparr>)
        s' {B, N} {(c, B), (B, N)} 2"
      using barrier_first_ok [OF assms(1,2) t True] by (auto simp: B_def N_def)
    note d = growsD [OF g]
    show ?thesis
      using run s' d t True team
      by (intro exI [of _ s'] exI [of _ "par\<lparr>pr_barrier_cnt := 1, pr_curr_barrier_node := Some B\<rparr>"])
        (simp add: task_at_def)
  next
    case False
    have n1: "g_nextId s + 1 < 2 ^ 63" using assms(2) by simp
    have b: "pr_curr_barrier_node par = Some B" "B \<in> dom (g_heap s)" using bar [OF False] False by (simp_all add: B_def)
    obtain s' where s': "barrier_begin (Some a) q par s = Some s'" and g: "grows (s\<lparr>
        t_pars := (t_pars s)(q \<mapsto> par\<lparr>pr_barrier_cnt :=
          (if pr_barrier_cnt par + 1 \<ge> pr_team_size par then 0 else pr_barrier_cnt par + 1)\<rparr>),
        t_tasks := (t_tasks s)(a \<mapsto> td\<lparr>td_curr_barrier_node := Some B, td_curr_task_node := Some N\<rparr>)\<rparr>)
        s' {N} {(c, B), (B, N)} 1"
      using barrier_join_ok [OF assms(1) n1 t False b] False by (auto simp: N_def)
    note d = growsD [OF g]
    show ?thesis
      using run s' d t b
      by (intro exI [of _ s'] exI [of _ "par\<lparr>pr_barrier_cnt :=
          (if pr_barrier_cnt par + 1 \<ge> pr_team_size par then 0 else pr_barrier_cnt par + 1)\<rparr>"])
        (auto simp: task_at_def)
  qed
qed

theorem barrier_arrival_witness:
  "\<exists>s'. cb_sync_region ompt_sync_region_barrier ompt_scope_begin (Some 0) 1 sample_tool = Some s'
    \<and> edge_rel (g_heap s') = {(0, 1), (3, 5), (5, 6)}"
proof -
  have n: "g_nextId sample_tool + 2 < 2 ^ 63" by (simp add: sample_tool_sel)
  show ?thesis
    using barrier_arrival [OF wf_sample_tool n sample_tool_at(2) sample_tool_sel(3,5), where B' = 0]
    by (auto simp: sample_tool_sel sample_tool_edges new_ParallelRegionData_def insert_commute)
qed

text \<open>
  The end of an implicit task whose last event was a barrier takes the task's empty last node
  out of the graph and the index, frees it, and forgets the task; only the master thread (number 0)
  links the barrier to the sink of the region.  The graph stays well-formed.
\<close>

theorem implicit_task_end_drops_node:
  assumes "wf_tdg s" and "task_at s k a td c" and "td_curr_barrier_node td = Some B"
    and "B \<in> dom (g_heap s)" and "B \<noteq> c"
    and "\<forall>u. (u, c) \<in> edge_rel (g_heap s) \<longrightarrow> u = B" and "\<forall>v. (c, v) \<notin> edge_rel (g_heap s)"
    and "tn = 0 \<longrightarrow> td_sink_node td = Some sk \<and> sk \<in> dom (g_heap s) - {c}"
  shows "\<exists>s'. cb_implicit_task ompt_scope_end r k team tn s = Some s' \<and> wf_tdg s' \<and> t_taskPtr s' k = None
    \<and> t_tasks s' a = None \<and> dom (g_heap s') = dom (g_heap s) - {c}
    \<and> edge_rel (g_heap s') = edge_rel (g_heap s) - {(B, c)} \<union> (if tn = 0 then {(B, sk)} else {})"
proof -
  obtain s' where "implicit_task_end k tn s = Some s'" and d: "drops (s\<lparr>
      t_tasks := (t_tasks s)(a := None), t_taskPtr := (t_taskPtr s)(k := None)\<rparr>) s' c
      (edge_rel (g_heap s) - {(B, c)} \<union> (if tn = 0 then {(B, sk)} else {}))"
    using implicit_task_end_barrier_ok [OF assms(1-5), of tn sk] assms(6-8) by blast
  then show ?thesis by (intro exI [of _ s']) (simp add: cb_implicit_task_def drops_def same_tool_def)
qed

lemma sample_after_barrier:
  obtains s' td where "cb_sync_region ompt_sync_region_barrier ompt_scope_begin (Some 0) 1 sample_tool = Some s'"
    and "wf_tdg s'" and "dom (g_heap s') = {0, 1, 2, 3, 4, 5, 6}" and "edge_rel (g_heap s') = {(0, 1), (3, 5), (5, 6)}"
    and "task_at s' 1 1 td 6" and "td_curr_barrier_node td = Some 5" and "td_sink_node td = Some 4"
proof -
  have n: "g_nextId sample_tool + 2 < 2 ^ 63" by (simp add: sample_tool_sel)
  have c: "pr_barrier_cnt (new_ParallelRegionData\<lparr>pr_parent_task_data := Some 0, pr_sink_node := Some 4, pr_team_size := 3\<rparr>) = 0"
    by (simp add: new_ParallelRegionData_def)
  obtain s' where s': "barrier_begin (Some 1) 3 (new_ParallelRegionData\<lparr>pr_parent_task_data := Some 0,
        pr_sink_node := Some 4, pr_team_size := 3\<rparr>) sample_tool = Some s'"
      and g: "grows (sample_tool\<lparr>
        t_pars := (t_pars sample_tool)(3 \<mapsto> new_ParallelRegionData\<lparr>pr_parent_task_data := Some 0,
          pr_sink_node := Some 4, pr_team_size := 3, pr_barrier_cnt := 1, pr_curr_barrier_node := Some 5\<rparr>),
        t_tasks := (t_tasks sample_tool)(1 \<mapsto> new_TaskData\<lparr>td_curr_task_node := Some 3, td_sink_node := Some 4,
          td_curr_barrier_node := Some 5, td_curr_task_node := Some 6\<rparr>)\<rparr>) s' {5, 6} {(3, 5), (5, 6)} 2"
    using barrier_first_ok [OF wf_sample_tool n sample_tool_at(2) c, of 3] by (auto simp: sample_tool_sel)
  note d = growsD [OF g]
  have "cb_sync_region ompt_sync_region_barrier ompt_scope_begin (Some 0) 1 sample_tool = Some s'"
    using s' sample_tool_at(2) by (simp add: cb_sync_region_def sample_tool_sel task_at_def new_ParallelRegionData_def)
  moreover have "task_at s' 1 1 (new_TaskData\<lparr>td_sink_node := Some 4, td_curr_barrier_node := Some 5,
      td_curr_task_node := Some 6\<rparr>) 6"
    using d sample_tool_at(2) by (simp add: task_at_def new_TaskData_def)
  ultimately show ?thesis
    using d that by (simp add: sample_tool_dom sample_tool_edges new_TaskData_def insert_commute)
qed

theorem implicit_task_end_drops_node_witness:
  "\<exists>s s'. cb_sync_region ompt_sync_region_barrier ompt_scope_begin (Some 0) 1 sample_tool = Some s
    \<and> cb_implicit_task ompt_scope_end 0 1 2 0 s = Some s' \<and> wf_tdg s' \<and> t_taskPtr s' 1 = None
    \<and> dom (g_heap s') = {0, 1, 2, 3, 4, 5} \<and> edge_rel (g_heap s') = {(0, 1), (3, 5), (5, 4)}"
proof -
  obtain s td where s: "cb_sync_region ompt_sync_region_barrier ompt_scope_begin (Some 0) 1 sample_tool = Some s"
    "wf_tdg s" "dom (g_heap s) = {0, 1, 2, 3, 4, 5, 6}" "edge_rel (g_heap s) = {(0, 1), (3, 5), (5, 6)}"
    "task_at s 1 1 td 6" "td_curr_barrier_node td = Some 5" "td_sink_node td = Some 4"
    by (rule sample_after_barrier)
  have p: "5 \<in> dom (g_heap s)" "(5 :: addr) \<noteq> 6" "\<forall>u. (u, 6) \<in> edge_rel (g_heap s) \<longrightarrow> u = 5"
      "\<forall>v. (6, v) \<notin> edge_rel (g_heap s)"
      "(0 :: uint32) = 0 \<longrightarrow> td_sink_node td = Some 4 \<and> 4 \<in> dom (g_heap s) - {6}"
    using s by simp_all
  from implicit_task_end_drops_node [OF s(2,5,6) p, of 0 2]
  obtain s' where s': "cb_implicit_task ompt_scope_end 0 1 2 0 s = Some s'" "wf_tdg s'" "t_taskPtr s' 1 = None"
    "dom (g_heap s') = dom (g_heap s) - {6}"
    "edge_rel (g_heap s') = edge_rel (g_heap s) - {(5, 6)} \<union> {(5, 4)}" by auto
  have "dom (g_heap s') = {0, 1, 2, 3, 4, 5}" "edge_rel (g_heap s') = {(0, 1), (3, 5), (5, 4)}"
    unfolding s'(4,5) s(3,4) by auto
  then show ?thesis using s(1) s'(1-3) by blast
qed

text \<open>
  Scheduling changes times only: \<open>cb_task_schedule\<close>, with either slot empty or leading to a
  task, returns, and leaves the nodes and edges of the graph, its index and every object of the
  tool as they were.
\<close>

theorem task_schedule_keeps_graph:
  assumes "wf_tdg s"
    and "\<forall>a. t_taskPtr s k1 = Some a \<or> t_taskPtr s k2 = Some a \<longrightarrow>
      (\<exists>td c. t_tasks s a = Some td \<and> td_curr_task_node td = Some c \<and> c \<in> dom (g_heap s))"
  shows "\<exists>s'. cb_task_schedule k1 k2 s = Some s' \<and> wf_tdg s' \<and> dom (g_heap s') = dom (g_heap s)
    \<and> edge_rel (g_heap s') = edge_rel (g_heap s) \<and> t_tasks s' = t_tasks s \<and> t_taskPtr s' = t_taskPtr s
    \<and> t_pars s' = t_pars s \<and> t_ws s' = t_ws s"
proof -
  obtain s' where "cb_task_schedule k1 k2 s = Some s'" "grows s s' {} {} 0"
    using cb_task_schedule_ok [of s k1 k2] assms by blast
  then show ?thesis using growsD [of s s' "{}" "{}" 0] by (intro exI [of _ s']) simp
qed

theorem task_schedule_keeps_graph_witness:
  "\<exists>s'. cb_task_schedule 0 1 sample_tool = Some s' \<and> wf_tdg s' \<and> edge_rel (g_heap s') = {(0, 1)}"
proof -
  have "\<forall>a. t_taskPtr sample_tool 0 = Some a \<or> t_taskPtr sample_tool 1 = Some a \<longrightarrow>
      (\<exists>td c. t_tasks sample_tool a = Some td \<and> td_curr_task_node td = Some c \<and> c \<in> dom (g_heap sample_tool))"
    using sample_tool_at(1,2) by (auto simp: task_at_def)
  from task_schedule_keeps_graph [OF wf_sample_tool this] show ?thesis by (auto simp: sample_tool_edges)
qed

text \<open>
  C40. An explicit task whose parent has no task data takes the identifier 0 of the root: the root
  stays allocated but is no longer in \<open>_graphNodes\<close>, so it is in no report and is never freed, and
  the graph is not well-formed any more.
\<close>

theorem orphan_task_replaces_root:
  assumes "wf_tdg s" and "g_heap s a = Some n" and "n_id n = 0" and "t_taskPtr s p = None"
  shows "\<exists>s'. cb_task_create (Some p) k ompt_task_explicit s = Some s' \<and> a \<in> dom (g_heap s')
    \<and> a \<notin> set (map snd (g_graphNodes s')) \<and> \<not> wf_tdg s'"
proof -
  let ?b = "g_brk s"
  define s1 where "s1 = s\<lparr>g_heap := (g_heap s)(?b \<mapsto> new_Node 0 EXP_TASK 0), g_brk := Suc ?b,
      g_graphNodes := map_set 0 ?b (g_graphNodes s)\<rparr>"
  have fresh: "a \<noteq> ?b" using assms(1,2) by (auto simp: wf_tdg_def)
  have mo: "map_ok (g_graphNodes s)" and ix: "\<And>i c. map_of (g_graphNodes s) i = Some c \<longleftrightarrow> (\<exists>m. g_heap s c = Some m \<and> n_id m = i)"
    using assms(1) by (auto simp: wf_tdg_def index_ok_def)
  have mo': "map_ok (g_graphNodes s1)" using map_ok_map_set [OF mo] by (simp add: s1_def)
  have "map_of (g_graphNodes s1) i \<noteq> Some a" for i
    using ix [of i a] assms(2,3) fresh by (auto simp: s1_def map_of_map_set)
  then have out: "a \<notin> set (map snd (g_graphNodes s1))"
    using smap.iter_values [OF mo'] by (auto simp: ran_def)
  obtain s2 where s2: "create_new_node EXP_TASK None True s = Some (?b, s2)" "g_graphNodes s2 = g_graphNodes s1"
      "a \<in> dom (g_heap s2)"
    using assms(2) by (simp add: create_new_node_def create_clean_node_def alloc_node_def addNode_def set_time_now_def
        ftimer_msec_def node_upd_def upd_node_def s1_def dom_def)
  define s' where "s' = s2\<lparr>t_tasks := (t_tasks s2)(t_brk s2 \<mapsto> new_TaskData\<lparr>td_curr_task_node := Some ?b\<rparr>),
      t_brk := Suc (t_brk s2), t_taskPtr := (t_taskPtr s2)(k := Some (t_brk s2))\<rparr>"
  have run: "cb_task_create (Some p) k ompt_task_explicit s = Some s'"
    using assms(4) s2(1) by (simp add: cb_task_create_def alloc_task_def s'_def)
  have "\<not> index_ok s'" using graphNodes_iter(2) [of s'] out s2(2,3) by (auto simp: s'_def)
  then show ?thesis using run out s2 by (auto simp: s'_def wf_tdg_def)
qed

theorem orphan_task_replaces_root_witness:
  "\<exists>s'. cb_task_create (Some 2) 3 ompt_task_explicit sample_tool = Some s' \<and> 0 \<in> dom (g_heap s')
    \<and> 0 \<notin> set (map snd (g_graphNodes s'))"
proof -
  have "\<exists>n. g_heap sample_tool 0 = Some n \<and> n_id n = 0" by (simp add: sample_tool_def new_Node_def)
  then obtain n where "g_heap sample_tool 0 = Some n" "n_id n = 0" by blast
  from orphan_task_replaces_root [OF wf_sample_tool this, of 2 3] show ?thesis by (auto simp: sample_tool_sel)
qed

text \<open>
  C39. The size a region was requested with is what its barriers count to.  When the team turns out
  smaller, two threads that have both arrived at the first barrier of a region requested for more
  do not complete it, and the next arrival of the first of them joins the same barrier node again:
  the task graph then has a cycle.
\<close>

theorem smaller_team_makes_cycle:
  assumes "wf_tdg s" and "g_nextId s + 4 < 2 ^ 63" and t: "task_at s k1 a1 td1 c1" "task_at s k2 a2 td2 c2"
    and "a1 \<noteq> a2" and "t_parPtr s r = Some q" and "t_pars s q = Some par"
    and "pr_barrier_cnt par = 0" and "2 < pr_team_size par"
  shows "\<exists>s'. foldM (\<lambda>k. cb_sync_region ompt_sync_region_barrier ompt_scope_begin (Some r) k) [k1, k2, k1] s = Some s'
    \<and> \<not> acyclic (edge_rel (g_heap s'))"
proof -
  let ?call = "\<lambda>k. cb_sync_region ompt_sync_region_barrier ompt_scope_begin (Some r) k"
  let ?B = "g_brk s" and ?N = "Suc (g_brk s)"
  have call: "?call k u = barrier_begin (t_taskPtr u k) q p u"
    if "t_parPtr u r = Some q" "t_pars u q = Some p" "pr_team_size p = pr_team_size par" for k u p
    using that assms(9) by (auto simp: cb_sync_region_def word_less_nat_alt)
  have n2: "g_nextId s + 2 < 2 ^ 63" using assms(2) by simp
  obtain s1 where s1: "barrier_begin (Some a1) q par s = Some s1" and g1: "grows (s\<lparr>
      t_pars := (t_pars s)(q \<mapsto> par\<lparr>pr_barrier_cnt := 1, pr_curr_barrier_node := Some ?B\<rparr>),
      t_tasks := (t_tasks s)(a1 \<mapsto> td1\<lparr>td_curr_barrier_node := Some ?B, td_curr_task_node := Some ?N\<rparr>)\<rparr>)
      s1 {?B, ?N} {(c1, ?B), (?B, ?N)} 2"
    using barrier_first_ok [OF assms(1) n2 t(1) assms(8), of q] by auto
  note d1 = growsD [OF g1]
  let ?p1 = "par\<lparr>pr_barrier_cnt := 1, pr_curr_barrier_node := Some ?B\<rparr>"
  have t2: "task_at s1 k2 a2 td2 c2" using t(2) assms(5) d1 by (auto simp: task_at_def)
  have n1: "g_nextId s1 + 1 < 2 ^ 63" using d1(4) assms(2) by simp
  have two: "\<not> pr_team_size par \<le> 2" using assms(9) by (simp add: not_le)
  obtain s2 where s2: "barrier_begin (Some a2) q ?p1 s1 = Some s2" and g2: "grows (s1\<lparr>
      t_pars := (t_pars s1)(q \<mapsto> ?p1\<lparr>pr_barrier_cnt := 2\<rparr>),
      t_tasks := (t_tasks s1)(a2 \<mapsto> td2\<lparr>td_curr_barrier_node := Some ?B, td_curr_task_node := Some (g_brk s1)\<rparr>)\<rparr>)
      s2 {g_brk s1} {(c2, ?B), (?B, g_brk s1)} 1"
    using barrier_join_ok [OF d1(1) n1 t2, of ?p1 ?B q] d1(2) two by auto
  note d2 = growsD [OF g2]
  let ?p2 = "?p1\<lparr>pr_barrier_cnt := 2\<rparr>"
  have t3: "task_at s2 k1 a1 (td1\<lparr>td_curr_barrier_node := Some ?B, td_curr_task_node := Some ?N\<rparr>) ?N"
    using t(1) assms(5) d1 d2 by (simp add: task_at_def)
  have n3: "g_nextId s2 + 1 < 2 ^ 63" using d1(4) d2(4) assms(2) by simp
  obtain s3 where s3: "barrier_begin (Some a1) q ?p2 s2 = Some s3"
      and e3: "edge_rel (g_heap s3) = edge_rel (g_heap s2) \<union> {(?N, ?B), (?B, g_brk s2)}"
    using barrier_join_ok [OF d2(1) n3 t3, of ?p2 ?B q] growsD(5) d1(2) d2(2) by fastforce
  have "(?B, ?N) \<in> edge_rel (g_heap s3)" "(?N, ?B) \<in> edge_rel (g_heap s3)" using e3 d1(5) d2(5) by auto
  then have "(?B, ?B) \<in> (edge_rel (g_heap s3))\<^sup>+" by (meson r_into_trancl' trancl_trans)
  then have "\<not> acyclic (edge_rel (g_heap s3))" by (auto simp: acyclic_def)
  moreover have "?call k1 s = Some s1" using call [of s par k1] assms(6,7) s1 t(1) by (simp add: task_at_def)
  moreover have "?call k2 s1 = Some s2" using call [of s1 ?p1 k2] assms(6) d1 s2 t2 by (simp add: task_at_def)
  moreover have "?call k1 s2 = Some s3" using call [of s2 ?p2 k1] assms(6) d1 d2 s3 t3 by (simp add: task_at_def)
  ultimately show ?thesis by simp
qed

theorem smaller_team_makes_cycle_witness:
  "\<exists>s'. foldM (\<lambda>k. cb_sync_region ompt_sync_region_barrier ompt_scope_begin (Some 0) k) [0, 1, 0] sample_tool = Some s'
    \<and> \<not> acyclic (edge_rel (g_heap s'))"
  by (rule smaller_team_makes_cycle [OF wf_sample_tool _ sample_tool_at(1,2) _ sample_tool_sel(3,5)])
    (simp_all add: sample_tool_sel new_ParallelRegionData_def)

end
