(* ===== verification/Tsc_Timer.thy ===== *)
theory Tsc_Timer
  imports Out_Stream
begin

text \<open>
  The timer of \<open>src/timer\<close>: time stamps of the processor's counter (\<open>x86_64-gcc-rdtsc.h\<close>), the
  clock the tool reads (\<open>timer.c\<close>), and the program that measures the counter's frequency and
  stores it in \<open>.cpu_freq\<close> (\<open>query_cpu_freq.cc\<close>).

  The counter is a sequence: \<open>tsc k\<close> is what the \<open>k\<close>-th \<open>rdtsc\<close> instruction of the process reads;
  what happens while the process sleeps shows in the sequence.  \<open>timer\<close> holds the \<open>static\<close> variable
  \<open>min\<close> of \<open>HRT_CALIBRATE\<close>, the global \<open>g_timerfreq\<close>, and how often the counter was read.  A result
  is \<open>None\<close> where the C code is undefined (a \<open>double\<close> outside the range of \<open>uint64_t\<close>), or where a
  \<open>double\<close> is no real number (a division by zero, or the spellings of infinity and NaN that \<open>strtod\<close> reads).
\<close>

unbundle bit_operations_syntax

section \<open>Time stamps\<close>

record x86_64_timeval_t =
  tv_l :: uint32
  tv_h :: uint32

record timer =
  tm_min :: uint64
  tm_freq :: uint64
  tm_reads :: nat

definition new_timer :: timer where
  "new_timer = \<lparr>tm_min = NOT 1, tm_freq = 0, tm_reads = 0\<rparr>"

definition HRT_GET_TIMESTAMP :: "(nat \<Rightarrow> uint64) \<Rightarrow> timer \<Rightarrow> x86_64_timeval_t \<times> timer" where
  "HRT_GET_TIMESTAMP tsc tm =
     (\<lparr>tv_l = ucast (tsc (tm_reads tm)), tv_h = ucast (drop_bit 32 (tsc (tm_reads tm)))\<rparr>,
      tm\<lparr>tm_reads := Suc (tm_reads tm)\<rparr>)"

definition HRT_GET_ELAPSED_TICKS :: "x86_64_timeval_t \<Rightarrow> x86_64_timeval_t \<Rightarrow> uint64" where
  "HRT_GET_ELAPSED_TICKS t1 t2 =
     (push_bit 32 (ucast (tv_h t2)) OR ucast (tv_l t2)) - (push_bit 32 (ucast (tv_h t1)) OR ucast (tv_l t1))"

definition HRT_GET_TIME :: "x86_64_timeval_t \<Rightarrow> uint64" where
  "HRT_GET_TIME t1 = push_bit 32 (ucast (tv_h t1)) OR ucast (tv_l t1)"

definition HRT_GET_MSEC :: "uint64 \<Rightarrow> uint64 \<Rightarrow> double option" where
  "HRT_GET_MSEC freq ticks =
     (if freq = 0 then None
      else Some (fdiv (fmul 1000 (double_of_nat (unat ticks))) (double_of_nat (unat freq))))"

text \<open>A time stamp, a sleep, a time stamp, and the ticks between them.\<close>

definition timed_sleep :: "(nat \<Rightarrow> uint64) \<Rightarrow> timer \<Rightarrow> uint64 \<times> timer" where
  "timed_sleep tsc tm =
     (let (t1, tm1) = HRT_GET_TIMESTAMP tsc tm;
          (t2, tm2) = HRT_GET_TIMESTAMP tsc tm1
      in (HRT_GET_ELAPSED_TICKS t1 t2, tm2))"

section \<open>Calibration\<close>

lemma timed_sleep_fields [simp]:
  "tm_min (snd (timed_sleep tsc tm)) = tm_min tm" "tm_freq (snd (timed_sleep tsc tm)) = tm_freq tm"
  "tm_reads (snd (timed_sleep tsc tm)) = tm_reads tm + 2"
  by (simp_all add: timed_sleep_def HRT_GET_TIMESTAMP_def)

function calibrate_loop :: "(nat \<Rightarrow> uint64) \<Rightarrow> int \<Rightarrow> timer \<Rightarrow> timer" where
  "calibrate_loop tsc notsmaller tm =
     (if notsmaller < 3 then
        (let elapsed_ticks = fst (timed_sleep tsc tm);
             tm' = snd (timed_sleep tsc tm)
         in if elapsed_ticks < tm_min tm'
            then calibrate_loop tsc 0 (tm'\<lparr>tm_min := elapsed_ticks\<rparr>)
            else calibrate_loop tsc (notsmaller + 1) tm')
      else tm)"
  by pat_completeness auto

text \<open>The loop ends whatever the counter does: the minimum cannot get smaller forever.\<close>

termination calibrate_loop
  by (relation "measures [\<lambda>(tsc, n, tm). unat (tm_min tm), \<lambda>(tsc, n, tm). nat (3 - n)]")
    (auto simp: Let_def word_less_nat_alt)

declare calibrate_loop.simps [simp del]

definition HRT_CALIBRATE :: "(nat \<Rightarrow> uint64) \<Rightarrow> timer \<Rightarrow> timer" where
  "HRT_CALIBRATE tsc tm = (let tm' = calibrate_loop tsc 0 tm in tm'\<lparr>tm_freq := tm_min tm'\<rparr>)"

definition HRT_INIT :: "bool \<Rightarrow> (nat \<Rightarrow> uint64) \<Rightarrow> timer \<Rightarrow> timer \<times> out_text" where
  "HRT_INIT print tsc tm =
     (HRT_CALIBRATE tsc tm,
      if print then [OStr ''# initializing x86-64 timer (takes some seconds)'', Endl] else [])"

section \<open>The frequency file\<close>

definition newline :: char where
  "newline = CHR 0x0A"

text \<open>\<open>fgets( buff, 128, file )\<close>: at most 127 characters, up to and including a newline; null at the
  end of the file.\<close>

fun fgets_chars :: "nat \<Rightarrow> string \<Rightarrow> string" where
  "fgets_chars 0 cs = []"
| "fgets_chars (Suc n) [] = []"
| "fgets_chars (Suc n) (c # cs) = (if c = newline then [c] else c # fgets_chars n cs)"

definition fgets :: "nat \<Rightarrow> string \<Rightarrow> string option" where
  "fgets len content = (if content = [] then None else Some (fgets_chars (len - 1) content))"

definition is_digit :: "char \<Rightarrow> bool" where
  "is_digit c = (48 \<le> (of_char c :: nat) \<and> (of_char c :: nat) \<le> 57)"

definition is_space :: "char \<Rightarrow> bool" where
  "is_space c = (of_char c = (32 :: nat) \<or> 9 \<le> (of_char c :: nat) \<and> (of_char c :: nat) \<le> 13)"

definition digits_val :: "string \<Rightarrow> nat" where
  "digits_val ds = foldl (\<lambda>a c. 10 * a + (of_char c - 48)) 0 ds"

fun split_sign :: "string \<Rightarrow> bool \<times> string" where
  "split_sign [] = (False, [])"
| "split_sign (c # cs) = (if c = CHR ''-'' then (True, cs) else if c = CHR ''+'' then (False, cs)
     else (False, c # cs))"

fun split_fraction :: "(char \<Rightarrow> bool) \<Rightarrow> string \<Rightarrow> string \<times> string" where
  "split_fraction digit [] = ([], [])"
| "split_fraction digit (c # cs) = (if c = CHR ''.'' then (takeWhile digit cs, dropWhile digit cs) else ([], c # cs))"

fun exponent_val :: "char set \<Rightarrow> string \<Rightarrow> int" where
  "exponent_val marks [] = 0"
| "exponent_val marks (c # cs) =
     (if c \<in> marks then
        (let (neg, ds) = split_sign cs; e = int (digits_val (takeWhile is_digit ds))
         in if neg then - e else e)
      else 0)"

definition lower :: "char \<Rightarrow> char" where
  "lower c = (if 65 \<le> (of_char c :: nat) \<and> (of_char c :: nat) \<le> 90 then char_of ((of_char c :: nat) + 32) else c)"

definition is_hexdigit :: "char \<Rightarrow> bool" where
  "is_hexdigit c = (is_digit c \<or> lower c \<in> set ''abcdef'')"

definition hexdigit_val :: "char \<Rightarrow> nat" where
  "hexdigit_val c = (if is_digit c then of_char c - 48 else of_char (lower c) - 87)"

definition hexdigits_val :: "string \<Rightarrow> nat" where
  "hexdigits_val ds = foldl (\<lambda>a c. 16 * a + hexdigit_val c) 0 ds"

text \<open>\<open>strtod\<close>: white space, a sign, and then an infinity or NaN, a hexadecimal number (\<open>0x\<close> must be followed by a
  digit, or by a point and a digit), or a decimal number; without any of these the result is 0.  Infinities
  and NaN are \<open>None\<close>.\<close>

definition no_real :: "string \<Rightarrow> bool" where
  "no_real s = (map lower (take 3 s) \<in> {''inf'', ''nan''})"

definition hex_body :: "string \<Rightarrow> string option" where
  "hex_body s = (if map lower (take 2 s) = ''0x''
       \<and> (takeWhile is_hexdigit (drop 2 s) \<noteq> []
          \<or> fst (split_fraction is_hexdigit (dropWhile is_hexdigit (drop 2 s))) \<noteq> [])
     then Some (drop 2 s) else None)"

definition strtod :: "string \<Rightarrow> double option" where
  "strtod str =
     (let (neg, s1) = split_sign (dropWhile is_space str);
          sgn = (if neg then - 1 else 1)
      in if no_real s1 then None
         else (case hex_body s1 of
           Some s2 \<Rightarrow>
             (let ip = takeWhile is_hexdigit s2;
                  (fp, s3) = split_fraction is_hexdigit (dropWhile is_hexdigit s2);
                  e = exponent_val {CHR ''p'', CHR ''P''} s3
              in Some (rnd (sgn * real (hexdigits_val (ip @ fp)) * 2 powi (e - 4 * int (length fp)))))
         | None \<Rightarrow>
             (let ip = takeWhile is_digit s1;
                  (fp, s2) = split_fraction is_digit (dropWhile is_digit s1);
                  e = exponent_val {CHR ''e'', CHR ''E''} s2
              in if ip = [] \<and> fp = [] then Some 0
                 else Some (rnd (sgn * real (digits_val (ip @ fp)) * 10 powi (e - int (length fp)))))))"

text \<open>The conversion from \<open>double\<close> to \<open>uint64_t\<close> drops the fraction.\<close>

definition double_to_uint64 :: "double \<Rightarrow> uint64 option" where
  "double_to_uint64 d = (if - 1 < d \<and> d < 2 ^ 64 then Some (word_of_nat (nat \<lfloor>d\<rfloor>)) else None)"

definition init_clock_time :: "string option \<Rightarrow> (nat \<Rightarrow> uint64) \<Rightarrow> timer \<Rightarrow> (timer \<times> out_text) outcome option" where
  "init_clock_time cpufreq_file tsc tm =
     (let report = (\<lambda>tm. [OStr ''Timer: cycles per sec = '', OInt (uint (tm_freq tm)), Endl]) in
      case cpufreq_file of
        Some content \<Rightarrow>
          (case fgets 128 content of
             Some buff \<Rightarrow> do {
               d \<leftarrow> strtod buff;
               freq \<leftarrow> double_to_uint64 d;
               let tm' = tm\<lparr>tm_freq := freq\<rparr>;
               Some (Returns (tm', report tm')) }
           | None \<Rightarrow> Some (Exits (- 1)))
      | None \<Rightarrow>
          (let (tm', out) = HRT_INIT True tsc tm in Some (Returns (tm', out @ report tm'))))"

definition get_clock_time :: "(nat \<Rightarrow> uint64) \<Rightarrow> timer \<Rightarrow> (double \<times> timer) option" where
  "get_clock_time tsc tm =
     (let (t, tm') = HRT_GET_TIMESTAMP tsc tm;
          ticks = HRT_GET_TIME t
      in map_option (\<lambda>ms. (ms, tm')) (HRT_GET_MSEC (tm_freq tm') ticks))"

section \<open>Measuring the frequency\<close>

text \<open>The program prints an unsigned number in decimal.\<close>

fun decimal :: "nat \<Rightarrow> string" where
  "decimal n = (if n < 10 then [char_of (48 + n)] else decimal (n div 10) @ [char_of (48 + n mod 10)])"

declare decimal.simps [simp del]

definition bogus :: "uint64 \<Rightarrow> double \<Rightarrow> bool" where
  "bogus s rate = (\<bar>fsub (double_of_nat (unat s)) rate\<bar> > fmul (double_of_nat (unat s)) (rnd (5 / 100)))"

definition bogus_msg :: out_text where
  "bogus_msg = [OStr ''# The high performance timer gives bogus results on this system!'', Endl]"

definition sanity_check :: "bool \<Rightarrow> (nat \<Rightarrow> uint64) \<Rightarrow> timer \<Rightarrow> bool \<times> timer \<times> out_text" where
  "sanity_check print tsc tm =
     (let out0 = (if print then [OStr ''# Sanity check of the timer'', Endl] else []);
          (s, tm1) = timed_sleep tsc tm;
          out1 = (if print then [OStr ''# sleep(1) needed '', OInt (uint s), OStr '' ticks'', Endl] else []);
          (s2, tm2) = timed_sleep tsc tm1;
          out2 = (if print then [OStr ''# sleep(2)/2 needed '', OInt (uint (s2 div 2)), OStr '' ticks'', Endl] else []);
          bad2 = bogus s (fdiv (double_of_nat (unat s2)) 2);
          s' = s2 div 2;
          (s3, tm3) = timed_sleep tsc tm2;
          out3 = (if print then [OStr ''# sleep(3)/3 needed '', OInt (uint (s3 div 3)), OStr '' ticks'', Endl] else []);
          bad3 = bogus s' (fdiv (double_of_nat (unat s3)) 3)
      in (\<not> bad2 \<and> \<not> bad3, tm3,
          out0 @ out1 @ out2 @ (if bad2 then bogus_msg else []) @ out3 @ (if bad3 then bogus_msg else [])))"

text \<open>\<open>main\<close>: the exit status, the output, and what is written to the file when it can be opened.\<close>

definition query_main :: "bool \<Rightarrow> (nat \<Rightarrow> uint64) \<Rightarrow> int \<times> out_text \<times> string option" where
  "query_main can_open tsc =
     (case sanity_check True tsc new_timer of (sane, tm, out) \<Rightarrow>
        if sane then
          (let (tm', out') = HRT_INIT True tsc tm
           in (0, out @ out', if can_open then Some (decimal (unat (tm_freq tm')) @ [newline]) else None))
        else (1, out, None))"


section \<open>Time stamps are the counter\<close>

lemma join_halves:
  "push_bit 32 (ucast (ucast (drop_bit 32 x) :: uint32)) OR ucast (ucast x :: uint32) = (x :: uint64)"
  by (rule bit_word_eqI) (auto simp: bit_simps)

lemma timestamp_sel:
  "HRT_GET_TIME (fst (HRT_GET_TIMESTAMP tsc tm)) = tsc (tm_reads tm)"
  "snd (HRT_GET_TIMESTAMP tsc tm) = tm\<lparr>tm_reads := Suc (tm_reads tm)\<rparr>"
  by (simp_all add: HRT_GET_TIMESTAMP_def HRT_GET_TIME_def join_halves)

lemma timed_sleep_ticks: "fst (timed_sleep tsc tm) = tsc (Suc (tm_reads tm)) - tsc (tm_reads tm)"
  by (simp add: timed_sleep_def HRT_GET_TIMESTAMP_def HRT_GET_ELAPSED_TICKS_def join_halves)

lemma timed_sleep_eq:
  "timed_sleep tsc tm = (tsc (Suc (tm_reads tm)) - tsc (tm_reads tm), tm\<lparr>tm_reads := tm_reads tm + 2\<rparr>)"
  by (simp add: timed_sleep_def HRT_GET_TIMESTAMP_def HRT_GET_ELAPSED_TICKS_def join_halves)

text \<open>The ticks of the \<open>i\<close>-th sleep after read \<open>k\<close>.\<close>

definition sleep_ticks :: "(nat \<Rightarrow> uint64) \<Rightarrow> nat \<Rightarrow> nat \<Rightarrow> uint64" where
  "sleep_ticks tsc k i = tsc (Suc (k + 2 * i)) - tsc (k + 2 * i)"

text \<open>What the calibration loop leaves: \<open>n\<close> sleeps were timed, the minimum is a lower bound of them,
  and either none of them was smaller than the minimum at the start, or the fourth last was the
  smallest.\<close>

definition calibrated :: "(nat \<Rightarrow> uint64) \<Rightarrow> nat \<Rightarrow> uint64 \<Rightarrow> nat \<Rightarrow> nat \<Rightarrow> uint64 \<Rightarrow> bool" where
  "calibrated tsc k m0 c n m \<longleftrightarrow> m \<le> m0 \<and> (\<forall>i < n. m \<le> sleep_ticks tsc k i)
     \<and> (n + c = 3 \<and> m = m0 \<or> 4 \<le> n \<and> m = sleep_ticks tsc k (n - 4) \<and> m < m0)"

lemma sleep_ticks_shift: "sleep_ticks tsc (k + 2) i = sleep_ticks tsc k (Suc i)"
  by (simp add: sleep_ticks_def)

lemma all_less_Suc: "(\<forall>i < Suc n. P i) \<longleftrightarrow> P 0 \<and> (\<forall>i < n. P (Suc i))"
  using less_Suc_eq_0_disj by auto

lemma calibrated_smaller:
  assumes "calibrated tsc (k + 2) (sleep_ticks tsc k 0) 0 n m" and "sleep_ticks tsc k 0 < m0"
  shows "calibrated tsc k m0 c (Suc n) m"
proof -
  have "Suc n - 4 = Suc (n - 4)" if "4 \<le> n" using that by simp
  then show ?thesis
    using assms unfolding calibrated_def all_less_Suc sleep_ticks_shift by auto
qed

lemma calibrated_not_smaller:
  assumes "calibrated tsc (k + 2) m0 (Suc c) n m" and "\<not> sleep_ticks tsc k 0 < m0"
  shows "calibrated tsc k m0 c (Suc n) m"
proof -
  have "Suc n - 4 = Suc (n - 4)" if "4 \<le> n" using that by simp
  then show ?thesis
    using assms unfolding calibrated_def all_less_Suc sleep_ticks_shift by auto
qed

lemma calibrate_loop_result:
  assumes "calibrate_loop tsc c tm = tm'" and "0 \<le> c" and "c \<le> 3"
  shows "\<exists>n. tm_reads tm' = tm_reads tm + 2 * n \<and> calibrated tsc (tm_reads tm) (tm_min tm) (nat c) n (tm_min tm')"
  using assms
proof (induction tsc c tm rule: calibrate_loop.induct)
  case (1 tsc c tm)
  have e: "fst (timed_sleep tsc tm) = sleep_ticks tsc (tm_reads tm) 0"
    by (simp add: timed_sleep_ticks sleep_ticks_def)
  consider "\<not> c < 3" | "c < 3" "sleep_ticks tsc (tm_reads tm) 0 < tm_min tm"
    | "c < 3" "\<not> sleep_ticks tsc (tm_reads tm) 0 < tm_min tm" by blast
  then show ?case
  proof cases
    case 1
    with 1 "1.prems" show ?thesis
      by (intro exI [of _ 0]) (auto simp: calibrate_loop.simps [of tsc c tm] calibrated_def)
  next
    case 2
    let ?tm = "(snd (timed_sleep tsc tm))\<lparr>tm_min := fst (timed_sleep tsc tm)\<rparr>"
    have "calibrate_loop tsc 0 ?tm = tm'"
      using "1.prems"(1) 2 by (simp add: calibrate_loop.simps [of tsc c tm] Let_def e)
    then obtain n where n: "tm_reads tm' = tm_reads tm + 2 + 2 * n"
        "calibrated tsc (tm_reads tm + 2) (sleep_ticks tsc (tm_reads tm) 0) 0 n (tm_min tm')"
      using "1.IH"(1) [OF 2(1) refl refl] 2(2) by (auto simp: e)
    then show ?thesis using calibrated_smaller [OF n(2) 2(2)] by (intro exI [of _ "Suc n"]) simp
  next
    case 3
    let ?tm = "snd (timed_sleep tsc tm)"
    have "calibrate_loop tsc (c + 1) ?tm = tm'"
      using "1.prems"(1) 3 by (simp add: calibrate_loop.simps [of tsc c tm] Let_def e)
    then obtain n where n: "tm_reads tm' = tm_reads tm + 2 + 2 * n"
        "calibrated tsc (tm_reads tm + 2) (tm_min tm) (nat (c + 1)) n (tm_min tm')"
      using "1.IH"(2) [OF 3(1) refl refl] 3 "1.prems" by (auto simp: e)
    have "nat (c + 1) = Suc (nat c)" using "1.prems" by simp
    then show ?thesis using calibrated_not_smaller [of tsc "tm_reads tm"] n 3(2)
      by (intro exI [of _ "Suc n"]) simp
  qed
qed


section \<open>The clock\<close>

lemma get_clock_time_eq:
  "get_clock_time tsc tm = (if tm_freq tm = 0 then None
     else Some (fdiv (fmul 1000 (double_of_nat (unat (tsc (tm_reads tm))))) (double_of_nat (unat (tm_freq tm))),
       tm\<lparr>tm_reads := Suc (tm_reads tm)\<rparr>))"
  by (simp add: get_clock_time_def HRT_GET_MSEC_def HRT_GET_TIMESTAMP_def HRT_GET_TIME_def join_halves)

text \<open>What a reading of \<open>n\<close> ticks is, in milliseconds.\<close>

definition msec_of :: "uint64 \<Rightarrow> uint64 \<Rightarrow> double" where
  "msec_of freq ticks = fdiv (fmul 1000 (double_of_nat (unat ticks))) (double_of_nat (unat freq))"

lemma msec_of_mono: "a \<le> b \<Longrightarrow> msec_of f a \<le> msec_of f b"
  unfolding msec_of_def fdiv_def fmul_def double_of_nat_def
  by (intro rnd_mono divide_right_mono mult_left_mono rnd_nonneg of_nat_mono of_nat_0_le_iff)
    (simp_all add: word_le_nat_alt)

lemma msec_of_nonneg: "0 \<le> msec_of f a"
  unfolding msec_of_def fdiv_def fmul_def double_of_nat_def
  by (intro rnd_nonneg divide_nonneg_nonneg mult_nonneg_nonneg of_nat_0_le_iff) simp

text \<open>The readings of a process that calls \<open>ftimer_msec\<close> again and again from here on.\<close>

definition clock_from :: "(nat \<Rightarrow> uint64) \<Rightarrow> timer \<Rightarrow> (nat \<Rightarrow> double) option" where
  "clock_from tsc tm =
     (if tm_freq tm = 0 then None else Some (\<lambda>k. msec_of (tm_freq tm) (tsc (tm_reads tm + k))))"

lemma clock_from_reads:
  "clock_from tsc tm = Some clk \<Longrightarrow>
     get_clock_time tsc (tm\<lparr>tm_reads := tm_reads tm + k\<rparr>) = Some (clk k, tm\<lparr>tm_reads := tm_reads tm + Suc k\<rparr>)"
  by (auto simp: clock_from_def get_clock_time_eq msec_of_def split: if_splits)

lemma clock_from_mono:
  assumes "clock_from tsc tm = Some clk" and "\<And>k. tsc k \<le> tsc (Suc k)"
  shows "clk k \<le> clk (Suc k)" and "0 \<le> clk k"
  using assms by (auto simp: clock_from_def msec_of_mono msec_of_nonneg split: if_splits)

text \<open>Four roundings cost less than one part in \<open>2 ^ 50\<close>.\<close>

lemma four_factors:
  fixes d1 d2 d3 d4 :: real
  assumes "\<bar>d1\<bar> \<le> u" "\<bar>d2\<bar> \<le> u" "\<bar>d3\<bar> \<le> u" "\<bar>d4\<bar> \<le> u" "u \<le> 1 / 100"
  shows "\<bar>(1 + d1) * (1 + d2) * (1 + d4) / (1 + d3) - 1\<bar> \<le> 8 * u"
proof -
  have b: "1 - u \<le> 1 + d1" "1 + d1 \<le> 1 + u" "1 - u \<le> 1 + d2" "1 + d2 \<le> 1 + u"
    "1 - u \<le> 1 + d3" "1 + d3 \<le> 1 + u" "1 - u \<le> 1 + d4" "1 + d4 \<le> 1 + u" and u: "0 \<le> u"
    using assms by linarith+
  have pos: "0 \<le> 1 - u" "0 < 1 + d3" using assms b by linarith+
  have "(1 + d1) * (1 + d2) * (1 + d4) \<le> (1 + u) * (1 + u) * (1 + u)"
    using b pos assms by (intro mult_mono mult_nonneg_nonneg) linarith+
  also have "\<dots> \<le> (1 + 8 * u) * (1 - u)"
  proof -
    have "0 \<le> u * (4 - 11 * u - u * u)"
      using u assms mult_mono [of u 1 u 1] by (intro mult_nonneg_nonneg) auto
    then show ?thesis by (simp add: algebra_simps)
  qed
  also have "\<dots> \<le> (1 + 8 * u) * (1 + d3)" using b u by (intro mult_left_mono) auto
  finally have up: "(1 + d1) * (1 + d2) * (1 + d4) / (1 + d3) \<le> 1 + 8 * u"
    using pos by (simp add: divide_le_eq)
  have "(1 - 8 * u) * (1 + d3) \<le> (1 - 8 * u) * (1 + u)" using b u assms by (intro mult_left_mono) auto
  also have "\<dots> \<le> (1 - u) * (1 - u) * (1 - u)"
  proof -
    have "0 \<le> u * (4 + 11 * u - u * u)"
      using u assms mult_mono [of u 1 u 1] by (intro mult_nonneg_nonneg) auto
    then show ?thesis by (simp add: algebra_simps)
  qed
  also have "\<dots> \<le> (1 + d1) * (1 + d2) * (1 + d4)"
    using b pos assms by (intro mult_mono mult_nonneg_nonneg) linarith+
  finally have "1 - 8 * u \<le> (1 + d1) * (1 + d2) * (1 + d4) / (1 + d3)"
    using pos by (simp add: le_divide_eq)
  with up show ?thesis by (simp add: abs_le_iff)
qed

lemma msec_of_accurate:
  assumes "f \<noteq> 0"
  shows "\<bar>msec_of f a - 1000 * real (unat a) / real (unat f)\<bar> \<le> (1000 * real (unat a) / real (unat f)) / 2 ^ 50"
proof (cases "a = 0")
  case True
  then show ?thesis by (simp add: msec_of_def double_of_nat_def fmul_def fdiv_def)
next
  case False
  define A F where "A = real (unat a)" and "F = real (unat f)"
  have "0 < unat a" "0 < unat f" "unat f < 2 ^ 64"
    using False assms unsigned_less [of f, where ?'a = nat] by (simp_all add: unat_gt_0)
  then have A: "1 \<le> A" and F: "1 \<le> F" "F \<le> 2 ^ 64"
    unfolding A_def F_def by (simp_all add: Suc_leI less_imp_le del: of_nat_unat)
  let ?u = "1 / 2 ^ 53 :: real"
  have half: "1 / 2 \<le> 1 + d" "1 + d \<le> 2" if "\<bar>d\<bar> \<le> ?u" for d :: real
    using that by (auto simp: abs_le_iff)
  obtain d1 where d1: "rnd A = A * (1 + d1)" "\<bar>d1\<bar> \<le> ?u" using rnd_factor [of A] A by auto
  have a1: "1 / 2 \<le> A * (1 + d1)" using mult_mono [of 1 A "1 / 2" "1 + d1"] A half(1) [OF d1(2)] by simp
  obtain d2 where d2: "rnd (1000 * (A * (1 + d1))) = 1000 * (A * (1 + d1)) * (1 + d2)" "\<bar>d2\<bar> \<le> ?u"
    using rnd_factor [of "1000 * (A * (1 + d1))"] a1 by auto
  obtain d3 where d3: "rnd F = F * (1 + d3)" "\<bar>d3\<bar> \<le> ?u" using rnd_factor [of F] F by auto
  let ?q = "1000 * (A * (1 + d1)) * (1 + d2) / (F * (1 + d3))"
  have num: "250 \<le> 1000 * (A * (1 + d1)) * (1 + d2)"
    using mult_mono [of "500" "1000 * (A * (1 + d1))" "1 / 2" "1 + d2"] a1 half(1) [OF d2(2)] by simp
  have den: "0 < F * (1 + d3)" "F * (1 + d3) \<le> 2 ^ 65"
    using F half [OF d3(2)] mult_mono [of F "2 ^ 64" "1 + d3" 2] by auto
  have "1 / 2 ^ 100 \<le> 250 / (2 ^ 65 :: real)" by simp
  also have "\<dots> \<le> ?q" using num den by (intro frac_le) auto
  also have "\<dots> \<le> \<bar>?q\<bar>" by (rule abs_ge_self)
  finally obtain d4 where d4: "rnd ?q = ?q * (1 + d4)" "\<bar>d4\<bar> \<le> ?u" by (rule rnd_factor)
  define g where "g = (1 + d1) * (1 + d2) * (1 + d4) / (1 + d3)"
  have "msec_of f a = ?q * (1 + d4)"
    unfolding msec_of_def double_of_nat_def fmul_def fdiv_def A_def [symmetric] F_def [symmetric]
      d1(1) d2(1) d3(1) d4(1) ..
  also have "\<dots> = (1000 * A / F) * g" by (simp add: g_def)
  finally have m: "msec_of f a - 1000 * A / F = (1000 * A / F) * (g - 1)"
    by (simp only: right_diff_distrib mult_1_right)
  have "\<bar>g - 1\<bar> \<le> 8 * ?u" unfolding g_def by (rule four_factors [OF d1(2) d2(2) d3(2) d4(2)]) simp
  moreover have "0 \<le> 1000 * A / F" using A F by simp
  ultimately have "\<bar>(1000 * A / F) * (g - 1)\<bar> \<le> (1000 * A / F) * (8 * ?u)"
    unfolding abs_mult by (simp only: abs_of_nonneg mult_left_mono)
  also have "\<dots> = (1000 * A / F) / 2 ^ 50" by simp
  finally show ?thesis unfolding m [symmetric] by (simp add: A_def F_def)
qed


section \<open>Decimal numbers\<close>

lemma digit_char:
  "n < 10 \<Longrightarrow> is_digit (char_of (48 + n)) \<and> of_char (char_of (48 + n) :: char) - 48 = (n :: nat)"
  by (simp add: is_digit_def)

lemma decimal_digits: "list_all is_digit (decimal n)"
proof (induction n rule: decimal.induct)
  case (1 n)
  then show ?case by (subst decimal.simps) (auto simp: digit_char)
qed

lemma digits_val_snoc: "digits_val (ds @ [c]) = 10 * digits_val ds + (of_char c - 48)"
  by (simp add: digits_val_def)

lemma digits_val_decimal: "digits_val (decimal n) = n"
proof (induction n rule: decimal.induct)
  case (1 n)
  show ?case
  proof (cases "n < 10")
    case True
    then show ?thesis using digit_char [of n] by (simp add: decimal.simps [of n] digits_val_def)
  next
    case False
    then show ?thesis using 1 digit_char [of "n mod 10"]
      by (simp add: decimal.simps [of n] digits_val_snoc)
  qed
qed

lemma length_decimal: "0 < d \<Longrightarrow> n < 10 ^ d \<Longrightarrow> length (decimal n) \<le> d"
proof (induction n arbitrary: d rule: decimal.induct)
  case (1 n)
  show ?case
  proof (cases "n < 10")
    case True
    then show ?thesis using 1 by (simp add: decimal.simps [of n])
  next
    case False
    then obtain d' where d': "d = Suc d'" "0 < d'"
      using "1.prems" by (cases d; cases "d - 1") auto
    then have "n div 10 < 10 ^ d'" using "1.prems" by (simp add: less_mult_imp_div_less mult.commute)
    then show ?thesis using False "1.IH" [OF False d'(2)] d'(1) by (simp add: decimal.simps [of n])
  qed
qed

lemma decimal_nonempty: "decimal n \<noteq> []"
  by (simp add: decimal.simps [of n])

lemma newline_no_digit: "\<not> is_digit newline"
  by (simp add: is_digit_def newline_def)

lemma fgets_line:
  "newline \<notin> set ds \<Longrightarrow> length ds < n \<Longrightarrow> fgets_chars n (ds @ [newline]) = ds @ [newline]"
proof (induction n "ds @ [newline]" arbitrary: ds rule: fgets_chars.induct)
  case (3 n c cs)
  then show ?case by (cases ds) auto
qed auto

lemma lower_digit: "is_digit c \<Longrightarrow> lower c = c"
  by (simp add: is_digit_def lower_def)

lemma digit_no_letter: "is_digit c \<Longrightarrow> c \<notin> set ''inaxptf+-.'' \<and> \<not> is_space c"
  by (auto simp: is_digit_def is_space_def)

lemma strtod_decimal:
  assumes "list_all is_digit ds" and "ds \<noteq> []"
  shows "strtod (ds @ [newline]) = Some (rnd (real (digits_val ds)))"
proof -
  obtain c cs where ds: "ds = c # cs" using assms(2) by (cases ds) auto
  have c: "is_digit c" using assms(1) ds by simp
  have sign: "split_sign (dropWhile is_space (ds @ [newline])) = (False, ds @ [newline])"
    using digit_no_letter [OF c] by (simp add: ds)
  have real: "\<not> no_real (ds @ [newline])"
    using digit_no_letter [OF c] lower_digit [OF c] by (auto simp: no_real_def ds numeral_eq_Suc)
  have "lower d \<noteq> CHR ''x''" if "is_digit d \<or> d = newline" for d
    using that digit_no_letter [of d] lower_digit [of d] by (auto simp: newline_def lower_def)
  then have hex: "hex_body (ds @ [newline]) = None"
    using assms(1) by (cases cs) (auto simp: hex_body_def ds numeral_2_eq_2)
  have "takeWhile is_digit (ds @ [newline]) = ds" "dropWhile is_digit (ds @ [newline]) = [newline]"
    using assms(1) newline_no_digit by (simp_all add: list_all_iff takeWhile_append dropWhile_append)
  then show ?thesis
    unfolding strtod_def Let_def sign using real hex assms(2) by (simp add: newline_def)
qed

lemma double_to_uint64_nat: "n < 2 ^ 64 \<Longrightarrow> double_to_uint64 (real n) = Some (word_of_nat n)"
proof -
  assume "n < 2 ^ 64"
  then have "real n < 2 ^ 64" by (metis of_nat_less_iff of_nat_numeral of_nat_power)
  then show ?thesis by (simp add: double_to_uint64_def)
qed

lemma read_decimal:
  assumes "n < 2 ^ 53"
  shows "init_clock_time (Some (decimal n @ [newline])) tsc tm
    = Some (Returns (tm\<lparr>tm_freq := word_of_nat n\<rparr>, [OStr ''Timer: cycles per sec = '', OInt (int n), Endl]))"
proof -
  have "length (decimal n) \<le> 16" using length_decimal [of 16 n] assms by simp
  moreover have "newline \<notin> set (decimal n)" using decimal_digits [of n] newline_no_digit by (auto simp: list_all_iff)
  ultimately have "fgets 128 (decimal n @ [newline]) = Some (decimal n @ [newline])"
    by (simp add: fgets_def fgets_line)
  moreover have "strtod (decimal n @ [newline]) = Some (real n)"
    using strtod_decimal [OF decimal_digits decimal_nonempty] rnd_of_nat [OF assms]
    by (simp add: digits_val_decimal)
  moreover have "double_to_uint64 (real n) = Some (word_of_nat n)" using double_to_uint64_nat assms by simp
  moreover have "uint (word_of_nat n :: uint64) = int n"
    using assms by (simp add: unsigned_of_nat take_bit_nat_eq_self)
  ultimately show ?thesis by (simp add: init_clock_time_def Let_def)
qed


section \<open>The sanity check\<close>

lemma rnd_abs: "\<bar>rnd x\<bar> = rnd \<bar>x\<bar>"
  using rnd_nonneg [of x] rnd_nonneg [of "- x"] by (auto simp: abs_if rnd_uminus)

lemma five_percent: "499 / 10000 \<le> rnd (5 / 100)" "rnd (5 / 100) \<le> 501 / 10000"
proof -
  obtain d where "rnd (5 / 100) = 5 / 100 * (1 + d)" "\<bar>d\<bar> \<le> 1 / 2 ^ 53"
    using rnd_factor [of "5 / 100"] by auto
  then show "499 / 10000 \<le> rnd (5 / 100)" "rnd (5 / 100) \<le> 501 / 10000" by (auto simp: abs_le_iff)
qed

lemma rnd_close:
  assumes "r = 0 \<or> 1 / 4 \<le> r" shows "\<bar>rnd r - r\<bar> \<le> r / 1000"
proof (cases "r = 0")
  case False
  then have r: "1 / 4 \<le> r" using assms by simp
  then have "1 / 2 ^ 100 \<le> \<bar>r\<bar>" by simp
  then obtain d where d: "rnd r = r * (1 + d)" "\<bar>d\<bar> \<le> 1 / 2 ^ 53" by (rule rnd_factor)
  then have "\<bar>rnd r - r\<bar> = r * \<bar>d\<bar>" using r by (simp add: algebra_simps abs_mult)
  also have "\<dots> \<le> r * (1 / 1000)" using d(2) r by (intro mult_left_mono) auto
  finally show ?thesis by simp
qed simp

lemma not_bogus:
  assumes "unat s < 2 ^ 53" and "r = 0 \<or> 1 / 4 \<le> r"
    and "\<bar>real (unat s) - r\<bar> \<le> 4 / 100 * real (unat s)"
  shows "\<not> bogus s (rnd r)"
proof -
  define S where "S = real (unat s)"
  have S: "rnd S = S" "0 \<le> S" unfolding S_def by (rule rnd_of_nat [OF assms(1)], rule of_nat_0_le_iff)
  have close: "\<bar>S - r\<bar> \<le> 4 / 100 * S" using assms(3) by (simp add: S_def)
  have "\<bar>S - rnd r\<bar> \<le> S * (499 / 10000)" using close rnd_close [OF assms(2)] S(2) by linarith
  also have "\<dots> \<le> S * rnd (5 / 100)" using five_percent(1) S(2) by (rule mult_left_mono)
  finally have "rnd \<bar>S - rnd r\<bar> \<le> rnd (S * rnd (5 / 100))" by (rule rnd_mono)
  then show ?thesis
    unfolding bogus_def fsub_def fmul_def double_of_nat_def S_def [symmetric] S(1) rnd_abs by simp
qed

lemma is_bogus:
  assumes "unat s < 2 ^ 53" and "r = 0 \<or> 1 / 4 \<le> r"
    and "6 / 100 * real (unat s) < \<bar>real (unat s) - r\<bar>"
  shows "bogus s (rnd r)"
proof -
  define S where "S = real (unat s)"
  have S: "rnd S = S" "0 \<le> S" unfolding S_def by (rule rnd_of_nat [OF assms(1)], rule of_nat_0_le_iff)
  have far: "6 / 100 * S < \<bar>S - r\<bar>" using assms(3) by (simp add: S_def)
  define x where "x = \<bar>S - rnd r\<bar>"
  have "rnd (S * rnd (5 / 100)) < rnd x"
  proof (cases "unat s = 0")
    case True
    then have "S = 0" by (simp add: S_def)
    then have "1 / 4 \<le> r" using far assms(2) by auto
    then have "0 < rnd r" using rnd_close [OF assms(2)] by linarith
    then have "rnd x = rnd r" using \<open>S = 0\<close> representable_rnd [of r] by (simp add: x_def representable_def)
    with \<open>0 < rnd r\<close> have "0 < rnd x" by simp
    then show ?thesis using \<open>S = 0\<close> by simp
  next
    case False
    then have S1: "1 \<le> S" by (simp add: S_def del: of_nat_unat)
    have x: "58 / 1000 * S \<le> x" using far rnd_close [OF assms(2)] S1 unfolding x_def by linarith
    have "1 / 2 ^ 100 \<le> \<bar>58 / 1000 * S\<bar>" using S1 by simp
    then obtain d where d: "rnd (58 / 1000 * S) = 58 / 1000 * S * (1 + d)" "\<bar>d\<bar> \<le> 1 / 2 ^ 53"
      by (rule rnd_factor)
    have up: "S * rnd (5 / 100) \<le> 501 / 10000 * S"
      using mult_left_mono [OF five_percent(2) S(2)] by (simp only: mult.commute)
    have "1 / 2 ^ 100 \<le> \<bar>501 / 10000 * S\<bar>" using S1 by simp
    then obtain d' where d': "rnd (501 / 10000 * S) = 501 / 10000 * S * (1 + d')" "\<bar>d'\<bar> \<le> 1 / 2 ^ 53"
      by (rule rnd_factor)
    have "501 / 10000 * (1 + d') < 58 / 1000 * (1 + d)" using d(2) d'(2) by (auto simp: abs_le_iff)
    then have "501 / 10000 * S * (1 + d') < 58 / 1000 * S * (1 + d)"
      using mult_strict_left_mono [of _ _ S] S1 by (fastforce simp: algebra_simps)
    then show ?thesis using rnd_mono [OF up] rnd_mono [OF x] d(1) d'(1) by linarith
  qed
  then show ?thesis
    unfolding bogus_def fsub_def fmul_def double_of_nat_def S_def [symmetric] S(1) rnd_abs x_def .
qed


lemma sanity_check_sane:
  assumes "unat (sleep_ticks tsc (tm_reads tm) 1) < 2 ^ 53" and "unat (sleep_ticks tsc (tm_reads tm) 2) < 2 ^ 53"
  shows "fst (sanity_check print tsc tm)
    = (\<not> bogus (sleep_ticks tsc (tm_reads tm) 0) (rnd (real (unat (sleep_ticks tsc (tm_reads tm) 1)) / 2))
       \<and> \<not> bogus (sleep_ticks tsc (tm_reads tm) 1 div 2) (rnd (real (unat (sleep_ticks tsc (tm_reads tm) 2)) / 3)))"
proof -
  have "fdiv (double_of_nat (unat (sleep_ticks tsc (tm_reads tm) 1))) 2 = rnd (real (unat (sleep_ticks tsc (tm_reads tm) 1)) / 2)"
    "fdiv (double_of_nat (unat (sleep_ticks tsc (tm_reads tm) 2))) 3 = rnd (real (unat (sleep_ticks tsc (tm_reads tm) 2)) / 3)"
    unfolding fdiv_def double_of_nat_def rnd_of_nat [OF assms(1)] rnd_of_nat [OF assms(2)] by (rule refl)+
  then show ?thesis by (simp add: sanity_check_def timed_sleep_eq sleep_ticks_def Let_def numeral_eq_Suc)
qed

section \<open>Properties\<close>

text \<open>C23. \<open>HRT_CALIBRATE\<close> ends whatever the counter does, with the least number of ticks it has seen
  in a sleep: \<open>n\<close> sleeps were timed, the frequency is a lower bound of all of them, it is the ticks
  of the fourth last (the three after it were not smaller), or the initial value of \<open>min\<close> if the
  first three already were not smaller than that.  Differences are taken modulo \<open>2 ^ 64\<close>, so a
  counter that wraps around does no harm.\<close>

theorem calibration_finds_least:
  "\<exists>n. tm_reads (HRT_CALIBRATE tsc tm) = tm_reads tm + 2 * n \<and> 3 \<le> n
     \<and> (\<forall>i < n. tm_freq (HRT_CALIBRATE tsc tm) \<le> tsc (Suc (tm_reads tm + 2 * i)) - tsc (tm_reads tm + 2 * i))
     \<and> (n = 3 \<and> tm_freq (HRT_CALIBRATE tsc tm) = tm_min tm
        \<or> (\<exists>i. n = i + 4 \<and> tm_freq (HRT_CALIBRATE tsc tm)
              = tsc (Suc (tm_reads tm + 2 * i)) - tsc (tm_reads tm + 2 * i)))"
proof -
  obtain n where n: "tm_reads (calibrate_loop tsc 0 tm) = tm_reads tm + 2 * n"
      "calibrated tsc (tm_reads tm) (tm_min tm) 0 n (tm_min (calibrate_loop tsc 0 tm))"
    using calibrate_loop_result [OF refl, of 0] by auto
  have "n = 3 \<and> tm_min (calibrate_loop tsc 0 tm) = tm_min tm
      \<or> (\<exists>i. n = i + 4 \<and> tm_min (calibrate_loop tsc 0 tm) = sleep_ticks tsc (tm_reads tm) i)"
    using n(2) unfolding calibrated_def by (metis add.right_neutral le_add_diff_inverse2)
  then show ?thesis using n by (intro exI [of _ n]) (auto simp: HRT_CALIBRATE_def Let_def calibrated_def sleep_ticks_def)
qed

theorem calibration_finds_least_witness:
  "tm_freq (HRT_CALIBRATE (\<lambda>k. of_nat (100 * k)) new_timer) \<le> 100"
proof -
  let ?tsc = "\<lambda>k. of_nat (100 * k) :: uint64"
  obtain n where "3 \<le> n" "\<forall>i < n. tm_freq (HRT_CALIBRATE ?tsc new_timer)
      \<le> ?tsc (Suc (tm_reads new_timer + 2 * i)) - ?tsc (tm_reads new_timer + 2 * i)"
    using calibration_finds_least [of ?tsc new_timer] by blast
  then have "tm_freq (HRT_CALIBRATE ?tsc new_timer) \<le> ?tsc (Suc (tm_reads new_timer + 2 * 0)) - ?tsc (tm_reads new_timer + 2 * 0)"
    by (metis gr0I not_numeral_le_zero)
  then show ?thesis by (simp add: new_timer_def)
qed

text \<open>C21. The clock: with a known frequency a reading never is an error, a later count gives a later
  time, and the time differs from the exact \<open>1000 * ticks / frequency\<close> milliseconds by less than one
  part in \<open>2 ^ 50\<close> after the four roundings of \<open>HRT_GET_MSEC\<close>.\<close>

theorem clock_is_monotone_and_accurate:
  assumes "tm_freq tm \<noteq> 0" and "tsc (tm_reads tm) \<le> tsc (Suc (tm_reads tm))"
  shows "\<exists>t1 t2 tm1 tm2. get_clock_time tsc tm = Some (t1, tm1) \<and> get_clock_time tsc tm1 = Some (t2, tm2)
    \<and> 0 \<le> t1 \<and> t1 \<le> t2
    \<and> \<bar>t1 - 1000 * real (unat (tsc (tm_reads tm))) / real (unat (tm_freq tm))\<bar>
        \<le> (1000 * real (unat (tsc (tm_reads tm))) / real (unat (tm_freq tm))) / 2 ^ 50"
  using assms msec_of_mono [OF assms(2)] msec_of_nonneg msec_of_accurate [OF assms(1)]
  unfolding get_clock_time_eq msec_of_def by simp

theorem clock_is_monotone_and_accurate_witness:
  "\<exists>t1 t2 tm1 tm2. get_clock_time (\<lambda>k. of_nat (5 * k)) (new_timer\<lparr>tm_freq := 1000, tm_reads := 1\<rparr>) = Some (t1, tm1)
    \<and> get_clock_time (\<lambda>k. of_nat (5 * k)) tm1 = Some (t2, tm2) \<and> t1 \<le> t2"
  using clock_is_monotone_and_accurate [of "new_timer\<lparr>tm_freq := 1000, tm_reads := 1\<rparr>" "\<lambda>k. of_nat (5 * k)"]
  by (auto simp: new_timer_def)

text \<open>\<open>sanity_check\<close> tolerates about 5 %: when the ticks per second of the sleeps of one, two and
  three seconds differ by at most 4 % from one sleep to the next, the timer passes; when they differ
  by more than 6 %, it does not, whatever the roundings.\<close>

theorem sanity_check_tolerance:
  assumes "s = sleep_ticks tsc (tm_reads tm) 0" and "s2 = sleep_ticks tsc (tm_reads tm) 1"
    and "s3 = sleep_ticks tsc (tm_reads tm) 2"
    and "unat s < 2 ^ 53" and "unat s2 < 2 ^ 53" and "unat s3 < 2 ^ 53"
  shows "(\<bar>real (unat s) - real (unat s2) / 2\<bar> \<le> 4 / 100 * real (unat s)
      \<and> \<bar>real (unat (s2 div 2)) - real (unat s3) / 3\<bar> \<le> 4 / 100 * real (unat (s2 div 2))
      \<longrightarrow> fst (sanity_check print tsc tm))
    \<and> (\<bar>real (unat s) - real (unat s2) / 2\<bar> > 6 / 100 * real (unat s)
      \<or> \<bar>real (unat (s2 div 2)) - real (unat s3) / 3\<bar> > 6 / 100 * real (unat (s2 div 2))
      \<longrightarrow> \<not> fst (sanity_check print tsc tm))"
proof -
  have half: "unat (s2 div 2) < 2 ^ 53" using assms(5) by (simp add: unat_div)
  have q2: "real n / 2 = 0 \<or> 1 / 4 \<le> real n / 2" and q3: "real n / 3 = 0 \<or> 1 / 4 \<le> real n / 3" for n
    by (cases n; simp)+
  have sane: "fst (sanity_check print tsc tm)
    = (\<not> bogus s (rnd (real (unat s2) / 2)) \<and> \<not> bogus (s2 div 2) (rnd (real (unat s3) / 3)))"
    using sanity_check_sane [of tsc tm print] assms by simp
  show ?thesis unfolding sane
    using not_bogus [OF assms(4) q2 [of "unat s2"]] is_bogus [OF assms(4) q2 [of "unat s2"]]
      not_bogus [OF half q3 [of "unat s3"]] is_bogus [OF half q3 [of "unat s3"]] by blast
qed

theorem sanity_check_tolerance_witness:
  "fst (sanity_check True (\<lambda>k. [0, 1000, 5000, 7010, 9000, 12010] ! k) new_timer)"
proof -
  let ?tsc = "\<lambda>k. [0, 1000, 5000, 7010, 9000, 12010] ! k :: uint64"
  have e: "1000 = sleep_ticks ?tsc (tm_reads new_timer) 0" "2010 = sleep_ticks ?tsc (tm_reads new_timer) 1"
    "3010 = sleep_ticks ?tsc (tm_reads new_timer) 2"
    by (simp_all add: sleep_ticks_def new_timer_def)
  show ?thesis using sanity_check_tolerance [OF e, of True] by simp
qed

text \<open>A counter of 1000 ticks per second, for examples.\<close>

definition sample_tsc :: "nat \<Rightarrow> uint64" where
  "sample_tsc k = (if k < 6 then [0, 1000, 1000, 3000, 3000, 6000] ! k else 6000 + 1000 * of_nat ((k - 5) div 2))"

lemma sample_tsc_sleeps:
  "sleep_ticks sample_tsc 0 0 = 1000" "sleep_ticks sample_tsc 0 1 = 2000" "sleep_ticks sample_tsc 0 2 = 3000"
  "sleep_ticks sample_tsc 6 i = 1000"
proof -
  have "(Suc (6 + 2 * i) - 5) div 2 = Suc i" "(6 + 2 * i - 5) div 2 = i" by auto
  then show "sleep_ticks sample_tsc 6 i = 1000" by (simp add: sleep_ticks_def sample_tsc_def algebra_simps)
qed (simp_all add: sleep_ticks_def sample_tsc_def)

lemma sanity_check_reads: "fst (snd (sanity_check print tsc tm)) = tm\<lparr>tm_reads := tm_reads tm + 6\<rparr>"
  by (simp add: sanity_check_def timed_sleep_eq Let_def)

lemma sample_tsc_freq:
  "tm_freq (HRT_CALIBRATE sample_tsc (fst (snd (sanity_check True sample_tsc new_timer)))) = 1000"
proof -
  obtain n where n: "calibrated sample_tsc 6 (NOT 1) 0 n (tm_min (calibrate_loop sample_tsc 0 (new_timer\<lparr>tm_reads := 6\<rparr>)))"
    using calibrate_loop_result [OF refl, of 0 sample_tsc "new_timer\<lparr>tm_reads := 6\<rparr>"] by (auto simp: new_timer_def)
  then have "0 < n" by (auto simp: calibrated_def)
  with n have "tm_min (calibrate_loop sample_tsc 0 (new_timer\<lparr>tm_reads := 6\<rparr>)) \<le> 1000"
    by (auto simp: calibrated_def sample_tsc_sleeps)
  with n have "tm_min (calibrate_loop sample_tsc 0 (new_timer\<lparr>tm_reads := 6\<rparr>)) = 1000"
    by (auto simp: calibrated_def sample_tsc_sleeps)
  then show ?thesis by (simp add: sanity_check_reads HRT_CALIBRATE_def Let_def new_timer_def)
qed

lemma sample_query: "\<exists>out content. query_main True sample_tsc = (0, out, Some content)"
proof -
  have "\<not> bogus 1000 (rnd (real (unat (2000 :: uint64)) / 2))" "\<not> bogus (2000 div 2) (rnd (real (unat (3000 :: uint64)) / 3))"
    by (rule not_bogus; simp)+
  then have "fst (sanity_check True sample_tsc new_timer)"
    using sanity_check_sane [of sample_tsc new_timer True] sample_tsc_sleeps by (simp add: new_timer_def)
  then show ?thesis by (auto simp: query_main_def HRT_INIT_def split: prod.splits)
qed

text \<open>C22. The frequency survives the file: what \<open>query_cpu_freq\<close> writes is what \<open>ftimer_init\<close> reads
  back, for every frequency a \<open>double\<close> represents exactly (below \<open>2 ^ 53\<close> ticks per second).\<close>

theorem cpu_freq_round_trip:
  assumes "query_main True tsc = (0, out, Some content)"
    and "unat (tm_freq (HRT_CALIBRATE tsc (fst (snd (sanity_check True tsc new_timer))))) < 2 ^ 53"
  shows "init_clock_time (Some content) tsc' tm = Some (Returns
    (tm\<lparr>tm_freq := tm_freq (HRT_CALIBRATE tsc (fst (snd (sanity_check True tsc new_timer))))\<rparr>,
     [OStr ''Timer: cycles per sec = '',
      OInt (uint (tm_freq (HRT_CALIBRATE tsc (fst (snd (sanity_check True tsc new_timer)))))), Endl]))"
proof -
  obtain tm1 where tm1: "content = decimal (unat (tm_freq (HRT_CALIBRATE tsc tm1))) @ [newline]"
      "fst (snd (sanity_check True tsc new_timer)) = tm1"
    using assms(1) by (auto simp: query_main_def HRT_INIT_def split: prod.splits if_splits)
  show ?thesis using read_decimal [OF assms(2), of tsc' tm] tm1 by simp
qed


theorem cpu_freq_round_trip_witness:
  "\<exists>out content. query_main True sample_tsc = (0, out, Some content)
     \<and> init_clock_time (Some content) sample_tsc new_timer
       = Some (Returns (new_timer\<lparr>tm_freq := 1000\<rparr>, [OStr ''Timer: cycles per sec = '', OInt 1000, Endl]))"
proof -
  obtain out content where q: "query_main True sample_tsc = (0, out, Some content)" using sample_query by blast
  show ?thesis using q cpu_freq_round_trip [OF q, of sample_tsc new_timer] by (simp add: sample_tsc_freq)
qed

text \<open>What a number is to \<open>strtod\<close>, as a shape of the text: white space, a sign, and the first characters of a
  number, an infinity or NaN.\<close>

definition starts_number :: "string \<Rightarrow> bool" where
  "starts_number t \<longleftrightarrow> (\<exists>d. is_digit d \<and> (t = [d] \<or> t = [CHR ''.'', d])) \<or> map lower t \<in> {''inf'', ''nan''}"

definition holds_number :: "string \<Rightarrow> bool" where
  "holds_number str \<longleftrightarrow> (\<exists>ws sg t rest. str = ws @ sg @ t @ rest \<and> list_all is_space ws \<and> sg \<in> {[], ''+'', ''-''}
     \<and> starts_number t)"

lemma holds_numberI:
  assumes "snd (split_sign (dropWhile is_space str)) = t @ rest" and "starts_number t"
  shows "holds_number str"
proof -
  have "\<exists>sg. dropWhile is_space str = sg @ t @ rest \<and> sg \<in> {[], ''+'', ''-''}"
    using assms(1) by (cases "dropWhile is_space str") (auto split: if_splits)
  then obtain sg where "str = takeWhile is_space str @ sg @ t @ rest" "sg \<in> {[], ''+'', ''-''}"
    by (metis takeWhile_dropWhile_id)
  moreover have "list_all is_space (takeWhile is_space str)" by (auto simp: list_all_iff dest: set_takeWhileD)
  ultimately show ?thesis using assms(2) unfolding holds_number_def by blast
qed

lemma lower_zero:
  assumes "lower c = CHR ''0''"
  shows "c = CHR ''0''"
proof (cases "65 \<le> (of_char c :: nat) \<and> (of_char c :: nat) \<le> 90")
  case True
  then have "(of_char (char_of ((of_char c :: nat) + 32)) :: nat) = of_char c + 32" by (simp add: of_char_of)
  then have "(of_char (lower c) :: nat) = of_char c + 32" using True by (simp add: lower_def)
  then show ?thesis using assms True by simp
qed (use assms in \<open>auto simp: lower_def\<close>)

lemma strtod_no_number:
  assumes "\<not> holds_number str"
  shows "strtod str = Some 0"
proof -
  define s1 where "s1 = snd (split_sign (dropWhile is_space str))"
  obtain neg where neg: "split_sign (dropWhile is_space str) = (neg, s1)" by (simp add: s1_def prod_eq_iff)
  have no: "\<not> starts_number t" if "s1 = t @ rest" for t rest
    using holds_numberI assms that by (auto simp: s1_def)
  have real: "\<not> no_real s1"
    using no [of "take 3 s1" "drop 3 s1"] by (simp add: no_real_def starts_number_def)
  have dig: "takeWhile is_digit s1 = []"
    using no [of "[hd s1]" "tl s1"] by (cases s1) (auto simp: starts_number_def)
  moreover have "fst (split_fraction is_digit s1) = []"
  proof (cases s1)
    case (Cons c cs)
    then show ?thesis
      using no [of "[c, hd cs]" "tl cs"] by (cases cs) (auto simp: starts_number_def)
  qed simp
  moreover have "dropWhile is_digit s1 = s1" using dig by (metis append_Nil takeWhile_dropWhile_id)
  moreover have "hex_body s1 = None"
  proof (cases s1)
    case (Cons c cs)
    then have "\<not> is_digit c" using dig by (simp split: if_splits)
    moreover have "is_digit c" if "lower c = CHR ''0''" using lower_zero [OF that] by (simp add: is_digit_def)
    ultimately show ?thesis using Cons by (auto simp: hex_body_def numeral_2_eq_2)
  qed (simp add: hex_body_def)
  ultimately show ?thesis
    using real unfolding strtod_def neg Let_def by (simp add: split_beta)
qed

text \<open>C35. What \<open>ftimer_init\<close> does without a usable frequency: without a file it calibrates and reports what it
  found; an empty file ends the process with status -1; and a file whose first line (as much of it as
  the buffer holds) has no number at its start, nor an infinity or NaN, after white space and a sign, is
  accepted in silence, with frequency 0.\<close>

theorem init_clock_time_cases:
  assumes "fgets 128 content = Some buff" and "\<not> holds_number buff"
  shows "init_clock_time None tsc tm = Some (Returns (HRT_CALIBRATE tsc tm,
        [OStr ''# initializing x86-64 timer (takes some seconds)'', Endl,
         OStr ''Timer: cycles per sec = '', OInt (uint (tm_min (HRT_CALIBRATE tsc tm))), Endl]))
    \<and> init_clock_time (Some []) tsc tm = Some (Exits (- 1))
    \<and> init_clock_time (Some content) tsc tm
        = Some (Returns (tm\<lparr>tm_freq := 0\<rparr>, [OStr ''Timer: cycles per sec = '', OInt 0, Endl]))"
proof (intro conjI)
  show "init_clock_time (Some content) tsc tm
      = Some (Returns (tm\<lparr>tm_freq := 0\<rparr>, [OStr ''Timer: cycles per sec = '', OInt 0, Endl]))"
    using assms(1) strtod_no_number [OF assms(2)] by (simp add: init_clock_time_def double_to_uint64_def)
qed (simp_all add: init_clock_time_def fgets_def HRT_INIT_def HRT_CALIBRATE_def Let_def)

lemma space_no_number: "\<not> is_space (CHR ''n'')" "\<not> is_space (CHR ''o'')" "\<not> is_space (CHR ''e'')"
  by (simp_all add: is_space_def)

theorem init_clock_time_cases_witness:
  "init_clock_time (Some ''none'') sample_tsc new_timer
   = Some (Returns (new_timer\<lparr>tm_freq := 0\<rparr>, [OStr ''Timer: cycles per sec = '', OInt 0, Endl]))"
proof -
  have "fgets 128 ''none'' = Some ''none''" by (simp add: fgets_def newline_def numeral_eq_Suc)
  moreover have "\<not> holds_number ''none''"
    by (auto simp: holds_number_def starts_number_def Cons_eq_append_conv append_eq_Cons_conv space_no_number is_digit_def lower_def)
  ultimately show ?thesis using init_clock_time_cases [of "''none''" "''none''" sample_tsc new_timer] by simp
qed

end
