(* ===== verification/Tool_Lifecycle.thy ===== *)
theory Tool_Lifecycle
  imports Ompt_Interface Critical_Path Total_Time Env_Tokens Callback_Graph Tsc_Timer
begin

text \<open>
  \<open>src/init.cc\<close>: what the tool does when the OpenMP runtime loads and unloads it.
  \<open>init_libtdg\<close> starts the timer, registers the callbacks and prepares PAPI; \<open>finalize_libtdg\<close> closes the last
  node, builds the metrics named in \<open>TDG_TOOL_METRICS\<close>, runs them over the graph and frees it.

  From outside come the content of \<open>.cpu_freq\<close> (\<open>None\<close> when there is no such file), the time stamp
  counter, the values of the environment variables, which functions the runtime's lookup
  finds, which callbacks it accepts, the PAPI functions, and which files can be opened.  The
  \<open>Metric*\<close> array is allocated uninitialised, so an entry is an option.
\<close>

section \<open>Initialisation\<close>

text \<open>\<open>INIT_CALLBACK\<close>: the macro parameter stands inside the string literal of the message, so the
  text is the same for every callback.\<close>

definition init_callback :: "(ompt_callbacks \<Rightarrow> callback \<Rightarrow> int) \<Rightarrow> callback \<Rightarrow> out_text \<Rightarrow> out_text" where
  "init_callback callback_set func out =
     (if callback_set (event_of func) func \<noteq> set_result_code ompt_set_always then
        out @ [OStr ''libtdg: cb_##func set failed'', Endl]
      else out)"

definition init_papi_events :: "bool \<Rightarrow> bool \<Rightarrow> (string \<Rightarrow> int option) \<Rightarrow> string option \<Rightarrow> tool
    \<Rightarrow> tool outcome option" where
  "init_papi_events library_ok thread_ok name_to_code papi_metrics_env s =
     (if \<not> library_ok then Some (Exits (- 1))
      else if \<not> thread_ok then Some (Exits 1)
      else do {
        tokens_v \<leftarrow> parse_tokens papi_metrics_env [];
        let n = (word_of_nat (length tokens_v) :: uint32);
        let codes = map name_to_code (take (unat n) tokens_v);
        Some (if None \<in> set codes then Exits (- 1)
              else Returns (s\<lparr>t_papiNumEvents := n, t_papiEvents := map the codes\<rparr>)) })"

definition new_tool :: "(nat \<Rightarrow> double) \<Rightarrow> (nat \<Rightarrow> (nat \<Rightarrow> int) option) \<Rightarrow> tool" where
  "new_tool clock papi = \<lparr>g_heap = Map.empty, g_brk = 0, g_nextId = 1, g_graphNodes = [],
     t_finalNode = None, t_tasks = Map.empty, t_ws = Map.empty, t_pars = Map.empty,
     t_threads = Map.empty, t_brk = 0, t_taskPtr = (\<lambda>_. None), t_parPtr = (\<lambda>_. None),
     t_thrPtr = (\<lambda>_. None), t_clock = clock, t_clockCalls = 0, t_papi = papi, t_papiCalls = 0,
     t_papiNumEvents = 0, t_papiEvents = []\<rparr>"

definition init_libtdg :: "string option \<Rightarrow> (nat \<Rightarrow> uint64) \<Rightarrow> bool \<Rightarrow> (ompt_callbacks \<Rightarrow> callback \<Rightarrow> int) \<Rightarrow> bool \<Rightarrow> bool
    \<Rightarrow> (string \<Rightarrow> int option) \<Rightarrow> string option \<Rightarrow> bool \<Rightarrow> tool \<Rightarrow> (tool \<times> out_text) outcome option" where
  "init_libtdg cpufreq_file tsc has_callback_set callback_set library_ok thread_ok name_to_code
      papi_metrics_env has_thread_data s = do {
     let out = [OStr ''libtdg: initialize...'', Endl];
     ftimer_init \<leftarrow> init_clock_time cpufreq_file tsc new_timer;
     (case ftimer_init of
        Exits c \<Rightarrow> Some (Exits c)
      | Returns (tm, timer_out) \<Rightarrow>
          if \<not> has_callback_set then Some (Exits (- 1))
          else do {
            let out1 = fold (init_callback callback_set) registered_callbacks (out @ timer_out);
            r \<leftarrow> init_papi_events library_ok thread_ok name_to_code papi_metrics_env s;
            (case r of
               Exits c \<Rightarrow> Some (Exits c)
             | Returns s1 \<Rightarrow>
                 if \<not> has_thread_data then Some (Exits (- 1))
                 else do {
                   clock \<leftarrow> clock_from tsc tm;
                   Some (Returns (s1\<lparr>t_clock := clock\<rparr>, out1)) }) }) }"

text \<open>With frequency 0 every later reading of the clock is an infinity or NaN, which the model's
  doubles do not have; such a start is outside the model (\<open>None\<close>).\<close>

section \<open>The metrics\<close>

datatype metric =
  TimMetric TotalTimeMetric | CriMetric CriticalPathMetric | DotMetric string | LogMetric string

definition make_metric :: "string \<Rightarrow> metric option" where
  "make_metric token =
     (if token = ''tim'' then Some (TimMetric new_TotalTimeMetric)
      else if token = ''cri'' then Some (CriMetric new_CriticalPathMetric)
      else if token = ''dot'' then Some (DotMetric ''tdg.dot'')
      else if token = ''log'' then Some (LogMetric ''chunks.log'')
      else None)"

fun init_metric :: "'a tdg_scheme \<Rightarrow> metric \<Rightarrow> metric option" where
  "init_metric s (TimMetric m) = map_option TimMetric (tt_init s m)"
| "init_metric s m = Some m"

definition cp_printMetric :: "nat \<Rightarrow> CriticalPathMetric \<Rightarrow> 'a tdg_scheme
    \<Rightarrow> (out_text \<times> 'a tdg_scheme) option" where
  "cp_printMetric depth m s = do {
     (_, m', s') \<leftarrow> cp_getMetric depth m s;
     len \<leftarrow> cp_len m';
     Some ([OStr ''Longest (critical) path (time ms): '', ODouble (cp_time_len m'), Endl,
            OStr ''Longest (critical) path (length): '', OInt len, Endl], s') }"

type_synonym files = "string \<rightharpoonup> out_text"

fun file_result :: "string \<Rightarrow> out_text outcome \<Rightarrow> 'a tdg_scheme \<times> out_text \<times> files
    \<Rightarrow> ('a tdg_scheme \<times> out_text \<times> files) outcome" where
  "file_result name (Exits c) st = Exits c"
| "file_result name (Returns txt) (s, out, fs) = Returns (s, out, fs(name \<mapsto> txt))"

fun print_metric :: "nat \<Rightarrow> (string \<Rightarrow> bool) \<Rightarrow> metric \<Rightarrow> 'a tdg_scheme \<times> out_text \<times> files
    \<Rightarrow> ('a tdg_scheme \<times> out_text \<times> files) outcome option" where
  "print_metric depth is_open (TimMetric m) (s, out, fs) = do {
     txt \<leftarrow> tt_printMetric m;
     Some (Returns (s, out @ txt, fs)) }"
| "print_metric depth is_open (CriMetric m) (s, out, fs) = do {
     (txt, s') \<leftarrow> cp_printMetric depth m s;
     Some (Returns (s', out @ txt, fs)) }"
| "print_metric depth is_open (DotMetric name) (s, out, fs) = do {
     r \<leftarrow> printDotFile (is_open name) s;
     Some (file_result name r (s, out, fs)) }"
| "print_metric depth is_open (LogMetric name) (s, out, fs) = do {
     r \<leftarrow> log_printMetric (is_open name) s;
     Some (file_result name r (s, out, fs)) }"

fun print_metrics :: "nat \<Rightarrow> (string \<Rightarrow> bool) \<Rightarrow> metric list \<Rightarrow> 'a tdg_scheme \<times> out_text \<times> files
    \<Rightarrow> ('a tdg_scheme \<times> out_text \<times> files) outcome option" where
  "print_metrics depth is_open [] st = Some (Returns st)"
| "print_metrics depth is_open (m # ms) st = do {
     r \<leftarrow> print_metric depth is_open m st;
     (case r of Exits c \<Rightarrow> Some (Exits c) | Returns st' \<Rightarrow> print_metrics depth is_open ms st') }"

section \<open>Finalisation\<close>

text \<open>\<open>~Graph\<close>: deletes every node of the index; the map itself goes with the object.\<close>

definition delete_graph :: "'a tdg_scheme \<Rightarrow> 'a tdg_scheme option" where
  "delete_graph s = do {
     s' \<leftarrow> foldM (\<lambda>(i, a). delete_node a) (g_graphNodes s) s;
     Some (s'\<lparr>g_graphNodes := []\<rparr>) }"

text \<open>Reading \<open>g_metrics[i]\<close>, which must have been assigned.\<close>

fun all_assigned :: "'a option list \<Rightarrow> 'a list option" where
  "all_assigned [] = Some []"
| "all_assigned (x # xs) = do { y \<leftarrow> x; ys \<leftarrow> all_assigned xs; Some (y # ys) }"

definition finalize_libtdg :: "nat \<Rightarrow> string option \<Rightarrow> (string \<Rightarrow> bool) \<Rightarrow> tool
    \<Rightarrow> (tool \<times> out_text \<times> files) outcome option" where
  "finalize_libtdg depth metrics_env is_open s = do {
     s1 \<leftarrow> (if t_finalNode s \<noteq> None then add_time_now (t_finalNode s) s else Some s);
     tokens_v \<leftarrow> parse_tokens metrics_env [];
     metrics \<leftarrow> all_assigned (map make_metric (take (unat (word_of_nat (length tokens_v) :: uint32)) tokens_v));
     inited \<leftarrow> all_assigned (map (init_metric s1) metrics);
     r \<leftarrow> print_metrics depth is_open inited (s1, [], Map.empty);
     (case r of
        Exits c \<Rightarrow> Some (Exits c)
      | Returns (s2, out, fs) \<Rightarrow> do {
          s3 \<leftarrow> delete_graph s2;
          Some (Returns (s3\<lparr>t_papiEvents := []\<rparr>, out, fs)) }) }"

section \<open>The analysis leaves the graph usable\<close>

lemma static_fields:
  assumes "static n' = static n"
  shows "n_id n' = n_id n" "n_type n' = n_type n" "n_totalTime n' = n_totalTime n"
    "n_exitEdges n' = n_exitEdges n" "n_entryEdges n' = n_entryEdges n" "printable n' = printable n"
proof -
  note eqs = arg_cong [OF assms, of n_id] arg_cong [OF assms, of n_type]
    arg_cong [OF assms, of n_totalTime] arg_cong [OF assms, of n_exitEdges]
    arg_cong [OF assms, of n_entryEdges] arg_cong [OF assms, of n_loopCounter]
    arg_cong [OF assms, of n_threadId] arg_cong [OF assms, of n_numPapiEvents]
    arg_cong [OF assms, of n_papiVals]
  show "n_id n' = n_id n" "n_type n' = n_type n" "n_totalTime n' = n_totalTime n"
    "n_exitEdges n' = n_exitEdges n" "n_entryEdges n' = n_entryEdges n" "printable n' = printable n"
    using eqs by (simp_all add: static_def printable_def)
qed

lemma static_view_graph:
  assumes "static_view h' = static_view h"
  shows "succs h' = succs h" "preds h' = preds h" "node_ids h' = node_ids h"
    "all_printable h \<Longrightarrow> all_printable h'" "wf_heap h \<Longrightarrow> wf_heap h'"
proof -
  note dom = static_view_eqD(1) [OF assms]
  have cases: "h a = None \<and> h' a = None \<or> (\<exists>n n'. h a = Some n \<and> h' a = Some n' \<and> static n' = static n)" for a
  proof (cases "h a")
    case None
    then have "a \<notin> dom h'" by (simp add: dom domIff)
    with None show ?thesis by (simp add: domIff)
  next
    case (Some n)
    then show ?thesis using static_view_eqD(2) [OF assms Some] by simp
  qed
  have at: "succs h' a = succs h a \<and> preds h' a = preds h a \<and> node_ids h' a = node_ids h a" for a
    using cases [of a]
  proof (elim disjE exE conjE)
    fix n n' assume n: "h a = Some n" "h' a = Some n'" "static n' = static n"
    then show ?thesis using static_fields(1,4,5) [OF n(3)] by (simp add: succs_def preds_def node_ids_def)
  qed (simp add: succs_def preds_def node_ids_def)
  then show su: "succs h' = succs h" and pr: "preds h' = preds h" and "node_ids h' = node_ids h"
    by (simp_all add: fun_eq_iff)
  show "all_printable h'" if "all_printable h"
    unfolding all_printable_def
  proof (intro allI impI)
    fix a n' assume "h' a = Some n'"
    then obtain n where n: "h a = Some n" "static n' = static n" using cases [of a] by auto
    then show "printable n'" using that static_fields(6) [OF n(2)] by (auto simp: all_printable_def)
  qed
  show "wf_heap h'" if "wf_heap h"
  proof -
    have "own_heap h'"
      unfolding own_heap_def
    proof (intro allI impI)
      fix a n' assume "h' a = Some n'"
      then obtain n where n: "h a = Some n" "static n' = static n" using cases [of a] by auto
      then show "own_edges a n'"
        using own_heapD [OF wf_heapD(4) [OF that] n(1)] static_fields(4,5) [OF n(2)]
        by (simp add: own_edges_def)
    qed
    then show ?thesis using that by (simp add: wf_heap_def dom su pr)
  qed
qed

lemma analysed_wf:
  assumes "analysed s s'" and "wf_tdg s" shows "wf_tdg s'"
proof -
  have sv: "static_view (g_heap s') = static_view (g_heap s)" and eq: "s' = s\<lparr>g_heap := g_heap s'\<rparr>"
    using assms(1) by (simp_all add: analysed_def)
  have "wf_heap (g_heap s)" using assms(2) by (simp add: wf_tdg_def)
  then have "wf_tdg (s\<lparr>g_heap := g_heap s'\<rparr>)"
    using static_view_graph(3,5) [OF sv] static_view_eqD(1) [OF sv] by (intro wf_tdg_heap [OF assms(2)])
  then show ?thesis using eq by simp
qed

section \<open>A second analysis\<close>

lemma topoSort_all_visited:
  assumes "index_ok s" and "visited_set (g_heap s) = dom (g_heap s)"
  shows "topoSort depth [] s = Some ([], s)"
proof -
  have "visit_unmarked depth a (g_heap s, l) = Some (g_heap s, l)" if "a \<in> dom (g_heap s)" for a l
  proof -
    have "a \<in> visited_set (g_heap s)" using that assms(2) by simp
    then show ?thesis by (auto simp: visit_unmarked_def visited_set_def split: option.splits)
  qed
  then have "foldM (visit_unmarked depth) as (g_heap s, []) = Some (g_heap s, [])"
    if "set as \<subseteq> dom (g_heap s)" for as
    using that by (induction as) auto
  then show ?thesis
    using graphNodes_iter(2) [OF assms(1)] by (simp add: topoSort_def order_by_level_def)
qed

lemma computeCriticalPath_all_visited:
  assumes "index_ok s" and "visited_set (g_heap s) = dom (g_heap s)"
  shows "computeCriticalPath depth m s = Some (m\<lparr>cp_time_len := 0, cp_len := Some 0\<rparr>, s)"
  by (simp add: computeCriticalPath_def topoSort_all_visited [OF assms] mark_critical.simps)

section \<open>Running the metrics\<close>

text \<open>A graph the metrics can run on, before or after a critical-path analysis.\<close>

definition ready :: "nat \<Rightarrow> 'a tdg_scheme \<Rightarrow> bool" where
  "ready depth s \<longleftrightarrow> wf_tdg s \<and> acyclic (edge_rel (g_heap s)) \<and> all_printable (g_heap s)
     \<and> card (dom (g_heap s)) \<le> depth
     \<and> (unanalysed (g_heap s) \<or> visited_set (g_heap s) = dom (g_heap s))"

fun usable :: "metric \<Rightarrow> bool" where
  "usable (TimMetric m) \<longleftrightarrow> tt_printMetric m \<noteq> None"
| "usable (CriMetric m) \<longleftrightarrow> m = new_CriticalPathMetric"
| "usable _ \<longleftrightarrow> True"

lemma ready_analysed: "ready depth s \<Longrightarrow> analysed s s' \<Longrightarrow> ready depth s'"
proof -
  assume r: "ready depth s" and an: "analysed s s'"
  then have sv: "static_view (g_heap s') = static_view (g_heap s)" by (simp add: analysed_def)
  note g = static_view_graph [OF sv]
  have "wf_tdg s'" using r an analysed_wf by (auto simp: ready_def)
  moreover have "all_printable (g_heap s')" using r g(4) by (simp add: ready_def)
  ultimately show ?thesis
    using r an by (simp add: ready_def edge_rel_def g(1) static_view_eqD(1) [OF sv] analysed_def)
qed

lemma critical_ready:
  assumes "ready depth s"
  shows "\<exists>m' s' L. computeCriticalPath depth m s = Some (m', s') \<and> cp_len m' = Some L \<and> ready depth s'"
proof (cases "unanalysed (g_heap s)")
  case True
  then obtain m' s' L where "computeCriticalPath depth m s = Some (m', s')" "cp_len m' = Some L" "analysed s s'"
    using computeCriticalPath_runs [of s depth m] assms unfolding ready_def by blast
  with ready_analysed [OF assms] show ?thesis by blast
next
  case False
  then have "visited_set (g_heap s) = dom (g_heap s)" "index_ok s"
    using assms by (simp_all add: ready_def wf_tdg_def)
  from computeCriticalPath_all_visited [OF this(2,1)] assms show ?thesis by simp
qed

lemma print_metric_ready:
  assumes "ready depth s" and "usable m" and opn: "\<forall>f. is_open f"
  shows "\<exists>s' out' fs'. print_metric depth is_open m (s, out, fs) = Some (Returns (s', out', fs'))
    \<and> ready depth s'"
proof (cases m)
  case (TimMetric tm)
  with assms show ?thesis by auto
next
  case (CriMetric cm)
  obtain m' s' L where "computeCriticalPath depth cm s = Some (m', s')" "cp_len m' = Some L" "ready depth s'"
    using critical_ready [OF assms(1)] by blast
  then show ?thesis
    using CriMetric assms(2) by (simp add: cp_printMetric_def cp_getMetric_def new_CriticalPathMetric_def)
next
  case (DotMetric f)
  obtain r where "printDotFile True s = Some (Returns r)"
    using printDotFile_runs assms(1) unfolding ready_def by blast
  then show ?thesis using DotMetric assms(1) opn by simp
next
  case (LogMetric f)
  obtain r where "log_printMetric True s = Some (Returns r)"
    using log_printMetric_runs assms(1) unfolding ready_def by blast
  then show ?thesis using LogMetric assms(1) opn by simp
qed

lemma print_metrics_ready:
  assumes "ready depth s" and "\<forall>m \<in> set ms. usable m" and opn: "\<forall>f. is_open f"
  shows "\<exists>s' out' fs'. print_metrics depth is_open ms (s, out, fs) = Some (Returns (s', out', fs'))
    \<and> ready depth s'"
  using assms(1,2)
proof (induction ms arbitrary: s out fs)
  case (Cons m ms)
  obtain s1 out1 fs1 where "print_metric depth is_open m (s, out, fs) = Some (Returns (s1, out1, fs1))"
      "ready depth s1"
    using print_metric_ready [OF Cons.prems(1) _ opn, of m] Cons.prems(2) by fastforce
  then show ?case using Cons.IH [of s1] Cons.prems(2) by auto
qed simp

lemma all_assigned_map:
  "(\<And>x. x \<in> set xs \<Longrightarrow> \<exists>y. f x = Some y \<and> P y) \<Longrightarrow>
   \<exists>ys. all_assigned (map f xs) = Some ys \<and> (\<forall>y \<in> set ys. P y)"
proof (induction xs)
  case (Cons x xs)
  then obtain y ys where "f x = Some y" "P y" "all_assigned (map f xs) = Some ys" "\<forall>y \<in> set ys. P y"
    by (metis list.set_intros)
  then show ?case by simp
qed simp

lemma all_assigned_missing: "None \<in> set xs \<Longrightarrow> all_assigned xs = None"
  by (induction xs) (auto split: bind_splits)

lemma tt_init_usable:
  assumes "index_ok s" and "dom (g_heap s) \<noteq> {}" and "card (dom (g_heap s)) < 2 ^ 32"
  shows "\<exists>m. tt_init s new_TotalTimeMetric = Some m \<and> tt_printMetric m \<noteq> None"
  using tt_init_runs [OF assms] by (auto simp: tt_printMetric_def Let_def)

section \<open>Freeing the graph\<close>

lemma delete_nodes:
  assumes "distinct (map snd ps)" and "set (map snd ps) \<subseteq> dom (g_heap s)"
  shows "foldM (\<lambda>(i, a). delete_node a) ps s = Some (s\<lparr>g_heap := g_heap s |` (- set (map snd ps))\<rparr>)"
  using assms
proof (induction ps arbitrary: s)
  case (Cons p ps)
  obtain i a where p: "p = (i, a)" by (cases p)
  obtain n where n: "g_heap s a = Some n" using Cons.prems p by auto
  define s1 where "s1 = s\<lparr>g_heap := (g_heap s)(a := None)\<rparr>"
  have "b \<in> dom (g_heap s1)" if "b \<in> snd ` set ps" for b
    using Cons.prems that by (auto simp: s1_def p)
  then have "foldM (\<lambda>(i, a). delete_node a) ps s1 = Some (s1\<lparr>g_heap := g_heap s1 |` (- set (map snd ps))\<rparr>)"
    using Cons.prems p by (intro Cons.IH) auto
  moreover have "g_heap s1 |` (- set (map snd ps)) = g_heap s |` (- set (map snd (p # ps)))"
    by (auto simp: s1_def p restrict_map_def fun_eq_iff)
  moreover have "delete_node a s = Some s1" using n by (simp add: delete_node_def s1_def)
  ultimately show ?case by (simp add: p s1_def)
qed (simp add: restrict_map_def)

lemma delete_graph_runs:
  assumes "index_ok s"
  shows "delete_graph s = Some (s\<lparr>g_heap := Map.empty, g_graphNodes := []\<rparr>)"
proof -
  note it = graphNodes_iter [OF assms]
  have "g_heap s |` (- dom (g_heap s)) = Map.empty" by (auto simp: restrict_map_def fun_eq_iff)
  then show ?thesis using delete_nodes [OF it(1), of s] it(2) by (simp add: delete_graph_def)
qed

section \<open>Finalisation as a whole\<close>

lemma grows_ready:
  assumes "grows s s' {} {} k" and "acyclic (edge_rel (g_heap s))" and "heap_ok (g_heap s)"
    and "card (dom (g_heap s)) \<le> depth"
  shows "ready depth s'" and "heap_ok (g_heap s')"
proof -
  note d = growsD [OF assms(1)]
  show ok: "heap_ok (g_heap s')"
    unfolding heap_ok_def
  proof (intro allI impI)
    fix a n' assume n': "g_heap s' a = Some n'"
    then have "a \<in> dom (g_heap s)" using d(2) by auto
    then obtain n where n: "g_heap s a = Some n" by blast
    then have "evolves n n'" using assms(1) n' by (auto simp: grows_def grows0_def nodes_evolve_def)
    then show "fresh_flags n' \<and> printable n'" using assms(3) n by (auto simp: heap_ok_def evolves_def)
  qed
  then have "unanalysed (g_heap s')" "all_printable (g_heap s')"
    by (auto simp: heap_ok_def unanalysed_def all_printable_def fresh_flags_def)
  then show "ready depth s'" using d assms by (simp add: ready_def)
qed

lemma close_final_node:
  assumes "wf_tdg s" and "pred_option (\<lambda>f. f \<in> dom (g_heap s)) (t_finalNode s)"
  shows "\<exists>s1. (if t_finalNode s \<noteq> None then add_time_now (t_finalNode s) s else Some s) = Some s1
    \<and> grows s s1 {} {} 0"
  using timers_ok(1) [OF assms(1)] grows_refl [OF assms(1)] assms(2) by (cases "t_finalNode s") auto

definition metric_names :: "string set" where
  "metric_names = {''tim'', ''cri'', ''dot'', ''log''}"

lemma make_metric_names: "make_metric t \<noteq> None \<longleftrightarrow> t \<in> metric_names"
  by (auto simp: make_metric_def metric_names_def)

lemma init_metric_usable:
  assumes "index_ok s" and "make_metric t = Some m"
    and "t = ''tim'' \<Longrightarrow> dom (g_heap s) \<noteq> {} \<and> card (dom (g_heap s)) < 2 ^ 32"
  shows "\<exists>m'. init_metric s m = Some m' \<and> usable m'"
  using assms tt_init_usable [OF assms(1)] by (auto simp: make_metric_def split: if_splits)

lemma finalize_runs:
  assumes wf: "wf_tdg s" and dag: "acyclic (edge_rel (g_heap s))" and ok: "heap_ok (g_heap s)"
    and final: "pred_option (\<lambda>f. f \<in> dom (g_heap s)) (t_finalNode s)"
    and depth: "card (dom (g_heap s)) \<le> depth"
    and toks: "parse_tokens env [] = Some toks" "set toks \<subseteq> metric_names"
    and tim: "''tim'' \<in> set toks \<Longrightarrow> dom (g_heap s) \<noteq> {} \<and> card (dom (g_heap s)) < 2 ^ 32"
    and opn: "\<forall>f. is_open f"
  shows "\<exists>s' out fs. finalize_libtdg depth env is_open s = Some (Returns (s', out, fs))
    \<and> g_heap s' = Map.empty \<and> g_graphNodes s' = []"
proof -
  obtain s1 where s1: "(if t_finalNode s \<noteq> None then add_time_now (t_finalNode s) s else Some s) = Some s1"
      and g1: "grows s s1 {} {} 0"
    using close_final_node [OF wf final] by blast
  have r1: "ready depth s1" by (rule grows_ready(1) [OF g1 dag ok depth])
  have idx: "index_ok s1" and dom1: "dom (g_heap s1) = dom (g_heap s)"
    using growsD [OF g1] by (simp_all add: wf_tdg_def)
  let ?ts = "take (unat (word_of_nat (length toks) :: uint32)) toks"
  have sub: "set ?ts \<subseteq> set toks" by (rule set_take_subset)
  have "\<exists>m. make_metric t = Some m \<and> (\<exists>m'. init_metric s1 m = Some m' \<and> usable m')" if "t \<in> set ?ts" for t
  proof -
    have t: "t \<in> set toks" using that sub by blast
    then have "make_metric t \<noteq> None" using make_metric_names toks(2) by blast
    then obtain m where "make_metric t = Some m" by blast
    with init_metric_usable [OF idx] tim t show ?thesis by (auto simp: dom1)
  qed
  from all_assigned_map [of ?ts make_metric "\<lambda>m. \<exists>m'. init_metric s1 m = Some m' \<and> usable m'", OF this]
  obtain ms where ms: "all_assigned (map make_metric ?ts) = Some ms"
      "\<forall>m \<in> set ms. \<exists>m'. init_metric s1 m = Some m' \<and> usable m'" by blast
  from all_assigned_map [of ms "init_metric s1" usable] ms(2)
  obtain ms' where ms': "all_assigned (map (init_metric s1) ms) = Some ms'" "\<forall>m \<in> set ms'. usable m" by blast
  obtain s2 out fs where pr: "print_metrics depth is_open ms' (s1, [], Map.empty) = Some (Returns (s2, out, fs))"
      and r2: "ready depth s2"
    using print_metrics_ready [OF r1 ms'(2) opn] by blast
  have "delete_graph s2 = Some (s2\<lparr>g_heap := Map.empty, g_graphNodes := []\<rparr>)"
    using r2 by (intro delete_graph_runs) (simp add: ready_def wf_tdg_def)
  then show ?thesis using s1 toks(1) ms(1) ms'(1) pr by (simp add: finalize_libtdg_def)
qed

lemma finalize_unknown_metric:
  assumes "parse_tokens env [] = Some toks" and "length toks < 2 ^ 32" and "t \<in> set toks" and "t \<notin> metric_names"
  shows "finalize_libtdg depth env is_open s = None"
proof -
  have "take (unat (word_of_nat (length toks) :: uint32)) toks = toks"
    using assms(2) by (simp add: unat_word_of_nat)
  moreover have "None \<in> set (map make_metric toks)"
    using make_metric_names [of t] assms(3,4) by (metis image_eqI list.set_map)
  ultimately show ?thesis
    using assms(1) all_assigned_missing [of "map make_metric toks"]
    by (simp add: finalize_libtdg_def bind_eq_None_conv)
qed

section \<open>Properties\<close>

definition sample_session :: tool where
  "sample_session = (new_tool real (\<lambda>_. None))\<lparr>g_heap := g_heap sample_graph, g_brk := 3, g_nextId := 3,
     g_graphNodes := [(0, 0), (1, 1), (2, 2)], t_finalNode := Some 2\<rparr>"

lemma sample_session_ok:
  "wf_tdg sample_session" "acyclic (edge_rel (g_heap sample_session))" "heap_ok (g_heap sample_session)"
  "pred_option (\<lambda>f. f \<in> dom (g_heap sample_session)) (t_finalNode sample_session)"
  "card (dom (g_heap sample_session)) \<le> 3" "dom (g_heap sample_session) = {0, 1, 2}"
proof -
  have "g_brk sample_graph = 3" "g_nextId sample_graph = 3" "g_graphNodes sample_graph = [(0, 0), (1, 1), (2, 2)]"
    by (simp_all add: sample_graph_def)
  then show "wf_tdg sample_session"
    using wf_sample by (simp add: wf_tdg_def ids_ok_def index_ok_def sample_session_def new_tool_def)
  show "acyclic (edge_rel (g_heap sample_session))" using acyclic_sample by (simp add: sample_session_def)
  have "unanalysed (g_heap sample_graph)" "all_printable (g_heap sample_graph)"
    by (rule sample_unanalysed sample_printable)+
  then show "heap_ok (g_heap sample_session)"
    by (auto simp: sample_session_def heap_ok_def unanalysed_def all_printable_def fresh_flags_def)
  show "pred_option (\<lambda>f. f \<in> dom (g_heap sample_session)) (t_finalNode sample_session)"
    "card (dom (g_heap sample_session)) \<le> 3" "dom (g_heap sample_session) = {0, 1, 2}"
    by (simp_all add: sample_session_def sample_dom)
qed

definition critical_report :: "double \<Rightarrow> int \<Rightarrow> out_text" where
  "critical_report t len = [OStr ''Longest (critical) path (time ms): '', ODouble t, Endl,
     OStr ''Longest (critical) path (length): '', OInt len, Endl]"

lemma print_critical:
  assumes "wf_tdg s" and "acyclic (edge_rel (g_heap s))" and "unanalysed (g_heap s)"
    and "card (dom (g_heap s)) \<le> depth"
  shows "\<exists>T L s'. print_metric depth is_open (CriMetric new_CriticalPathMetric) (s, out, fs)
      = Some (Returns (s', out @ critical_report T L, fs)) \<and> analysed s s'
    \<and> best_path (g_heap s) (time_of_path (g_heap s)) 0 T \<and> best_path (g_heap s) edges_of_path 0 L"
proof -
  obtain m' s' L where "computeCriticalPath depth new_CriticalPathMetric s = Some (m', s')" "cp_len m' = Some L"
      "analysed s s'" "best_path (g_heap s) (time_of_path (g_heap s)) 0 (cp_time_len m')"
      "best_path (g_heap s) edges_of_path 0 L"
    using computeCriticalPath_runs [OF assms, of new_CriticalPathMetric] by blast
  then show ?thesis
    by (intro exI [of _ "cp_time_len m'"] exI [of _ L] exI [of _ s'])
      (simp add: cp_printMetric_def cp_getMetric_def new_CriticalPathMetric_def critical_report_def)
qed

lemma print_critical_again:
  assumes "index_ok s" and "visited_set (g_heap s) = dom (g_heap s)"
  shows "print_metric depth is_open (CriMetric new_CriticalPathMetric) (s, out, fs)
    = Some (Returns (s, out @ critical_report 0 0, fs))"
  using computeCriticalPath_all_visited [OF assms]
  by (simp add: cp_printMetric_def cp_getMetric_def new_CriticalPathMetric_def critical_report_def)

text \<open>What \<open>finalize_libtdg\<close> does for a fixed value of \<open>TDG_TOOL_METRICS\<close> whose metrics need no preparation.\<close>

lemma finalize_steps:
  assumes "(if t_finalNode s \<noteq> None then add_time_now (t_finalNode s) s else Some s) = Some s1"
    and "parse_tokens env [] = Some toks" and "length toks < 2 ^ 32"
    and "map make_metric toks = map Some ms" and "\<forall>m \<in> set ms. init_metric s1 m = Some m"
  shows "finalize_libtdg depth env is_open s = do {
     r \<leftarrow> print_metrics depth is_open ms (s1, [], Map.empty);
     (case r of
        Exits c \<Rightarrow> Some (Exits c)
      | Returns (s2, out, fs) \<Rightarrow> do {
          s3 \<leftarrow> delete_graph s2;
          Some (Returns (s3\<lparr>t_papiEvents := []\<rparr>, out, fs)) }) }"
proof -
  have tk: "take (unat (word_of_nat (length toks) :: uint32)) toks = toks" using assms(3) by (simp add: unat_word_of_nat)
  have aa: "all_assigned (map Some xs) = Some xs" for xs :: "metric list" by (induction xs) auto
  have "map (init_metric s1) ms = map Some ms" using assms(5) by simp
  then have "all_assigned (map (init_metric s1) ms) = Some ms" using aa [of ms] by (simp only:)
  moreover have "all_assigned (map make_metric toks) = Some ms" using assms(4) aa [of ms] by (simp only:)
  ultimately show ?thesis using assms(1,2) by (simp add: finalize_libtdg_def tk)
qed

text \<open>
  \<open>finalize_libtdg\<close> on a graph no metric has run on, with \<open>TDG_TOOL_METRICS\<close> naming known
  metrics in any order and number: it closes the final node, runs every metric, and returns with
  every node freed and an empty index, provided the files can be opened and, for \<open>tim\<close>, that the
  graph has nodes.
\<close>

theorem finalize_reports_and_frees:
  assumes "wf_tdg s" and "acyclic (edge_rel (g_heap s))" and "heap_ok (g_heap s)"
    and "pred_option (\<lambda>f. f \<in> dom (g_heap s)) (t_finalNode s)" and "card (dom (g_heap s)) \<le> depth"
    and "parse_tokens env [] = Some toks" and "set toks \<subseteq> metric_names"
    and "''tim'' \<in> set toks \<longrightarrow> dom (g_heap s) \<noteq> {} \<and> card (dom (g_heap s)) < 2 ^ 32" and "\<forall>f. is_open f"
  shows "\<exists>s' out fs. finalize_libtdg depth env is_open s = Some (Returns (s', out, fs))
    \<and> g_heap s' = Map.empty \<and> g_graphNodes s' = []"
  using finalize_runs [OF assms(1-7) _ assms(9)] assms(8) by blast

theorem finalize_reports_and_frees_witness:
  "\<exists>s' out fs. finalize_libtdg 3 (Some ''tim,cri,dot,log'') (\<lambda>_. True) sample_session = Some (Returns (s', out, fs))
    \<and> g_heap s' = Map.empty \<and> g_graphNodes s' = []"
proof -
  have "parse_tokens (Some ''tim,cri,dot,log'') [] = Some [''tim'', ''cri'', ''dot'', ''log'']"
    using parse_tokens_splits [of "''tim,cri,dot,log''" "[]"] by simp
  from finalize_reports_and_frees [OF sample_session_ok(1-5) this] show ?thesis
    by (simp add: metric_names_def sample_session_ok(6))
qed

text \<open>
  C17. With \<open>TDG_TOOL_METRICS=cri\<close> the report of \<open>finalize_libtdg\<close> shows the time of the heaviest and
  the number of edges of the longest path of the graph with its final node closed, and nothing is
  written to files.
\<close>

theorem finalize_prints_critical_path:
  assumes "wf_tdg s" and "acyclic (edge_rel (g_heap s))" and "heap_ok (g_heap s)"
    and "pred_option (\<lambda>f. f \<in> dom (g_heap s)) (t_finalNode s)" and "card (dom (g_heap s)) \<le> depth"
  shows "\<exists>s1 s' T L. (if t_finalNode s \<noteq> None then add_time_now (t_finalNode s) s else Some s) = Some s1
    \<and> edge_rel (g_heap s1) = edge_rel (g_heap s)
    \<and> finalize_libtdg depth (Some ''cri'') is_open s = Some (Returns (s', critical_report T L, Map.empty))
    \<and> best_path (g_heap s1) (time_of_path (g_heap s1)) 0 T \<and> best_path (g_heap s1) edges_of_path 0 L"
proof -
  obtain s1 where s1: "(if t_finalNode s \<noteq> None then add_time_now (t_finalNode s) s else Some s) = Some s1"
      and g1: "grows s s1 {} {} 0"
    using close_final_node [OF assms(1,4)] by blast
  note d = growsD [OF g1] and r = grows_ready [OF g1 assms(2,3,5)]
  have un: "unanalysed (g_heap s1)" using r(2) by (auto simp: heap_ok_def unanalysed_def fresh_flags_def)
  have ac: "acyclic (edge_rel (g_heap s1))" and dp: "card (dom (g_heap s1)) \<le> depth" using d assms(2,5) by simp_all
  obtain T L s2 where p: "print_metric depth is_open (CriMetric new_CriticalPathMetric) (s1, [], Map.empty)
      = Some (Returns (s2, critical_report T L, Map.empty))" and an: "analysed s1 s2"
      and best: "best_path (g_heap s1) (time_of_path (g_heap s1)) 0 T" "best_path (g_heap s1) edges_of_path 0 L"
    using print_critical [OF d(1) ac un dp, of is_open "[]" Map.empty] by auto
  have "index_ok s2" using analysed_wf [OF an d(1)] by (simp add: wf_tdg_def)
  note del = delete_graph_runs [OF this]
  have "parse_tokens (Some ''cri'') [] = Some [''cri'']" using parse_tokens_splits [of "''cri''" "[]"] by simp
  from finalize_steps [OF s1 this, of "[CriMetric new_CriticalPathMetric]" depth is_open]
  have "finalize_libtdg depth (Some ''cri'') is_open s = Some (Returns
      ((s2\<lparr>g_heap := Map.empty, g_graphNodes := []\<rparr>)\<lparr>t_papiEvents := []\<rparr>, critical_report T L, Map.empty))"
    using p del by (simp add: make_metric_def del: print_metric.simps)
  then show ?thesis using s1 best d(5) by auto
qed

theorem finalize_prints_critical_path_witness:
  "\<exists>s' T L. finalize_libtdg 3 (Some ''cri'') (\<lambda>_. False) sample_session = Some (Returns (s', critical_report T L, Map.empty))"
  using finalize_prints_critical_path [OF sample_session_ok(1-5)] by blast

text \<open>
  C37. The marks of the first traversal are never cleared: with \<open>TDG_TOOL_METRICS=cri,cri\<close> the second
  critical-path metric sorts an empty list and reports time 0 and length 0, whatever the graph.
\<close>

theorem second_critical_path_reports_zero:
  assumes "wf_tdg s" and "acyclic (edge_rel (g_heap s))" and "heap_ok (g_heap s)"
    and "pred_option (\<lambda>f. f \<in> dom (g_heap s)) (t_finalNode s)" and "card (dom (g_heap s)) \<le> depth"
  shows "\<exists>s' T L. finalize_libtdg depth (Some ''cri,cri'') is_open s
    = Some (Returns (s', critical_report T L @ critical_report 0 0, Map.empty))"
proof -
  obtain s1 where s1: "(if t_finalNode s \<noteq> None then add_time_now (t_finalNode s) s else Some s) = Some s1"
      and g1: "grows s s1 {} {} 0"
    using close_final_node [OF assms(1,4)] by blast
  note d = growsD [OF g1] and r = grows_ready [OF g1 assms(2,3,5)]
  have un: "unanalysed (g_heap s1)" using r(2) by (auto simp: heap_ok_def unanalysed_def fresh_flags_def)
  have ac: "acyclic (edge_rel (g_heap s1))" and dp: "card (dom (g_heap s1)) \<le> depth" using d assms(2,5) by simp_all
  obtain T L s2 where p: "print_metric depth is_open (CriMetric new_CriticalPathMetric) (s1, [], Map.empty)
      = Some (Returns (s2, critical_report T L, Map.empty))" and an: "analysed s1 s2"
    using print_critical [OF d(1) ac un dp, of is_open "[]" Map.empty] by auto
  have ix: "index_ok s2" using analysed_wf [OF an d(1)] by (simp add: wf_tdg_def)
  have sv: "static_view (g_heap s2) = static_view (g_heap s1)" and "visited_set (g_heap s2) = dom (g_heap s1)"
    using an unfolding analysed_def by blast+
  then have "visited_set (g_heap s2) = dom (g_heap s2)" using static_view_eqD(1) [OF sv] by (simp only:)
  note p2 = print_critical_again [OF ix this] and del = delete_graph_runs [OF ix]
  have "parse_tokens (Some ''cri,cri'') [] = Some [''cri'', ''cri'']"
    using parse_tokens_splits [of "''cri,cri''" "[]"] by simp
  from finalize_steps [OF s1 this, of "[CriMetric new_CriticalPathMetric, CriMetric new_CriticalPathMetric]" depth is_open]
  have "finalize_libtdg depth (Some ''cri,cri'') is_open s = Some (Returns
      ((s2\<lparr>g_heap := Map.empty, g_graphNodes := []\<rparr>)\<lparr>t_papiEvents := []\<rparr>,
       critical_report T L @ critical_report 0 0, Map.empty))"
    using p p2 del by (simp add: make_metric_def del: print_metric.simps)
  then show ?thesis by blast
qed

theorem second_critical_path_reports_zero_witness:
  "\<exists>s' T L. finalize_libtdg 3 (Some ''cri,cri'') (\<lambda>_. True) sample_session
    = Some (Returns (s', critical_report T L @ critical_report 0 0, Map.empty))"
  by (rule second_critical_path_reports_zero [OF sample_session_ok(1-5)])

text \<open>
  C36. A name in \<open>TDG_TOOL_METRICS\<close> that is none of \<open>tim\<close>, \<open>cri\<close>, \<open>dot\<close> and \<open>log\<close> (an empty one from a
  stray comma, say) leaves its entry of \<open>g_metrics\<close> uninitialised, and \<open>finalize_libtdg\<close> goes on to
  call \<open>init\<close> through it.
\<close>

theorem unknown_metric_is_undefined:
  assumes "parse_tokens env [] = Some toks" and "length toks < 2 ^ 32" and "t \<in> set toks" and "t \<notin> metric_names"
  shows "finalize_libtdg depth env is_open s = None"
  by (rule finalize_unknown_metric [OF assms])

theorem unknown_metric_is_undefined_witness:
  "finalize_libtdg 3 (Some ''cri,'') (\<lambda>_. True) sample_session = None"
proof -
  have "parse_tokens (Some ''cri,'') [] = Some [''cri'', '''']" using parse_tokens_splits [of "''cri,''" "[]"] by simp
  from unknown_metric_is_undefined [OF this, of "''''"] show ?thesis by (simp add: metric_names_def)
qed

text \<open>
  When \<open>tdg.dot\<close> cannot be opened, \<open>finalize_libtdg\<close> with \<open>TDG_TOOL_METRICS=dot\<close> ends the
  process with status -2.
\<close>

theorem dot_file_failure_exits:
  assumes "wf_tdg s" and "pred_option (\<lambda>f. f \<in> dom (g_heap s)) (t_finalNode s)" and "\<not> is_open ''tdg.dot''"
  shows "finalize_libtdg depth (Some ''dot'') is_open s = Some (Exits (- 2))"
proof -
  obtain s1 where s1: "(if t_finalNode s \<noteq> None then add_time_now (t_finalNode s) s else Some s) = Some s1"
    using close_final_node [OF assms(1,2)] by blast
  have "parse_tokens (Some ''dot'') [] = Some [''dot'']" using parse_tokens_splits [of "''dot''" "[]"] by simp
  from finalize_steps [OF s1 this, of "[DotMetric ''tdg.dot'']"] show ?thesis
    using assms(3) by (simp add: make_metric_def printDotFile_def)
qed

theorem dot_file_failure_exits_witness:
  "finalize_libtdg 3 (Some ''dot'') (\<lambda>_. False) sample_session = Some (Exits (- 2))"
  by (rule dot_file_failure_exits [OF sample_session_ok(1,4)]) simp

text \<open>The registrations, each with the event it is for.\<close>

lemma registration_pairs:
  "[(ompt_callback_thread_begin, thread_begin), (ompt_callback_thread_end, thread_end),
    (ompt_callback_parallel_begin, parallel_begin), (ompt_callback_parallel_end, parallel_end),
    (ompt_callback_implicit_task, implicit_task), (ompt_callback_work, work),
    (ompt_callback_task_schedule, task_schedule), (ompt_callback_task_create, task_create),
    (ompt_callback_task_dependences, task_dependences), (ompt_callback_task_dependence, task_dependence),
    (ompt_callback_sync_region, sync_region), (ext_callback_loop, ext_loop), (ext_callback_chunk, ext_chunk)]
   = map (\<lambda>c. (event_of c, c)) registered_callbacks"
  by (simp add: registered_callbacks_def)

lemma failed_registrations:
  "fold (init_callback callback_set) cs out = out @ concat (map (\<lambda>_. [OStr ''libtdg: cb_##func set failed'', Endl])
     (filter (\<lambda>(e, c). callback_set e c \<noteq> 4) (map (\<lambda>c. (event_of c, c)) cs)))"
  by (induction cs arbitrary: out) (simp_all add: init_callback_def)

text \<open>
  C34. \<open>init_libtdg\<close>: the cases in which it ends the process, in the order it checks them, with their
  exit statuses; otherwise it returns with the clock running at the frequency the timer found, and
  the counters named in \<open>TDG_PAPI_METRICS\<close> set up in order, having printed the timer's report and one
  line for every callback the runtime did not accept when asked to register it for the event of its name, in the
  order of the registrations.
\<close>

theorem init_libtdg_outcomes:
  assumes "parse_tokens papi_env [] = Some toks" and "length toks < 2 ^ 32"
    and "init_clock_time cpufreq tsc new_timer = Some (Returns (tm, timer_out))" and "clock_from tsc tm = Some clock"
  shows "init_libtdg (Some []) tsc has_set callback_set lib_ok thr_ok code papi_env has_td s = Some (Exits (- 1))
   \<and> init_libtdg cpufreq tsc has_set callback_set lib_ok thr_ok code papi_env has_td s = Some (
     if \<not> has_set then Exits (- 1)
     else if \<not> lib_ok then Exits (- 1)
     else if \<not> thr_ok then Exits 1
     else if \<exists>t \<in> set toks. code t = None then Exits (- 1)
     else if \<not> has_td then Exits (- 1)
     else Returns (s\<lparr>t_papiNumEvents := word_of_nat (length toks), t_papiEvents := map (the \<circ> code) toks, t_clock := clock\<rparr>,
       [OStr ''libtdg: initialize...'', Endl] @ timer_out
         @ concat (map (\<lambda>_. [OStr ''libtdg: cb_##func set failed'', Endl]) (filter (\<lambda>(e, c). callback_set e c \<noteq> 4)
             [(ompt_callback_thread_begin, thread_begin), (ompt_callback_thread_end, thread_end),
              (ompt_callback_parallel_begin, parallel_begin), (ompt_callback_parallel_end, parallel_end),
              (ompt_callback_implicit_task, implicit_task), (ompt_callback_work, work),
              (ompt_callback_task_schedule, task_schedule), (ompt_callback_task_create, task_create),
              (ompt_callback_task_dependences, task_dependences), (ompt_callback_task_dependence, task_dependence),
              (ompt_callback_sync_region, sync_region), (ext_callback_loop, ext_loop), (ext_callback_chunk, ext_chunk)]))))"
  unfolding registration_pairs
proof
  show "init_libtdg (Some []) tsc has_set callback_set lib_ok thr_ok code papi_env has_td s = Some (Exits (- 1))"
    by (simp add: init_libtdg_def init_clock_time_def fgets_def)
  have "take (unat (word_of_nat (length toks) :: uint32)) toks = toks" using assms(2) by (simp add: unat_word_of_nat)
  moreover have "None \<in> set (map code toks) \<longleftrightarrow> (\<exists>t \<in> set toks. code t = None)" by (force simp: image_iff)
  ultimately show "init_libtdg cpufreq tsc has_set callback_set lib_ok thr_ok code papi_env has_td s = Some (
     if \<not> has_set then Exits (- 1)
     else if \<not> lib_ok then Exits (- 1)
     else if \<not> thr_ok then Exits 1
     else if \<exists>t \<in> set toks. code t = None then Exits (- 1)
     else if \<not> has_td then Exits (- 1)
     else Returns (s\<lparr>t_papiNumEvents := word_of_nat (length toks), t_papiEvents := map (the \<circ> code) toks, t_clock := clock\<rparr>,
       [OStr ''libtdg: initialize...'', Endl] @ timer_out
         @ concat (map (\<lambda>_. [OStr ''libtdg: cb_##func set failed'', Endl]) (filter (\<lambda>(e, c). callback_set e c \<noteq> 4)
             (map (\<lambda>c. (event_of c, c)) registered_callbacks)))))"
    using assms(1,3,4)
    by (cases "\<exists>t \<in> set toks. code t = None")
      (auto simp: init_libtdg_def init_papi_events_def Let_def failed_registrations)
qed

theorem init_libtdg_outcomes_witness:
  "init_libtdg (Some (decimal 1000 @ [newline])) of_nat True (\<lambda>e c. if e = ompt_callback_work then 1 else 4) True True
     (\<lambda>t. if t = ''PAPI_L1_DCM'' then Some 5 else None) (Some ''PAPI_L1_DCM'') True (new_tool real (\<lambda>_. None))
   = Some (Returns ((new_tool (\<lambda>k. msec_of 1000 (of_nat k)) (\<lambda>_. None))\<lparr>t_papiNumEvents := 1, t_papiEvents := [5]\<rparr>,
       [OStr ''libtdg: initialize...'', Endl, OStr ''Timer: cycles per sec = '', OInt 1000, Endl,
        OStr ''libtdg: cb_##func set failed'', Endl]))"
proof -
  have "parse_tokens (Some ''PAPI_L1_DCM'') [] = Some [''PAPI_L1_DCM'']"
    using parse_tokens_splits [of "''PAPI_L1_DCM''" "[]"] by simp
  moreover have "clock_from of_nat (new_timer\<lparr>tm_freq := word_of_nat 1000\<rparr>) = Some (\<lambda>k. msec_of 1000 (of_nat k))"
    by (simp add: clock_from_def new_timer_def)
  ultimately show ?thesis
    using init_libtdg_outcomes [OF _ _ read_decimal, of "Some ''PAPI_L1_DCM''" "[''PAPI_L1_DCM'']" 1000 of_nat
        "\<lambda>k. msec_of 1000 (of_nat k)" True "\<lambda>e c. if e = ompt_callback_work then 1 else 4" True True
        "\<lambda>t. if t = ''PAPI_L1_DCM'' then Some 5 else None" True "new_tool real (\<lambda>_. None)"]
    by (simp add: registered_callbacks_def new_tool_def)
qed

end
