(* ===== verification/Omp_Simulation.thy ===== *)
theory Omp_Simulation
  imports Omp_Protocol Tool_Lifecycle
begin

text \<open>
  The callbacks implement the abstract machine of \<open>Omp_Protocol\<close>: a simulation.  As long as the
  runtime dispatches events the way the machine does, no callback follows a null or freed
  pointer, the graph the tool holds is the graph of the machine, and so it is well-formed, has no
  cycle and is ready for the metrics.

  \<open>graph_sim\<close> relates the graphs, \<open>objs\<close> the tool's objects (the \<open>TaskData\<close> behind every live
  task, the \<open>ParallelRegionData\<close> behind every open region, the worksharing data of a task in a
  loop, the data of every live thread).
\<close>

section \<open>The callback an event calls\<close>

text \<open>PAPI calls succeed, with event set \<open>es\<close>.  Arguments a callback does not read are 0.\<close>

fun tool_event :: "int \<Rightarrow> event \<Rightarrow> tool \<Rightarrow> tool option" where
  "tool_event es (ThreadBegin thr) s =
     (case cb_thread_begin (Some es) (\<lambda>_ _. True) thr s of Returns s' \<Rightarrow> Some s' | Exits _ \<Rightarrow> None)"
| "tool_event es (ThreadEnd thr) s = do {
     r \<leftarrow> cb_thread_end (\<lambda>_. True) (\<lambda>_. True) thr s;
     (case r of Returns s' \<Rightarrow> Some s' | Exits _ \<Rightarrow> None) }"
| "tool_event es (InitialTask k) s = cb_task_create None k ompt_task_initial s"
| "tool_event es (ExplicitTask p k) s = cb_task_create (Some p) k ompt_task_explicit s"
| "tool_event es (Schedule k k') s = cb_task_schedule k k' s"
| "tool_event es (ParallelBegin p r team) s = cb_parallel_begin p r (word_of_nat team) s"
| "tool_event es (ParallelEnd r) s = cb_parallel_end r s"
| "tool_event es (ImplicitBegin r k tn) s = cb_implicit_task ompt_scope_begin r k 0 (word_of_nat tn) s"
| "tool_event es (ImplicitEnd k tn) s = cb_implicit_task ompt_scope_end 0 k 0 (word_of_nat tn) s"
| "tool_event es (BarrierBegin r k) s =
     cb_sync_region ompt_sync_region_barrier ompt_scope_begin (Some r) k s"
| "tool_event es (BarrierEnd r k) s =
     cb_sync_region ompt_sync_region_barrier ompt_scope_end (Some r) k s"
| "tool_event es (Resume k) s = Some s"
| "tool_event es (LoopBegin k lo up) s = cb_ext_loop ompt_scope_begin 0 k lo up s"
| "tool_event es (Chunk thr k lo up last_chunk) s = cb_ext_chunk thr k lo up last_chunk s"
| "tool_event es (LoopEnd thr k) s = cb_ext_loop ompt_scope_end thr k 0 0 s"
| "tool_event es Unobserved s = Some s"

section \<open>The simulation relation\<close>

definition graph_sim :: "tool \<Rightarrow> world \<Rightarrow> bool" where
  "graph_sim s w \<longleftrightarrow> wf_tdg s \<and> dom (g_heap s) = w_nodes w \<and> edge_rel (g_heap s) = w_edges w
     \<and> g_brk s = w_brk w \<and> g_nextId s \<le> int (w_brk w) + 1 \<and> heap_ok (g_heap s)"

definition loop_sim :: "tool \<Rightarrow> addr option \<Rightarrow> (addr \<times> addr \<times> addr option) option \<Rightarrow> bool" where
  "loop_sim s p l \<longleftrightarrow> (case l of None \<Rightarrow> p = None
     | Some (st, sk, c) \<Rightarrow> \<exists>a ws. p = Some a \<and> a < t_brk s \<and> t_ws s a = Some ws
         \<and> ws_start_node ws = Some st \<and> ws_sink_node ws = Some sk \<and> ws_last_chunk_node ws = c)"

definition data_sim :: "tool \<Rightarrow> TaskData \<Rightarrow> atask \<Rightarrow> bool" where
  "data_sim s td t \<longleftrightarrow> td_curr_task_node td = Some (at_cur t) \<and> td_curr_barrier_node td = at_bar t
     \<and> td_sink_node td = at_sink t \<and> loop_sim s (td_curr_ws_data td) (at_loop t) \<and> at_tn t < 2 ^ 32"

definition task_sim :: "tool \<Rightarrow> nat \<Rightarrow> atask option \<Rightarrow> bool" where
  "task_sim s k x \<longleftrightarrow> (case x of None \<Rightarrow> t_taskPtr s k = None
     | Some t \<Rightarrow> \<exists>a td. t_taskPtr s k = Some a \<and> a < t_brk s \<and> t_tasks s a = Some td \<and> data_sim s td t)"

definition region_data :: "tool \<Rightarrow> ParallelRegionData \<Rightarrow> aregion \<Rightarrow> bool" where
  "region_data s par ar \<longleftrightarrow> pr_sink_node par = Some (ar_sink ar)
     \<and> pr_team_size par = word_of_nat (ar_team ar) \<and> pr_barrier_cnt par = word_of_nat (ar_cnt ar)
     \<and> (ar_cnt ar \<noteq> 0 \<longrightarrow> pr_curr_barrier_node par = ar_bar ar)
     \<and> pr_parent_task_data par \<noteq> None \<and> t_taskPtr s (ar_parent ar) = pr_parent_task_data par"

definition reg_sim :: "tool \<Rightarrow> nat \<Rightarrow> aregion option \<Rightarrow> bool" where
  "reg_sim s r x \<longleftrightarrow> (case x of None \<Rightarrow> t_parPtr s r = None
     | Some ar \<Rightarrow> \<exists>q par. t_parPtr s r = Some q \<and> q < t_brk s \<and> t_pars s q = Some par \<and> region_data s par ar)"

definition inj_ptr :: "(nat \<Rightarrow> addr option) \<Rightarrow> bool" where
  "inj_ptr f \<longleftrightarrow> (\<forall>k k' a. f k = Some a \<longrightarrow> f k' = Some a \<longrightarrow> k = k')"

text \<open>The worksharing data a task slot leads to.\<close>

definition ws_ptr :: "tool \<Rightarrow> nat \<Rightarrow> addr option" where
  "ws_ptr s k = do { a \<leftarrow> t_taskPtr s k; td \<leftarrow> t_tasks s a; td_curr_ws_data td }"

definition thr_ptr :: "tool \<Rightarrow> world \<Rightarrow> nat \<Rightarrow> addr option" where
  "thr_ptr s w thr = (if thr \<in> w_threads w then t_thrPtr s thr else None)"

definition objs :: "tool \<Rightarrow> world \<Rightarrow> bool" where
  "objs s w \<longleftrightarrow> (\<forall>k. task_sim s k (w_task w k)) \<and> (\<forall>r. reg_sim s r (w_reg w r))
     \<and> (\<forall>thr \<in> w_threads w. \<exists>b th. thread_at s thr b th \<and> b < t_brk s)
     \<and> inj_ptr (t_taskPtr s) \<and> inj_ptr (t_parPtr s) \<and> inj_ptr (ws_ptr s) \<and> inj_ptr (thr_ptr s w)
     \<and> t_finalNode s = w_final w"

definition sim :: "tool \<Rightarrow> world \<Rightarrow> bool" where
  "sim s w \<longleftrightarrow> graph_sim s w \<and> objs s w"

section \<open>Parts of the relation\<close>

lemma thr_ptr_world [simp]:
  "thr_ptr s (add_node x ro w) = thr_ptr s w" "thr_ptr s (add_edge u v w) = thr_ptr s w"
  "thr_ptr s (set_role x ro w) = thr_ptr s w" "thr_ptr s (set_task k t w) = thr_ptr s w"
  "thr_ptr s (set_reg r ar w) = thr_ptr s w" "thr_ptr s (pass_all sk w) = thr_ptr s w"
  "thr_ptr s (w\<lparr>w_nodes := V, w_edges := E\<rparr>) = thr_ptr s w" "thr_ptr s (w\<lparr>w_final := f\<rparr>) = thr_ptr s w"
  by (simp_all add: thr_ptr_def fun_eq_iff pass_all_def)

lemma objs_world [simp]:
  "objs s (add_node x ro w) = objs s w" "objs s (add_edge u v w) = objs s w"
  "objs s (set_role x ro w) = objs s w" "objs s (w\<lparr>w_nodes := V, w_edges := E\<rparr>) = objs s w"
  by (simp_all add: objs_def)

lemma objs_same:
  assumes "same_tool s s'" and "objs s w" shows "objs s' w"
proof -
  have e: "t_tasks s' = t_tasks s" "t_ws s' = t_ws s" "t_pars s' = t_pars s" "t_threads s' = t_threads s"
    "t_brk s' = t_brk s" "t_taskPtr s' = t_taskPtr s" "t_parPtr s' = t_parPtr s" "t_thrPtr s' = t_thrPtr s"
    "t_finalNode s' = t_finalNode s"
    using assms(1) by (simp_all add: same_tool_def)
  have l: "loop_sim s' = loop_sim s" by (intro ext, unfold loop_sim_def e, rule refl)
  have d: "data_sim s' = data_sim s" by (intro ext, unfold data_sim_def l, rule refl)
  have t: "task_sim s' = task_sim s" by (intro ext, unfold task_sim_def d e, rule refl)
  have p: "region_data s' = region_data s" by (intro ext, unfold region_data_def e, rule refl)
  have r: "reg_sim s' = reg_sim s" by (intro ext, unfold reg_sim_def p e, rule refl)
  have x: "ws_ptr s' = ws_ptr s" by (intro ext, unfold ws_ptr_def e, rule refl)
  have y: "thr_ptr s' w = thr_ptr s w" by (intro ext, unfold thr_ptr_def e, rule refl)
  have "thread_at s' = thread_at s" by (intro ext, unfold thread_at_def e, rule refl)
  then show ?thesis using assms(2) by (simp add: objs_def t r x y e)
qed

lemma graph_sim_grows:
  assumes "graph_sim s w" and "grows s0 s' V E k" and "g_heap s0 = g_heap s" and "g_brk s0 = g_brk s"
    and "g_nextId s0 = g_nextId s" and "w_nodes w' = w_nodes w \<union> V" and "w_edges w' = w_edges w \<union> E"
    and "w_brk w' = w_brk w + k"
  shows "graph_sim s' w'"
proof -
  have "fresh_flags n \<and> printable n" if n: "g_heap s' a = Some n" for a n
  proof (cases "a \<in> V")
    case True
    then show ?thesis using assms(2) n by (auto simp: grows_def grows0_def)
  next
    case False
    then have "a \<in> dom (g_heap s)" using n assms(2,3) by (auto simp: grows_def grows0_def)
    then obtain m where m: "g_heap s a = Some m" by blast
    then have "evolves m n" using assms(2,3) n by (auto simp: grows_def grows0_def nodes_evolve_def)
    then show ?thesis using assms(1) m by (auto simp: graph_sim_def heap_ok_def evolves_def)
  qed
  then have "heap_ok (g_heap s')" by (simp add: heap_ok_def)
  then show ?thesis using assms by (auto simp: graph_sim_def grows_def grows0_def)
qed

lemma sim_grows:
  assumes "sim s w" and "grows s0 s' V E k" and "g_heap s0 = g_heap s" and "g_brk s0 = g_brk s"
    and "g_nextId s0 = g_nextId s" and "w_nodes w' = w_nodes w \<union> V" and "w_edges w' = w_edges w \<union> E"
    and "w_brk w' = w_brk w + k" and "objs s0 w'"
  shows "sim s' w'"
  using graph_sim_grows [of s w s0 s' V E k w'] assms objs_same [of s0 s' w']
  by (simp add: sim_def grows_def grows0_def)

lemma loop_sim_mono:
  assumes "loop_sim s p l" and "t_brk s \<le> t_brk s'"
    and "\<And>a. p = Some a \<Longrightarrow> a < t_brk s \<Longrightarrow> t_ws s' a = t_ws s a"
  shows "loop_sim s' p l"
  using assms by (cases l) (auto simp: loop_sim_def split: prod.splits)

lemma task_sim_mono:
  assumes "task_sim s k x" and "t_brk s \<le> t_brk s'" and "t_taskPtr s' k = t_taskPtr s k"
    and "\<And>a. t_taskPtr s k = Some a \<Longrightarrow> a < t_brk s \<Longrightarrow> t_tasks s' a = t_tasks s a"
    and "\<And>a. ws_ptr s k = Some a \<Longrightarrow> a < t_brk s \<Longrightarrow> t_ws s' a = t_ws s a"
  shows "task_sim s' k x"
proof (cases x)
  case None
  then show ?thesis using assms by (simp add: task_sim_def)
next
  case (Some t)
  then obtain a td where a: "t_taskPtr s k = Some a" "a < t_brk s" "t_tasks s a = Some td" "data_sim s td t"
    using assms(1) by (auto simp: task_sim_def)
  have "loop_sim s' (td_curr_ws_data td) (at_loop t)"
    by (rule loop_sim_mono [of s]) (use a assms(2,5) in \<open>auto simp: data_sim_def ws_ptr_def\<close>)
  then have "data_sim s' td t" using a(4) by (simp add: data_sim_def)
  then show ?thesis using a assms(2,3,4) Some by (auto simp: task_sim_def)
qed

lemma reg_sim_mono:
  assumes "reg_sim s r x" and "t_brk s \<le> t_brk s'" and "t_parPtr s' r = t_parPtr s r"
    and "\<And>q. t_parPtr s r = Some q \<Longrightarrow> q < t_brk s \<Longrightarrow> t_pars s' q = t_pars s q"
    and "\<And>ar. x = Some ar \<Longrightarrow> t_taskPtr s' (ar_parent ar) = t_taskPtr s (ar_parent ar)"
  shows "reg_sim s' r x"
  using assms by (cases x) (auto simp: reg_sim_def region_data_def)

lemma objsD:
  assumes "objs s w"
  shows "task_sim s k (w_task w k)" "reg_sim s r (w_reg w r)"
    "thr \<in> w_threads w \<Longrightarrow> \<exists>b th. thread_at s thr b th \<and> b < t_brk s"
    "inj_ptr (t_taskPtr s)" "inj_ptr (t_parPtr s)" "inj_ptr (ws_ptr s)" "inj_ptr (thr_ptr s w)"
    "t_finalNode s = w_final w"
  using assms by (simp_all add: objs_def)

lemma objsI:
  assumes "\<And>k. task_sim s k (w_task w k)" "\<And>r. reg_sim s r (w_reg w r)"
    "\<And>thr. thr \<in> w_threads w \<Longrightarrow> \<exists>b th. thread_at s thr b th \<and> b < t_brk s"
    "inj_ptr (t_taskPtr s)" "inj_ptr (t_parPtr s)" "inj_ptr (ws_ptr s)" "inj_ptr (thr_ptr s w)"
    "t_finalNode s = w_final w"
  shows "objs s w"
  using assms by (simp add: objs_def)

text \<open>Pointers of live slots are below the allocator's mark.\<close>

lemma ptr_bounds:
  assumes "objs s w"
  shows "t_taskPtr s k = Some a \<Longrightarrow> a < t_brk s" "t_parPtr s r = Some q \<Longrightarrow> q < t_brk s"
    "ws_ptr s k = Some b \<Longrightarrow> b < t_brk s" "thr_ptr s w thr = Some c \<Longrightarrow> c < t_brk s"
proof -
  show "a < t_brk s" if "t_taskPtr s k = Some a"
    using objsD(1) [OF assms, of k] that by (cases "w_task w k") (auto simp: task_sim_def)
  show "q < t_brk s" if "t_parPtr s r = Some q"
    using objsD(2) [OF assms, of r] that by (cases "w_reg w r") (auto simp: reg_sim_def)
  show "b < t_brk s" if b: "ws_ptr s k = Some b"
  proof (cases "w_task w k")
    case None
    then show ?thesis using objsD(1) [OF assms, of k] b by (simp add: task_sim_def ws_ptr_def)
  next
    case (Some t)
    then obtain a td where "t_taskPtr s k = Some a" "t_tasks s a = Some td" "data_sim s td t"
      using objsD(1) [OF assms, of k] by (auto simp: task_sim_def)
    then show ?thesis using b by (cases "at_loop t") (auto simp: ws_ptr_def data_sim_def loop_sim_def)
  qed
  show "c < t_brk s" if "thr_ptr s w thr = Some c"
    using objsD(3) [OF assms, of thr] that by (auto simp: thr_ptr_def thread_at_def split: if_splits)
qed

lemma inj_ptr_new:
  "inj_ptr f \<Longrightarrow> (\<And>k a. f k = Some a \<Longrightarrow> a < b) \<Longrightarrow> inj_ptr (f(k := Some b))"
  by (fastforce simp: inj_ptr_def)

lemma inj_ptr_del: "inj_ptr f \<Longrightarrow> inj_ptr (f(k := None))"
  by (auto simp: inj_ptr_def)

section \<open>Writes to the tool's objects\<close>

lemma objs_new_task:
  assumes ob: "objs s w" and free: "w_task w k = None"
    and td: "td_curr_task_node td = Some (at_cur t)" "td_curr_barrier_node td = at_bar t"
      "td_sink_node td = at_sink t" "td_curr_ws_data td = None" "at_loop t = None" "at_tn t < 2 ^ 32"
  shows "objs (s\<lparr>t_tasks := (t_tasks s)(t_brk s \<mapsto> td), t_brk := Suc (t_brk s),
      t_taskPtr := (t_taskPtr s)(k := Some (t_brk s))\<rparr>) (set_task k (Some t) w)" (is "objs ?s ?w")
proof (rule objsI)
  note b = ptr_bounds [OF ob]
  have wp: "ws_ptr ?s = (ws_ptr s)(k := None)"
    using b(1) td(4) by (fastforce simp: ws_ptr_def fun_eq_iff intro: bind_option_cong)
  show "task_sim ?s k' (w_task ?w k')" for k'
  proof (cases "k' = k")
    case True
    then show ?thesis using td by (simp add: task_sim_def data_sim_def loop_sim_def)
  next
    case False
    then have "task_sim s k' (w_task ?w k')" using objsD(1) [OF ob] by simp
    then show ?thesis by (rule task_sim_mono) (use False b in auto)
  qed
  have nk: "t_taskPtr s k = None" using objsD(1) [OF ob, of k] free by (simp add: task_sim_def)
  show "reg_sim ?s r (w_reg ?w r)" for r
  proof -
    have rs: "reg_sim s r (w_reg w r)" by (rule objsD(2) [OF ob])
    then have "ar_parent ar \<noteq> k" if "w_reg w r = Some ar" for ar
      using that nk by (auto simp: reg_sim_def region_data_def)
    with rs show ?thesis by (auto intro!: reg_sim_mono [OF rs])
  qed
  show "\<exists>b th. thread_at ?s thr b th \<and> b < t_brk ?s" if "thr \<in> w_threads ?w" for thr
    using objsD(3) [OF ob, of thr] that by (auto simp: thread_at_def intro: less_SucI)
  show "inj_ptr (t_taskPtr ?s)" using inj_ptr_new [OF objsD(4) [OF ob]] b(1) by simp
  show "inj_ptr (ws_ptr ?s)" unfolding wp by (rule inj_ptr_del [OF objsD(6) [OF ob]])
  show "inj_ptr (thr_ptr ?s ?w)" using objsD(7) [OF ob] by (simp add: thr_ptr_def inj_ptr_def)
qed (use objsD [OF ob] in auto)

text \<open>The address of a slot belongs to no other slot.\<close>

lemma slot_unique:
  assumes "objs s w" and "t_taskPtr s k = Some a" and "k' \<noteq> k"
  shows "t_taskPtr s k' \<noteq> Some a"
  using objsD(4) [OF assms(1)] assms(2,3) by (auto simp: inj_ptr_def)

lemma objs_set_task:
  assumes ob: "objs s w" and a: "t_taskPtr s k = Some a" "t_tasks s a = Some td0"
    and td: "td_curr_task_node td = Some (at_cur t)" "td_curr_barrier_node td = at_bar t"
      "td_sink_node td = at_sink t" "td_curr_ws_data td = td_curr_ws_data td0"
      "loop_sim s (td_curr_ws_data td) (at_loop t)" "at_tn t < 2 ^ 32"
  shows "objs (s\<lparr>t_tasks := (t_tasks s)(a \<mapsto> td)\<rparr>) (set_task k (Some t) w)" (is "objs ?s ?w")
proof (rule objsI)
  note b = ptr_bounds [OF ob] and u = slot_unique [OF ob a(1)]
  have wp: "ws_ptr ?s = ws_ptr s"
  proof
    fix k'
    show "ws_ptr ?s k' = ws_ptr s k'"
      using a td(4) u [of k'] by (cases "t_taskPtr s k'") (auto simp: ws_ptr_def)
  qed
  show "task_sim ?s k' (w_task ?w k')" for k'
  proof (cases "k' = k")
    case True
    have "loop_sim ?s (td_curr_ws_data td) (at_loop t)" by (rule loop_sim_mono [OF td(5)]) auto
    then show ?thesis using True a td b(1) [OF a(1)] by (simp add: task_sim_def data_sim_def)
  next
    case False
    then have "task_sim s k' (w_task ?w k')" using objsD(1) [OF ob] by simp
    then show ?thesis by (rule task_sim_mono) (use u False in auto)
  qed
  show "reg_sim ?s r (w_reg ?w r)" for r
    using reg_sim_mono [OF objsD(2) [OF ob, of r], of ?s] by simp
  show "\<exists>b th. thread_at ?s thr b th \<and> b < t_brk ?s" if "thr \<in> w_threads ?w" for thr
    using objsD(3) [OF ob, of thr] that by (simp add: thread_at_def)
  show "inj_ptr (ws_ptr ?s)" unfolding wp by (rule objsD(6) [OF ob])
  show "inj_ptr (thr_ptr ?s ?w)" using objsD(7) [OF ob] by (simp add: thr_ptr_def inj_ptr_def)
qed (use objsD [OF ob] in auto)

lemma objs_ghost:
  assumes ob: "objs s w" and "\<And>k. rel_option (\<lambda>t t'. at_cur t' = at_cur t \<and> at_bar t' = at_bar t
      \<and> at_sink t' = at_sink t \<and> at_loop t' = at_loop t \<and> at_tn t' = at_tn t) (w_task w k) (w_task w' k)"
    and "w_reg w' = w_reg w" "w_threads w' = w_threads w" "w_final w' = w_final w"
  shows "objs s w'"
proof (rule objsI)
  show "task_sim s k (w_task w' k)" for k
    using objsD(1) [OF ob, of k] assms(2) [of k]
    by (cases "w_task w k"; cases "w_task w' k") (auto simp: task_sim_def data_sim_def)
  show "inj_ptr (thr_ptr s w')" using objsD(7) [OF ob] assms(4) by (simp add: thr_ptr_def inj_ptr_def)
qed (use objsD [OF ob] assms(3-5) in auto)

lemma objs_del_task:
  assumes ob: "objs s w" and a: "t_taskPtr s k = Some a" and np: "\<And>r ar. w_reg w r = Some ar \<Longrightarrow> ar_parent ar \<noteq> k"
  shows "objs (s\<lparr>t_tasks := (t_tasks s)(a := None), t_taskPtr := (t_taskPtr s)(k := None)\<rparr>) (set_task k None w)"
    (is "objs ?s ?w")
proof (rule objsI)
  note u = slot_unique [OF ob a]
  have wp: "ws_ptr ?s = (ws_ptr s)(k := None)"
  proof
    fix k'
    show "ws_ptr ?s k' = ((ws_ptr s)(k := None)) k'"
      using a u [of k'] by (cases "t_taskPtr s k'") (auto simp: ws_ptr_def)
  qed
  show "task_sim ?s k' (w_task ?w k')" for k'
  proof (cases "k' = k")
    case True
    then show ?thesis by (simp add: task_sim_def)
  next
    case False
    then have "task_sim s k' (w_task ?w k')" using objsD(1) [OF ob] by simp
    then show ?thesis by (rule task_sim_mono) (use u False in auto)
  qed
  show "reg_sim ?s r (w_reg ?w r)" for r
    using reg_sim_mono [OF objsD(2) [OF ob, of r], of ?s] np [of r] by simp
  show "\<exists>b th. thread_at ?s thr b th \<and> b < t_brk ?s" if "thr \<in> w_threads ?w" for thr
    using objsD(3) [OF ob, of thr] that by (simp add: thread_at_def)
  show "inj_ptr (t_taskPtr ?s)" using inj_ptr_del [OF objsD(4) [OF ob]] by simp
  show "inj_ptr (ws_ptr ?s)" unfolding wp by (rule inj_ptr_del [OF objsD(6) [OF ob]])
  show "inj_ptr (thr_ptr ?s ?w)" using objsD(7) [OF ob] by (simp add: thr_ptr_def inj_ptr_def)
qed (use objsD [OF ob] in auto)

lemma objs_new_reg:
  assumes ob: "objs s w" and "w_reg w r = None" and rd: "region_data s par ar"
  shows "objs (s\<lparr>t_pars := (t_pars s)(t_brk s \<mapsto> par), t_brk := Suc (t_brk s),
      t_parPtr := (t_parPtr s)(r := Some (t_brk s))\<rparr>) (set_reg r (Some ar) w)" (is "objs ?s ?w")
proof (rule objsI)
  note b = ptr_bounds [OF ob]
  have wp: "ws_ptr ?s = ws_ptr s" by (simp add: ws_ptr_def fun_eq_iff)
  show "task_sim ?s k (w_task ?w k)" for k
    using task_sim_mono [OF objsD(1) [OF ob, of k], of ?s] by simp
  show "reg_sim ?s r' (w_reg ?w r')" for r'
  proof (cases "r' = r")
    case True
    then show ?thesis using rd by (simp add: reg_sim_def region_data_def)
  next
    case False
    then have "reg_sim s r' (w_reg ?w r')" using objsD(2) [OF ob] by simp
    then show ?thesis by (rule reg_sim_mono) (use False in auto)
  qed
  show "\<exists>b th. thread_at ?s thr b th \<and> b < t_brk ?s" if "thr \<in> w_threads ?w" for thr
    using objsD(3) [OF ob, of thr] that by (auto simp: thread_at_def intro: less_SucI)
  show "inj_ptr (t_parPtr ?s)" using inj_ptr_new [OF objsD(5) [OF ob]] b(2) by simp
  show "inj_ptr (ws_ptr ?s)" unfolding wp by (rule objsD(6) [OF ob])
  show "inj_ptr (thr_ptr ?s ?w)" using objsD(7) [OF ob] by (simp add: thr_ptr_def inj_ptr_def)
qed (use objsD [OF ob] in auto)

lemma objs_set_reg:
  assumes ob: "objs s w" and q: "t_parPtr s r = Some q" and rd: "region_data s par ar"
  shows "objs (s\<lparr>t_pars := (t_pars s)(q \<mapsto> par)\<rparr>) (set_reg r (Some ar) w)" (is "objs ?s ?w")
proof (rule objsI)
  note b = ptr_bounds [OF ob]
  have u: "t_parPtr s r' \<noteq> Some q" if "r' \<noteq> r" for r'
    using objsD(5) [OF ob] q that by (auto simp: inj_ptr_def)
  have wp: "ws_ptr ?s = ws_ptr s" by (simp add: ws_ptr_def fun_eq_iff)
  show "task_sim ?s k (w_task ?w k)" for k
    using task_sim_mono [OF objsD(1) [OF ob, of k], of ?s] by simp
  show "reg_sim ?s r' (w_reg ?w r')" for r'
  proof (cases "r' = r")
    case True
    then show ?thesis using rd q b(2) [OF q] by (simp add: reg_sim_def region_data_def)
  next
    case False
    then have "reg_sim s r' (w_reg ?w r')" using objsD(2) [OF ob] by simp
    then show ?thesis by (rule reg_sim_mono) (use False u in auto)
  qed
  show "\<exists>b th. thread_at ?s thr b th \<and> b < t_brk ?s" if "thr \<in> w_threads ?w" for thr
    using objsD(3) [OF ob, of thr] that by (simp add: thread_at_def)
  show "inj_ptr (ws_ptr ?s)" unfolding wp by (rule objsD(6) [OF ob])
  show "inj_ptr (thr_ptr ?s ?w)" using objsD(7) [OF ob] by (simp add: thr_ptr_def inj_ptr_def)
qed (use objsD [OF ob] in auto)

lemma objs_final: "objs s w \<Longrightarrow> objs (s\<lparr>t_finalNode := f\<rparr>) (w\<lparr>w_final := f\<rparr>)"
proof -
  assume ob: "objs s w"
  have "task_sim (s\<lparr>t_finalNode := f\<rparr>) k x = task_sim s k x" "reg_sim (s\<lparr>t_finalNode := f\<rparr>) r y = reg_sim s r y"
    for k x r y
    by (auto elim!: task_sim_mono reg_sim_mono simp: ws_ptr_def)
  moreover have "ws_ptr (s\<lparr>t_finalNode := f\<rparr>) = ws_ptr s" by (simp add: ws_ptr_def fun_eq_iff)
  ultimately show ?thesis using ob by (simp add: objs_def thread_at_def thr_ptr_def inj_ptr_def)
qed

lemma objs_del_reg:
  assumes ob: "objs s w" and q: "t_parPtr s r = Some q"
  shows "objs (s\<lparr>t_pars := (t_pars s)(q := None), t_parPtr := (t_parPtr s)(r := None)\<rparr>) (set_reg r None w)"
    (is "objs ?s ?w")
proof (rule objsI)
  have u: "t_parPtr s r' \<noteq> Some q" if "r' \<noteq> r" for r'
    using objsD(5) [OF ob] q that by (auto simp: inj_ptr_def)
  have wp: "ws_ptr ?s = ws_ptr s" by (simp add: ws_ptr_def fun_eq_iff)
  show "task_sim ?s k (w_task ?w k)" for k
    using task_sim_mono [OF objsD(1) [OF ob, of k], of ?s] by simp
  show "reg_sim ?s r' (w_reg ?w r')" for r'
  proof (cases "r' = r")
    case True
    then show ?thesis by (simp add: reg_sim_def)
  next
    case False
    then have "reg_sim s r' (w_reg ?w r')" using objsD(2) [OF ob] by simp
    then show ?thesis by (rule reg_sim_mono) (use False u in auto)
  qed
  show "\<exists>b th. thread_at ?s thr b th \<and> b < t_brk ?s" if "thr \<in> w_threads ?w" for thr
    using objsD(3) [OF ob, of thr] that by (simp add: thread_at_def)
  show "inj_ptr (t_parPtr ?s)" using inj_ptr_del [OF objsD(5) [OF ob]] by simp
  show "inj_ptr (ws_ptr ?s)" unfolding wp by (rule objsD(6) [OF ob])
  show "inj_ptr (thr_ptr ?s ?w)" using objsD(7) [OF ob] by (simp add: thr_ptr_def inj_ptr_def)
qed (use objsD [OF ob] in auto)

lemma objs_new_loop:
  assumes ob: "objs s w" and a: "t_taskPtr s k = Some a" "t_tasks s a = Some td" and t: "w_task w k = Some t"
    and ws: "ws_start_node ws = Some st" "ws_sink_node ws = Some sk" "ws_last_chunk_node ws = None"
  shows "objs (s\<lparr>t_ws := (t_ws s)(t_brk s \<mapsto> ws), t_brk := Suc (t_brk s),
      t_tasks := (t_tasks s)(a \<mapsto> td\<lparr>td_curr_ws_data := Some (t_brk s)\<rparr>)\<rparr>)
      (set_task k (Some (t\<lparr>at_loop := Some (st, sk, None)\<rparr>)) w)" (is "objs ?s ?w")
proof (rule objsI)
  note b = ptr_bounds [OF ob] and u = slot_unique [OF ob a(1)]
  have ds: "data_sim s td t" using objsD(1) [OF ob, of k] a t by (simp add: task_sim_def)
  have wp: "ws_ptr ?s = (ws_ptr s)(k := Some (t_brk s))"
  proof
    fix k'
    show "ws_ptr ?s k' = ((ws_ptr s)(k := Some (t_brk s))) k'"
      using a u [of k'] by (cases "t_taskPtr s k'") (auto simp: ws_ptr_def)
  qed
  show "task_sim ?s k' (w_task ?w k')" for k'
  proof (cases "k' = k")
    case True
    then show ?thesis using a ds ws b(1) [OF a(1)]
      by (simp add: task_sim_def data_sim_def loop_sim_def less_SucI)
  next
    case False
    then have "task_sim s k' (w_task ?w k')" using objsD(1) [OF ob] by simp
    then show ?thesis by (rule task_sim_mono) (use u False in auto)
  qed
  show "reg_sim ?s r (w_reg ?w r)" for r
    using reg_sim_mono [OF objsD(2) [OF ob, of r], of ?s] by simp
  show "\<exists>b th. thread_at ?s thr b th \<and> b < t_brk ?s" if "thr \<in> w_threads ?w" for thr
    using objsD(3) [OF ob, of thr] that by (auto simp: thread_at_def intro: less_SucI)
  show "inj_ptr (ws_ptr ?s)" unfolding wp by (rule inj_ptr_new [OF objsD(6) [OF ob] b(3)])
  show "inj_ptr (thr_ptr ?s ?w)" using objsD(7) [OF ob] by (simp add: thr_ptr_def inj_ptr_def)
qed (use objsD [OF ob] in auto)

lemma objs_set_loop:
  assumes ob: "objs s w" and a: "t_taskPtr s k = Some a" "t_tasks s a = Some td" and t: "w_task w k = Some t"
    and c: "td_curr_ws_data td = Some c"
    and ws: "ws_start_node ws = Some st" "ws_sink_node ws = Some sk" "ws_last_chunk_node ws = l"
  shows "objs (s\<lparr>t_ws := (t_ws s)(c \<mapsto> ws)\<rparr>) (set_task k (Some (t\<lparr>at_loop := Some (st, sk, l)\<rparr>)) w)"
    (is "objs ?s ?w")
proof (rule objsI)
  note b = ptr_bounds [OF ob]
  have ds: "data_sim s td t" using objsD(1) [OF ob, of k] a t by (simp add: task_sim_def)
  have wk: "ws_ptr s k = Some c" using a c by (simp add: ws_ptr_def)
  have u: "ws_ptr s k' \<noteq> Some c" if "k' \<noteq> k" for k'
    using objsD(6) [OF ob] wk that by (auto simp: inj_ptr_def)
  have wp: "ws_ptr ?s = ws_ptr s" by (simp add: ws_ptr_def fun_eq_iff)
  show "task_sim ?s k' (w_task ?w k')" for k'
  proof (cases "k' = k")
    case True
    then show ?thesis using a ds ws c b(1) [OF a(1)] b(3) [OF wk]
      by (simp add: task_sim_def data_sim_def loop_sim_def)
  next
    case False
    then have "task_sim s k' (w_task ?w k')" using objsD(1) [OF ob] by simp
    then show ?thesis by (rule task_sim_mono) (use u False in auto)
  qed
  show "reg_sim ?s r (w_reg ?w r)" for r
    using reg_sim_mono [OF objsD(2) [OF ob, of r], of ?s] by simp
  show "\<exists>b th. thread_at ?s thr b th \<and> b < t_brk ?s" if "thr \<in> w_threads ?w" for thr
    using objsD(3) [OF ob, of thr] that by (simp add: thread_at_def)
  show "inj_ptr (ws_ptr ?s)" unfolding wp by (rule objsD(6) [OF ob])
  show "inj_ptr (thr_ptr ?s ?w)" using objsD(7) [OF ob] by (simp add: thr_ptr_def inj_ptr_def)
qed (use objsD [OF ob] in auto)

lemma objs_end_loop:
  assumes ob: "objs s w" and a: "t_taskPtr s k = Some a" "t_tasks s a = Some td" and t: "w_task w k = Some t"
    and c: "td_curr_ws_data td = Some c"
  shows "objs (s\<lparr>t_ws := (t_ws s)(c := None),
      t_tasks := (t_tasks s)(a \<mapsto> td\<lparr>td_curr_task_node := Some sk, td_curr_ws_data := None\<rparr>)\<rparr>)
      (set_task k (Some (t\<lparr>at_cur := sk, at_loop := None\<rparr>)) w)" (is "objs ?s ?w")
proof (rule objsI)
  note b = ptr_bounds [OF ob] and u = slot_unique [OF ob a(1)]
  have ds: "data_sim s td t" using objsD(1) [OF ob, of k] a t by (simp add: task_sim_def)
  have wk: "ws_ptr s k = Some c" using a c by (simp add: ws_ptr_def)
  have v: "ws_ptr s k' \<noteq> Some c" if "k' \<noteq> k" for k'
    using objsD(6) [OF ob] wk that by (auto simp: inj_ptr_def)
  have wp: "ws_ptr ?s = (ws_ptr s)(k := None)"
  proof
    fix k'
    show "ws_ptr ?s k' = ((ws_ptr s)(k := None)) k'"
      using a u [of k'] by (cases "t_taskPtr s k'") (auto simp: ws_ptr_def)
  qed
  show "task_sim ?s k' (w_task ?w k')" for k'
  proof (cases "k' = k")
    case True
    then show ?thesis using a ds b(1) [OF a(1)] by (simp add: task_sim_def data_sim_def loop_sim_def)
  next
    case False
    then have "task_sim s k' (w_task ?w k')" using objsD(1) [OF ob] by simp
    then show ?thesis by (rule task_sim_mono) (use u v False in auto)
  qed
  show "reg_sim ?s r (w_reg ?w r)" for r
    using reg_sim_mono [OF objsD(2) [OF ob, of r], of ?s] by simp
  show "\<exists>b th. thread_at ?s thr b th \<and> b < t_brk ?s" if "thr \<in> w_threads ?w" for thr
    using objsD(3) [OF ob, of thr] that by (simp add: thread_at_def)
  show "inj_ptr (ws_ptr ?s)" unfolding wp by (rule inj_ptr_del [OF objsD(6) [OF ob]])
  show "inj_ptr (thr_ptr ?s ?w)" using objsD(7) [OF ob] by (simp add: thr_ptr_def inj_ptr_def)
qed (use objsD [OF ob] in auto)

text \<open>Threads.\<close>

lemma objs_threads:
  assumes ob: "objs s w" and brk: "t_brk s \<le> b"
    and th: "\<And>thr. thr \<in> T \<Longrightarrow> \<exists>c x. p thr = Some c \<and> m c = Some x \<and> c < b"
    and inj: "inj_ptr (\<lambda>thr. if thr \<in> T then p thr else None)"
  shows "objs (s\<lparr>t_threads := m, t_brk := b, t_thrPtr := p\<rparr>) (w\<lparr>w_threads := T\<rparr>)" (is "objs ?s ?w")
proof (rule objsI)
  have wp: "ws_ptr ?s = ws_ptr s" by (simp add: ws_ptr_def fun_eq_iff)
  show "task_sim ?s k (w_task ?w k)" for k
    using task_sim_mono [OF objsD(1) [OF ob, of k], of ?s] brk by simp
  show "reg_sim ?s r (w_reg ?w r)" for r
    using reg_sim_mono [OF objsD(2) [OF ob, of r], of ?s] brk by simp
  show "\<exists>b th. thread_at ?s thr b th \<and> b < t_brk ?s" if "thr \<in> w_threads ?w" for thr
    using th [of thr] that by (simp add: thread_at_def)
  show "inj_ptr (ws_ptr ?s)" unfolding wp by (rule objsD(6) [OF ob])
  have "thr_ptr ?s ?w = (\<lambda>thr. if thr \<in> T then p thr else None)" by (simp add: thr_ptr_def fun_eq_iff)
  then show "inj_ptr (thr_ptr ?s ?w)" using inj by simp
qed (use objsD [OF ob] in auto)

end
