(* ===== verification/Omp_Refinement.thy ===== *)
theory Omp_Refinement
  imports Omp_Simulation
begin

text \<open>
  Every event the abstract machine allows is one the callback handles: from related states the
  callback returns, in a related state (\<open>sim_step\<close>).  By induction over the run, the tool never
  follows a bad pointer, and what it has at the end of the run is ready for the metrics.
\<close>

section \<open>From the relation to what the callbacks follow\<close>

lemma sim_graph:
  assumes "sim s w"
  shows "wf_tdg s" "dom (g_heap s) = w_nodes w" "edge_rel (g_heap s) = w_edges w" "g_brk s = w_brk w"
    "g_nextId s \<le> int (w_brk w) + 1" "heap_ok (g_heap s)" "objs s w"
  using assms by (simp_all add: sim_def graph_sim_def)

lemma sim_task_at:
  assumes "sim s w" and "winv w" and "w_task w k = Some t"
  obtains a td where "task_at s k a td (at_cur t)" and "data_sim s td t"
proof -
  obtain a td where a: "t_taskPtr s k = Some a" "t_tasks s a = Some td" "data_sim s td t"
    using objsD(1) [OF sim_graph(7) [OF assms(1)], of k] assms(3) by (auto simp: task_sim_def)
  have "at_cur t \<in> w_nodes w" using invD(2) [OF assms(2,3)] by (simp add: task_ok_def has_role_def)
  then have "task_at s k a td (at_cur t)"
    using a sim_graph(2) [OF assms(1)] by (simp add: task_at_def data_sim_def)
  then show ?thesis using a(3) that by blast
qed

lemma sim_reg_at:
  assumes "sim s w" and "w_reg w r = Some ar"
  obtains q par where "t_parPtr s r = Some q" "t_pars s q = Some par" "region_data s par ar"
  using objsD(2) [OF sim_graph(7) [OF assms(1)], of r] assms(2) by (auto simp: reg_sim_def)

lemma sim_loop_at:
  assumes "sim s w" and "winv w" and "w_task w k = Some t" and "data_sim s td t" and "at_loop t = Some (st, sk, l)"
  obtains x ws where "loop_at s td x ws st sk" and "ws_last_chunk_node ws = l"
proof -
  have "loop_ok w k (st, sk, l)" using invD(2) [OF assms(2,3)] assms(5) by (simp add: task_ok_def)
  then have n: "{st, sk} \<subseteq> dom (g_heap s)" "pred_option (\<lambda>c. c \<in> dom (g_heap s)) l"
    using sim_graph(2) [OF assms(1)] by (auto simp: loop_ok_def has_role_def elim: option.pred_mono_strong)
  obtain x ws where "td_curr_ws_data td = Some x" "t_ws s x = Some ws" "ws_start_node ws = Some st"
      "ws_sink_node ws = Some sk" "ws_last_chunk_node ws = l"
    using assms(4,5) by (auto simp: data_sim_def loop_sim_def)
  then show ?thesis using n that by (simp add: loop_at_def)
qed

lemma sim_thread_at:
  assumes "sim s w" and "thr \<in> w_threads w"
  obtains b th where "thread_at s thr b th"
  using objsD(3) [OF sim_graph(7) [OF assms(1)]] assms(2) by blast

text \<open>The room an event needs: fewer than \<open>2 ^ 63\<close> nodes so far.\<close>

definition room :: "world \<Rightarrow> bool" where
  "room w \<longleftrightarrow> int (w_brk w) + 4 < 2 ^ 63"

lemma sim_room:
  assumes "sim s w" and "room w" shows "g_nextId s + 2 < 2 ^ 63" "g_nextId s + 1 < 2 ^ 63"
  using sim_graph(5) [OF assms(1)] assms(2) by (simp_all add: room_def)

section \<open>The events\<close>

definition handled :: "int \<Rightarrow> event \<Rightarrow> tool \<Rightarrow> world \<Rightarrow> bool" where
  "handled es e s w' \<longleftrightarrow> (\<exists>s'. tool_event es e s = Some s' \<and> sim s' w')"

lemma handledI: "tool_event es e s = Some s' \<Longrightarrow> sim s' w' \<Longrightarrow> handled es e s w'"
  by (auto simp: handled_def)

lemma handle_explicit:
  assumes sim: "sim s w" and inv: "winv w" and rm: "room w" and "running w p t" and free: "w_task w k = None"
  shows "handled es (ExplicitTask p k) s
    (set_task k (Some (new_atask (w_brk w))) (add_edge (at_cur t) (w_brk w) (add_node (w_brk w) (RCur k) w)))"
    (is "handled _ _ _ ?w'")
proof -
  note g = sim_graph [OF sim]
  obtain a td where td: "task_at s p a td (at_cur t)" "data_sim s td t"
    using sim_task_at [OF sim inv, of p t] assms(4) by (auto simp: running_def)
  obtain s' where s': "cb_task_create (Some p) k ompt_task_explicit s = Some s'" and gr: "grows (s\<lparr>
      t_tasks := (t_tasks s)(t_brk s \<mapsto> new_TaskData\<lparr>td_curr_task_node := Some (g_brk s)\<rparr>),
      t_brk := Suc (t_brk s), t_taskPtr := (t_taskPtr s)(k := Some (t_brk s))\<rparr>)
      s' {g_brk s} {(at_cur t, g_brk s)} 1"
    using cb_task_create_explicit_ok [OF g(1) sim_room(2) [OF sim rm] td(1), of k] by blast
  have "sim s' ?w'"
  proof (rule sim_grows [OF sim gr])
    show "objs (s\<lparr>t_tasks := (t_tasks s)(t_brk s \<mapsto> new_TaskData\<lparr>td_curr_task_node := Some (g_brk s)\<rparr>),
      t_brk := Suc (t_brk s), t_taskPtr := (t_taskPtr s)(k := Some (t_brk s))\<rparr>) ?w'"
      by (rule objs_new_task) (use g free in \<open>simp_all add: new_atask_def new_TaskData_def\<close>)
  qed (use g in simp_all)
  then show ?thesis using s' by (intro handledI) simp_all
qed

lemma handle_initial:
  assumes sim: "sim s w" and inv: "winv w" and rm: "room w" and "w_brk w = 0" and free: "w_task w k = None"
  shows "handled es (InitialTask k) s
    ((set_task k (Some (new_atask (w_brk w))) (add_node (w_brk w) (RCur k) w))\<lparr>w_final := Some (w_brk w)\<rparr>)"
    (is "handled _ _ _ (?w\<lparr>w_final := _\<rparr>)")
proof -
  note g = sim_graph [OF sim]
  have "g_heap s = Map.empty" using graph_okD(4) [OF invD(1) [OF inv]] g(2) assms(4) by (auto simp flip: dom_eq_empty_conv)
  then obtain s' where s': "cb_task_create None k ompt_task_initial s = Some s'" and gr: "grows (s\<lparr>
      t_tasks := (t_tasks s)(t_brk s \<mapsto> new_TaskData\<lparr>td_curr_task_node := Some (g_brk s)\<rparr>),
      t_brk := Suc (t_brk s), t_taskPtr := (t_taskPtr s)(k := Some (t_brk s)),
      t_finalNode := Some (g_brk s)\<rparr>) s' {g_brk s} {} 1"
    using cb_task_create_initial_ok [OF g(1) sim_room(2) [OF sim rm], of None k] by auto
  have o1: "objs (s\<lparr>t_tasks := (t_tasks s)(t_brk s \<mapsto> new_TaskData\<lparr>td_curr_task_node := Some (g_brk s)\<rparr>),
      t_brk := Suc (t_brk s), t_taskPtr := (t_taskPtr s)(k := Some (t_brk s))\<rparr>) ?w"
    by (rule objs_new_task) (use g free in \<open>simp_all add: new_atask_def new_TaskData_def\<close>)
  have "sim s' (?w\<lparr>w_final := Some (w_brk w)\<rparr>)"
    by (rule sim_grows [OF sim gr]) (use g objs_final [OF o1, of "Some (g_brk s)"] in simp_all)
  then show ?thesis using s' by (intro handledI) simp_all
qed

lemma handle_schedule:
  assumes sim: "sim s w" and inv: "winv w"
  shows "handled es (Schedule k k') s w"
proof -
  note g = sim_graph [OF sim]
  have "\<exists>td c. t_tasks s a = Some td \<and> td_curr_task_node td = Some c \<and> c \<in> dom (g_heap s)"
    if a: "t_taskPtr s i = Some a" for a i
  proof -
    obtain t where "w_task w i = Some t"
      using objsD(1) [OF g(7), of i] a by (cases "w_task w i") (auto simp: task_sim_def)
    then obtain b td where "task_at s i b td (at_cur t)" by (rule sim_task_at [OF sim inv])
    then show ?thesis using a by (auto simp: task_at_def)
  qed
  then obtain s' where "cb_task_schedule k k' s = Some s'" "grows s s' {} {} 0"
    using cb_task_schedule_ok [OF g(1), of k k'] by blast
  then show ?thesis using sim_grows [OF sim, of s s' "{}" "{}" 0 w] g(7) by (intro handledI) simp_all
qed

lemma handle_parallel_begin:
  assumes sim: "sim s w" and inv: "winv w" and rm: "room w" and run: "running w p t" and free: "w_reg w r = None"
  shows "handled es (ParallelBegin p r team) s
      (set_reg r (Some \<lparr>ar_parent = p, ar_sink = w_brk w, ar_team = team, ar_cnt = 0, ar_bar = None,
                        ar_begun = {}, ar_master_done = False\<rparr>)
        (set_task p (Some (t\<lparr>at_status := Forked r\<rparr>)) (add_node (w_brk w) (RSink r) w)))"
    (is "handled _ _ _ (set_reg r (Some ?ar) ?w)")
proof -
  note g = sim_graph [OF sim]
  obtain a td where td: "task_at s p a td (at_cur t)" "data_sim s td t"
    using sim_task_at [OF sim inv, of p t] run by (auto simp: running_def)
  obtain s' where s': "cb_parallel_begin p r (word_of_nat team) s = Some s'" and gr: "grows (s\<lparr>
      t_pars := (t_pars s)(t_brk s \<mapsto> new_ParallelRegionData\<lparr>pr_parent_task_data := Some a,
                  pr_sink_node := Some (g_brk s), pr_team_size := word_of_nat team\<rparr>),
      t_brk := Suc (t_brk s), t_parPtr := (t_parPtr s)(r := Some (t_brk s))\<rparr>) s' {g_brk s} {} 1"
    using cb_parallel_begin_ok [OF g(1) sim_room(2) [OF sim rm] td(1), of r "word_of_nat team"] by blast
  have o1: "objs s ?w"
    by (rule objs_ghost [of s "add_node (w_brk w) (RSink r) w"])
      (use g(7) run in \<open>auto simp: running_def rel_option_iff split: option.splits\<close>)
  have "sim s' (set_reg r (Some ?ar) ?w)"
    by (rule sim_grows [OF sim gr], simp_all add: g, rule objs_new_reg [OF o1])
      (use free td in \<open>simp_all add: region_data_def new_ParallelRegionData_def task_at_def g\<close>)
  then show ?thesis using s' by (intro handledI) simp_all
qed

lemma handle_implicit_begin:
  assumes sim: "sim s w" and inv: "winv w" and rm: "room w" and ar: "w_reg w r = Some ar"
    and tn: "tn < ar_team ar" and tp: "w_task w (ar_parent ar) = Some tp" and free: "w_task w k = None"
  shows "handled es (ImplicitBegin r k tn) s
      (set_reg r (Some (ar\<lparr>ar_begun := b\<rparr>))
        (set_task k (Some ((new_atask (w_brk w))\<lparr>at_sink := Some (ar_sink ar), at_tn := tn\<rparr>))
          (add_edge (at_cur tp) (w_brk w) (add_node (w_brk w) (RCur k) w))))"
    (is "handled _ _ _ (set_reg r _ ?w)")
proof -
  note g = sim_graph [OF sim]
  obtain q par where q: "t_parPtr s r = Some q" "t_pars s q = Some par" "region_data s par ar"
    using sim_reg_at [OF sim ar] by blast
  obtain a td where td: "task_at s (ar_parent ar) a td (at_cur tp)" "data_sim s td tp"
    using sim_task_at [OF sim inv tp] by blast
  let ?td = "new_TaskData\<lparr>td_curr_task_node := Some (g_brk s), td_sink_node := pr_sink_node par,
      td_threadNum := sint (word_of_nat tn :: uint32)\<rparr>"
  let ?s = "s\<lparr>t_tasks := (t_tasks s)(t_brk s \<mapsto> ?td), t_brk := Suc (t_brk s),
      t_taskPtr := (t_taskPtr s)(k := Some (t_brk s))\<rparr>"
  have "pr_parent_task_data par = Some a" "t_tasks s a = Some td" "td_curr_task_node td = Some (at_cur tp)"
    "at_cur tp \<in> dom (g_heap s)"
    using q(3) td(1) by (auto simp: region_data_def task_at_def)
  from implicit_task_begin_ok [OF g(1) sim_room(2) [OF sim rm] q(1,2) this, of k "word_of_nat tn"]
  obtain s' where s': "implicit_task_begin r k (word_of_nat tn) s = Some s'"
    and gr: "grows ?s s' {g_brk s} {(at_cur tp, g_brk s)} 1" by blast
  have "ar_team ar < 2 ^ 32" using invD(3) [OF inv ar] by (simp add: reg_ok_def)
  then have o1: "objs ?s ?w"
    by (intro objs_new_task) (use g free q(3) tn in \<open>simp_all add: new_atask_def new_TaskData_def region_data_def\<close>)
  have "?s = ?s\<lparr>t_pars := (t_pars ?s)(q \<mapsto> par)\<rparr>" using q(2) by (cases s) (simp add: fun_upd_idem)
  moreover have "objs (?s\<lparr>t_pars := (t_pars ?s)(q \<mapsto> par)\<rparr>) (set_reg r (Some (ar\<lparr>ar_begun := b\<rparr>)) ?w)"
  proof (rule objs_set_reg [OF o1])
    have "ar_parent ar \<noteq> k" using tp free by auto
    then show "region_data ?s par (ar\<lparr>ar_begun := b\<rparr>)" using q(3) by (simp add: region_data_def)
  qed (use q in simp)
  ultimately have "objs ?s (set_reg r (Some (ar\<lparr>ar_begun := b\<rparr>)) ?w)" by simp
  then have "sim s' (set_reg r (Some (ar\<lparr>ar_begun := b\<rparr>)) ?w)" by (intro sim_grows [OF sim gr]) (simp_all add: g)
  then show ?thesis using s' by (intro handledI) (simp_all add: cb_implicit_task_def)
qed

lemma graph_sim_threads:
  assumes "sim s w"
  shows "graph_sim (s\<lparr>t_threads := m, t_brk := x, t_thrPtr := p\<rparr>) (w\<lparr>w_threads := T\<rparr>)"
proof -
  have "wf_tdg (s\<lparr>t_threads := m, t_brk := x, t_thrPtr := p\<rparr>) = wf_tdg s"
    by (simp add: wf_tdg_def ids_ok_def index_ok_def)
  then show ?thesis using assms by (simp add: sim_def graph_sim_def)
qed

lemma handle_thread_begin:
  assumes sim: "sim s w" and new: "thr \<notin> w_threads w"
  shows "handled es (ThreadBegin thr) s (w\<lparr>w_threads := insert thr (w_threads w)\<rparr>)"
proof -
  note o = sim_graph(7) [OF sim]
  let ?th = "\<lparr>th_loopCounter = 0, th_papiEventset = es\<rparr>" and ?p = "(t_thrPtr s)(thr := Some (t_brk s))"
  let ?s = "s\<lparr>t_threads := (t_threads s)(t_brk s \<mapsto> ?th), t_brk := Suc (t_brk s), t_thrPtr := ?p\<rparr>"
  have "(\<lambda>x. if x \<in> insert thr (w_threads w) then ?p x else None) = (thr_ptr s w)(thr := Some (t_brk s))"
    by (auto simp: thr_ptr_def fun_eq_iff)
  moreover have "inj_ptr ((thr_ptr s w)(thr := Some (t_brk s)))"
    by (rule inj_ptr_new [OF objsD(7) [OF o]]) (rule ptr_bounds(4) [OF o])
  moreover have "\<exists>c y. ?p x = Some c \<and> ((t_threads s)(t_brk s \<mapsto> ?th)) c = Some y \<and> c < Suc (t_brk s)"
    if x: "x \<in> insert thr (w_threads w)" for x
  proof (cases "x = thr")
    case False
    then obtain c y where "t_thrPtr s x = Some c" "t_threads s c = Some y" "c < t_brk s"
      using objsD(3) [OF o, of x] x by (auto simp: thread_at_def)
    then show ?thesis using False by auto
  qed simp
  ultimately have "objs ?s (w\<lparr>w_threads := insert thr (w_threads w)\<rparr>)"
    by (intro objs_threads [OF o]) simp_all
  then have "sim ?s (w\<lparr>w_threads := insert thr (w_threads w)\<rparr>)"
    using graph_sim_threads [OF sim] by (simp add: sim_def)
  then show ?thesis by (intro handledI) (auto simp: cb_thread_begin_def list_all_iff)
qed

lemma handle_thread_end:
  assumes sim: "sim s w" and old: "thr \<in> w_threads w"
  shows "handled es (ThreadEnd thr) s (w\<lparr>w_threads := w_threads w - {thr}\<rparr>)"
proof -
  note o = sim_graph(7) [OF sim]
  obtain c th where "thread_at s thr c th" by (rule sim_thread_at [OF sim old])
  then have c: "t_thrPtr s thr = Some c" "t_threads s c = Some th" by (simp_all add: thread_at_def)
  have inj: "inj_ptr (thr_ptr s w)" by (rule objsD(7) [OF o])
  have u: "t_thrPtr s x \<noteq> Some c" if "x \<in> w_threads w" "x \<noteq> thr" for x
    using inj c(1) old that by (auto simp: inj_ptr_def thr_ptr_def)
  have "objs (s\<lparr>t_threads := (t_threads s)(c := None), t_brk := t_brk s, t_thrPtr := t_thrPtr s\<rparr>)
      (w\<lparr>w_threads := w_threads w - {thr}\<rparr>)"
  proof (rule objs_threads [OF o])
    show "\<exists>c' x'. t_thrPtr s x = Some c' \<and> ((t_threads s)(c := None)) c' = Some x' \<and> c' < t_brk s"
      if "x \<in> w_threads w - {thr}" for x
      using objsD(3) [OF o, of x] u [of x] that by (auto simp: thread_at_def)
    show "inj_ptr (\<lambda>x. if x \<in> w_threads w - {thr} then t_thrPtr s x else None)"
      using inj by (simp add: inj_ptr_def thr_ptr_def)
  qed simp
  then have "sim (s\<lparr>t_threads := (t_threads s)(c := None)\<rparr>) (w\<lparr>w_threads := w_threads w - {thr}\<rparr>)"
    using graph_sim_threads [OF sim, where x = "t_brk s" and p = "t_thrPtr s"] by (simp add: sim_def)
  then show ?thesis using c by (intro handledI) (simp_all add: cb_thread_end_def)
qed

subsection \<open>Barriers\<close>

lemma uint32_le: "a < 2 ^ 32 \<Longrightarrow> b < 2 ^ 32 \<Longrightarrow> (word_of_nat a \<le> (word_of_nat b :: uint32)) = (a \<le> b)"
  by (simp add: word_le_nat_alt unat_word_of_nat)

lemma uint32_gt_1: "a < 2 ^ 32 \<Longrightarrow> ((1 :: uint32) < word_of_nat a) = (1 < a)"
  using uint32_le [of a 1] by (simp flip: not_le)

lemma uint32_eq_0: "a < 2 ^ 32 \<Longrightarrow> ((word_of_nat a :: uint32) = 0) = (a = 0)"
  using uint32_le [of a 0] by (auto simp: word_le_0_iff)

lemma objs_arrive:
  assumes ob: "objs s w" and a: "task_at s k a td c" "data_sim s td t" and q: "t_parPtr s r = Some q"
    and rd: "region_data s par' ar'"
  shows "objs (s\<lparr>t_pars := (t_pars s)(q \<mapsto> par'),
      t_tasks := (t_tasks s)(a \<mapsto> td\<lparr>td_curr_barrier_node := Some B, td_curr_task_node := Some N\<rparr>)\<rparr>)
      (set_reg r (Some ar') (arrive k t B N w))"
proof -
  let ?td = "td\<lparr>td_curr_barrier_node := Some B, td_curr_task_node := Some N\<rparr>"
  let ?s = "s\<lparr>t_tasks := (t_tasks s)(a \<mapsto> ?td)\<rparr>"
  have o1: "objs ?s (arrive k t B N w)"
    unfolding arrive_def by (rule objs_set_task) (use ob a in \<open>auto simp: task_at_def data_sim_def\<close>)
  have "objs (?s\<lparr>t_pars := (t_pars ?s)(q \<mapsto> par')\<rparr>) (set_reg r (Some ar') (arrive k t B N w))"
    by (rule objs_set_reg [OF o1]) (use q rd in \<open>simp_all add: region_data_def\<close>)
  moreover have eq: "?s\<lparr>t_pars := (t_pars ?s)(q \<mapsto> par')\<rparr> = s\<lparr>t_pars := (t_pars s)(q \<mapsto> par'),
      t_tasks := (t_tasks s)(a \<mapsto> ?td)\<rparr>" by (cases s) simp
  ultimately show ?thesis by (rule subst [where P = "\<lambda>x. objs x _", rotated])
qed

lemma sync_region_barrier:
  assumes "t_parPtr s r = Some q" and "t_pars s q = Some par" and "region_data s par ar"
    and "ar_team ar < 2 ^ 32"
  shows "cb_sync_region ompt_sync_region_barrier ompt_scope_begin (Some r) k s =
     (if 1 < ar_team ar then barrier_begin (t_taskPtr s k) q par s else Some s)"
    and "cb_sync_region ompt_sync_region_barrier ompt_scope_end (Some r) k s =
     (if 1 < ar_team ar then do { td \<leftarrow> task_ref (t_taskPtr s k) s; set_time_now (td_curr_task_node td) s }
      else Some s)"
  using assms uint32_gt_1 [OF assms(4)] by (simp_all add: cb_sync_region_def region_data_def)

lemma handle_barrier_first:
  assumes sim: "sim s w" and inv: "winv w" and rm: "room w" and run: "running w k t" and mem: "member w r ar t"
    and team: "1 < ar_team ar" and cnt: "ar_cnt ar = 0"
  shows "handled es (BarrierBegin r k) s
      (set_reg r (Some (ar\<lparr>ar_cnt := 1, ar_bar := Some (w_brk w)\<rparr>))
        (arrive k t (w_brk w) (Suc (w_brk w)) (add_node (w_brk w) (RBar r) w)))" (is "handled _ _ _ ?w'")
proof -
  note g = sim_graph [OF sim]
  have ar: "w_reg w r = Some ar" using mem by (simp add: member_def)
  have t32: "ar_team ar < 2 ^ 32" using invD(3) [OF inv ar] by (simp add: reg_ok_def)
  obtain q par where q: "t_parPtr s r = Some q" "t_pars s q = Some par" "region_data s par ar"
    using sim_reg_at [OF sim ar] by blast
  obtain a td where td: "task_at s k a td (at_cur t)" "data_sim s td t"
    using sim_task_at [OF sim inv, of k t] run by (auto simp: running_def)
  let ?par = "par\<lparr>pr_barrier_cnt := 1, pr_curr_barrier_node := Some (g_brk s)\<rparr>"
  let ?s = "s\<lparr>t_pars := (t_pars s)(q \<mapsto> ?par), t_tasks := (t_tasks s)(a \<mapsto> td\<lparr>
      td_curr_barrier_node := Some (g_brk s), td_curr_task_node := Some (Suc (g_brk s))\<rparr>)\<rparr>"
  obtain s' where s': "barrier_begin (Some a) q par s = Some s'"
      and gr: "grows ?s s' {g_brk s, Suc (g_brk s)} {(at_cur t, g_brk s), (g_brk s, Suc (g_brk s))} 2"
    using barrier_first_ok [OF g(1) sim_room(1) [OF sim rm] td(1), of par q] q(3) cnt
    by (auto simp: region_data_def)
  have "objs ?s ?w'"
    unfolding g(4) by (rule objs_arrive) (use g(7) td q in \<open>simp_all add: region_data_def\<close>)
  then have "sim s' ?w'" by (intro sim_grows [OF sim gr]) (simp_all add: arrive_def g insert_commute)
  moreover have "tool_event es (BarrierBegin r k) s = Some s'"
    using sync_region_barrier(1) [OF q t32] team s' td(1) by (simp add: task_at_def)
  ultimately show ?thesis by (intro handledI)
qed

lemma arrive_sel:
  "w_nodes (arrive k t B N w) = insert N (w_nodes w)"
  "w_edges (arrive k t B N w) = insert (B, N) (insert (at_cur t, B) (w_edges w))"
  "w_brk (arrive k t B N w) = Suc N"
  by (simp_all add: arrive_def)

text \<open>All threads but the first: \<open>n\<close> is the count after this one.\<close>

lemma handle_barrier_next:
  assumes sim: "sim s w" and inv: "winv w" and rm: "room w" and run: "running w k t" and mem: "member w r ar t"
    and cnt: "ar_cnt ar \<noteq> 0" "ar_bar ar = Some B" "ar_cnt ar + 1 \<le> ar_team ar"
    and n: "n = (if ar_cnt ar + 1 = ar_team ar then 0 else ar_cnt ar + 1)"
  shows "handled es (BarrierBegin r k) s (set_reg r (Some (ar\<lparr>ar_cnt := n\<rparr>)) (arrive k t B (w_brk w) w))"
    (is "handled _ _ _ ?w'")
proof -
  note g = sim_graph [OF sim]
  have ar: "w_reg w r = Some ar" using mem by (simp add: member_def)
  have t32: "ar_team ar < 2 ^ 32" using invD(3) [OF inv ar] by (simp add: reg_ok_def)
  have B: "B \<in> dom (g_heap s)" using invD(3) [OF inv ar] cnt(1,2) g(2) by (auto simp: reg_ok_def has_role_def)
  obtain q par where q: "t_parPtr s r = Some q" "t_pars s q = Some par" "region_data s par ar"
    using sim_reg_at [OF sim ar] by blast
  obtain a td where td: "task_at s k a td (at_cur t)" "data_sim s td t"
    using sim_task_at [OF sim inv, of k t] run by (auto simp: running_def)
  have par: "pr_barrier_cnt par = word_of_nat (ar_cnt ar)" "pr_team_size par = word_of_nat (ar_team ar)"
      "pr_curr_barrier_node par = Some B"
    using q(3) cnt(1,2) by (simp_all add: region_data_def)
  have nz: "pr_barrier_cnt par \<noteq> 0" using par(1) uint32_eq_0 [of "ar_cnt ar"] cnt t32 by simp
  have suc: "word_of_nat (ar_cnt ar) + 1 = (word_of_nat (ar_cnt ar + 1) :: uint32)" by simp
  have "(word_of_nat (ar_team ar) \<le> (word_of_nat (ar_cnt ar + 1) :: uint32)) = (ar_team ar \<le> ar_cnt ar + 1)"
    by (rule uint32_le) (use cnt(3) t32 in linarith)+
  then have w: "(if pr_barrier_cnt par + 1 \<ge> pr_team_size par then 0 else pr_barrier_cnt par + 1)
      = (word_of_nat n :: uint32)"
    unfolding par(1,2) suc using cnt(3) n by (simp del: of_nat_Suc of_nat_add Suc_eq_plus1)
  let ?s = "s\<lparr>t_pars := (t_pars s)(q \<mapsto> par\<lparr>pr_barrier_cnt := word_of_nat n\<rparr>), t_tasks := (t_tasks s)(a \<mapsto> td\<lparr>
      td_curr_barrier_node := Some B, td_curr_task_node := Some (g_brk s)\<rparr>)\<rparr>"
  obtain s' where s': "barrier_begin (Some a) q par s = Some s'"
      and gr: "grows ?s s' {g_brk s} {(at_cur t, B), (B, g_brk s)} 1"
    using barrier_join_ok [OF g(1) sim_room(2) [OF sim rm] td(1) nz par(3) B, of q] unfolding w by blast
  have "objs ?s ?w'"
    unfolding g(4) by (rule objs_arrive) (use g(7) td q cnt in \<open>simp_all add: region_data_def\<close>)
  then have "sim s' ?w'" by (intro sim_grows [OF sim gr]) (simp_all add: arrive_sel g insert_commute)
  moreover have "tool_event es (BarrierBegin r k) s = Some s'"
    using sync_region_barrier(1) [OF q t32] cnt s' td(1) by (simp add: task_at_def)
  ultimately show ?thesis by (intro handledI)
qed

lemma sim_pass_all: "sim s w \<Longrightarrow> sim s (pass_all sk w)"
proof -
  assume s: "sim s w"
  have "objs s (pass_all sk w)"
    by (rule objs_ghost [OF sim_graph(7) [OF s]])
      (auto simp: pass_all_def pass_task_def rel_option_iff split: option.splits)
  then show ?thesis using s by (simp add: sim_def graph_sim_def pass_all_def)
qed

lemma handle_barrier_end:
  assumes sim: "sim s w" and inv: "winv w" and t: "w_task w k = Some t"
  shows "handled es (BarrierEnd r k) s w"
proof (cases "w_reg w r")
  case None
  then have "t_parPtr s r = None" using objsD(2) [OF sim_graph(7) [OF sim], of r] by (simp add: reg_sim_def)
  then show ?thesis using sim by (intro handledI) (simp_all add: cb_sync_region_def)
next
  case (Some ar)
  note g = sim_graph [OF sim]
  have t32: "ar_team ar < 2 ^ 32" using invD(3) [OF inv Some] by (simp add: reg_ok_def)
  obtain q par where q: "t_parPtr s r = Some q" "t_pars s q = Some par" "region_data s par ar"
    using sim_reg_at [OF sim Some] by blast
  obtain a td where td: "task_at s k a td (at_cur t)" using sim_task_at [OF sim inv t] by blast
  obtain s' where s': "do { td \<leftarrow> task_ref (t_taskPtr s k) s; set_time_now (td_curr_task_node td) s } = Some s'"
      "grows s s' {} {} 0"
    using barrier_end_ok [OF g(1) td] by blast
  then have "sim s' w" using sim_grows [OF sim, of s s' "{}" "{}" 0 w] g(7) by simp
  then show ?thesis
    using sim s'(1) sync_region_barrier(2) [OF q t32, of k] by (cases "1 < ar_team ar") (auto simp: handled_def)
qed

subsection \<open>Ends of implicit tasks and of parallel regions\<close>

lemma handle_resume:
  assumes sim: "sim s w" and t: "w_task w k = Some t"
  shows "handled es (Resume k) s (set_task k (Some (t\<lparr>at_status := Running\<rparr>)) (set_role (at_cur t) (RCur k) w))"
    (is "handled _ _ _ ?w'")
proof -
  have "objs s ?w'"
    by (rule objs_ghost [OF sim_graph(7) [OF sim]]) (use t in \<open>auto simp: rel_option_iff split: option.splits\<close>)
  then have "sim s ?w'" using sim by (simp add: sim_def graph_sim_def)
  then show ?thesis by (intro handledI) simp_all
qed

lemma objs_reg_ghost:
  assumes ob: "objs s w" and ar: "w_reg w r = Some ar"
    and same: "ar_sink ar' = ar_sink ar" "ar_parent ar' = ar_parent ar" "ar_team ar' = ar_team ar"
      "ar_cnt ar' = ar_cnt ar" "ar_bar ar' = ar_bar ar"
  shows "objs s (set_reg r (Some ar') w)"
proof -
  have "reg_sim s r (Some ar')" using objsD(2) [OF ob, of r] ar same by (simp add: reg_sim_def region_data_def)
  then show ?thesis using ob by (auto simp: objs_def)
qed

lemma sim_drops:
  assumes sim: "sim s w" and dr: "drops s0 s' c E" and "g_heap s0 = g_heap s" and "g_brk s0 = g_brk s"
    and "g_nextId s0 = g_nextId s" and "w_nodes w' = w_nodes w - {c}" and "w_edges w' = E"
    and "w_brk w' = w_brk w" and ob: "objs s0 w'"
  shows "sim s' w'"
proof -
  note g = sim_graph [OF sim]
  have "heap_ok (g_heap s')"
    unfolding heap_ok_def
  proof (intro allI impI)
    fix a n' assume n': "g_heap s' a = Some n'"
    then have "a \<in> dom (g_heap s)" using dr assms(3) by (auto simp: drops_def)
    then obtain n where n: "g_heap s a = Some n" by blast
    then have "evolves n n'" using dr assms(3) n' by (auto simp: drops_def nodes_evolve_def)
    then show "fresh_flags n' \<and> printable n'" using g(6) n by (auto simp: heap_ok_def evolves_def)
  qed
  moreover have "same_tool s0 s'" using dr by (simp add: drops_def)
  ultimately show ?thesis
    using dr g assms(3-8) objs_same [OF _ ob] by (simp add: sim_def graph_sim_def drops_def)
qed

text \<open>Tasks that are not suspended in a parallel region are nobody's parent.\<close>

lemma no_parent:
  assumes "winv w" and "w_task w k = Some t" and "\<And>r. at_status t \<noteq> Forked r" and "w_reg w r = Some ar"
  shows "ar_parent ar \<noteq> k"
  using invD(3) [OF assms(1,4)] assms(2,3) by (auto simp: reg_ok_def)

lemma handle_end_plain:
  assumes sim: "sim s w" and inv: "winv w" and run: "running w k t" and nb: "at_bar t = None"
    and mem: "member w r ar t"
  shows "handled es (ImplicitEnd k (at_tn t)) s
      (set_reg r (Some (ar\<lparr>ar_master_done := b\<rparr>))
        (set_task k None (add_edge (at_cur t) (ar_sink ar) (set_role (at_cur t) RPast w))))" (is "handled _ _ _ ?w'")
proof -
  note g = sim_graph [OF sim]
  have ar: "w_reg w r = Some ar" "at_sink t = Some (ar_sink ar)" using mem by (simp_all add: member_def)
  have wt: "w_task w k = Some t" "at_status t = Running" using run by (simp_all add: running_def)
  obtain a td where td: "task_at s k a td (at_cur t)" "data_sim s td t" using sim_task_at [OF sim inv wt(1)] by blast
  have sk: "ar_sink ar \<in> dom (g_heap s)" using invD(3) [OF inv ar(1)] g(2) by (simp add: reg_ok_def has_role_def)
  let ?s = "s\<lparr>t_tasks := (t_tasks s)(a := None), t_taskPtr := (t_taskPtr s)(k := None)\<rparr>"
  have "td_curr_barrier_node td = None" "td_sink_node td = Some (ar_sink ar)"
    using td(2) nb ar(2) by (simp_all add: data_sim_def)
  then obtain s' where s': "implicit_task_end k (word_of_nat (at_tn t)) s = Some s'"
      and gr: "grows ?s s' {} {(at_cur t, ar_sink ar)} 0"
    using implicit_task_end_plain_ok [OF g(1) td(1) _ _ sk] by blast
  have "objs ?s (set_task k None (add_edge (at_cur t) (ar_sink ar) (set_role (at_cur t) RPast w)))"
    by (rule objs_del_task) (use g(7) td(1) no_parent [OF inv wt(1)] wt(2) in \<open>auto simp: task_at_def\<close>)
  then have "objs ?s ?w'" by (rule objs_reg_ghost) (use ar(1) in simp_all)
  then have "sim s' ?w'" by (intro sim_grows [OF sim gr]) (simp_all add: g)
  then show ?thesis using s' by (intro handledI) (simp_all add: cb_implicit_task_def)
qed

text \<open>After a barrier the task's last node leaves the graph; the master links the barrier to the sink.\<close>

lemma handle_end_barrier:
  assumes sim: "sim s w" and inv: "winv w" and t: "w_task w k = Some t" "at_status t = Passed" "at_bar t = Some B"
    and mem: "at_tn t = 0 \<Longrightarrow> member w r ar t"
    and w': "w_nodes w' = w_nodes w - {at_cur t}" "w_brk w' = w_brk w"
      "w_edges w' = w_edges w - {(B, at_cur t)} \<union> (if at_tn t = 0 then {(B, ar_sink ar)} else {})"
    and ob: "\<And>s0. objs s0 (set_task k None w) \<Longrightarrow> objs s0 w'"
  shows "handled es (ImplicitEnd k (at_tn t)) s w'"
proof -
  note g = sim_graph [OF sim]
  obtain a td where td: "task_at s k a td (at_cur t)" "data_sim s td t" using sim_task_at [OF sim inv t(1)] by blast
  have ok: "task_ok w k t" by (rule invD(2) [OF inv t(1)])
  then have c: "w_role w (at_cur t) = RPark k" "\<And>u. (u, at_cur t) \<in> w_edges w \<Longrightarrow> u = B"
    and B: "B \<in> dom (g_heap s)" "B \<noteq> at_cur t"
    using t(2,3) g(2) by (auto simp: task_ok_def parked_def has_role_def)
  have out: "(at_cur t, v) \<notin> w_edges w" for v
    using graph_okD(3) [OF invD(1) [OF inv], of "at_cur t" v] c(1) by auto
  have sk: "td_sink_node td = Some (ar_sink ar) \<and> ar_sink ar \<in> dom (g_heap s) - {at_cur t}"
    if "(word_of_nat (at_tn t) :: uint32) = 0"
  proof -
    have "at_tn t = 0" using that uint32_eq_0 td(2) by (simp add: data_sim_def)
    with mem have m: "member w r ar t" by simp
    then have "has_role w (ar_sink ar) (RSink r)" using invD(3) [OF inv] by (auto simp: member_def reg_ok_def)
    then show ?thesis using m c(1) td(2) g(2) by (auto simp: member_def data_sim_def has_role_def)
  qed
  let ?s = "s\<lparr>t_tasks := (t_tasks s)(a := None), t_taskPtr := (t_taskPtr s)(k := None)\<rparr>"
  have "td_curr_barrier_node td = Some B" using td(2) t(3) by (simp add: data_sim_def)
  from implicit_task_end_barrier_ok [OF g(1) td(1) this B _ _ sk] c(2) out
  obtain s' where s': "implicit_task_end k (word_of_nat (at_tn t)) s = Some s'"
      and dr: "drops ?s s' (at_cur t) (edge_rel (g_heap s) - {(B, at_cur t)}
        \<union> (if (word_of_nat (at_tn t) :: uint32) = 0 then {(B, ar_sink ar)} else {}))"
    unfolding g(3) by blast
  have "objs ?s (set_task k None w)"
    by (rule objs_del_task) (use g(7) td(1) no_parent [OF inv t(1)] t(2) in \<open>auto simp: task_at_def\<close>)
  then have "objs ?s w'" by (rule ob)
  moreover have "((word_of_nat (at_tn t) :: uint32) = 0) = (at_tn t = 0)"
    using uint32_eq_0 td(2) by (simp add: data_sim_def)
  ultimately have "sim s' w'" using w' by (intro sim_drops [OF sim dr]) (simp_all add: g(3))
  then show ?thesis using s' by (intro handledI) (simp_all add: cb_implicit_task_def)
qed

lemma handle_parallel_end:
  assumes sim: "sim s w" and inv: "winv w" and ar: "w_reg w r = Some ar" and tp: "w_task w (ar_parent ar) = Some tp"
  shows "handled es (ParallelEnd r) s
      ((set_reg r None (set_task (ar_parent ar) (Some (tp\<lparr>at_cur := ar_sink ar, at_status := Running\<rparr>))
        (set_role (ar_sink ar) (RCur (ar_parent ar)) (set_role (at_cur tp) RPast w))))
       \<lparr>w_final := Some (ar_sink ar)\<rparr>)" (is "handled _ _ _ ?w'")
proof -
  note g = sim_graph [OF sim]
  obtain q par where q: "t_parPtr s r = Some q" "t_pars s q = Some par" "region_data s par ar"
    using sim_reg_at [OF sim ar] by blast
  obtain a td where td: "task_at s (ar_parent ar) a td (at_cur tp)" "data_sim s td tp"
    using sim_task_at [OF sim inv tp] by blast
  have sk: "ar_sink ar \<in> dom (g_heap s)" using invD(3) [OF inv ar] g(2) by (simp add: reg_ok_def has_role_def)
  have par: "pr_parent_task_data par = Some a" "t_tasks s a = Some td" "pr_sink_node par = Some (ar_sink ar)"
    using q(3) td(1) by (auto simp: region_data_def task_at_def)
  let ?s1 = "s\<lparr>t_tasks := (t_tasks s)(a \<mapsto> td\<lparr>td_curr_task_node := Some (ar_sink ar)\<rparr>)\<rparr>"
  let ?s2 = "?s1\<lparr>t_pars := (t_pars ?s1)(q := None), t_parPtr := (t_parPtr ?s1)(r := None)\<rparr>"
  let ?s = "s\<lparr>t_tasks := (t_tasks s)(a \<mapsto> td\<lparr>td_curr_task_node := Some (ar_sink ar)\<rparr>),
      t_finalNode := Some (ar_sink ar), t_pars := (t_pars s)(q := None), t_parPtr := (t_parPtr s)(r := None)\<rparr>"
  obtain s' where s': "cb_parallel_end r s = Some s'" and gr: "grows ?s s' {} {} 0"
    using cb_parallel_end_ok [OF g(1) q(1,2) par sk] by blast
  have "objs ?s1 (set_task (ar_parent ar) (Some (tp\<lparr>at_cur := ar_sink ar, at_status := Running\<rparr>))
        (set_role (ar_sink ar) (RCur (ar_parent ar)) (set_role (at_cur tp) RPast w)))"
    by (rule objs_set_task) (use g(7) td in \<open>auto simp: task_at_def data_sim_def\<close>)
  then have "objs ?s2 (set_reg r None (set_task (ar_parent ar) (Some (tp\<lparr>at_cur := ar_sink ar, at_status := Running\<rparr>))
        (set_role (ar_sink ar) (RCur (ar_parent ar)) (set_role (at_cur tp) RPast w))))"
    by (rule objs_del_reg) (use q in simp)
  then have "objs (?s2\<lparr>t_finalNode := Some (ar_sink ar)\<rparr>) ?w'" by (rule objs_final)
  moreover have "?s2\<lparr>t_finalNode := Some (ar_sink ar)\<rparr> = ?s" by (cases s) simp
  ultimately have "objs ?s ?w'" by (rule subst [where P = "\<lambda>x. objs x _", rotated])
  then have "sim s' ?w'" by (intro sim_grows [OF sim gr]) (simp_all add: g)
  then show ?thesis using s' by (intro handledI) simp_all
qed

subsection \<open>Loops\<close>

lemma handle_loop_begin:
  assumes sim: "sim s w" and inv: "winv w" and rm: "room w" and run: "running w k t"
  shows "handled es (LoopBegin k lo up) s
      (set_task k (Some (t\<lparr>at_loop := Some (w_brk w, Suc (w_brk w), None)\<rparr>))
        (add_node (Suc (w_brk w)) (RLoopSink k) (add_edge (at_cur t) (w_brk w) (add_node (w_brk w) RLoopStart w))))"
    (is "handled _ _ _ ?w'")
proof -
  note g = sim_graph [OF sim]
  have wt: "w_task w k = Some t" using run by (simp add: running_def)
  obtain a td where td: "task_at s k a td (at_cur t)" "data_sim s td t" using sim_task_at [OF sim inv wt] by blast
  let ?s = "s\<lparr>t_ws := (t_ws s)(t_brk s \<mapsto> new_WorksharingData\<lparr>ws_start_node := Some (g_brk s),
        ws_sink_node := Some (Suc (g_brk s))\<rparr>),
      t_brk := Suc (t_brk s), t_tasks := (t_tasks s)(a \<mapsto> td\<lparr>td_curr_ws_data := Some (t_brk s)\<rparr>)\<rparr>"
  obtain s' where s': "loop_begin k lo up s = Some s'"
      and gr: "grows ?s s' {g_brk s, Suc (g_brk s)} {(at_cur t, g_brk s)} 2"
    using loop_begin_ok [OF g(1) sim_room(1) [OF sim rm] td(1)] by blast
  have "objs ?s ?w'"
    unfolding g(4)
    by (rule objs_new_loop) (use g(7) td wt in \<open>simp_all add: task_at_def new_WorksharingData_def\<close>)
  then have "sim s' ?w'" by (intro sim_grows [OF sim gr]) (simp_all add: g insert_commute)
  then show ?thesis using s' by (intro handledI) (simp_all add: cb_ext_loop_def)
qed

lemma objs_set_thread:
  assumes ob: "objs s w" and th: "thread_at s thr b th"
  shows "objs (s\<lparr>t_threads := (t_threads s)(b \<mapsto> th')\<rparr>) w"
proof -
  have "objs (s\<lparr>t_threads := (t_threads s)(b \<mapsto> th'), t_brk := t_brk s, t_thrPtr := t_thrPtr s\<rparr>)
      (w\<lparr>w_threads := w_threads w\<rparr>)"
  proof (rule objs_threads [OF ob])
    show "\<exists>c y. t_thrPtr s x = Some c \<and> ((t_threads s)(b \<mapsto> th')) c = Some y \<and> c < t_brk s"
      if "x \<in> w_threads w" for x
      using objsD(3) [OF ob that] by (auto simp: thread_at_def)
    show "inj_ptr (\<lambda>x. if x \<in> w_threads w then t_thrPtr s x else None)"
      using objsD(7) [OF ob] by (simp add: inj_ptr_def thr_ptr_def)
  qed simp
  then show ?thesis by simp
qed

lemma handle_chunks:
  assumes sim: "sim s w" and inv: "winv w" and rm: "room w" and run: "running w k t"
    and lp: "at_loop t = Some (st, sk, l)" and thr: "thr \<in> w_threads w"
  shows "handled es (Chunk thr k lo up False) s
      (set_task k (Some (t\<lparr>at_loop := Some (st, sk, Some (w_brk w))\<rparr>))
        (add_edge (w_brk w) sk (add_edge st (w_brk w) (add_node (w_brk w) RChunk w))))" (is "handled _ _ _ ?w'")
    and "handled es (Chunk thr k lo up True) s w"
proof -
  note g = sim_graph [OF sim]
  have wt: "w_task w k = Some t" using run by (simp add: running_def)
  obtain a td where td: "task_at s k a td (at_cur t)" "data_sim s td t" using sim_task_at [OF sim inv wt] by blast
  obtain x ws where ws: "loop_at s td x ws st sk" "ws_last_chunk_node ws = l"
    by (rule sim_loop_at [OF sim inv wt td(2) lp])
  obtain b th where th: "thread_at s thr b th" by (rule sim_thread_at [OF sim thr])
  note ok = cb_ext_chunk_ok [OF g(1) sim_room(2) [OF sim rm] td(1) ws(1) th, of lo up]
  let ?s = "s\<lparr>t_ws := (t_ws s)(x \<mapsto> ws\<lparr>ws_last_chunk_node := Some (g_brk s)\<rparr>)\<rparr>"
  obtain s' where s': "cb_ext_chunk thr k lo up False s = Some s'"
      and gr: "grows ?s s' {g_brk s} {(st, g_brk s), (g_brk s, sk)} 1" using ok(1) by blast
  have "objs ?s ?w'"
    unfolding g(4) by (rule objs_set_loop [where td = td and a = a]) (use g(7) td wt ws(1) in \<open>simp_all add: task_at_def loop_at_def\<close>)
  then have "sim s' ?w'" by (intro sim_grows [OF sim gr]) (simp_all add: g insert_commute)
  then show "handled es (Chunk thr k lo up False) s ?w'" using s' by (intro handledI) simp_all
  obtain s2 where s2: "cb_ext_chunk thr k lo up True s = Some s2" "grows s s2 {} {} 0" using ok(2) by blast
  then have "sim s2 w" using sim_grows [OF sim, of s s2 "{}" "{}" 0 w] g(7) by simp
  then show "handled es (Chunk thr k lo up True) s w" using s2(1) by (intro handledI) simp_all
qed

lemma handle_loop_end:
  assumes sim: "sim s w" and inv: "winv w" and run: "running w k t"
    and lp: "at_loop t = Some (st, sk, l)" and thr: "thr \<in> w_threads w"
  shows "handled es (LoopEnd thr k) s
      (set_task k (Some (t\<lparr>at_cur := sk, at_loop := None\<rparr>))
        (set_role sk (RCur k) (set_role (at_cur t) RPast (if l = None then add_edge st sk w else w))))"
    (is "handled _ _ _ ?w'")
proof -
  note g = sim_graph [OF sim]
  have wt: "w_task w k = Some t" using run by (simp add: running_def)
  obtain a td where td: "task_at s k a td (at_cur t)" "data_sim s td t" using sim_task_at [OF sim inv wt] by blast
  obtain x ws where ws: "loop_at s td x ws st sk" "ws_last_chunk_node ws = l"
    by (rule sim_loop_at [OF sim inv wt td(2) lp])
  obtain b th where th: "thread_at s thr b th" by (rule sim_thread_at [OF sim thr])
  let ?s1 = "s\<lparr>t_ws := (t_ws s)(x := None),
      t_tasks := (t_tasks s)(a \<mapsto> td\<lparr>td_curr_task_node := Some sk, td_curr_ws_data := None\<rparr>)\<rparr>"
  let ?s = "?s1\<lparr>t_threads := (t_threads ?s1)(b \<mapsto> th\<lparr>th_loopCounter := th_loopCounter th + 1\<rparr>)\<rparr>"
  obtain s' where s': "loop_end thr k s = Some s'" and gr: "grows ?s s' {} (if l = None then {(st, sk)} else {}) 0"
    using loop_end_ok [OF g(1) td(1) ws(1) th] ws(2) by auto
  have "objs ?s1 ?w'"
    by (rule objs_end_loop) (use g(7) td wt ws(1) in \<open>simp_all add: task_at_def loop_at_def\<close>)
  then have "objs ?s ?w'" by (rule objs_set_thread [where thr = thr and th = th]) (use th in \<open>simp add: thread_at_def\<close>)
  then have "sim s' ?w'" by (intro sim_grows [OF sim gr]) (simp_all add: g)
  then show ?thesis using s' by (intro handledI) (simp_all add: cb_ext_loop_def)
qed

section \<open>Every event\<close>

lemma handle_barrier_single:
  assumes "member w r ar t" and "ar_team ar = 1" and "sim s w" shows "handled es (BarrierBegin r k) s w"
proof -
  obtain q par where q: "t_parPtr s r = Some q" "t_pars s q = Some par" "region_data s par ar"
    using sim_reg_at [of s w r ar] assms by (auto simp: member_def)
  have "cb_sync_region ompt_sync_region_barrier ompt_scope_begin (Some r) k s = Some s"
    using sync_region_barrier(1) [OF q] assms(2) by simp
  then show ?thesis using assms(3) by (intro handledI) simp_all
qed

lemma handle_pass_all: "handled es e s w \<Longrightarrow> handled es e s (pass_all sk w)"
  using sim_pass_all by (auto simp: handled_def)

text \<open>The objects do not see the removal of a node.\<close>

lemma objs_drop_node:
  assumes "objs s (set_task k None w)"
  shows "objs s (set_task k None (w\<lparr>w_nodes := V, w_edges := E\<rparr>))"
    and "objs s (set_task k None (add_edge u v (w\<lparr>w_nodes := V, w_edges := E\<rparr>)))"
proof -
  have eq: "set_task k None (w\<lparr>w_nodes := V, w_edges := E\<rparr>) = (set_task k None w)\<lparr>w_nodes := V, w_edges := E\<rparr>"
    "set_task k None (add_edge u v (w\<lparr>w_nodes := V, w_edges := E\<rparr>))
      = add_edge u v ((set_task k None w)\<lparr>w_nodes := V, w_edges := E\<rparr>)"
    by (cases w, simp add: world_ops)+
  show "objs s (set_task k None (w\<lparr>w_nodes := V, w_edges := E\<rparr>))"
    "objs s (set_task k None (add_edge u v (w\<lparr>w_nodes := V, w_edges := E\<rparr>)))"
    unfolding eq objs_world by (rule assms)+
qed

lemma handle_end_master:
  assumes "w_task w k = Some t" and "at_status t = Passed" and "at_bar t = Some B" and "at_tn t = 0" and "member w r ar t"
    and "winv w" and "room w" and "sim s w"
  shows "handled es (ImplicitEnd k 0) s (set_reg r (Some (ar\<lparr>ar_master_done := True\<rparr>))
    (set_task k None (add_edge B (ar_sink ar)
      (w\<lparr>w_nodes := w_nodes w - {at_cur t}, w_edges := w_edges w - {(B, at_cur t)}\<rparr>))))"
proof -
  have "objs s0 (set_reg r (Some (ar\<lparr>ar_master_done := True\<rparr>)) (set_task k None (add_edge B (ar_sink ar)
      (w\<lparr>w_nodes := V, w_edges := E\<rparr>))))" if "objs s0 (set_task k None w)" for s0 V E
    by (rule objs_reg_ghost [OF objs_drop_node(2) [OF that]]) (use assms in \<open>simp_all add: member_def\<close>)
  then have "handled es (ImplicitEnd k (at_tn t)) s (set_reg r (Some (ar\<lparr>ar_master_done := True\<rparr>))
      (set_task k None (add_edge B (ar_sink ar)
        (w\<lparr>w_nodes := w_nodes w - {at_cur t}, w_edges := w_edges w - {(B, at_cur t)}\<rparr>))))"
    by (intro handle_end_barrier [where t = t and r = r and ar = ar and B = B and w = w]) (use assms in simp_all)
  then show ?thesis using assms(4) by simp
qed

lemma handle_end_worker:
  assumes "w_task w k = Some t" and "at_status t = Passed" and "at_bar t = Some B" and "tn = at_tn t" and "0 < tn"
    and "winv w" and "room w" and "sim s w"
  shows "handled es (ImplicitEnd k tn) s (set_task k None
    (w\<lparr>w_nodes := w_nodes w - {at_cur t}, w_edges := w_edges w - {(B, at_cur t)}\<rparr>))"
  unfolding assms(4)
  by (intro handle_end_barrier [where t = t and B = B and w = w] objs_drop_node) (use assms in simp_all)

lemmas handlers = handle_thread_begin handle_thread_end handle_initial handle_explicit handle_schedule handle_parallel_begin
  handle_implicit_begin handle_barrier_single handle_barrier_first handle_barrier_next handle_pass_all
  handle_barrier_end handle_resume handle_end_plain handle_end_master handle_end_worker handle_parallel_end
  handle_loop_begin handle_chunks handle_loop_end

lemma sim_step:
  "omp_step w e w' \<Longrightarrow> winv w \<Longrightarrow> room w \<Longrightarrow> sim s w \<Longrightarrow> handled es e s w'"
proof (induction rule: omp_step.induct)
  case (barrier_join w k t r ar B)
  then show ?case using handle_barrier_next [where n = "ar_cnt ar + 1" and ar = ar] by simp
next
  case (barrier_last w k t r ar B)
  then show ?case by (intro handle_pass_all) (use handle_barrier_next [where n = 0 and ar = ar] in simp)
next
  case (unobserved w)
  then show ?case by (intro handledI) simp_all
qed (blast intro: handlers)+

section \<open>Runs\<close>

inductive omp_run :: "world \<Rightarrow> event list \<Rightarrow> world \<Rightarrow> bool" where
  run_nil: "omp_run w [] w"
| run_cons: "omp_step w e w1 \<Longrightarrow> omp_run w1 es w2 \<Longrightarrow> omp_run w (e # es) w2"

inductive_cases omp_run_consE: "omp_run w (e # es) w2"

text \<open>An event allocates at most two nodes, and the final node stays set.\<close>

lemma omp_step_brk: "omp_step w e w' \<Longrightarrow> w_brk w' \<le> w_brk w + 2"
  by (induction rule: omp_step.induct) (simp_all add: arrive_def pass_all_def)

lemma omp_step_final: "omp_step w e w' \<Longrightarrow> w_final w \<noteq> None \<or> (\<exists>k. e = InitialTask k) \<Longrightarrow> w_final w' \<noteq> None"
  by (induction rule: omp_step.induct) (auto simp add: arrive_def pass_all_def)

lemma omp_run_final:
  "omp_run w es w' \<Longrightarrow> w_final w \<noteq> None \<or> (\<exists>k. InitialTask k \<in> set es) \<Longrightarrow> w_final w' \<noteq> None"
proof (induction rule: omp_run.induct)
  case (run_cons w e w1 es w2)
  show ?case
  proof (cases "\<exists>k. InitialTask k \<in> set es")
    case False
    then have "w_final w \<noteq> None \<or> (\<exists>k. e = InitialTask k)" using run_cons.prems by auto
    then show ?thesis using omp_step_final [OF run_cons.hyps(1)] run_cons.IH by blast
  qed (use run_cons.IH in blast)
qed simp

lemma inv_run: "omp_run w es w' \<Longrightarrow> winv w \<Longrightarrow> winv w'"
  by (induction rule: omp_run.induct) (auto intro: inv_step)

lemma sim_run:
  "omp_run w es w' \<Longrightarrow> winv w \<Longrightarrow> sim s w \<Longrightarrow> int (w_brk w) + 2 * int (length es) + 4 < 2 ^ 63 \<Longrightarrow>
   \<exists>s'. foldM (tool_event ps) es s = Some s' \<and> sim s' w' \<and> w_brk w' \<le> w_brk w + 2 * length es"
proof (induction arbitrary: s rule: omp_run.induct)
  case (run_cons w e w1 es w2)
  have "room w" using run_cons.prems(3) by (simp add: room_def)
  then obtain s1 where s1: "tool_event ps e s = Some s1" "sim s1 w1"
    using sim_step [OF run_cons.hyps(1) run_cons.prems(1)] run_cons.prems(2) by (auto simp: handled_def)
  have b: "w_brk w1 \<le> w_brk w + 2" by (rule omp_step_brk [OF run_cons.hyps(1)])
  have "winv w1" by (rule inv_step [OF run_cons.hyps(1) run_cons.prems(1)])
  from run_cons.IH [OF this s1(2)] b run_cons.prems(3)
  obtain s2 where "foldM (tool_event ps) es s1 = Some s2" "sim s2 w2" "w_brk w2 \<le> w_brk w1 + 2 * length es"
    by auto
  then show ?case using s1(1) b by auto
qed simp

text \<open>The state after a successful \<open>init_libtdg\<close> is related to the start of the machine.\<close>

lemma init_libtdg_new:
  assumes "init_libtdg cpufreq tsc a b c d f g h (new_tool clock papi) = Some (Returns (s, out))"
  shows "\<exists>clk n es. s = (new_tool clk papi)\<lparr>t_papiNumEvents := n, t_papiEvents := es\<rparr>"
  using assms unfolding init_libtdg_def init_papi_events_def
  by (auto simp: Let_def new_tool_def split: if_splits bind_splits outcome.splits)

lemma sim_new:
  assumes "s = (new_tool clock papi)\<lparr>t_papiNumEvents := n, t_papiEvents := es\<rparr>"
  shows "sim s new_world"
proof -
  have "wf_tdg s" using wf_new_Graph
    by (simp add: assms wf_tdg_def ids_ok_def index_ok_def new_tool_def new_Graph_def)
  then show ?thesis
    by (simp add: assms sim_def graph_sim_def objs_def new_tool_def new_world_def heap_ok_def edge_rel_def
        succs_def task_sim_def reg_sim_def inj_ptr_def ws_ptr_def thr_ptr_def)
qed

lemma new_world_sel [simp]: "w_brk new_world = 0" "w_final new_world = None"
  by (simp_all add: new_world_def)

lemma run_from_start:
  assumes run: "omp_run new_world evs w" and len: "2 * int (length evs) + 4 < 2 ^ 63"
    and init: "init_libtdg cpufreq tsc a b c d f g h (new_tool clock papi) = Some (Returns (s0, out))"
  shows "\<exists>s. foldM (tool_event ps) evs s0 = Some s \<and> sim s w \<and> winv w \<and> w_brk w \<le> 2 * length evs"
proof -
  have "sim s0 new_world" using init_libtdg_new [OF init] sim_new by blast
  then show ?thesis using sim_run [OF run inv_new_world] inv_run [OF run inv_new_world] len by auto
qed

lemma sim_ready:
  assumes sim: "sim s w" and inv: "winv w"
  shows "wf_tdg s" "acyclic (edge_rel (g_heap s))" "heap_ok (g_heap s)"
    "pred_option (\<lambda>f. f \<in> dom (g_heap s)) (t_finalNode s)" "card (dom (g_heap s)) \<le> w_brk w"
    "w_final w \<noteq> None \<Longrightarrow> dom (g_heap s) \<noteq> {}"
proof -
  note g = sim_graph [OF sim]
  show "wf_tdg s" "heap_ok (g_heap s)" by (rule g)+
  show "acyclic (edge_rel (g_heap s))" using graph_okD(5) [OF invD(1) [OF inv]] g(3) by simp
  have "dom (g_heap s) \<subseteq> {..<w_brk w}" using g(2) graph_okD(4) [OF invD(1) [OF inv]] by auto
  then show "card (dom (g_heap s)) \<le> w_brk w" using card_mono [of "{..<w_brk w}"] by simp
  show fin: "pred_option (\<lambda>f. f \<in> dom (g_heap s)) (t_finalNode s)"
    using invD(4) [OF inv] g(2) objsD(8) [OF g(7)] by (cases "w_final w") (auto simp: final_ok_def)
  show "dom (g_heap s) \<noteq> {}" if "w_final w \<noteq> None"
    using fin objsD(8) [OF g(7)] that by auto
qed

section \<open>Properties\<close>

text \<open>A run for examples: a team of one thread executes a loop with one chunk.\<close>

definition sample_events :: "event list" where
  "sample_events = [ThreadBegin 0, InitialTask 0, ParallelBegin 0 0 1, ImplicitBegin 0 1 0,
     LoopBegin 1 0 9, Chunk 0 1 0 9 False, LoopEnd 0 1, ImplicitEnd 1 0, ParallelEnd 0]"

text \<open>The beginning and the end of a run with a team of one thread.\<close>

definition one_region :: "bool \<Rightarrow> aregion" where
  "one_region master_done = \<lparr>ar_parent = 0, ar_sink = 1, ar_team = 1, ar_cnt = 0, ar_bar = None, ar_begun = {0},
     ar_master_done = master_done\<rparr>"

definition one_task :: atask where
  "one_task = (new_atask 2)\<lparr>at_sink := Some 1, at_tn := 0\<rparr>"

definition in_region :: "world \<Rightarrow> bool" where
  "in_region w \<longleftrightarrow> w_reg w 0 = Some (one_region False) \<and> w_task w 0 = Some ((new_atask 0)\<lparr>at_status := Forked 0\<rparr>)"

lemma one_thread_begin:
  "\<exists>w. omp_run new_world [ThreadBegin 0, InitialTask 0, ParallelBegin 0 0 1, ImplicitBegin 0 1 0] w
     \<and> in_region w \<and> w_task w 1 = Some one_task \<and> (\<forall>k \<ge> 2. w_task w k = None) \<and> w_threads w = {0} \<and> w_brk w = 3
     \<and> w_edges w = {(0, 2)}"
proof -
  let ?ar = "\<lparr>ar_parent = 0, ar_sink = 1, ar_team = 1, ar_cnt = 0, ar_bar = None, ar_begun = {}, ar_master_done = False\<rparr>"
  obtain w1 where s1: "omp_step new_world (ThreadBegin 0) w1" and f1: "w_threads w1 = {0}" "w_task w1 = Map.empty"
      "w_reg w1 = Map.empty" "w_brk w1 = 0" "w_edges w1 = {}"
    by (rule that [OF omp_step.thread_begin]) (simp_all add: new_world_def)
  obtain w2 where s2: "omp_step w1 (InitialTask 0) w2" and f2: "w_threads w2 = {0}" "w_task w2 = [0 \<mapsto> new_atask 0]"
      "w_reg w2 = Map.empty" "w_brk w2 = 1" "w_edges w2 = {}"
    by (rule that [OF omp_step.initial [OF f1(4) _ refl]]) (simp_all add: f1)
  have r2: "running w2 0 (new_atask 0)" by (simp add: running_def f2 new_atask_def)
  obtain w3 where s3: "omp_step w2 (ParallelBegin 0 0 1) w3" and f3: "w_threads w3 = {0}"
      "w_task w3 = [0 \<mapsto> (new_atask 0)\<lparr>at_status := Forked 0\<rparr>]" "w_reg w3 = [0 \<mapsto> ?ar]" "w_brk w3 = 2" "w_edges w3 = {}"
    by (rule that [OF omp_step.parallel_begin [OF r2 _ _ _ refl]]) (simp_all add: f2)
  obtain w4 where s4: "omp_step w3 (ImplicitBegin 0 1 0) w4" and f4: "w_threads w4 = {0}"
      "w_task w4 = [0 \<mapsto> (new_atask 0)\<lparr>at_status := Forked 0\<rparr>, 1 \<mapsto> one_task]" "w_reg w4 0 = Some (?ar\<lparr>ar_begun := {0}\<rparr>)" "w_brk w4 = 3"
      "w_edges w4 = {(0, 2)}"
    by (rule that [OF omp_step.implicit_begin [where ar = ?ar and tp = "(new_atask 0)\<lparr>at_status := Forked 0\<rparr>", OF _ _ _ _ _ refl]])
      (simp_all add: f3 one_task_def new_atask_def)
  have "omp_run new_world [ThreadBegin 0, InitialTask 0, ParallelBegin 0 0 1, ImplicitBegin 0 1 0] w4"
    using s1 s2 s3 s4 by (meson omp_run.intros)
  then show ?thesis using f4 by (intro exI [of _ w4]) (simp add: in_region_def one_region_def)
qed

lemma one_thread_end:
  assumes "in_region w" and "running w 1 t" and "at_bar t = None" and "at_sink t = Some 1" and "at_tn t = 0"
  shows "\<exists>w'. omp_run w [ImplicitEnd 1 0, ParallelEnd 0] w' \<and> w_edges w' = insert (at_cur t, 1) (w_edges w)"
proof -
  have m: "member w 0 (one_region False) t" using assms(1,4) by (simp add: member_def in_region_def one_region_def)
  obtain w1 where s1: "omp_step w (ImplicitEnd 1 0) w1" and f1: "w_task w1 0 = w_task w 0" "w_reg w1 0 = Some (one_region True)"
      "w_edges w1 = insert (at_cur t, 1) (w_edges w)"
    by (rule that [OF omp_step.implicit_end_plain [OF assms(2,3) m]]) (simp_all add: assms(5) one_region_def)
  obtain w2 where "omp_step w1 (ParallelEnd 0) w2" "w_edges w2 = w_edges w1"
    by (rule that [OF omp_step.parallel_end [of w1 0 "one_region True"]])
      (use f1 assms(1) in \<open>simp_all add: one_region_def in_region_def\<close>)
  then show ?thesis using s1 f1(3) by (metis omp_run.intros)
qed

lemma omp_run_append: "omp_run w es w1 \<Longrightarrow> omp_run w1 es' w2 \<Longrightarrow> omp_run w (es @ es') w2"
  by (induction rule: omp_run.induct) (auto intro: omp_run.intros)

lemma omp_run_single: "omp_step w e w' \<Longrightarrow> omp_run w [e] w'"
  by (auto intro: omp_run.intros)

lemma omp_run_stutter: "omp_step w e w \<Longrightarrow> omp_run w es w' \<Longrightarrow> omp_run w (e # es) w'"
  by (rule omp_run.run_cons)

lemma sample_run: "\<exists>w. omp_run new_world sample_events w"
proof -
  obtain w4 where s4: "omp_run new_world [ThreadBegin 0, InitialTask 0, ParallelBegin 0 0 1, ImplicitBegin 0 1 0] w4"
      and f4: "in_region w4" "w_task w4 1 = Some one_task" "w_threads w4 = {0}" "w_brk w4 = 3"
    using one_thread_begin by blast
  have r4: "running w4 1 one_task" using f4 by (simp add: running_def one_task_def new_atask_def)
  obtain w5 where s5: "omp_step w4 (LoopBegin 1 0 9) w5" and f5: "in_region w5" "w_threads w5 = {0}"
      "w_task w5 1 = Some (one_task\<lparr>at_loop := Some (3, 4, None)\<rparr>)"
    by (rule that [OF omp_step.loop_begin [OF r4 _ refl]]) (use f4 in \<open>simp_all add: in_region_def one_task_def new_atask_def\<close>)
  have r5: "running w5 1 (one_task\<lparr>at_loop := Some (3, 4, None)\<rparr>)" using f5 by (simp add: running_def one_task_def new_atask_def)
  obtain w6 where s6: "omp_step w5 (Chunk 0 1 0 9 False) w6" and f6: "in_region w6" "w_threads w6 = {0}"
      "w_task w6 1 = Some (one_task\<lparr>at_loop := Some (3, 4, Some (w_brk w5))\<rparr>)"
    by (rule that [OF omp_step.chunk [OF r5 _ _ refl]]) (use f5 in \<open>simp_all add: in_region_def\<close>)
  have r6: "running w6 1 (one_task\<lparr>at_loop := Some (3, 4, Some (w_brk w5))\<rparr>)"
    using f6 by (simp add: running_def one_task_def new_atask_def)
  obtain w7 where s7: "omp_step w6 (LoopEnd 0 1) w7" and f7: "in_region w7" "w_task w7 1 = Some (one_task\<lparr>at_cur := 4\<rparr>)"
    by (rule that [OF omp_step.loop_end [OF r6]]) (use f6 in \<open>simp_all add: in_region_def one_task_def new_atask_def\<close>)
  have r7: "running w7 1 (one_task\<lparr>at_cur := 4\<rparr>)" using f7 by (simp add: running_def one_task_def new_atask_def)
  obtain w9 where "omp_run w7 [ImplicitEnd 1 0, ParallelEnd 0] w9"
    using one_thread_end [OF f7(1) r7] by (auto simp: one_task_def new_atask_def)
  then have "omp_run w4 [LoopBegin 1 0 9, Chunk 0 1 0 9 False, LoopEnd 0 1, ImplicitEnd 1 0, ParallelEnd 0] w9"
    using s5 s6 s7 by (meson omp_run.intros)
  from omp_run_append [OF s4 this] show ?thesis by (auto simp: sample_events_def)
qed

text \<open>A start with the frequency file of a counter of 1000 ticks per second.\<close>

definition sample_counter :: "nat \<Rightarrow> uint64" where
  "sample_counter k = word_of_nat (min k 1000)"

abbreviation sample_clock :: "nat \<Rightarrow> double" where
  "sample_clock \<equiv> \<lambda>k. msec_of 1000 (sample_counter k)"

lemma sample_init:
  "init_libtdg (Some (decimal 1000 @ [newline])) sample_counter True (\<lambda>_ _. 4) True True (\<lambda>_. None) None True (new_tool real (\<lambda>_. None))
   = Some (Returns (new_tool sample_clock (\<lambda>_. None),
       [OStr ''libtdg: initialize...'', Endl, OStr ''Timer: cycles per sec = '', OInt 1000, Endl]))"
  by (simp add: init_libtdg_def read_decimal clock_from_def new_timer_def init_papi_events_def parse_tokens_def
      init_callback_def registered_callbacks_def new_tool_def)

text \<open>
  C11. Refinement of the event machine by the callbacks, one event at a time: from a tool state
  related to a state of the machine, the callback that handles an event the machine allows returns
  (it follows no null or freed pointer), in a state related to the machine's next state.
\<close>

theorem callback_simulates_event:
  assumes "sim s w" and "winv w" and "omp_step w e w'" and "int (w_brk w) + 4 < 2 ^ 63"
  shows "\<exists>s'. tool_event ps e s = Some s' \<and> sim s' w' \<and> winv w'"
  using sim_step [OF assms(3,2) _ assms(1), of ps] inv_step [OF assms(3,2)] assms(4)
  by (auto simp: handled_def room_def)

theorem callback_simulates_event_witness:
  "\<exists>s' w'. omp_step new_world (InitialTask 0) w' \<and> tool_event 0 (InitialTask 0) (new_tool real (\<lambda>_. None)) = Some s'
    \<and> sim s' w'"
proof -
  have s: "sim (new_tool real (\<lambda>_. None)) new_world" 
    by (rule sim_new [where n = 0 and es = "[]" and clock = real and papi = "\<lambda>_. None"]) (simp add: new_tool_def)
  obtain w' where w': "omp_step new_world (InitialTask 0) w'" using omp_step.initial [of new_world 0] by (auto simp: new_world_def)
  have "int (w_brk new_world) + 4 < 2 ^ 63" by simp
  from callback_simulates_event [OF s inv_new_world w' this, of 0] w' show ?thesis by blast
qed

text \<open>
  C1. Whole runs: after a successful \<open>init_libtdg\<close>, every sequence of events the machine allows is
  handled by the callbacks without touching a null or freed pointer, and the graph the tool holds
  at its end has exactly the nodes and edges of the machine, is well-formed and has no cycle.
\<close>

theorem run_builds_machine_graph:
  assumes "init_libtdg cpufreq tsc a b c d f g h (new_tool clock papi) = Some (Returns (s0, out))"
    and "omp_run new_world evs w" and "2 * int (length evs) + 4 < 2 ^ 63"
  shows "\<exists>s. foldM (tool_event ps) evs s0 = Some s \<and> dom (g_heap s) = w_nodes w
    \<and> edge_rel (g_heap s) = w_edges w \<and> wf_tdg s \<and> acyclic (edge_rel (g_heap s))"
proof -
  obtain s where s: "foldM (tool_event ps) evs s0 = Some s" "sim s w" "winv w"
    using run_from_start [OF assms(2,3,1)] by blast
  then show ?thesis using sim_graph(1-3) [OF s(2)] sim_ready(2) [OF s(2,3)] by blast
qed

theorem run_builds_machine_graph_witness:
  "\<exists>s w. omp_run new_world sample_events w \<and> foldM (tool_event 0) sample_events (new_tool sample_clock (\<lambda>_. None)) = Some s
    \<and> edge_rel (g_heap s) = w_edges w \<and> wf_tdg s \<and> acyclic (edge_rel (g_heap s))"
proof -
  obtain w where w: "omp_run new_world sample_events w" using sample_run by blast
  have "2 * int (length sample_events) + 4 < 2 ^ 63" by (simp add: sample_events_def)
  from run_builds_machine_graph [OF sample_init w this, of 0] w show ?thesis by blast
qed

lemma session_ends:
  assumes "init_libtdg cpufreq tsc a b c d f g h (new_tool clock papi) = Some (Returns (s0, out0))"
    and "omp_run new_world evs w" and "InitialTask k \<in> set evs" and "2 * int (length evs) < 2 ^ 32"
    and "2 * length evs \<le> depth" and "parse_tokens env [] = Some toks" and "set toks \<subseteq> metric_names"
    and "\<forall>x. is_open x"
  shows "\<exists>s s' out fs. foldM (tool_event ps) evs s0 = Some s
    \<and> finalize_libtdg depth env is_open s = Some (Returns (s', out, fs)) \<and> g_heap s' = Map.empty"
proof -
  have len: "2 * int (length evs) + 4 < 2 ^ 63" using assms(4) by simp
  obtain s where s: "foldM (tool_event ps) evs s0 = Some s" "sim s w" "winv w" "w_brk w \<le> 2 * length evs"
    using run_from_start [OF assms(2) len assms(1)] by blast
  note r = sim_ready [OF s(2,3)]
  have "w_final w \<noteq> None" using omp_run_final [OF assms(2)] assms(3) by blast
  then have "dom (g_heap s) \<noteq> {}" "card (dom (g_heap s)) < 2 ^ 32" using r(5,6) s(4) assms(4) by auto
  moreover have "card (dom (g_heap s)) \<le> depth" using r(5) s(4) assms(5) by linarith
  ultimately show ?thesis using finalize_runs [OF r(1-4) _ assms(6,7) _ assms(8)] s(1) by blast
qed

text \<open>
  C2. The tool from start to end: \<open>init_libtdg\<close>, any run of the machine that begins an initial task,
  and \<open>finalize_libtdg\<close> with any known metrics.  Nothing on the way is undefined, the reports are
  printed, and every node is freed.
\<close>

theorem session_completes:
  assumes "init_libtdg cpufreq tsc a b c d f g h (new_tool clock papi) = Some (Returns (s0, out0))"
    and "omp_run new_world evs w" and "InitialTask k \<in> set evs" and "2 * int (length evs) < 2 ^ 32"
    and "2 * length evs \<le> depth" and "parse_tokens env [] = Some toks" and "set toks \<subseteq> metric_names"
    and "\<forall>x. is_open x"
  shows "\<exists>s s' out fs. foldM (tool_event ps) evs s0 = Some s
    \<and> finalize_libtdg depth env is_open s = Some (Returns (s', out, fs)) \<and> g_heap s' = Map.empty"
  by (rule session_ends [OF assms])

theorem session_completes_witness:
  "\<exists>s s' out fs. foldM (tool_event 0) sample_events (new_tool sample_clock (\<lambda>_. None)) = Some s
    \<and> finalize_libtdg 18 (Some ''tim,cri'') (\<lambda>_. True) s = Some (Returns (s', out, fs)) \<and> g_heap s' = Map.empty"
proof -
  obtain w where w: "omp_run new_world sample_events w" using sample_run by blast
  have i: "InitialTask 0 \<in> set sample_events" "2 * int (length sample_events) < 2 ^ 32" "2 * length sample_events \<le> 18"
    by (simp_all add: sample_events_def)
  have "parse_tokens (Some ''tim,cri'') [] = Some [''tim'', ''cri'']"
    using parse_tokens_splits [of "''tim,cri''" "[]"] by simp
  from session_completes [OF sample_init w i this, of "\<lambda>_. True" 0] show ?thesis by (simp add: metric_names_def)
qed

end
