(* ===== verification/Node_Times.thy ===== *)
theory Node_Times
  imports Omp_Refinement
begin

text \<open>
  The times of the nodes.  Every callback that measures calls \<open>addTime\<close> or \<open>setLastTime\<close> with a
  reading of the clock; as long as the clock does not go back, no node's time ever gets negative and
  no time stamp lies in the future.  The invariant \<open>timed\<close> is kept by every callback on its own,
  whatever the order of the events; with the timer of \<open>Tsc_Timer\<close> it holds from the start.
\<close>

section \<open>The invariant\<close>

named_theorems timed_steps \<open>operations that keep the invariant on times\<close>

definition node_timed :: "double \<Rightarrow> Node \<Rightarrow> bool" where
  "node_timed now n \<longleftrightarrow> representable (n_totalTime n) \<and> 0 \<le> n_totalTime n \<and> n_lastTime n \<le> now"

definition timed :: "tool \<Rightarrow> bool" where
  "timed s \<longleftrightarrow> (\<forall>k. 0 \<le> t_clock s k \<and> t_clock s k \<le> t_clock s (Suc k))
     \<and> (\<forall>a n. g_heap s a = Some n \<longrightarrow> node_timed (t_clock s (t_clockCalls s)) n)"

lemma timed_upd [simp]:
  "timed (s\<lparr>t_finalNode := x\<rparr>) = timed s" "timed (s\<lparr>t_tasks := tk\<rparr>) = timed s"
  "timed (s\<lparr>t_ws := ws\<rparr>) = timed s" "timed (s\<lparr>t_pars := ps\<rparr>) = timed s"
  "timed (s\<lparr>t_threads := th\<rparr>) = timed s" "timed (s\<lparr>t_brk := b\<rparr>) = timed s"
  "timed (s\<lparr>t_taskPtr := tp\<rparr>) = timed s" "timed (s\<lparr>t_parPtr := pp\<rparr>) = timed s"
  "timed (s\<lparr>t_thrPtr := tp\<rparr>) = timed s" "timed (s\<lparr>t_papiCalls := k\<rparr>) = timed s"
  "timed (s\<lparr>t_papiNumEvents := u\<rparr>) = timed s" "timed (s\<lparr>t_papiEvents := es\<rparr>) = timed s"
  "timed (s\<lparr>g_graphNodes := gn\<rparr>) = timed s" "timed (s\<lparr>g_nextId := i\<rparr>) = timed s" "timed (s\<lparr>g_brk := a\<rparr>) = timed s"
  by (simp_all add: timed_def)

lemma timed_at: "timed s \<Longrightarrow> g_heap s a = Some n \<Longrightarrow> node_timed (t_clock s (t_clockCalls s)) n"
  by (simp add: timed_def)

lemma timed_put:
  "timed s \<Longrightarrow> node_timed (t_clock s (t_clockCalls s)) n \<Longrightarrow> timed (s\<lparr>g_heap := (g_heap s)(a \<mapsto> n)\<rparr>)"
  by (simp add: timed_def)

lemma timed_del: "timed s \<Longrightarrow> timed (s\<lparr>g_heap := (g_heap s)(a := None)\<rparr>)"
  by (simp add: timed_def)

lemma node_timed_edges [simp]:
  "node_timed t (n\<lparr>n_exitEdges := es\<rparr>) = node_timed t n" "node_timed t (n\<lparr>n_entryEdges := es\<rparr>) = node_timed t n"
  by (simp_all add: node_timed_def)

text \<open>Reading the clock.\<close>

lemma timed_tick:
  assumes "timed s" shows "timed (s\<lparr>t_clockCalls := Suc (t_clockCalls s)\<rparr>)"
proof -
  have "t_clock s (t_clockCalls s) \<le> t_clock s (Suc (t_clockCalls s))" using assms by (simp add: timed_def)
  then show ?thesis using assms unfolding timed_def node_timed_def by (auto intro: order_trans)
qed

lemma node_upd_timed:
  assumes "node_upd p f s = Some s'" and "timed s"
    and "\<And>n. node_timed (t_clock s (t_clockCalls s)) n \<Longrightarrow> node_timed (t_clock s (t_clockCalls s)) (f n)"
  shows "timed s'"
proof -
  obtain a n where "p = Some a" "g_heap s a = Some n" "s' = s\<lparr>g_heap := (g_heap s)(a \<mapsto> f n)\<rparr>"
    using assms(1) by (auto simp: node_upd_def opt_simps)
  then show ?thesis using timed_put [OF assms(2) assms(3) [OF timed_at [OF assms(2)]]] by simp
qed

lemma addTime_timed: "node_timed t n \<Longrightarrow> node_timed t (addTime t n)"
  using fadd_nonneg [of "n_totalTime n" "fsub t (n_lastTime n)"] fsub_nonneg [of "n_lastTime n" t]
  by (simp add: node_timed_def addTime_def)

lemma node_timed_mono: "node_timed t n \<Longrightarrow> t \<le> t' \<Longrightarrow> node_timed t' n"
  by (auto simp: node_timed_def)

lemma add_time_now_timed [timed_steps]:
  assumes "add_time_now p s = Some s'" and "timed s" shows "timed s'"
proof -
  obtain a n where n: "g_heap s a = Some n"
      "s' = s\<lparr>t_clockCalls := Suc (t_clockCalls s), g_heap := (g_heap s)(a \<mapsto> addTime (t_clock s (t_clockCalls s)) n)\<rparr>"
    using assms(1) by (auto simp: add_time_now_def ftimer_msec_def node_upd_def opt_simps)
  have "timed (s\<lparr>g_heap := (g_heap s)(a \<mapsto> addTime (t_clock s (t_clockCalls s)) n)\<rparr>)"
    by (rule timed_put [OF assms(2) addTime_timed [OF timed_at [OF assms(2) n(1)]]])
  from timed_tick [OF this] show ?thesis unfolding n(2) by (simp add: timed_def)
qed

lemma set_time_now_timed [timed_steps]:
  assumes "set_time_now p s = Some s'" and "timed s" shows "timed s'"
proof -
  obtain a n where n: "g_heap s a = Some n"
      "s' = s\<lparr>t_clockCalls := Suc (t_clockCalls s), g_heap := (g_heap s)(a \<mapsto> setLastTime (t_clock s (t_clockCalls s)) n)\<rparr>"
    using assms(1) by (auto simp: set_time_now_def ftimer_msec_def node_upd_def opt_simps)
  have "timed (s\<lparr>g_heap := (g_heap s)(a \<mapsto> setLastTime (t_clock s (t_clockCalls s)) n)\<rparr>)"
    using timed_at [OF assms(2) n(1)]
    by (intro timed_put [OF assms(2)]) (simp add: node_timed_def setLastTime_def)
  from timed_tick [OF this] show ?thesis unfolding n(2) by (simp add: timed_def)
qed

section \<open>The operations\<close>

lemma setters_timed:
  "node_timed t (setLowerUpper l u n) = node_timed t n" "node_timed t (setLoopCounter c n) = node_timed t n"
  "node_timed t (setThreadId i n) = node_timed t n" "node_timed t (initPapiVals k n) = node_timed t n"
  by (simp_all add: node_timed_def setLowerUpper_def setLoopCounter_def setThreadId_def initPapiVals_def)

lemma node_upd_setters [timed_steps]:
  "node_upd p (setLowerUpper l u) s = Some s' \<Longrightarrow> timed s \<Longrightarrow> timed s'"
  "node_upd p (setLoopCounter c) s = Some s' \<Longrightarrow> timed s \<Longrightarrow> timed s'"
  "node_upd p (setThreadId i) s = Some s' \<Longrightarrow> timed s \<Longrightarrow> timed s'"
  "node_upd p (initPapiVals k) s = Some s' \<Longrightarrow> timed s \<Longrightarrow> timed s'"
  by (erule node_upd_timed; simp add: setters_timed)+

lemma endPapiCounters_timed [timed_steps]:
  "endPapiCounters p s = Some s' \<Longrightarrow> timed s \<Longrightarrow> timed s'"
  unfolding endPapiCounters_def
  by (erule node_upd_timed) (auto simp: node_timed_def split: option.splits)

text \<open>Connecting and disconnecting touch the edge vectors only.\<close>

lemma timed_heapI:
  assumes "timed s" and "\<And>a n'. h a = Some n' \<Longrightarrow> \<exists>n. g_heap s a = Some n \<and> n_totalTime n' = n_totalTime n \<and> n_lastTime n' = n_lastTime n"
  shows "timed (s\<lparr>g_heap := h\<rparr>)"
proof -
  have "node_timed (t_clock s (t_clockCalls s)) n'" if "h a = Some n'" for a n'
    using assms(2) [OF that] timed_at [OF assms(1)] by (auto simp: node_timed_def)
  then show ?thesis using assms(1) by (simp add: timed_def)
qed

lemma connect_timed [timed_steps]: "connect p q s = Some s' \<Longrightarrow> timed s \<Longrightarrow> timed s'"
  unfolding connect_def connectNodes_def Let_def
  by (auto simp: opt_simps isConnectedWith_def intro!: timed_heapI split: if_splits)

lemma disconnect_timed [timed_steps]: "disconnect p q s = Some s' \<Longrightarrow> timed s \<Longrightarrow> timed s'"
  unfolding disconnect_def disconnectNodes_def
  by (auto simp: opt_simps intro!: timed_heapI split: if_splits)

lemma task_set_timed [timed_steps]: "task_set p td s = Some s' \<Longrightarrow> timed s \<Longrightarrow> timed s'"
  by (auto simp: task_set_def opt_simps)

lemma ws_set_timed [timed_steps]: "ws_set p ws s = Some s' \<Longrightarrow> timed s \<Longrightarrow> timed s'"
  by (auto simp: ws_set_def opt_simps)

lemma delete_node_timed [timed_steps]: "delete_node a s = Some s' \<Longrightarrow> timed s \<Longrightarrow> timed s'"
  by (auto simp: delete_node_def opt_simps intro: timed_del)

lemma removeNode_timed [simp]: "timed (removeNode i s) = timed s"
  by (simp add: removeNode_def)

lemma alloc_task_timed [timed_steps]: "alloc_task td s = (a, s') \<Longrightarrow> timed s \<Longrightarrow> timed s'"
  by (auto simp: alloc_task_def)

lemma new_Node_timed: "timed s \<Longrightarrow> node_timed (t_clock s (t_clockCalls s)) (new_Node i ty 0)"
  by (simp add: node_timed_def new_Node_def timed_def)

lemma create_clean_node_timed [timed_steps]:
  assumes "create_clean_node ty gen_id s = (a, s')" and "timed s" shows "timed s'"
proof -
  obtain i s1 where i: "(if gen_id then nextId s else (0, s)) = (i, s1)" by fastforce
  have "s' = s1\<lparr>g_heap := (g_heap s1)(g_brk s1 \<mapsto> new_Node i ty 0), g_brk := Suc (g_brk s1),
      g_graphNodes := map_set i (g_brk s1) (g_graphNodes s1)\<rparr>"
    using assms(1) i by (auto simp: create_clean_node_def alloc_node_def addNode_def Let_def)
  moreover have s1: "timed s1" using i assms(2) by (auto simp: nextId_def split: if_splits)
  ultimately show ?thesis using timed_put [OF s1 new_Node_timed [OF s1]] by simp
qed

lemma create_new_node_timed [timed_steps]:
  "create_new_node ty parent set_time s = Some (a, s') \<Longrightarrow> timed s \<Longrightarrow> timed s'"
  unfolding create_new_node_def
  by (auto simp: opt_simps split: if_splits prod.splits dest: timed_steps)

section \<open>The callbacks\<close>

lemma case_prod_Some: "(case x of (a, b) \<Rightarrow> f a b) = Some y \<longleftrightarrow> (\<exists>a b. x = (a, b) \<and> f a b = Some y)"
  by (cases x) simp

lemmas run_simps = opt_simps case_prod_Some Let_def alloc_task_def

lemma cb_thread_timed:
  "cb_thread_begin pc pa d s = Returns s' \<Longrightarrow> timed s \<Longrightarrow> timed s'"
  "cb_thread_end pcl pd d s = Some (Returns s') \<Longrightarrow> timed s \<Longrightarrow> timed s'"
  by (auto simp: cb_thread_begin_def cb_thread_end_def opt_simps split: option.splits if_splits)

lemma cb_task_create_timed: "cb_task_create p k ty s = Some s' \<Longrightarrow> timed s \<Longrightarrow> timed s'"
  unfolding cb_task_create_def
  by (auto simp: run_simps split: if_splits option.splits dest!: timed_steps)

lemma cb_task_schedule_timed: "cb_task_schedule k k' s = Some s' \<Longrightarrow> timed s \<Longrightarrow> timed s'"
  unfolding cb_task_schedule_def
  by (auto simp: run_simps split: option.splits dest: timed_steps)

lemma cb_parallel_timed:
  "cb_parallel_begin k r team s = Some s' \<Longrightarrow> timed s \<Longrightarrow> timed s'"
  "cb_parallel_end r s = Some s' \<Longrightarrow> timed s \<Longrightarrow> timed s'"
  unfolding cb_parallel_begin_def cb_parallel_end_def
  by (auto simp: run_simps dest: timed_steps)

lemma implicit_task_begin_timed [timed_steps]:
  "implicit_task_begin r k tn s = Some s' \<Longrightarrow> timed s \<Longrightarrow> timed s'"
  unfolding implicit_task_begin_def by (auto simp: run_simps dest: timed_steps)

lemma implicit_task_end_timed [timed_steps]:
  "implicit_task_end k tn s = Some s' \<Longrightarrow> timed s \<Longrightarrow> timed s'"
  unfolding implicit_task_end_def
  by (auto simp: run_simps split: if_splits dest!: timed_steps)

lemma enter_barrier_timed [timed_steps]:
  "enter_barrier c a par s = Some (b, nb, s') \<Longrightarrow> timed s \<Longrightarrow> timed s'"
  unfolding enter_barrier_def by (auto simp: run_simps split: if_splits dest: timed_steps)

lemma barrier_begin_timed [timed_steps]:
  "barrier_begin cur a par s = Some s' \<Longrightarrow> timed s \<Longrightarrow> timed s'"
  unfolding barrier_begin_def by (auto simp: run_simps split: if_splits dest!: timed_steps)

lemma cb_sync_region_timed: "cb_sync_region kind ep r k s = Some s' \<Longrightarrow> timed s \<Longrightarrow> timed s'"
  unfolding cb_sync_region_def
  by (cases ep) (auto simp: run_simps split: if_splits option.splits dest: timed_steps)

lemma finish_chunk_timed [timed_steps]: "finish_chunk thr c s = Some s' \<Longrightarrow> timed s \<Longrightarrow> timed s'"
  unfolding finish_chunk_def by (auto simp: run_simps dest!: timed_steps)

lemma loop_begin_timed [timed_steps]: "loop_begin k lo up s = Some s' \<Longrightarrow> timed s \<Longrightarrow> timed s'"
  unfolding loop_begin_def by (auto simp: run_simps dest!: timed_steps)

lemma loop_end_timed [timed_steps]: "loop_end thr k s = Some s' \<Longrightarrow> timed s \<Longrightarrow> timed s'"
  unfolding loop_end_def by (auto simp: run_simps split: if_splits dest!: timed_steps)

lemma new_chunk_timed [timed_steps]: "new_chunk thr td lo up s = Some s' \<Longrightarrow> timed s \<Longrightarrow> timed s'"
  unfolding new_chunk_def by (auto simp: run_simps dest!: timed_steps)

lemma cb_ext_chunk_timed: "cb_ext_chunk thr k lo up l s = Some s' \<Longrightarrow> timed s \<Longrightarrow> timed s'"
  unfolding cb_ext_chunk_def by (auto simp: run_simps split: if_splits dest!: timed_steps)

lemma returns_Some: "(case r of Returns s \<Rightarrow> Some s | Exits c \<Rightarrow> None) = Some s' \<longleftrightarrow> r = Returns s'"
  by (cases r) auto

lemma tool_event_timed:
  assumes "tool_event ps e s = Some s'" and "timed s" shows "timed s'"
  using assms
  by (cases e) (auto simp: cb_implicit_task_def cb_ext_loop_def opt_simps returns_Some
      dest: timed_steps cb_thread_timed cb_task_create_timed cb_task_schedule_timed cb_parallel_timed
        cb_sync_region_timed cb_ext_chunk_timed)

lemma run_timed: "foldM (tool_event ps) es s = Some s' \<Longrightarrow> timed s \<Longrightarrow> timed s'"
  by (induction es arbitrary: s) (auto simp: opt_simps dest: tool_event_timed)

lemma init_libtdg_timed:
  assumes "init_libtdg cpufreq tsc a b c d f g h (new_tool clock papi) = Some (Returns (s0, out))"
    and "\<And>k. tsc k \<le> tsc (Suc k)"
  shows "timed s0"
proof -
  obtain tm clk where clk: "clock_from tsc tm = Some clk" and s0: "t_clock s0 = clk" "g_heap s0 = Map.empty"
    using assms(1) unfolding init_libtdg_def init_papi_events_def
    by (auto simp: Let_def new_tool_def split: if_splits bind_splits outcome.splits)
  have "\<And>k. 0 \<le> clk k \<and> clk k \<le> clk (Suc k)" using clock_from_mono [OF clk assms(2)] by simp
  then show ?thesis by (simp add: timed_def s0)
qed

lemma sample_counter_mono: "\<forall>k. sample_counter k \<le> sample_counter (Suc k)"
proof
  have "unat (sample_counter k) = min k 1000" for k
    unfolding sample_counter_def by (rule unat_word_of_nat) simp
  then show "sample_counter k \<le> sample_counter (Suc k)" for k by (simp add: word_le_nat_alt)
qed

section \<open>Properties\<close>

text \<open>
  C16. Times are never negative: when the time stamp counter does not go back, then after a
  successful \<open>init_libtdg\<close> and any events the callbacks handle, in any order, every node's total time
  is a binary64 number that is not negative, no time stamp of a node is later than the next reading
  of the clock, and closing the final node keeps it so.
\<close>

theorem node_times_nonnegative:
  assumes "init_libtdg cpufreq tsc a b c d f g h (new_tool clock papi) = Some (Returns (s0, out))"
    and "\<forall>k. tsc k \<le> tsc (Suc k)" and "foldM (tool_event ps) evs s0 = Some s"
    and "(if t_finalNode s \<noteq> None then add_time_now (t_finalNode s) s else Some s) = Some s1"
  shows "\<forall>s' \<in> {s, s1}. \<forall>x n. g_heap s' x = Some n \<longrightarrow> 0 \<le> n_totalTime n \<and> representable (n_totalTime n)
    \<and> n_lastTime n \<le> t_clock s' (t_clockCalls s')"
proof -
  have "timed s" using run_timed [OF assms(3)] init_libtdg_timed [OF assms(1)] assms(2) by blast
  moreover from this have "timed s1" using assms(4) by (auto dest: add_time_now_timed split: if_splits)
  ultimately show ?thesis by (auto simp: timed_def node_timed_def)
qed

theorem node_times_nonnegative_witness:
  "\<exists>s. foldM (tool_event 0) [InitialTask 0] (new_tool sample_clock (\<lambda>_. None)) = Some s
     \<and> (\<exists>n. g_heap s 0 = Some n \<and> 0 \<le> n_totalTime n)"
proof -
  have "\<exists>s n. foldM (tool_event 0) [InitialTask 0] (new_tool sample_clock (\<lambda>_. None)) = Some s \<and> g_heap s 0 = Some n
      \<and> t_finalNode s = Some 0"
    by (simp add: cb_task_create_def create_new_node_def create_clean_node_def alloc_node_def addNode_def
        set_time_now_def ftimer_msec_def node_upd_def upd_node_def alloc_task_def new_tool_def Let_def)
  then obtain s n where s: "foldM (tool_event 0) [InitialTask 0] (new_tool sample_clock (\<lambda>_. None)) = Some s"
      "g_heap s 0 = Some n" "t_finalNode s = Some 0" by blast
  have "\<exists>s1. add_time_now (Some 0) s = Some s1"
    using s(2) by (simp add: add_time_now_def ftimer_msec_def node_upd_def upd_node_def)
  then obtain s1 where "(if t_finalNode s \<noteq> None then add_time_now (t_finalNode s) s else Some s) = Some s1"
    using s(3) by auto
  then show ?thesis using node_times_nonnegative [OF sample_init sample_counter_mono s(1)] s by blast
qed

end
