(* ===== verification/Task_Counts.thy ===== *)
theory Task_Counts
  imports Node_Times
begin

text \<open>
  The numbers of tasks in the report.  Every explicit task the runtime creates and every chunk it
  dispatches becomes exactly one node of its type, and no callback ever removes such a node: the only
  node that is ever deleted is the last one of an implicit task behind a barrier, and the invariant
  \<open>labelled\<close> says that it has type \<open>IMP_TASK\<close>.  So the \<open>tim\<close> report shows how many there were.
\<close>

section \<open>The types of the nodes\<close>

definition kinds :: "'a tdg_scheme \<Rightarrow> addr \<rightharpoonup> NodeType" where
  "kinds s a = map_option n_type (g_heap s a)"

definition of_kind :: "'a tdg_scheme \<Rightarrow> NodeType \<Rightarrow> addr set" where
  "of_kind s ty = {a. kinds s a = Some ty}"

text \<open>A node that has no other type than \<open>IMP_TASK\<close>, now and later.\<close>

definition imp_node :: "tool \<Rightarrow> addr option \<Rightarrow> bool" where
  "imp_node s p \<longleftrightarrow> (\<forall>c. p = Some c \<longrightarrow> c < g_brk s \<and> kinds s c \<in> {None, Some IMP_TASK})"

definition task_lab :: "tool \<Rightarrow> TaskData \<Rightarrow> bool" where
  "task_lab s td \<longleftrightarrow> td_curr_barrier_node td \<noteq> None \<longrightarrow> imp_node s (td_curr_task_node td)"

definition labelled :: "tool \<Rightarrow> bool" where
  "labelled s \<longleftrightarrow> (\<forall>a \<in> dom (g_heap s). a < g_brk s)
     \<and> (\<forall>td \<in> ran (t_tasks s). task_lab s td)
     \<and> (\<forall>ws \<in> ran (t_ws s). imp_node s (ws_sink_node ws))
     \<and> (\<forall>par \<in> ran (t_pars s). imp_node s (pr_sink_node par))"

text \<open>Two states with the same nodes, types and objects; the clock, the times and the edges may differ.\<close>

definition same_nodes :: "tool \<Rightarrow> tool \<Rightarrow> bool" where
  "same_nodes s s' \<longleftrightarrow> kinds s' = kinds s \<and> g_brk s' = g_brk s \<and> t_tasks s' = t_tasks s \<and> t_ws s' = t_ws s
     \<and> t_pars s' = t_pars s"

named_theorems same_steps \<open>operations that keep the nodes and their types\<close>

lemma same_refl [simp]: "same_nodes s s"
  by (simp add: same_nodes_def)

lemma same_trans: "same_nodes s s1 \<Longrightarrow> same_nodes s1 s2 \<Longrightarrow> same_nodes s s2"
  by (simp add: same_nodes_def)

lemma dom_kinds: "dom (kinds s) = dom (g_heap s)"
  by (auto simp: kinds_def)

lemma same_labelled: "same_nodes s s' \<Longrightarrow> labelled s' = labelled s"
  by (simp add: same_nodes_def labelled_def task_lab_def imp_node_def dom_kinds [symmetric])

lemma kinds_upd [simp]:
  "kinds (s\<lparr>t_finalNode := x\<rparr>) = kinds s" "kinds (s\<lparr>t_tasks := tk\<rparr>) = kinds s"
  "kinds (s\<lparr>t_ws := ws\<rparr>) = kinds s" "kinds (s\<lparr>t_pars := ps\<rparr>) = kinds s"
  "kinds (s\<lparr>t_threads := th\<rparr>) = kinds s" "kinds (s\<lparr>t_brk := b\<rparr>) = kinds s"
  "kinds (s\<lparr>t_taskPtr := tp\<rparr>) = kinds s" "kinds (s\<lparr>t_parPtr := pp\<rparr>) = kinds s"
  "kinds (s\<lparr>t_thrPtr := tp\<rparr>) = kinds s" "kinds (s\<lparr>t_papiCalls := k\<rparr>) = kinds s"
  "kinds (s\<lparr>t_clockCalls := k\<rparr>) = kinds s"
  by (auto simp: kinds_def)

lemma kinds_graph_upd [simp]:
  "kinds (s\<lparr>g_graphNodes := gn\<rparr>) = kinds s" "kinds (s\<lparr>g_nextId := i\<rparr>) = kinds s" "kinds (s\<lparr>g_brk := a\<rparr>) = kinds s"
  by (auto simp: kinds_def)

lemma kinds_heap [simp]:
  "kinds (s\<lparr>g_heap := (g_heap s)(a \<mapsto> n)\<rparr>) = (kinds s)(a \<mapsto> n_type n)"
  "kinds (s\<lparr>g_heap := (g_heap s)(a := None)\<rparr>) = (kinds s)(a := None)"
  by (auto simp: kinds_def)

section \<open>Operations that keep the nodes\<close>

lemma node_upd_same:
  assumes "node_upd p f s = Some s'" and "\<And>n. n_type (f n) = n_type n"
  shows "same_nodes s s'"
proof -
  obtain a n where n: "g_heap s a = Some n" "s' = s\<lparr>g_heap := (g_heap s)(a \<mapsto> f n)\<rparr>"
    using assms(1) by (auto simp: node_upd_def opt_simps)
  have "(kinds s)(a \<mapsto> n_type n) = kinds s" using n(1) by (auto simp: kinds_def)
  then show ?thesis by (simp add: same_nodes_def n(2) assms(2))
qed

lemma setters_same [same_steps]:
  "node_upd p (setLowerUpper l u) s = Some s' \<Longrightarrow> same_nodes s s'"
  "node_upd p (setLoopCounter c) s = Some s' \<Longrightarrow> same_nodes s s'"
  "node_upd p (setThreadId i) s = Some s' \<Longrightarrow> same_nodes s s'"
  "node_upd p (initPapiVals k) s = Some s' \<Longrightarrow> same_nodes s s'"
  by (erule node_upd_same; simp add: setLowerUpper_def setLoopCounter_def setThreadId_def initPapiVals_def)+

lemma timers_same [same_steps]:
  "add_time_now p s = Some s' \<Longrightarrow> same_nodes s s'" "set_time_now p s = Some s' \<Longrightarrow> same_nodes s s'"
  unfolding add_time_now_def set_time_now_def ftimer_msec_def
  by (auto simp: same_nodes_def addTime_def setLastTime_def dest!: node_upd_same)

lemma endPapiCounters_same [same_steps]: "endPapiCounters p s = Some s' \<Longrightarrow> same_nodes s s'"
  unfolding endPapiCounters_def
  by (drule node_upd_same) (auto simp: same_nodes_def split: option.splits)

lemma same_heapI:
  assumes "\<And>a. map_option n_type (h a) = map_option n_type (g_heap s a)"
  shows "same_nodes s (s\<lparr>g_heap := h\<rparr>)"
  using assms by (auto simp: same_nodes_def kinds_def)

lemma connect_same [same_steps]: "connect p q s = Some s' \<Longrightarrow> same_nodes s s'"
  unfolding connect_def connectNodes_def Let_def
  by (auto simp: opt_simps isConnectedWith_def intro!: same_heapI split: if_splits)

lemma disconnect_same [same_steps]: "disconnect p q s = Some s' \<Longrightarrow> same_nodes s s'"
  unfolding disconnect_def disconnectNodes_def
  by (auto simp: opt_simps intro!: same_heapI split: if_splits)

lemma finish_chunk_same [same_steps]: "finish_chunk thr c s = Some s' \<Longrightarrow> same_nodes s s'"
  unfolding finish_chunk_def by (auto simp: run_simps dest!: same_steps intro: same_trans)

section \<open>Operations that change the nodes\<close>

text \<open>The state with one more node.\<close>

definition with_node :: "tool \<Rightarrow> NodeType \<Rightarrow> addr \<Rightarrow> tool \<Rightarrow> bool" where
  "with_node s ty a s' \<longleftrightarrow> a = g_brk s \<and> g_brk s' = Suc a \<and> kinds s' = (kinds s)(a \<mapsto> ty)
     \<and> t_tasks s' = t_tasks s \<and> t_ws s' = t_ws s \<and> t_pars s' = t_pars s"

lemma create_clean_node_kinds: "create_clean_node ty g s = (a, s') \<Longrightarrow> with_node s ty a s'"
  by (auto simp: create_clean_node_def with_node_def nextId_def alloc_node_def addNode_def new_Node_def
      kinds_def fun_eq_iff Let_def split: if_splits)

lemma with_node_same: "with_node s ty a s1 \<Longrightarrow> same_nodes s1 s2 \<Longrightarrow> with_node s ty a s2"
  "same_nodes s s1 \<Longrightarrow> with_node s1 ty a s2 \<Longrightarrow> with_node s ty a s2"
  by (simp_all add: with_node_def same_nodes_def)

lemma create_new_node_kinds: "create_new_node ty p t s = Some (a, s') \<Longrightarrow> with_node s ty a s'"
  unfolding create_new_node_def
  by (auto simp: run_simps split: if_splits dest!: same_steps create_clean_node_kinds intro: with_node_same)

lemma imp_node_with:
  assumes "with_node s ty a s'"
  shows "imp_node s p \<Longrightarrow> imp_node s' p" and "ty = IMP_TASK \<Longrightarrow> imp_node s' (Some a)"
  using assms by (auto simp: with_node_def imp_node_def)

lemma labelled_with:
  assumes "with_node s ty a s'" and "labelled s" shows "labelled s'"
proof -
  have "dom (g_heap s') = insert a (dom (g_heap s))"
    using assms(1) unfolding dom_kinds [symmetric] by (auto simp: with_node_def)
  then have "\<forall>a \<in> dom (g_heap s'). a < g_brk s'"
    using assms(2) assms(1) [unfolded with_node_def] unfolding labelled_def by (simp add: less_Suc_eq)
  then show ?thesis
    using assms imp_node_with(1) [OF assms(1)] by (simp add: labelled_def with_node_def task_lab_def)
qed

text \<open>The other objects.\<close>

lemma labelled_upd [simp]:
  "labelled (s\<lparr>t_finalNode := x\<rparr>) = labelled s" "labelled (s\<lparr>t_threads := th\<rparr>) = labelled s"
  "labelled (s\<lparr>t_brk := b\<rparr>) = labelled s" "labelled (s\<lparr>t_taskPtr := tp\<rparr>) = labelled s"
  "labelled (s\<lparr>t_parPtr := pp\<rparr>) = labelled s" "labelled (s\<lparr>t_thrPtr := tp\<rparr>) = labelled s"
  "labelled (s\<lparr>t_finalNode := x, t_pars := ps\<rparr>) = labelled (s\<lparr>t_pars := ps\<rparr>)"
  "labelled (s\<lparr>t_brk := b, t_tasks := tk\<rparr>) = labelled (s\<lparr>t_tasks := tk\<rparr>)"
  by (simp_all add: labelled_def task_lab_def imp_node_def)

lemma labelled_objects:
  assumes "labelled s"
  shows "task_lab s td \<Longrightarrow> labelled (s\<lparr>t_tasks := (t_tasks s)(a \<mapsto> td)\<rparr>)"
    and "labelled (s\<lparr>t_tasks := (t_tasks s)(a := None)\<rparr>)"
    and "imp_node s (ws_sink_node ws) \<Longrightarrow> labelled (s\<lparr>t_ws := (t_ws s)(a \<mapsto> ws)\<rparr>)"
    and "labelled (s\<lparr>t_ws := (t_ws s)(a := None)\<rparr>)"
    and "imp_node s (pr_sink_node par) \<Longrightarrow> labelled (s\<lparr>t_pars := (t_pars s)(a \<mapsto> par)\<rparr>)"
    and "labelled (s\<lparr>t_pars := (t_pars s)(a := None)\<rparr>)"
  using assms by (auto simp: labelled_def task_lab_def imp_node_def ran_def)

lemma lab_upd [simp]:
  "imp_node (s\<lparr>t_tasks := tk\<rparr>) p = imp_node s p" "imp_node (s\<lparr>t_ws := ws\<rparr>) p = imp_node s p"
  "task_lab (s\<lparr>t_ws := ws\<rparr>) td = task_lab s td"
  by (simp_all add: imp_node_def task_lab_def)

lemma labelledD:
  assumes "labelled s"
  shows "t_tasks s a = Some td \<Longrightarrow> task_lab s td" and "t_ws s b = Some ws \<Longrightarrow> imp_node s (ws_sink_node ws)"
    and "t_pars s c = Some par \<Longrightarrow> imp_node s (pr_sink_node par)"
  using assms by (auto simp: labelled_def intro: ranI)

lemma task_lab_new [simp]:
  "task_lab s (new_TaskData\<lparr>td_curr_task_node := c\<rparr>)"
  "task_lab s (new_TaskData\<lparr>td_curr_task_node := c, td_sink_node := sk, td_threadNum := tn\<rparr>)"
  by (simp_all add: task_lab_def new_TaskData_def)

section \<open>Counting\<close>

text \<open>The numbers of explicit tasks and of chunks.\<close>

definition work_done :: "'a tdg_scheme \<Rightarrow> nat \<times> nat" where
  "work_done s = (card (of_kind s EXP_TASK), card (of_kind s CHUNK_TASK))"

lemma work_upd [simp]:
  "work_done (s\<lparr>t_finalNode := x\<rparr>) = work_done s" "work_done (s\<lparr>t_tasks := tk\<rparr>) = work_done s"
  "work_done (s\<lparr>t_ws := ws\<rparr>) = work_done s" "work_done (s\<lparr>t_pars := ps\<rparr>) = work_done s"
  "work_done (s\<lparr>t_threads := th\<rparr>) = work_done s" "work_done (s\<lparr>t_brk := b\<rparr>) = work_done s"
  "work_done (s\<lparr>t_taskPtr := tp\<rparr>) = work_done s" "work_done (s\<lparr>t_parPtr := pp\<rparr>) = work_done s"
  "work_done (s\<lparr>t_thrPtr := tp\<rparr>) = work_done s"
  by (simp_all add: work_done_def of_kind_def)

lemma work_same: "same_nodes s s' \<Longrightarrow> work_done s' = work_done s"
  by (simp add: same_nodes_def work_done_def of_kind_def)

fun count_in :: "NodeType \<Rightarrow> nat \<times> nat \<Rightarrow> nat \<times> nat" where
  "count_in EXP_TASK (e, c) = (Suc e, c)"
| "count_in CHUNK_TASK (e, c) = (e, Suc c)"
| "count_in _ w = w"

lemma of_kind_with:
  assumes "with_node s ty a s'" and "labelled s"
  shows "card (of_kind s' ty') = (if ty' = ty then Suc (card (of_kind s ty')) else card (of_kind s ty'))"
proof -
  have a: "a \<notin> of_kind s ty'" using assms by (auto simp: with_node_def labelled_def kinds_def of_kind_def)
  have "of_kind s ty' \<subseteq> {..<g_brk s}" using assms(2) by (auto simp: labelled_def of_kind_def kinds_def)
  then have fin: "finite (of_kind s ty')" using finite_subset by blast
  have none: "kinds s a = None" using assms by (auto simp: with_node_def labelled_def kinds_def)
  have "of_kind s' ty' = (if ty' = ty then insert a (of_kind s ty') else of_kind s ty')"
    using assms(1) none by (auto simp: with_node_def of_kind_def)
  then show ?thesis using a fin by (cases "ty' = ty") auto
qed

lemma work_with: "with_node s ty a s' \<Longrightarrow> labelled s \<Longrightarrow> work_done s' = count_in ty (work_done s)"
  by (cases ty) (simp_all add: work_done_def of_kind_with)

text \<open>A callback keeps the invariant and counts in at most one node.\<close>

definition counts :: "(nat \<times> nat \<Rightarrow> nat \<times> nat) \<Rightarrow> tool \<Rightarrow> tool \<Rightarrow> bool" where
  "counts f s s' \<longleftrightarrow> (labelled s \<longrightarrow> labelled s' \<and> work_done s' = f (work_done s))"

lemma counts_same: "same_nodes s s' \<Longrightarrow> counts (\<lambda>w. w) s s'"
  by (simp add: counts_def same_labelled work_same)


section \<open>The callbacks\<close>

text \<open>New objects on a state that has the node they name.\<close>

lemma counts_with:
  assumes "with_node s ty a s1" and "labelled s1 \<Longrightarrow> labelled s'" and "work_done s' = work_done s1"
  shows "counts (count_in ty) s s'"
  using assms labelled_with [OF assms(1)] work_with [OF assms(1)] by (simp add: counts_def)

lemma cb_task_create_counts:
  "cb_task_create p k ompt_task_initial s = Some s' \<Longrightarrow> counts (\<lambda>w. w) s s'"
  "cb_task_create p k ompt_task_explicit s = Some s' \<Longrightarrow> counts (count_in EXP_TASK) s s'"
proof -
  assume "cb_task_create p k ompt_task_initial s = Some s'"
  then have "counts (count_in ROOT_TASK) s s'"
    by (auto simp: cb_task_create_def run_simps dest!: create_new_node_kinds intro!: counts_with labelled_objects)
  then show "counts (\<lambda>w. w) s s'" by (simp add: counts_def)
next
  assume "cb_task_create p k ompt_task_explicit s = Some s'"
  then obtain a s1 b n tp where "with_node s EXP_TASK a s1" "s' = s1\<lparr>t_tasks := (t_tasks s1)(b \<mapsto>
      new_TaskData\<lparr>td_curr_task_node := Some a\<rparr>), t_brk := n, t_taskPtr := tp\<rparr>"
    by (auto simp: cb_task_create_def run_simps dest!: create_new_node_kinds)
  then show "counts (count_in EXP_TASK) s s'"
    by (auto intro!: counts_with labelled_objects)
qed

lemma cb_task_schedule_counts: "cb_task_schedule k k' s = Some s' \<Longrightarrow> counts (\<lambda>w. w) s s'"
  unfolding cb_task_schedule_def
  by (intro counts_same) (auto simp: run_simps split: option.splits dest: same_steps intro: same_trans)

lemma cb_parallel_begin_counts:
  assumes "cb_parallel_begin k r team s = Some s'" shows "counts (\<lambda>w. w) s s'"
proof -
  obtain s1 s2 sink q where s1: "same_nodes s s1" and s2: "with_node s1 IMP_TASK sink s2"
      and s': "s' = s2\<lparr>t_pars := (t_pars s2)(t_brk s2 \<mapsto> new_ParallelRegionData\<lparr>pr_parent_task_data := q,
        pr_sink_node := Some sink, pr_team_size := team\<rparr>), t_brk := Suc (t_brk s2), t_parPtr := (t_parPtr s2)(r := Some (t_brk s2))\<rparr>"
    using assms unfolding cb_parallel_begin_def by (auto simp: run_simps dest!: same_steps create_clean_node_kinds)
  have "counts (count_in IMP_TASK) s s'"
    unfolding s' using imp_node_with(2) [OF s2]
    by (intro counts_with [OF with_node_same(2) [OF s1 s2]]) (auto intro!: labelled_objects)
  then show ?thesis by (simp add: counts_def)
qed

lemma cb_parallel_end_counts:
  assumes "cb_parallel_end r s = Some s'" shows "counts (\<lambda>w. w) s s'"
proof -
  obtain q par b td s2 where par: "t_pars s q = Some par" and td: "t_tasks s b = Some td"
      and s2: "same_nodes (s\<lparr>t_tasks := (t_tasks s)(b \<mapsto> td\<lparr>td_curr_task_node := pr_sink_node par\<rparr>)\<rparr>) s2"
      and s': "s' = s2\<lparr>t_finalNode := pr_sink_node par, t_pars := (t_pars s2)(q := None), t_parPtr := (t_parPtr s2)(r := None)\<rparr>"
    using assms unfolding cb_parallel_end_def
    by (auto simp: run_simps task_ref_def task_set_def dest!: same_steps)
  have "labelled s2" if l: "labelled s"
  proof -
    have "task_lab s (td\<lparr>td_curr_task_node := pr_sink_node par\<rparr>)"
      using labelledD(3) [OF l par] by (simp add: task_lab_def)
    then show ?thesis using labelled_objects(1) [OF l] same_labelled [OF s2] by simp
  qed
  then show ?thesis
    unfolding s' counts_def using work_same [OF s2] by (auto intro!: labelled_objects)
qed

lemma implicit_task_begin_counts:
  "implicit_task_begin r k tn s = Some s' \<Longrightarrow> counts (\<lambda>w. w) s s'"
proof -
  assume "implicit_task_begin r k tn s = Some s'"
  then have "counts (count_in IMP_TASK) s s'"
    by (auto simp: implicit_task_begin_def run_simps dest!: create_new_node_kinds intro!: counts_with labelled_objects)
  then show ?thesis by (simp add: counts_def)
qed


text \<open>The end of an implicit task may free its last node, which is no explicit task and no chunk.\<close>

lemma delete_imp_counts:
  assumes "kinds s' = (kinds s)(c := None)" and "g_brk s' = g_brk s" and "t_tasks s' = t_tasks s" and "t_ws s' = t_ws s"
    and "t_pars s' = t_pars s" and "labelled s" and "imp_node s (Some c)"
  shows "labelled s'" and "work_done s' = work_done s"
proof -
  have "imp_node s p \<Longrightarrow> imp_node s' p" for p using assms(1,2) by (auto simp: imp_node_def)
  moreover have "dom (g_heap s') \<subseteq> dom (g_heap s)" unfolding dom_kinds [symmetric] using assms(1) by auto
  ultimately show "labelled s'" using assms(2-6) by (auto simp: labelled_def task_lab_def)
  have "of_kind s' ty = of_kind s ty" if "ty \<noteq> IMP_TASK" for ty
    using assms(1,7) that by (auto simp: of_kind_def imp_node_def)
  then show "work_done s' = work_done s" by (simp add: work_done_def)
qed

lemma drop_last_counts:
  assumes "labelled s" and "t_tasks s a = Some td" and "td_curr_barrier_node td \<noteq> None" and "td_curr_task_node td = Some c"
    and "same_nodes s s1" and "delete_node c (removeNode i s1) = Some s2" and "same_nodes s2 s3"
  shows "labelled s3" and "work_done s3 = work_done s"
proof -
  have l1: "labelled s1" using assms(1,5) by (simp add: same_labelled)
  have "imp_node s1 (Some c)"
    using labelledD(1) [OF assms(1,2)] assms(3-5) by (simp add: task_lab_def imp_node_def same_nodes_def)
  moreover have "kinds s2 = (kinds s1)(c := None)" "g_brk s2 = g_brk s1" "t_tasks s2 = t_tasks s1"
      "t_ws s2 = t_ws s1" "t_pars s2 = t_pars s1"
    using assms(6) by (auto simp: delete_node_def removeNode_def opt_simps kinds_def)
  ultimately have "labelled s2" "work_done s2 = work_done s1" using delete_imp_counts l1 by blast+
  then show "labelled s3" "work_done s3 = work_done s" using assms(5,7) by (simp_all add: same_labelled work_same)
qed

lemma implicit_task_end_counts:
  assumes "implicit_task_end k tn s = Some s'" shows "counts (\<lambda>w. w) s s'"
proof -
  obtain a td s3 where td: "t_tasks s a = Some td"
      and s': "s' = s3\<lparr>t_tasks := (t_tasks s3)(a := None), t_taskPtr := (t_taskPtr s3)(k := None)\<rparr>"
      and s3: "(if td_curr_barrier_node td \<noteq> None then do {
              s1 \<leftarrow> disconnect (td_curr_barrier_node td) (td_curr_task_node td) s;
              c \<leftarrow> td_curr_task_node td;
              n \<leftarrow> g_heap s1 c;
              s2 \<leftarrow> delete_node c (removeNode (n_id n) s1);
              (if tn = 0 then connect (td_curr_barrier_node td) (td_sink_node td) s2
               else Some s2) }
            else do {
              s1 \<leftarrow> add_time_now (td_curr_task_node td) s;
              connect (td_curr_task_node td) (td_sink_node td) s1 }) = Some s3"
    using assms unfolding implicit_task_end_def bind_eq_Some_conv by blast
  have "labelled s3 \<and> work_done s3 = work_done s" if l: "labelled s"
  proof (cases "td_curr_barrier_node td")
    case None
    then have "same_nodes s s3" using s3 by (auto simp: opt_simps dest!: same_steps intro: same_trans)
    then show ?thesis using l by (simp add: same_labelled work_same)
  next
    case (Some b)
    then obtain c i s1 s2 where "td_curr_task_node td = Some c" "same_nodes s s1"
        "delete_node c (removeNode i s1) = Some s2" "same_nodes s2 s3"
      using s3 by (auto simp: opt_simps split: if_splits dest!: same_steps)
    then show ?thesis using drop_last_counts [OF l td] Some by blast
  qed
  then show ?thesis unfolding s' counts_def by (auto intro!: labelled_objects)
qed

text \<open>A barrier adds a barrier node at most, and an implicit task.\<close>

lemma enter_barrier_counts:
  assumes "enter_barrier c q par s = Some (b, nb, s')" and "t_pars s q = Some par"
  shows "counts (\<lambda>w. w) s s'" and "t_tasks s' = t_tasks s"
proof -
  show "counts (\<lambda>w. w) s s'"
  proof (cases "pr_barrier_cnt par = 0")
    case True
    then obtain x s1 where s1: "with_node s BARRIER x s1"
        and s': "s' = s1\<lparr>t_pars := (t_pars s1)(q \<mapsto> par\<lparr>pr_barrier_cnt := 1, pr_curr_barrier_node := Some x\<rparr>)\<rparr>"
      using assms(1) unfolding enter_barrier_def by (auto simp: run_simps dest!: create_new_node_kinds)
    have "t_pars s1 q = Some par" using s1 assms(2) by (simp add: with_node_def)
    then have "counts (count_in BARRIER) s s'"
      unfolding s' by (intro counts_with [OF s1]) (auto intro!: labelled_objects dest: labelledD(3))
    then show ?thesis by (simp add: counts_def)
  next
    case False
    then obtain s1 cnt where s1: "same_nodes s s1" and s': "s' = s1\<lparr>t_pars := (t_pars s1)(q \<mapsto> par\<lparr>pr_barrier_cnt := cnt\<rparr>)\<rparr>"
      using assms(1) unfolding enter_barrier_def by (auto simp: run_simps dest!: same_steps)
    have "t_pars s1 q = Some par" using s1 assms(2) by (simp add: same_nodes_def)
    then show ?thesis
      unfolding s' counts_def same_labelled [OF s1, symmetric] work_same [OF s1, symmetric]
      by (auto intro!: labelled_objects dest: labelledD(3))
  qed
  show "t_tasks s' = t_tasks s"
    using assms(1) unfolding enter_barrier_def
    by (auto simp: run_simps with_node_def same_nodes_def split: if_splits dest!: same_steps create_new_node_kinds)
qed

lemma barrier_begin_counts:
  assumes "barrier_begin cur q par s = Some s'" and "t_pars s q = Some par"
  shows "counts (\<lambda>w. w) s s'"
proof -
  obtain a td s1 b nb s2 node s4 where s1: "same_nodes s s1" and s2: "enter_barrier (td_curr_task_node td) q par s1 = Some (b, nb, s2)"
      and s4: "with_node (s2\<lparr>t_tasks := (t_tasks s2)(a \<mapsto> td\<lparr>td_curr_barrier_node := b\<rparr>)\<rparr>) IMP_TASK node s4"
      and s': "same_nodes (s4\<lparr>t_tasks := (t_tasks s4)(a \<mapsto> td\<lparr>td_curr_barrier_node := b, td_curr_task_node := Some node\<rparr>)\<rparr>) s'"
    using assms(1) unfolding barrier_begin_def
    by (auto simp: run_simps task_ref_def task_set_def split: if_splits dest!: same_steps create_new_node_kinds)
  let ?td = "td\<lparr>td_curr_barrier_node := b, td_curr_task_node := Some node\<rparr>"
  have par: "t_pars s1 q = Some par" using s1 assms(2) by (simp add: same_nodes_def)
  show ?thesis
    unfolding counts_def
  proof
    assume "labelled s"
    then have "labelled s1" using s1 by (simp add: same_labelled)
    then have l2: "labelled s2" and w2: "work_done s2 = work_done s"
      using enter_barrier_counts(1) [OF s2 par] work_same [OF s1] by (simp_all add: counts_def)
    define s5 where "s5 = s4\<lparr>t_tasks := t_tasks s2\<rparr>"
    have s5: "with_node s2 IMP_TASK node s5" using s4 by (simp add: with_node_def s5_def)
    have "labelled (s5\<lparr>t_tasks := (t_tasks s5)(a \<mapsto> ?td)\<rparr>)"
      using imp_node_with(2) [OF s5] by (intro labelled_objects(1) labelled_with [OF s5 l2]) (simp add: task_lab_def)
    moreover have "s5\<lparr>t_tasks := (t_tasks s5)(a \<mapsto> ?td)\<rparr> = s4\<lparr>t_tasks := (t_tasks s4)(a \<mapsto> ?td)\<rparr>"
      using s4 by (simp add: s5_def with_node_def)
    moreover have "work_done s5 = work_done s2" using work_with [OF s5 l2] by simp
    ultimately show "labelled s' \<and> work_done s' = work_done s"
      using same_labelled [OF s'] work_same [OF s'] w2 by (simp add: s5_def)
  qed
qed

lemma cb_sync_region_counts: "cb_sync_region kind ep r k s = Some s' \<Longrightarrow> counts (\<lambda>w. w) s s'"
  unfolding cb_sync_region_def
  by (cases ep) (auto simp: run_simps split: if_splits option.splits dest: same_steps
      intro: counts_same barrier_begin_counts)


text \<open>Loops and chunks.\<close>

lemma loop_begin_counts:
  assumes "loop_begin k lo up s = Some s'" shows "counts (\<lambda>w. w) s s'"
proof -
  obtain td a s1 start s2 s3 sink s4 where td: "t_tasks s a = Some td" and s1: "same_nodes s s1"
      and s2: "with_node s1 WS_TASK start s2" and s3: "same_nodes s2 s3" and s4: "with_node s3 IMP_TASK sink s4"
      and s': "s' = s4\<lparr>t_ws := (t_ws s4)(t_brk s4 \<mapsto>
                  new_WorksharingData\<lparr>ws_start_node := Some start, ws_sink_node := Some sink\<rparr>),
                 t_brk := Suc (t_brk s4), t_tasks := (t_tasks s4)(a \<mapsto> td\<lparr>td_curr_ws_data := Some (t_brk s4)\<rparr>)\<rparr>"
    using assms unfolding loop_begin_def
    by (auto simp: run_simps task_ref_def task_set_def dest!: same_steps create_new_node_kinds create_clean_node_kinds)
  let ?ws = "new_WorksharingData\<lparr>ws_start_node := Some start, ws_sink_node := Some sink\<rparr>"
  have w2: "with_node s WS_TASK start s3" by (rule with_node_same(1) [OF with_node_same(2) [OF s1 s2] s3])
  show ?thesis
    unfolding counts_def
  proof
    assume l: "labelled s"
    note l3 = labelled_with [OF w2 l]
    have "t_tasks s4 a = Some td" using td w2 s4 by (simp add: with_node_def)
    then have "task_lab s4 (td\<lparr>td_curr_ws_data := Some (t_brk s4)\<rparr>)"
      using labelledD(1) [OF labelled_with [OF s4 l3]] by (simp add: task_lab_def)
    then have "labelled (s4\<lparr>t_ws := (t_ws s4)(t_brk s4 \<mapsto> ?ws), t_tasks := (t_tasks s4)(a \<mapsto> td\<lparr>td_curr_ws_data := Some (t_brk s4)\<rparr>)\<rparr>)"
      using labelled_objects(1) [OF labelled_objects(3) [OF labelled_with [OF s4 l3], of ?ws]] imp_node_with(2) [OF s4] by simp
    then have "labelled s'" by (simp add: s')
    moreover have "work_done s' = work_done s"
      unfolding s' using work_with [OF w2 l] work_with [OF s4 l3] by simp
    ultimately show "labelled s' \<and> work_done s' = work_done s" by blast
  qed
qed

lemma loop_close_same [same_steps]:
  "(if ws_last_chunk_node ws \<noteq> None then finish_chunk thr (ws_last_chunk_node ws) s
    else do { s' \<leftarrow> add_time_now (ws_start_node ws) s; connect (ws_start_node ws) (ws_sink_node ws) s' }) = Some s1
   \<Longrightarrow> same_nodes s s1"
  by (auto simp: opt_simps split: if_splits dest!: same_steps intro: same_trans)

lemma loop_end_counts:
  assumes "loop_end thr k s = Some s'" shows "counts (\<lambda>w. w) s s'"
proof -
  obtain td a b ws s1 s2 th where td: "t_tasks s a = Some td" and ws: "t_ws s b = Some ws" and s1: "same_nodes s s1" "same_nodes s1 s2"
      and s': "s' = s2\<lparr>t_ws := (t_ws s2)(b := None),
        t_tasks := (t_tasks s2)(a \<mapsto> td\<lparr>td_curr_task_node := ws_sink_node ws, td_curr_ws_data := None\<rparr>), t_threads := th\<rparr>"
    using assms unfolding loop_end_def task_ref_def task_set_def bind_eq_Some_conv
    by (elim exE conjE) (drule same_steps, drule same_steps, auto)
  note s2 = same_trans [OF s1]
  show ?thesis
    unfolding counts_def same_labelled [OF s2, symmetric] work_same [OF s2, symmetric]
  proof
    assume l: "labelled s2"
    have "t_ws s2 b = Some ws" using ws s2 by (simp add: same_nodes_def)
    then have "task_lab s2 (td\<lparr>td_curr_task_node := ws_sink_node ws, td_curr_ws_data := None\<rparr>)"
      using labelledD(2) [OF l] by (simp add: task_lab_def)
    then have "labelled (s2\<lparr>t_ws := (t_ws s2)(b := None),
        t_tasks := (t_tasks s2)(a \<mapsto> td\<lparr>td_curr_task_node := ws_sink_node ws, td_curr_ws_data := None\<rparr>)\<rparr>)"
      using labelled_objects(1) [OF labelled_objects(4) [OF l]] by simp
    then show "labelled s' \<and> work_done s' = work_done s2" unfolding s' by simp
  qed
qed

lemma new_chunk_counts:
  assumes "new_chunk thr td lo up s = Some s'" shows "counts (count_in CHUNK_TASK) s s'"
proof -
  obtain b ws chunk s1 s2 s3 s4 s6 where ws: "t_ws s b = Some ws" and s1: "with_node s CHUNK_TASK chunk s1"
      and s4: "same_nodes s1 s2" "same_nodes s2 s3" "same_nodes s3 s4"
      and s': "same_nodes (s4\<lparr>t_ws := (t_ws s4)(b \<mapsto> ws\<lparr>ws_last_chunk_node := Some chunk\<rparr>)\<rparr>) s6" "same_nodes s6 s'"
    using assms unfolding new_chunk_def
    by (auto simp: run_simps ws_ref_def ws_set_def dest!: same_steps create_new_node_kinds)
  note w = with_node_same(1) [OF s1 same_trans [OF s4(1) same_trans [OF s4(2,3)]]] and s' = same_trans [OF s']
  have "t_ws s4 b = Some ws" using ws w by (simp add: with_node_def)
  then have "labelled s4 \<Longrightarrow> labelled s'"
    using labelledD(2) [of s4 b ws] by (auto simp: same_labelled [OF s'] intro!: labelled_objects)
  then show ?thesis by (rule counts_with [OF w]) (simp_all add: work_same [OF s'])
qed

lemma cb_ext_chunk_counts:
  assumes "cb_ext_chunk thr k lo up l s = Some s'" shows "counts (if l then (\<lambda>w. w) else count_in CHUNK_TASK) s s'"
proof -
  obtain td s1 where s1: "same_nodes s s1" and s': "(if \<not> l then new_chunk thr td lo up s1 else Some s1) = Some s'"
    using assms unfolding cb_ext_chunk_def by (auto simp: run_simps split: if_splits dest!: same_steps)
  then show ?thesis
    using new_chunk_counts [of thr td lo up s1 s'] counts_same [OF s1]
    by (auto simp: counts_def same_labelled work_same split: if_splits)
qed


section \<open>Whole runs\<close>

text \<open>The numbers of explicit tasks and of chunks the events announce.\<close>

fun count_event :: "event \<Rightarrow> nat \<times> nat \<Rightarrow> nat \<times> nat" where
  "count_event (ExplicitTask p k) w = count_in EXP_TASK w"
| "count_event (Chunk thr k lo up last_chunk) w = (if last_chunk then w else count_in CHUNK_TASK w)"
| "count_event _ w = w"

definition explicit_tasks :: "event list \<Rightarrow> nat" where
  "explicit_tasks es = length (filter (\<lambda>e. \<exists>p k. e = ExplicitTask p k) es)"

definition dispatched_chunks :: "event list \<Rightarrow> nat" where
  "dispatched_chunks es = length (filter (\<lambda>e. \<exists>thr k lo up. e = Chunk thr k lo up False) es)"

lemma fold_count_event: "fold count_event es (e, c) = (e + explicit_tasks es, c + dispatched_chunks es)"
proof (induction es arbitrary: e c)
  case (Cons x es)
  then show ?case by (cases x) (auto simp: explicit_tasks_def dispatched_chunks_def)
qed (simp add: explicit_tasks_def dispatched_chunks_def)

lemma cb_thread_counts:
  "cb_thread_begin pc pa d s = Returns s' \<Longrightarrow> counts (\<lambda>w. w) s s'"
  "cb_thread_end pcl pd d s = Some (Returns s') \<Longrightarrow> counts (\<lambda>w. w) s s'"
  by (auto simp: cb_thread_begin_def cb_thread_end_def opt_simps counts_def split: option.splits if_splits)

lemmas callbacks_count = cb_thread_counts cb_task_create_counts cb_task_schedule_counts cb_parallel_begin_counts
  cb_parallel_end_counts implicit_task_begin_counts implicit_task_end_counts cb_sync_region_counts
  loop_begin_counts loop_end_counts cb_ext_chunk_counts

lemma tool_event_counts: "tool_event ps e s = Some s' \<Longrightarrow> counts (count_event e) s s'"
proof (cases e)
  case (Chunk thr k lo up l)
  assume "tool_event ps e s = Some s'"
  then show ?thesis using cb_ext_chunk_counts [of thr k lo up l s s'] Chunk by (simp add: counts_def)
qed (auto simp: cb_implicit_task_def cb_ext_loop_def opt_simps returns_Some counts_def [of "\<lambda>w. w" s s]
    dest!: callbacks_count, auto simp: counts_def)

lemma run_counts:
  "foldM (tool_event ps) es s = Some s' \<Longrightarrow> labelled s \<Longrightarrow> labelled s' \<and> work_done s' = fold count_event es (work_done s)"
proof (induction es arbitrary: s)
  case (Cons e es)
  then show ?case using tool_event_counts [of ps e s] by (auto simp: opt_simps counts_def)
qed simp

lemma run_work:
  assumes "init_libtdg cpufreq tsc a b c d f g h (new_tool clock papi) = Some (Returns (s0, out))"
    and "foldM (tool_event ps) evs s0 = Some s"
  shows "card (of_kind s EXP_TASK) = explicit_tasks evs" and "card (of_kind s CHUNK_TASK) = dispatched_chunks evs"
proof -
  obtain clk n es where "s0 = (new_tool clk papi)\<lparr>t_papiNumEvents := n, t_papiEvents := es\<rparr>"
    using init_libtdg_new [OF assms(1)] by blast
  then have "labelled s0" "work_done s0 = (0, 0)"
    by (simp_all add: labelled_def work_done_def of_kind_def kinds_def new_tool_def)
  then show "card (of_kind s EXP_TASK) = explicit_tasks evs" "card (of_kind s CHUNK_TASK) = dispatched_chunks evs"
    using run_counts [OF assms(2)] fold_count_event [of evs 0 0] by (simp_all add: work_done_def)
qed


section \<open>Properties\<close>

text \<open>The head of the \<open>tim\<close> report, up to the numbers of tasks.\<close>

definition task_report :: "double \<Rightarrow> nat \<Rightarrow> double \<Rightarrow> nat \<Rightarrow> double \<Rightarrow> nat \<Rightarrow> out_text" where
  "task_report T tasks TC chunks TE explicit =
     [OStr ''Total time (ms): '', ODouble T, Endl, OStr ''Total tasks: '', OInt (int tasks), Endl,
      OStr ''Total chunks time: '', ODouble TC, Endl, OStr ''Total chunks: '', OInt (int chunks), Endl,
      OStr ''Total explicit time: '', ODouble TE, Endl,
      OStr ''Total explicit tasks: '', OInt (int explicit), Endl]"

lemma print_total:
  assumes "index_ok s" and "dom (g_heap s) \<noteq> {}" and "card (dom (g_heap s)) < 2 ^ 32"
    and "\<forall>a n. g_heap s a = Some n \<longrightarrow> 0 \<le> n_totalTime n"
  shows "\<exists>m T TC TE rest. tt_init s new_TotalTimeMetric = Some m \<and> TC \<le> T \<and> TE \<le> T
    \<and> tt_printMetric m = Some (task_report T (card (dom (g_heap s))) TC (card (of_kind s CHUNK_TASK)) TE
        (card (of_kind s EXP_TASK)) @ rest)"
proof -
  have kind: "of_kind s ty = {a. \<exists>n. g_heap s a = Some n \<and> n_type n = ty}" for ty
    by (auto simp: of_kind_def kinds_def)
  have fin: "finite (dom (g_heap s))" using assms(1) graphNodes_iter(2) by (metis List.finite_set)
  have "card (of_kind s ty) \<le> card (dom (g_heap s))" for ty
    by (rule card_mono [OF fin]) (auto simp: kind)
  then have small: "unat (word_of_nat (card (of_kind s ty)) :: uint32) = card (of_kind s ty)" for ty
    using assms(3) le_less_trans by (intro unat_word_of_nat) auto
  obtain m where m: "tt_init s new_TotalTimeMetric = Some m" "tt_numChunks m = word_of_nat (card (of_kind s CHUNK_TASK))"
      "tt_numExplicitTasks m = word_of_nat (card (of_kind s EXP_TASK))" "tt_totalChunkTimes m \<le> tt_getMetric m"
      "tt_totalExplicitTimes m \<le> tt_getMetric m" "tt_avg_time m \<noteq> None" "tt_stddev m \<noteq> None" "tt_med_time m \<noteq> None"
      "length (tt_times_arr m) = card (dom (g_heap s))"
    using tt_init_counts [OF assms] unfolding kind by blast
  have "uint (tt_numChunks m) = int (card (of_kind s CHUNK_TASK))" "uint (tt_numExplicitTasks m) = int (card (of_kind s EXP_TASK))"
    unfolding m(2,3) uint_nat small by (rule refl)+
  then have "\<exists>rest. tt_printMetric m = Some (task_report (tt_total_time m) (card (dom (g_heap s))) (tt_totalChunkTimes m)
      (card (of_kind s CHUNK_TASK)) (tt_totalExplicitTimes m) (card (of_kind s EXP_TASK)) @ rest)"
    using m(6-9) by (auto simp: tt_printMetric_def task_report_def Let_def)
  then show ?thesis using m(1,4,5) by (auto simp: tt_getMetric_def)
qed

text \<open>A session that ends with the \<open>tim\<close> report.\<close>

lemma session_report:
  assumes "init_libtdg cpufreq tsc a b c d f g h (new_tool clock papi) = Some (Returns (s0, out0))"
    and "\<forall>k. tsc k \<le> tsc (Suc k)" and "omp_run new_world evs w" and "InitialTask k \<in> set evs"
    and "2 * int (length evs) < 2 ^ 32"
  shows "\<exists>s s' T TC TE rest. foldM (tool_event ps) evs s0 = Some s
    \<and> finalize_libtdg depth (Some ''tim'') is_open s = Some (Returns (s',
        task_report T (card (w_nodes w)) TC (dispatched_chunks evs) TE (explicit_tasks evs) @ rest, Map.empty))
    \<and> TC \<le> T \<and> TE \<le> T"
proof -
  have len: "2 * int (length evs) + 4 < 2 ^ 63" using assms(5) by simp
  obtain s where s: "foldM (tool_event ps) evs s0 = Some s" "sim s w" "winv w" "w_brk w \<le> 2 * length evs"
    using run_from_start [OF assms(3) len assms(1)] by blast
  note r = sim_ready [OF s(2,3)] and dom = sim_graph(2) [OF s(2)]
  obtain s1 where s1: "(if t_finalNode s \<noteq> None then add_time_now (t_finalNode s) s else Some s) = Some s1"
      and g1: "grows s s1 {} {} 0" using close_final_node [OF r(1,4)] by blast
  have sn: "same_nodes s s1" using s1 same_steps by (auto split: if_splits)
  have kind: "of_kind s1 ty = of_kind s ty" for ty using sn by (simp add: same_nodes_def of_kind_def)
  have dom1: "dom (g_heap s1) = w_nodes w" and idx: "index_ok s1"
    using growsD [OF g1] dom by (simp_all add: wf_tdg_def)
  have "timed s1" using run_timed [OF s(1) init_libtdg_timed [OF assms(1)]] assms(2) s1 add_time_now_timed
    by (auto split: if_splits)
  then have nn: "\<forall>a n. g_heap s1 a = Some n \<longrightarrow> 0 \<le> n_totalTime n" by (simp add: timed_def node_timed_def)
  have "w_final w \<noteq> None" using omp_run_final [OF assms(3)] assms(4) by blast
  then have ne: "dom (g_heap s1) \<noteq> {}" and small: "card (dom (g_heap s1)) < 2 ^ 32"
    using r(5,6) s(4) assms(5) dom dom1 by auto
  obtain m T TC TE rest where m: "tt_init s1 new_TotalTimeMetric = Some m" "TC \<le> T" "TE \<le> T"
      "tt_printMetric m = Some (task_report T (card (w_nodes w)) TC (dispatched_chunks evs) TE (explicit_tasks evs) @ rest)"
    using print_total [OF idx ne small nn] unfolding kind dom1 run_work [OF assms(1) s(1)] by blast
  have "parse_tokens (Some ''tim'') [] = Some [''tim'']" using parse_tokens_splits [of "''tim''" "[]"] by simp
  then have "finalize_libtdg depth (Some ''tim'') is_open s = Some (Returns ((s1\<lparr>g_heap := Map.empty, g_graphNodes := []\<rparr>)\<lparr>t_papiEvents := []\<rparr>,
      task_report T (card (w_nodes w)) TC (dispatched_chunks evs) TE (explicit_tasks evs) @ rest, Map.empty))"
    using s1 m(1,4) delete_graph_runs [OF idx] by (simp add: finalize_libtdg_def make_metric_def)
  then show ?thesis using s(1) m(2,3) by blast
qed

text \<open>
  C3. The numbers of the report: in a session from \<open>init_libtdg\<close> to \<open>finalize_libtdg\<close> with
  \<open>TDG_TOOL_METRICS=tim\<close>, for every run of the machine, the report counts exactly the explicit tasks
  the runtime created and the chunks it dispatched; the total number of tasks is the number of
  nodes, and, when the time stamp counter does not go back, neither the time of the chunks nor the time of the explicit
  tasks is more than the total time.
\<close>

theorem report_counts_tasks:
  assumes "init_libtdg cpufreq tsc a b c d f g h (new_tool clock papi) = Some (Returns (s0, out0))"
    and "\<forall>k. tsc k \<le> tsc (Suc k)" and "omp_run new_world evs w" and "InitialTask k \<in> set evs"
    and "2 * int (length evs) < 2 ^ 32"
  shows "\<exists>s s' T TC TE rest. foldM (tool_event ps) evs s0 = Some s
    \<and> finalize_libtdg depth (Some ''tim'') is_open s = Some (Returns (s',
        task_report T (card (w_nodes w)) TC (dispatched_chunks evs) TE (explicit_tasks evs) @ rest, Map.empty))
    \<and> TC \<le> T \<and> TE \<le> T"
  by (rule session_report [OF assms])

theorem report_counts_tasks_witness:
  "\<exists>s s' w T TC TE rest. omp_run new_world sample_events w
    \<and> foldM (tool_event 0) sample_events (new_tool sample_clock (\<lambda>_. None)) = Some s
    \<and> finalize_libtdg 0 (Some ''tim'') (\<lambda>_. False) s = Some (Returns (s', task_report T (card (w_nodes w)) TC 1 TE 0 @ rest, Map.empty))
    \<and> TC \<le> T"
proof -
  obtain w where w: "omp_run new_world sample_events w" using sample_run by blast
  have i: "InitialTask 0 \<in> set sample_events" "2 * int (length sample_events) < 2 ^ 32"
    "explicit_tasks sample_events = 0" "dispatched_chunks sample_events = 1"
    by (simp_all add: sample_events_def explicit_tasks_def dispatched_chunks_def)
  from report_counts_tasks [OF sample_init sample_counter_mono w i(1,2), of 0 0 "\<lambda>_. False"] show ?thesis
    using w unfolding i(3,4) by blast
qed


end
