(* ===== verification/C_Numbers.thy ===== *)
theory C_Numbers
  imports Tsc_Timer
begin

text \<open>
  What the example programs use of C's numbers: the range of \<open>int\<close>, and \<open>atoi\<close>, which reads the
  arguments of the command line.
\<close>

definition is_int :: "int \<Rightarrow> bool" where
  "is_int i \<longleftrightarrow> - (2 ^ 31) \<le> i \<and> i < 2 ^ 31"

text \<open>\<open>atoi\<close>: a number that is no \<open>int\<close> is undefined.\<close>

definition atoi :: "string \<Rightarrow> int option" where
  "atoi str =
     (let (neg, s) = split_sign (dropWhile is_space str);
          v = (if neg then - 1 else 1) * int (digits_val (takeWhile is_digit s))
      in if is_int v then Some v else None)"

lemma is_int_nat: "n < 2 ^ 31 \<Longrightarrow> is_int (int n)"
  by (simp add: is_int_def)

lemma atoi_decimal: "n < 2 ^ 31 \<Longrightarrow> atoi (decimal n) = Some (int n)"
proof -
  assume n: "n < 2 ^ 31"
  obtain c cs where dec: "decimal n = c # cs" using decimal_nonempty [of n] by (cases "decimal n") auto
  have dig: "list_all is_digit (c # cs)" using decimal_digits [of n] dec by simp
  then have "\<not> is_space c" "c \<noteq> CHR ''-''" "c \<noteq> CHR ''+''" by (auto simp: is_digit_def is_space_def)
  then have "split_sign (dropWhile is_space (decimal n)) = (False, decimal n)" by (simp add: dec)
  moreover have "takeWhile is_digit (decimal n) = decimal n"
    using decimal_digits [of n] by (auto simp: list_all_iff intro: takeWhile_eq_all_conv [THEN iffD2])
  ultimately show ?thesis
    using is_int_nat [OF n] unfolding atoi_def Let_def by (simp add: digits_val_decimal del: takeWhile_eq_all_conv)
qed

end
