(* ===== verification/Fib_Program.thy ===== *)
theory Fib_Program
  imports Task_Counts C_Numbers
begin

text \<open>
  \<open>src/fib/fib.cc\<close>: the Fibonacci numbers with two explicit tasks per call, and what the tool reports
  about it.  The program's result does not depend on how its tasks are scheduled, because the two
  tasks of a call write different variables and the call waits for both.

  For the report the theory follows one execution: a team of one thread that executes every task as
  soon as it is created.  The events of that execution are a run of the machine of \<open>Omp_Protocol\<close>.
\<close>

section \<open>The program\<close>

function fib :: "uint32 \<Rightarrow> uint32" where
  "fib n = (if n < 2 then n
     else (let prev_num = fib (n - 1); prev_prev_num = fib (n - 2) in prev_prev_num + prev_num))"
  by pat_completeness auto

lemma unat_less_2: "\<not> n < (2 :: uint32) \<Longrightarrow> 2 \<le> unat n"
  by (simp add: word_less_nat_alt)

lemma unat_minus: "\<not> n < (2 :: uint32) \<Longrightarrow> unat (n - 1) = unat n - 1 \<and> unat (n - 2) = unat n - 2"
  using unat_less_2 [of n] by (simp add: unat_sub word_le_nat_alt)

lemma fib_smaller: "\<not> n < (2 :: uint32) \<Longrightarrow> unat (n - 1) < unat n" "\<not> n < (2 :: uint32) \<Longrightarrow> unat (n - 2) < unat n"
  using unat_less_2 [of n] unat_minus [of n] by simp_all

termination fib
  by (relation "measure unat") (simp_all add: fib_smaller)

declare fib.simps [simp del]

definition fib_main :: "string option \<Rightarrow> (nat \<Rightarrow> uint64) \<Rightarrow> string list \<Rightarrow> out_text outcome option" where
  "fib_main cpufreq_file tsc argv =
     (if length argv < 3 then Some (Exits 1)
      else do {
        v \<leftarrow> atoi (argv ! 1);
        d \<leftarrow> atoi (argv ! 2);
        let n = (word_of_int v :: uint32);
        let g_print_debug = (d = 1);
        let debug_out = (if g_print_debug then [OStr ''N = '', OInt (uint n), Endl] else []);
        ftimer_init \<leftarrow> init_clock_time cpufreq_file tsc new_timer;
        (case ftimer_init of
           Exits code \<Rightarrow> Some (Exits code)
         | Returns (tm, timer_out) \<Rightarrow> do {
             (start_time, tm1) \<leftarrow> get_clock_time tsc tm;
             let result = fib n;
             (end_time, tm2) \<leftarrow> get_clock_time tsc tm1;
             let total_time = fsub end_time start_time;
             Some (Returns (debug_out @ timer_out @
               [OStr ''result: '', OInt (uint result), Endl,
                OStr ''exec time (ms): '', ODouble total_time, Endl])) }) })"

text \<open>\<open>do_work\<close>, whose call in \<open>fib\<close> is commented out: \<open>total += total/ITERS\<close>, \<open>ITERS\<close> times, and a line with the result.\<close>

definition fib_ITERS :: nat where
  "fib_ITERS = 1000000"

definition fib_do_work :: "int \<Rightarrow> int \<Rightarrow> double \<times> out_text" where
  "fib_do_work i tid =
     (let tot = ((\<lambda>t. fadd t (fdiv t (real fib_ITERS))) ^^ fib_ITERS) 5
      in (tot, [OInt i, OStr '' tid = '', OInt tid, OStr '', res = '', ODouble tot, Endl]))"

lemma fib_do_work_result: "5 \<le> fst (fib_do_work i tid)" "fst (fib_do_work i tid) < 16"
  using compounded_total [of fib_ITERS] by (simp_all add: fib_do_work_def Let_def fib_ITERS_def)

section \<open>Its tasks\<close>

text \<open>The events of \<open>fib(n)\<close> in task \<open>p\<close>; \<open>c\<close> is the next task.  A \<open>taskwait\<close> is a synchronisation the
  callbacks ignore.\<close>

function fib_events :: "nat \<Rightarrow> nat \<Rightarrow> uint32 \<Rightarrow> nat \<times> event list" where
  "fib_events p c n = (if n < 2 then (c, [])
     else (let (c1, es1) = fib_events c (Suc c) (n - 1);
               (c2, es2) = fib_events c1 (Suc c1) (n - 2)
           in (c2, [ExplicitTask p c, Schedule p c] @ es1 @ [Schedule c p]
                 @ [ExplicitTask p c1, Schedule p c1] @ es2 @ [Schedule c1 p, Unobserved])))"
  by pat_completeness auto

termination fib_events
  by (relation "measure (\<lambda>(p, c, n). unat n)") (simp_all add: fib_smaller)

declare fib_events.simps [simp del]

text \<open>The parallel region of \<open>main\<close>: the single construct creates one task.\<close>

definition fib_main_events :: "uint32 \<Rightarrow> event list" where
  "fib_main_events n =
     [ThreadBegin 0, InitialTask 0, ParallelBegin 0 0 1, ImplicitBegin 0 1 0, Unobserved]
     @ [ExplicitTask 1 2, Schedule 1 2] @ snd (fib_events 2 3 n) @ [Schedule 2 1, Unobserved]
     @ [BarrierBegin 0 1, BarrierEnd 0 1, ImplicitEnd 1 0, ParallelEnd 0]"

section \<open>The result and the number of tasks\<close>

fun fibonacci :: "nat \<Rightarrow> nat" where
  "fibonacci 0 = 0"
| "fibonacci (Suc 0) = 1"
| "fibonacci (Suc (Suc n)) = fibonacci n + fibonacci (Suc n)"

lemma fib_fibonacci: "fib n = word_of_nat (fibonacci (unat n))"
proof (induction n rule: fib.induct)
  case (1 n)
  show ?case
  proof (cases "n < 2")
    case True
    then have "unat n = 0 \<or> unat n = 1" by (auto simp: word_less_nat_alt)
    then have "fibonacci (unat n) = unat n" by auto
    then show ?thesis using True by (simp add: fib.simps [of n])
  next
    case False
    define k where "k = unat n - 2"
    then have k: "unat n = Suc (Suc k)" using unat_less_2 [OF False] by simp
    then have "fib (n - 1) = word_of_nat (fibonacci (Suc k))" "fib (n - 2) = word_of_nat (fibonacci k)"
      using "1.IH" [OF False] unat_minus [OF False] by simp_all
    then show ?thesis using False k by (simp add: fib.simps [of n] Let_def)
  qed
qed

lemma explicit_tasks_simps [simp]:
  "explicit_tasks [] = 0" "explicit_tasks (xs @ ys) = explicit_tasks xs + explicit_tasks ys"
  "explicit_tasks (ExplicitTask p k # xs) = Suc (explicit_tasks xs)"
  "explicit_tasks (Schedule k k' # xs) = explicit_tasks xs" "explicit_tasks (Unobserved # xs) = explicit_tasks xs"
  by (simp_all add: explicit_tasks_def)

lemma dispatched_chunks_simps [simp]:
  "dispatched_chunks [] = 0" "dispatched_chunks (xs @ ys) = dispatched_chunks xs + dispatched_chunks ys"
  "dispatched_chunks (ExplicitTask p k # xs) = dispatched_chunks xs"
  "dispatched_chunks (Schedule k k' # xs) = dispatched_chunks xs" "dispatched_chunks (Unobserved # xs) = dispatched_chunks xs"
  by (simp_all add: dispatched_chunks_def)

text \<open>A call with two tasks, seen from its parts.\<close>

lemma fib_events_rec:
  assumes "\<not> n < 2" and "fib_events c (Suc c) (n - 1) = (c1, es1)" and "fib_events c1 (Suc c1) (n - 2) = (c2, es2)"
  shows "fib_events p c n = (c2, [ExplicitTask p c, Schedule p c] @ es1 @ [Schedule c p]
     @ [ExplicitTask p c1, Schedule p c1] @ es2 @ [Schedule c1 p, Unobserved])"
  using assms by (simp add: fib_events.simps [of p c n])

lemma fib_events_leaf: "n < 2 \<Longrightarrow> fib_events p c n = (c, [])"
  by (simp add: fib_events.simps [of p c n])

lemma fib_events_count:
  "fib_events p c n = (c', es) \<Longrightarrow> explicit_tasks es + 2 = 2 * fibonacci (Suc (unat n))
   \<and> length es + 7 = 7 * fibonacci (Suc (unat n)) \<and> dispatched_chunks es = 0"
proof (induction p c n arbitrary: c' es rule: fib_events.induct)
  case (1 p c n)
  show ?case
  proof (cases "n < 2")
    case True
    then have "unat n = 0 \<or> unat n = 1" by (auto simp: word_less_nat_alt)
    then have "fibonacci (Suc (unat n)) = 1" by (auto simp: numeral_2_eq_2)
    then show ?thesis using "1.prems" True by (simp add: fib_events_leaf)
  next
    case False
    obtain c1 es1 c2 es2 where e: "fib_events c (Suc c) (n - 1) = (c1, es1)" "fib_events c1 (Suc c1) (n - 2) = (c2, es2)"
      by fastforce
    define k where "k = unat n - 2"
    then have k: "unat n = Suc (Suc k)" "unat (n - 1) = Suc k" "unat (n - 2) = k"
      using unat_less_2 [OF False] unat_minus [OF False] by simp_all
    note es = fib_events_rec [OF False e, of p]
    show ?thesis
      using "1.IH" (1) [OF False e(1)] "1.IH" (2) [OF False e(1) [symmetric] refl e(2)] "1.prems" k unfolding es by auto
  qed
qed

section \<open>The run of the machine\<close>

text \<open>Tasks up to \<open>c\<close> are as before, and those from \<open>c'\<close> on are new.\<close>

definition extends :: "nat \<Rightarrow> nat \<Rightarrow> world \<Rightarrow> world \<Rightarrow> bool" where
  "extends c c' w w' \<longleftrightarrow> (\<forall>k < c. w_task w' k = w_task w k) \<and> (\<forall>k \<ge> c'. w_task w' k = None)
     \<and> w_reg w' = w_reg w \<and> w_threads w' = w_threads w"

lemma extends_trans: "extends c c1 w w1 \<Longrightarrow> extends c1 c2 w1 w2 \<Longrightarrow> c \<le> c1 \<Longrightarrow> extends c c2 w w2"
  by (simp add: extends_def)

lemma new_task:
  assumes "running w p t" and "p < c" and "\<forall>k \<ge> c. w_task w k = None"
  shows "\<exists>w'. omp_run w [ExplicitTask p c, Schedule p c] w' \<and> running w' c (new_atask (w_brk w)) \<and> extends c (Suc c) w w'"
proof -
  let ?x = "w_brk w"
  let ?w = "set_task c (Some (new_atask ?x)) (add_edge (at_cur t) ?x (add_node ?x (RCur c) w))"
  have "omp_step w (ExplicitTask p c) ?w" using assms by (intro omp_step.explicit) simp_all
  then have "omp_run w [ExplicitTask p c, Schedule p c] ?w" by (auto intro: omp_run.intros omp_step.schedule)
  moreover have "running ?w c (new_atask ?x)" by (simp add: running_def new_atask_def)
  moreover have "extends c (Suc c) w ?w" using assms(3) by (simp add: extends_def)
  ultimately show ?thesis by blast
qed

lemma back_to_parent: "omp_run w [Schedule k p] w"
  by (intro omp_run_single omp_step.schedule)

lemma fib_events_run:
  assumes "fib_events p c n = (c', es)" and "running w p t" and "p < c" and "\<forall>k \<ge> c. w_task w k = None"
  shows "\<exists>w'. omp_run w es w' \<and> extends c c' w w' \<and> c \<le> c'"
  using assms
proof (induction p c n arbitrary: c' es w t rule: fib_events.induct)
  case (1 p c n)
  show ?case
  proof (cases "n < 2")
    case True
    then show ?thesis using "1.prems" by (auto simp: fib_events_leaf extends_def intro: omp_run.run_nil)
  next
    case False
    obtain c1 es1 c2 es2 where e: "fib_events c (Suc c) (n - 1) = (c1, es1)" "fib_events c1 (Suc c1) (n - 2) = (c2, es2)"
      by fastforce
    have es: "c' = c2" "es = ([ExplicitTask p c, Schedule p c] @ es1 @ [Schedule c p])
        @ ([ExplicitTask p c1, Schedule p c1] @ es2 @ [Schedule c1 p]) @ [Unobserved]"
      using "1.prems"(1) fib_events_rec [OF False e, of p] by simp_all
    obtain w1 where w1: "omp_run w [ExplicitTask p c, Schedule p c] w1" "running w1 c (new_atask (w_brk w))" "extends c (Suc c) w w1"
      using new_task [OF "1.prems"(2-4)] by blast
    obtain w2 where w2: "omp_run w1 es1 w2" "extends (Suc c) c1 w1 w2" "Suc c \<le> c1"
      using "1.IH"(1) [OF False e(1) w1(2)] w1(3) by (auto simp: extends_def)
    have x2: "extends c c1 w w2" using extends_trans [OF w1(3) w2(2)] by simp
    then have r2: "running w2 p t" "p < c1" "\<forall>k \<ge> c1. w_task w2 k = None"
      using "1.prems"(2,3) w2(3) by (auto simp: extends_def running_def)
    obtain w3 where w3: "omp_run w2 [ExplicitTask p c1, Schedule p c1] w3" "running w3 c1 (new_atask (w_brk w2))" "extends c1 (Suc c1) w2 w3"
      using new_task [OF r2] by blast
    obtain w4 where w4: "omp_run w3 es2 w4" "extends (Suc c1) c2 w3 w4" "Suc c1 \<le> c2"
      using "1.IH"(2) [OF False e(1) [symmetric] refl e(2) w3(2)] w3(3) by (auto simp: extends_def)
    have x4: "extends c c2 w w4" using extends_trans [OF x2 extends_trans [OF w3(3) w4(2)]] w2(3) by simp
    have "omp_run w es w4"
      unfolding es(2) using w1(1) w2(1) w3(1) w4(1)
      by (intro omp_run_append [of w _ w2] omp_run_append [of w2 _ w4] omp_run_append [of w _ w1] omp_run_append [of w1 _ w2]
          omp_run_append [of w2 _ w3] omp_run_append [of w3 _ w4] back_to_parent omp_run_single omp_step.unobserved)
    then show ?thesis using x4 w2(3) w4(3) by (auto simp: es(1))
  qed
qed


lemma fib_main_run: "\<exists>w. omp_run new_world (fib_main_events n) w"
proof -
  let ?entry = "[ThreadBegin 0, InitialTask 0, ParallelBegin 0 0 1, ImplicitBegin 0 1 0]"
  obtain w1 where w1: "omp_run new_world ?entry w1" "in_region w1" "w_task w1 1 = Some one_task" "\<forall>k \<ge> 2. w_task w1 k = None"
    using one_thread_begin by blast
  have r1: "running w1 1 one_task" using w1(3) by (simp add: running_def one_task_def new_atask_def)
  obtain w2 where w2: "omp_run w1 [ExplicitTask 1 2, Schedule 1 2] w2" "running w2 2 (new_atask (w_brk w1))" "extends 2 3 w1 w2"
    using new_task [OF r1 _ w1(4)] by auto
  obtain c es where e: "fib_events 2 3 n = (c, es)" by fastforce
  obtain w3 where w3: "omp_run w2 es w3" "extends 3 c w2 w3"
    using fib_events_run [OF e w2(2)] w2(3) by (auto simp: extends_def)
  have "extends 2 c w1 w3" using extends_trans [OF w2(3) w3(2)] by simp
  then have i3: "in_region w3" and r3: "running w3 1 one_task"
    using w1(2) r1 by (simp_all add: extends_def in_region_def running_def)
  have "member w3 0 (one_region False) one_task"
    using i3 by (simp add: member_def in_region_def one_region_def one_task_def)
  then have "omp_step w3 (BarrierBegin 0 1) w3"
    using omp_step.barrier_single [OF r3, of 0 "one_region False"] by (simp add: one_region_def)
  moreover have "omp_step w3 (BarrierEnd 0 1) w3" using r3 by (intro omp_step.barrier_end) (auto simp: running_def)
  moreover obtain w4 where "omp_run w3 [ImplicitEnd 1 0, ParallelEnd 0] w4"
    using one_thread_end [OF i3 r3] by (auto simp: one_task_def new_atask_def)
  ultimately have rest: "omp_run w3 ([Schedule 2 1, Unobserved] @ [BarrierBegin 0 1, BarrierEnd 0 1, ImplicitEnd 1 0, ParallelEnd 0]) w4"
    by (simp add: omp_run_stutter omp_step.schedule omp_step.unobserved)
  have start: "omp_run w1 ([Unobserved] @ [ExplicitTask 1 2, Schedule 1 2]) w2"
    using w2(1) by (simp add: omp_run_stutter omp_step.unobserved)
  from omp_run_append [OF w1(1) omp_run_append [OF start omp_run_append [OF w3(1) rest]]]
  show ?thesis by (auto simp: fib_main_events_def e)
qed

section \<open>Properties\<close>

text \<open>
  The Fibonacci program prints the Fibonacci number of its argument, modulo the range of
  \<open>unsigned int\<close>; in particular the number itself while it is below \<open>2 ^ 32\<close>.
\<close>

theorem fib_prints_fibonacci:
  assumes "n < 2 ^ 31" and "atoi dbg = Some d" and "init_clock_time cpufreq tsc new_timer = Some (Returns (tm, timer_out))"
    and "tm_freq tm \<noteq> 0"
  shows "\<exists>elapsed. fib_main cpufreq tsc [prog, decimal n, dbg] = Some (Returns (
      (if d = 1 then [OStr ''N = '', OInt (int n), Endl] else []) @ timer_out @
      [OStr ''result: '', OInt (int (fibonacci n) mod 2 ^ 32), Endl, OStr ''exec time (ms): '', ODouble elapsed, Endl]))"
proof -
  have n: "unat (word_of_nat n :: uint32) = n" using assms(1) by (intro unat_word_of_nat) simp
  have "uint (fib (word_of_nat n)) = int (fibonacci n) mod 2 ^ 32"
    unfolding fib_fibonacci n by (simp add: unsigned_of_nat take_bit_eq_mod of_nat_mod)
  moreover have "uint (word_of_nat n :: uint32) = int n" unfolding uint_nat n by (rule refl)
  moreover obtain start tm1 stop tm2 where "get_clock_time tsc tm = Some (start, tm1)" "get_clock_time tsc tm1 = Some (stop, tm2)"
    using assms(4) by (auto simp: get_clock_time_eq)
  ultimately show ?thesis
    using assms(2,3) atoi_decimal [OF assms(1)] by (simp add: fib_main_def Let_def)
qed

text \<open>
  C4. The Fibonacci program under the tool: the events of an execution by one thread that runs its tasks
  at once are handled by the callbacks, and the \<open>tim\<close> report shows as many explicit tasks as the
  program creates, which is twice the next Fibonacci number less one, and no chunks.
\<close>

theorem fib_report:
  assumes "init_libtdg cpufreq tsc a b c d f g h (new_tool clock papi) = Some (Returns (s0, out0))"
    and "\<forall>k. tsc k \<le> tsc (Suc k)" and "fibonacci (Suc (unat n)) < 2 ^ 28"
  shows "\<exists>s s' T tasks TC TE rest. foldM (tool_event ps) (fib_main_events n) s0 = Some s
    \<and> finalize_libtdg depth (Some ''tim'') is_open s = Some (Returns (s',
        task_report T tasks TC 0 TE (2 * fibonacci (Suc (unat n)) - 1) @ rest, Map.empty))"
proof -
  obtain w where w: "omp_run new_world (fib_main_events n) w" using fib_main_run by blast
  obtain c' es where e: "fib_events 2 3 n = (c', es)" by fastforce
  note cnt = fib_events_count [OF e]
  have "InitialTask 0 \<in> set (fib_main_events n)" by (simp add: fib_main_events_def)
  moreover have "2 * int (length (fib_main_events n)) < 2 ^ 32" using cnt assms(3) by (simp add: fib_main_events_def e)
  moreover have "explicit_tasks (fib_main_events n) = Suc (explicit_tasks es)" "dispatched_chunks (fib_main_events n) = dispatched_chunks es"
    by (simp_all add: fib_main_events_def e explicit_tasks_def dispatched_chunks_def)
  then have "explicit_tasks (fib_main_events n) = 2 * fibonacci (Suc (unat n)) - 1" "dispatched_chunks (fib_main_events n) = 0"
    using cnt by linarith+
  ultimately show ?thesis
    using session_report [OF assms(1,2) w, of 0 ps depth is_open] by metis
qed

theorem fib_prints_fibonacci_witness:
  "\<exists>elapsed. fib_main (Some (decimal 1000 @ [newline])) of_nat [''fib'', decimal 10, decimal 0] = Some (Returns (
    [OStr ''Timer: cycles per sec = '', OInt 1000, Endl] @
    [OStr ''result: '', OInt 55, Endl, OStr ''exec time (ms): '', ODouble elapsed, Endl]))"
proof -
  have tm: "init_clock_time (Some (decimal 1000 @ [newline])) of_nat new_timer
      = Some (Returns (new_timer\<lparr>tm_freq := word_of_nat 1000\<rparr>, [OStr ''Timer: cycles per sec = '', OInt 1000, Endl]))"
    using read_decimal [of 1000 of_nat new_timer] by simp
  have "tm_freq (new_timer\<lparr>tm_freq := word_of_nat 1000\<rparr>) \<noteq> 0" by simp
  moreover have "atoi (decimal 0) = Some 0" using atoi_decimal [of 0] by simp
  ultimately have "\<exists>elapsed. fib_main (Some (decimal 1000 @ [newline])) of_nat [''fib'', decimal 10, decimal 0] = Some (Returns (
      (if (0::int) = 1 then [OStr ''N = '', OInt (int 10), Endl] else []) @ [OStr ''Timer: cycles per sec = '', OInt 1000, Endl] @
      [OStr ''result: '', OInt (int (fibonacci 10) mod 2 ^ 32), Endl, OStr ''exec time (ms): '', ODouble elapsed, Endl]))"
    using fib_prints_fibonacci [OF _ _ tm, of 10 "decimal 0" 0] by simp
  moreover have "fibonacci 10 = 55" by (simp add: numeral_eq_Suc)
  ultimately show ?thesis by simp
qed

theorem fib_report_witness:
  "\<exists>s s' T tasks TC TE rest. foldM (tool_event 0) (fib_main_events 5) (new_tool sample_clock (\<lambda>_. None)) = Some s
    \<and> finalize_libtdg 0 (Some ''tim'') (\<lambda>_. False) s = Some (Returns (s', task_report T tasks TC 0 TE 15 @ rest, Map.empty))"
proof -
  have "unat (5 :: uint32) = 5" by simp
  moreover have "fibonacci (Suc 5) = 8" by (simp add: numeral_eq_Suc)
  ultimately have "fibonacci (Suc (unat (5 :: uint32))) = 8" by presburger
  then show ?thesis using fib_report [OF sample_init sample_counter_mono, of 5 0 0 "\<lambda>_. False"] by simp
qed


end
