(* ===== verification/Task_Program.thy ===== *)
theory Task_Program
  imports Omp_Refinement
begin

text \<open>
  \<open>src/task_test/tasks.c\<close>: three tasks with \<open>depend\<close> clauses in a single construct.  The clauses
  force the task that prints \<open>Task 2\<close> before the other two, for it reads \<open>x\<close> before \<open>Task 1\<close> may
  write it and writes \<open>y\<close> for \<open>Task 3\<close>; the other two may run in either order.

  The theory follows the executions by one thread: it creates the tasks in order, executes a task
  when the tasks it depends on are finished, and reaches the barrier at the end of the single
  construct with any of the tasks still waiting.  The events of these executions are runs of the
  machine of \<open>Omp_Protocol\<close>.  The callbacks for dependences are empty, so they are \<open>Unobserved\<close>.
\<close>

section \<open>The program\<close>

datatype depend_var = X | Y
datatype depend_type = Depend_in depend_var | Depend_out depend_var

record task_construct =
  tk_depend :: "depend_type list"
  tk_printf :: string

definition tasks_main :: "task_construct list" where
  "tasks_main =
     [\<lparr>tk_depend = [Depend_in X, Depend_out Y], tk_printf = ''Task 2'' @ [newline]\<rparr>,
      \<lparr>tk_depend = [Depend_out X], tk_printf = ''Task 1'' @ [newline]\<rparr>,
      \<lparr>tk_depend = [Depend_in Y], tk_printf = ''Task 3'' @ [newline]\<rparr>]"

text \<open>Two clauses conflict when they name one variable and one of them is \<open>out\<close>; a task waits for the
  tasks created before it that have a conflicting clause.\<close>

fun conflict :: "depend_type \<Rightarrow> depend_type \<Rightarrow> bool" where
  "conflict (Depend_in u) (Depend_in v) = False"
| "conflict (Depend_in u) (Depend_out v) = (u = v)"
| "conflict (Depend_out u) (Depend_in v) = (u = v)"
| "conflict (Depend_out u) (Depend_out v) = (u = v)"

definition must_wait :: "task_construct \<Rightarrow> task_construct \<Rightarrow> bool" where
  "must_wait earlier later \<longleftrightarrow> list_ex (\<lambda>d. list_ex (conflict d) (tk_depend later)) (tk_depend earlier)"

section \<open>Its executions\<close>

datatype action = Create_task | Execute_task nat | Reach_barrier

record single_region =
  sr_created :: nat
  sr_done :: "nat list"
  sr_barrier :: bool
  sr_events :: "event list"

definition enter_single :: single_region where
  "enter_single = \<lparr>sr_created = 0, sr_done = [], sr_barrier = False,
     sr_events = [ThreadBegin 0, InitialTask 0, ParallelBegin 0 0 1, ImplicitBegin 0 1 0, Unobserved]\<rparr>"

text \<open>The tasks a task with index \<open>i\<close> still waits for.\<close>

definition unfinished :: "task_construct list \<Rightarrow> single_region \<Rightarrow> nat \<Rightarrow> nat list" where
  "unfinished ts r i = filter (\<lambda>j. must_wait (ts ! j) (ts ! i) \<and> j \<notin> set (sr_done r)) [0..<i]"

fun perform :: "task_construct list \<Rightarrow> action \<Rightarrow> single_region \<Rightarrow> single_region option" where
  "perform ts Create_task r =
     (if sr_barrier r \<or> length ts \<le> sr_created r then None
      else Some (r\<lparr>sr_created := Suc (sr_created r), sr_events := sr_events r @
        ExplicitTask 1 (sr_created r + 2) # Unobserved # map (\<lambda>_. Unobserved) (unfinished ts r (sr_created r))\<rparr>))"
| "perform ts (Execute_task i) r =
     (if sr_created r \<le> i \<or> i \<in> set (sr_done r) \<or> unfinished ts r i \<noteq> [] then None
      else Some (r\<lparr>sr_done := sr_done r @ [i], sr_events := sr_events r @ [Schedule 1 (i + 2), Schedule (i + 2) 1]\<rparr>))"
| "perform ts Reach_barrier r =
     (if sr_barrier r \<or> sr_created r < length ts then None
      else Some (r\<lparr>sr_barrier := True, sr_events := sr_events r @ [Unobserved, BarrierBegin 0 1]\<rparr>))"

definition complete :: "task_construct list \<Rightarrow> single_region \<Rightarrow> bool" where
  "complete ts r \<longleftrightarrow> sr_barrier r \<and> length (sr_done r) = length ts"

definition printed :: "task_construct list \<Rightarrow> single_region \<Rightarrow> string" where
  "printed ts r = concat (map (\<lambda>i. tk_printf (ts ! i)) (sr_done r))"

definition all_events :: "single_region \<Rightarrow> event list" where
  "all_events r = sr_events r @ [BarrierEnd 0 1, ImplicitEnd 1 0, ParallelEnd 0]"

section \<open>The order of the tasks\<close>

text \<open>The tasks that are finished were created, none was executed twice, and each after the tasks it
  waits for.\<close>

definition in_order :: "task_construct list \<Rightarrow> nat list \<Rightarrow> bool" where
  "in_order ts ks \<longleftrightarrow> distinct ks \<and>
     (\<forall>xs i ys j. ks = xs @ i # ys \<longrightarrow> j < i \<longrightarrow> must_wait (ts ! j) (ts ! i) \<longrightarrow> j \<in> set xs)"

definition single_ok :: "task_construct list \<Rightarrow> single_region \<Rightarrow> bool" where
  "single_ok ts r \<longleftrightarrow> set (sr_done r) \<subseteq> {..<sr_created r} \<and> sr_created r \<le> length ts \<and> in_order ts (sr_done r)
     \<and> (sr_barrier r \<longrightarrow> sr_created r = length ts)
     \<and> length (sr_events r) \<le> 5 + (2 + length ts) * sr_created r + 2 * length (sr_done r) + (if sr_barrier r then 2 else 0)"

lemma in_order_snoc:
  assumes "in_order ts ks" and "i \<notin> set ks" and "\<And>j. j < i \<Longrightarrow> must_wait (ts ! j) (ts ! i) \<Longrightarrow> j \<in> set ks"
  shows "in_order ts (ks @ [i])"
  unfolding in_order_def
proof (intro conjI allI impI)
  show "distinct (ks @ [i])" using assms(1,2) by (simp add: in_order_def)
  fix xs k ys j assume eq: "ks @ [i] = xs @ k # ys" and j: "j < k" "must_wait (ts ! j) (ts ! k)"
  show "j \<in> set xs"
  proof (cases ys rule: rev_cases)
    case Nil
    then show ?thesis using eq j assms(3) by simp
  next
    case (snoc zs z)
    then have "ks = xs @ k # zs" using eq by simp
    then show ?thesis using assms(1) j unfolding in_order_def by blast
  qed
qed

lemma unfinished_none: "unfinished ts r i = [] \<longleftrightarrow> (\<forall>j < i. must_wait (ts ! j) (ts ! i) \<longrightarrow> j \<in> set (sr_done r))"
  by (auto simp: unfinished_def filter_empty_conv)

lemma perform_ok:
  assumes "single_ok ts r" and "perform ts a r = Some r'"
  shows "single_ok ts r'"
proof (cases a)
  case Create_task
  have "length (unfinished ts r (sr_created r)) \<le> sr_created r"
    unfolding unfinished_def using length_filter_le [of _ "[0..<sr_created r]"] by simp
  then show ?thesis using assms Create_task by (auto simp: single_ok_def split: if_splits)
next
  case (Execute_task i)
  then show ?thesis using assms
    by (auto simp: single_ok_def unfinished_none intro!: in_order_snoc split: if_splits)
next
  case Reach_barrier
  then show ?thesis using assms by (auto simp: single_ok_def split: if_splits)
qed

lemma single_ok_enter: "single_ok ts enter_single"
  by (simp add: single_ok_def in_order_def enter_single_def)

lemma performs_ok: "foldM (perform ts) as enter_single = Some r \<Longrightarrow> single_ok ts r"
  by (erule foldM_preserves) (auto intro: perform_ok single_ok_enter)

lemma complete_permutes:
  assumes "single_ok ts r" and "complete ts r"
  shows "set (sr_done r) = {..<length ts}" "distinct (sr_done r)" "sr_created r = length ts"
proof -
  show d: "distinct (sr_done r)" and c: "sr_created r = length ts"
    using assms by (auto simp: single_ok_def complete_def in_order_def)
  show "set (sr_done r) = {..<length ts}"
    using assms d c by (intro card_subset_eq) (auto simp: single_ok_def complete_def distinct_card)
qed

text \<open>The three tasks: the first is executed first.\<close>

lemma tasks_order:
  assumes ok: "single_ok tasks_main r" and c: "complete tasks_main r"
  shows "sr_done r = [0, 1, 2] \<or> sr_done r = [0, 2, 1]"
proof -
  have wait: "must_wait (tasks_main ! 0) (tasks_main ! 1)" "must_wait (tasks_main ! 0) (tasks_main ! 2)"
    by (simp_all add: must_wait_def tasks_main_def)
  have len: "length tasks_main = 3" by (simp add: tasks_main_def)
  then have "length (sr_done r) = Suc (Suc (Suc 0))" using c by (simp add: complete_def)
  then obtain a b d where abd: "sr_done r = [a, b, d]" by (auto simp: length_Suc_conv)
  note p = complete_permutes [OF ok c, unfolded len abd]
  have "0 \<in> set xs" if "[a, b, d] = xs @ i # ys" "i = 1 \<or> i = 2" for xs i ys
    using ok that wait unfolding single_ok_def in_order_def abd by fastforce
  from this [of "[]" a "[b, d]"] have "a \<noteq> 1" "a \<noteq> 2" by auto
  moreover have "a < 3" "b < 3" "d < 3" using p(1) by auto
  ultimately show ?thesis using p(2) abd by auto
qed

section \<open>The graph\<close>

text \<open>The machine after \<open>k\<close> tasks were created: each has the implicit task as its only predecessor.\<close>

definition task_edges :: "nat \<Rightarrow> (addr \<times> addr) set" where
  "task_edges k = insert (0, 2) ((\<lambda>i. (2, i + 3)) ` {..<k})"

definition single_world :: "nat \<Rightarrow> world \<Rightarrow> bool" where
  "single_world k w \<longleftrightarrow> in_region w \<and> running w 1 one_task \<and> w_brk w = k + 3 \<and> w_edges w = task_edges k
     \<and> (\<forall>i \<ge> k + 2. w_task w i = None)"

lemma unobserved_run: "omp_run w (map (\<lambda>_. Unobserved) xs) w"
  by (induction xs) (simp_all add: omp_run.run_nil omp_run_stutter omp_step.unobserved)

lemma create_run:
  assumes "single_world k w"
  shows "\<exists>w'. omp_step w (ExplicitTask 1 (k + 2)) w' \<and> single_world (Suc k) w'"
proof -
  have w: "running w 1 one_task" "w_brk w = k + 3" "w_task w (k + 2) = None" "w_edges w = task_edges k" "in_region w"
    using assms by (auto simp: single_world_def)
  let ?w = "set_task (k + 2) (Some (new_atask (k + 3))) (add_edge (at_cur one_task) (k + 3) (add_node (k + 3) (RCur (k + 2)) w))"
  have "omp_step w (ExplicitTask 1 (k + 2)) ?w" using w by (intro omp_step.explicit) simp_all
  moreover have "w_edges ?w = task_edges (Suc k)"
    by (auto simp: w task_edges_def lessThan_Suc one_task_def new_atask_def)
  then have "single_world (Suc k) ?w"
    using assms by (simp add: single_world_def in_region_def running_def)
  ultimately show ?thesis by blast
qed

lemma perform_run:
  assumes "perform ts a r = Some r'" and "omp_run new_world (sr_events r) w" and w: "single_world (sr_created r) w"
  shows "\<exists>w'. omp_run new_world (sr_events r') w' \<and> single_world (sr_created r') w'"
proof (cases a)
  case Create_task
  obtain w' where "omp_step w (ExplicitTask 1 (sr_created r + 2)) w'" "single_world (Suc (sr_created r)) w'"
    using create_run [OF w] by blast
  moreover have "omp_run w' (Unobserved # map (\<lambda>_. Unobserved) (unfinished ts r (sr_created r))) w'"
    by (intro omp_run_stutter omp_step.unobserved unobserved_run)
  ultimately have "omp_run new_world (sr_events r') w'" "single_world (sr_created r') w'"
    using assms(1) Create_task omp_run_append [OF assms(2) omp_run.run_cons] by (auto split: if_splits)
  then show ?thesis by blast
next
  case (Execute_task i)
  have "omp_run w [Schedule 1 (i + 2), Schedule (i + 2) 1] w"
    by (intro omp_run_stutter omp_step.schedule omp_run.run_nil)
  then have "omp_run new_world (sr_events r') w" "single_world (sr_created r') w"
    using assms(1) Execute_task w omp_run_append [OF assms(2)] by (auto split: if_splits)
  then show ?thesis by blast
next
  case Reach_barrier
  have "running w 1 one_task" "member w 0 (one_region False) one_task"
    using w by (auto simp: single_world_def in_region_def member_def one_region_def one_task_def)
  from omp_step.barrier_single [OF this] have "omp_run w [Unobserved, BarrierBegin 0 1] w"
    by (intro omp_run_stutter omp_step.unobserved omp_run.run_nil) (simp add: one_region_def)
  then have "omp_run new_world (sr_events r') w" "single_world (sr_created r') w"
    using assms(1) Reach_barrier w omp_run_append [OF assms(2)] by (auto split: if_splits)
  then show ?thesis by blast
qed

lemma enter_single_run: "\<exists>w. omp_run new_world (sr_events enter_single) w \<and> single_world 0 w"
proof -
  obtain w where w: "omp_run new_world [ThreadBegin 0, InitialTask 0, ParallelBegin 0 0 1, ImplicitBegin 0 1 0] w"
      "in_region w" "w_task w 1 = Some one_task" "\<forall>k \<ge> 2. w_task w k = None" "w_brk w = 3" "w_edges w = {(0, 2)}"
    using one_thread_begin by blast
  then have "single_world 0 w"
    by (simp add: single_world_def running_def one_task_def new_atask_def task_edges_def)
  moreover have "omp_run w [Unobserved] w" by (intro omp_run_single omp_step.unobserved)
  ultimately show ?thesis using omp_run_append [OF w(1)] by (auto simp: enter_single_def)
qed

lemma performs_run:
  assumes "foldM (perform ts) as enter_single = Some r"
  shows "\<exists>w. omp_run new_world (sr_events r) w \<and> single_world (sr_created r) w"
  using assms
proof (rule foldM_preserves)
  show "\<exists>w. omp_run new_world (sr_events enter_single) w \<and> single_world (sr_created enter_single) w"
    using enter_single_run by (simp add: enter_single_def)
qed (use perform_run in blast)

lemma all_events_run:
  assumes "foldM (perform ts) as enter_single = Some r"
  shows "\<exists>w. omp_run new_world (all_events r) w \<and> w_edges w = insert (2, 1) (task_edges (sr_created r))"
proof -
  obtain w where w: "omp_run new_world (sr_events r) w" "single_world (sr_created r) w"
    using performs_run [OF assms] by blast
  then have r: "in_region w" "running w 1 one_task" "w_edges w = task_edges (sr_created r)"
    by (simp_all add: single_world_def)
  have "omp_step w (BarrierEnd 0 1) w" using r(2) by (intro omp_step.barrier_end) (auto simp: running_def)
  moreover obtain w' where "omp_run w [ImplicitEnd 1 0, ParallelEnd 0] w'" "w_edges w' = insert (2, 1) (w_edges w)"
    using one_thread_end [OF r(1,2)] by (auto simp: one_task_def new_atask_def)
  ultimately show ?thesis
    using omp_run_append [OF w(1) omp_run_stutter] r(3) unfolding all_events_def by metis
qed

lemma tasks_edges: "insert (2, 1) (task_edges (length tasks_main)) = {(0, 2), (2, 3), (2, 4), (2, 5), (2, 1)}"
  by (auto simp: task_edges_def tasks_main_def numeral_3_eq_3 lessThan_Suc)

section \<open>Properties\<close>

text \<open>
  C5. The program with task dependences under the tool: in every execution by one thread \<open>Task 2\<close> is
  printed first and the other two in either order, the callbacks handle its events, and the graph they
  build has the three tasks (nodes 3, 4 and 5) side by side: no path leads from \<open>Task 2\<close> to the tasks that
  had to wait for it.
\<close>

theorem tasks_graph_omits_dependences:
  assumes "init_libtdg cpufreq tsc a b c d f g h (new_tool clock papi) = Some (Returns (s0, out0))"
    and "foldM (perform tasks_main) as enter_single = Some r" and "complete tasks_main r"
  shows "printed tasks_main r \<in> {''Task 2'' @ [newline] @ ''Task 1'' @ [newline] @ ''Task 3'' @ [newline],
      ''Task 2'' @ [newline] @ ''Task 3'' @ [newline] @ ''Task 1'' @ [newline]}
    \<and> (\<exists>s. foldM (tool_event ps) (all_events r) s0 = Some s
        \<and> edge_rel (g_heap s) = {(0, 2), (2, 3), (2, 4), (2, 5), (2, 1)}
        \<and> (3, 4) \<notin> (edge_rel (g_heap s))\<^sup>+ \<and> (3, 5) \<notin> (edge_rel (g_heap s))\<^sup>+)"
proof
  have ok: "single_ok tasks_main r" by (rule performs_ok [OF assms(2)])
  show "printed tasks_main r \<in> {''Task 2'' @ [newline] @ ''Task 1'' @ [newline] @ ''Task 3'' @ [newline],
      ''Task 2'' @ [newline] @ ''Task 3'' @ [newline] @ ''Task 1'' @ [newline]}"
    using tasks_order [OF ok assms(3)] by (auto simp: printed_def tasks_main_def)
  obtain w where w: "omp_run new_world (all_events r) w" "w_edges w = {(0, 2), (2, 3), (2, 4), (2, 5), (2, 1)}"
    using all_events_run [OF assms(2)] complete_permutes(3) [OF ok assms(3)] tasks_edges by metis
  have "length (sr_events r) \<le> 28"
    using ok assms(3) complete_permutes(3) [OF ok assms(3)] by (simp add: single_ok_def complete_def tasks_main_def)
  then have "2 * int (length (all_events r)) + 4 < 2 ^ 63" by (simp add: all_events_def)
  then have len: "\<exists>s. foldM (tool_event ps) (all_events r) s0 = Some s \<and> sim s w"
    using run_from_start [OF w(1) _ assms(1), of ps] by blast
  then obtain s where s: "foldM (tool_event ps) (all_events r) s0 = Some s" "edge_rel (g_heap s) = w_edges w"
    using sim_graph(3) by blast
  have "(3, y) \<notin> (w_edges w)\<^sup>+" for y unfolding w(2) by (auto dest: tranclD)
  then show "\<exists>s. foldM (tool_event ps) (all_events r) s0 = Some s
        \<and> edge_rel (g_heap s) = {(0, 2), (2, 3), (2, 4), (2, 5), (2, 1)}
        \<and> (3, 4) \<notin> (edge_rel (g_heap s))\<^sup>+ \<and> (3, 5) \<notin> (edge_rel (g_heap s))\<^sup>+"
    using s w(2) by metis
qed

theorem tasks_graph_omits_dependences_witness:
  "\<exists>r s. foldM (perform tasks_main) [Create_task, Create_task, Execute_task 0, Create_task, Reach_barrier,
        Execute_task 2, Execute_task 1] enter_single = Some r
    \<and> printed tasks_main r = ''Task 2'' @ [newline] @ ''Task 3'' @ [newline] @ ''Task 1'' @ [newline]
    \<and> foldM (tool_event 0) (all_events r) (new_tool sample_clock (\<lambda>_. None)) = Some s
    \<and> (3, 4) \<notin> (edge_rel (g_heap s))\<^sup>+"
proof -
  let ?as = "[Create_task, Create_task, Execute_task 0, Create_task, Reach_barrier, Execute_task 2, Execute_task 1]"
  define r where "r = the (foldM (perform tasks_main) ?as enter_single)"
  have r: "foldM (perform tasks_main) ?as enter_single = Some r"
    unfolding r_def by (simp add: enter_single_def tasks_main_def unfinished_def must_wait_def upt_rec)
  have d: "sr_done r = [0, 2, 1]" "sr_barrier r"
    unfolding r_def by (simp_all add: enter_single_def tasks_main_def unfinished_def must_wait_def upt_rec)
  then have "complete tasks_main r" by (simp add: complete_def tasks_main_def)
  moreover have "printed tasks_main r = ''Task 2'' @ [newline] @ ''Task 3'' @ [newline] @ ''Task 1'' @ [newline]"
    by (simp add: printed_def d tasks_main_def)
  ultimately show ?thesis
    using tasks_graph_omits_dependences [OF sample_init r, of 0] r by blast
qed

end
