(* ===== verification/Loop_Program.thy ===== *)
theory Loop_Program
  imports Task_Counts C_Numbers
begin

text \<open>
  \<open>src/test/loop.c\<close>: the example of the README, a parallel loop whose iterations are handed out one by
  one to the threads that ask for the next one.  The theory follows every order in which the threads
  of a team may enter the region, take iterations and finish them, and shows what is printed; and it
  shows what the tool reports about an execution by one thread.
\<close>

section \<open>The work of an iteration\<close>

definition ITERS :: nat where
  "ITERS = 100000000"

text \<open>\<open>total += total / ITERS\<close>, the body of the loop of \<open>do_work\<close>.\<close>

definition add_share :: "double \<Rightarrow> double" where
  "add_share tot = fadd tot (fdiv tot (real ITERS))"

definition work_total :: double where
  "work_total = (add_share ^^ ITERS) 5"

definition do_work :: "nat \<Rightarrow> nat \<Rightarrow> double \<times> out_text" where
  "do_work i tid = (work_total,
     [OInt (int i), OStr '', tid = '', OInt (int tid), OStr '', res = '', ODouble work_total, Endl])"

lemma work_total_bounds: "5 \<le> work_total" "work_total < 16"
  using compounded_total [of ITERS]
  by (simp_all add: work_total_def ITERS_def add_share_def [abs_def])

section \<open>The parallel region\<close>

datatype loop_action = Enter_region nat | Take_iteration nat | Finish_iteration nat

record loop_region =
  lr_entered :: "nat list"
  lr_next :: nat
  lr_busy :: "nat \<rightharpoonup> nat"
  lr_lines :: "out_text list"

definition fork_region :: loop_region where
  "fork_region = \<lparr>lr_entered = [], lr_next = 0, lr_busy = Map.empty, lr_lines = []\<rparr>"

abbreviation entry_line :: out_text where
  "entry_line \<equiv> [OStr ''>> just after omp parallel'', Endl]"

text \<open>What a thread of a team of \<open>team\<close> threads may do next; the others wait meanwhile.\<close>

fun loop_step :: "nat \<Rightarrow> nat \<Rightarrow> loop_action \<Rightarrow> loop_region \<Rightarrow> loop_region option" where
  "loop_step team n (Enter_region t) r =
     (if team \<le> t \<or> t \<in> set (lr_entered r) then None
      else Some (r\<lparr>lr_entered := t # lr_entered r, lr_lines := lr_lines r @ [entry_line]\<rparr>))"
| "loop_step team n (Take_iteration t) r =
     (if t \<notin> set (lr_entered r) \<or> lr_busy r t \<noteq> None \<or> n \<le> lr_next r then None
      else Some (r\<lparr>lr_busy := (lr_busy r)(t \<mapsto> lr_next r), lr_next := Suc (lr_next r)\<rparr>))"
| "loop_step team n (Finish_iteration t) r =
     (case lr_busy r t of
        None \<Rightarrow> None
      | Some i \<Rightarrow> Some (r\<lparr>lr_busy := (lr_busy r)(t := None), lr_lines := lr_lines r @ [snd (do_work i t)]\<rparr>))"

text \<open>All threads have entered and every iteration is finished: the barrier at the end of the loop is
  passed.\<close>

definition joined :: "nat \<Rightarrow> nat \<Rightarrow> loop_region \<Rightarrow> bool" where
  "joined team n r \<longleftrightarrow> length (lr_entered r) = team \<and> lr_next r = n \<and> (\<forall>t \<in> set (lr_entered r). lr_busy r t = None)"

text \<open>The program with the order \<open>sched\<close> of the actions of its threads.  It is undefined without an
  argument, and \<open>None\<close> also stands for an order that is no execution of the region.\<close>

definition loop_main :: "string option \<Rightarrow> (nat \<Rightarrow> uint64) \<Rightarrow> nat \<Rightarrow> loop_action list \<Rightarrow> string list
    \<Rightarrow> out_text outcome option" where
  "loop_main cpufreq_file tsc team sched argv =
     (if length argv < 2 then None
      else do {
        num_iters \<leftarrow> atoi (argv ! 1);
        ftimer_init \<leftarrow> init_clock_time cpufreq_file tsc new_timer;
        (case ftimer_init of
           Exits code \<Rightarrow> Some (Exits code)
         | Returns (tm, timer_out) \<Rightarrow> do {
             (start, tm1) \<leftarrow> get_clock_time tsc tm;
             (now, tm2) \<leftarrow> get_clock_time tsc tm1;
             let telapsed = fsub now start;
             r \<leftarrow> foldM (loop_step team (nat num_iters)) sched fork_region;
             if joined team (nat num_iters) r then do {
               (stop, tm3) \<leftarrow> get_clock_time tsc tm2;
               let elapsed = fsub stop start;
               Some (Returns (timer_out @ concat (lr_lines r) @
                 [OStr ''exec time (ms): '', ODouble elapsed, Endl,
                  OStr ''one do_work (ms): '', ODouble telapsed, Endl])) }
             else None }) })"

text \<open>The events of an execution by one thread; the runtime may end the loop with a last event that
  announces no chunk.\<close>

definition loop_events :: "nat \<Rightarrow> bool \<Rightarrow> event list" where
  "loop_events n last_event =
     [ThreadBegin 0, InitialTask 0, ParallelBegin 0 0 1, ImplicitBegin 0 1 0, LoopBegin 1 0 (int n - 1)]
     @ map (\<lambda>i. Chunk 0 1 (int i) (int i) False) [0..<n]
     @ (if last_event then [Chunk 0 1 (int n) (int n) True] else [])
     @ [LoopEnd 0 1, BarrierBegin 0 1, BarrierEnd 0 1, BarrierBegin 0 1, BarrierEnd 0 1, ImplicitEnd 1 0, ParallelEnd 0]"

section \<open>What the threads print\<close>

text \<open>The iterations that are taken are finished, or one thread each is busy with them.\<close>

definition finished :: "loop_region \<Rightarrow> nat set" where
  "finished r = {..<lr_next r} - ran (lr_busy r)"

definition region_ok :: "nat \<Rightarrow> nat \<Rightarrow> (nat \<Rightarrow> nat) \<Rightarrow> loop_region \<Rightarrow> bool" where
  "region_ok team n who r \<longleftrightarrow> distinct (lr_entered r) \<and> set (lr_entered r) \<subseteq> {..<team} \<and> lr_next r \<le> n
     \<and> dom (lr_busy r) \<subseteq> set (lr_entered r) \<and> ran (lr_busy r) \<subseteq> {..<lr_next r} \<and> inj_on (lr_busy r) (dom (lr_busy r))
     \<and> (\<forall>i \<in> finished r. who i < team)
     \<and> mset (lr_lines r) = replicate_mset (length (lr_entered r)) entry_line
         + image_mset (\<lambda>i. snd (do_work i (who i))) (mset_set (finished r))"

lemma region_ok_fork: "region_ok team n who fork_region"
  by (simp add: region_ok_def fork_region_def finished_def)

lemma finished_take:
  assumes "lr_busy r t = None" and "ran (lr_busy r) \<subseteq> {..<lr_next r}"
  shows "finished (r\<lparr>lr_busy := (lr_busy r)(t \<mapsto> lr_next r), lr_next := Suc (lr_next r)\<rparr>) = finished r"
  using assms by (auto simp: finished_def ran_map_upd lessThan_Suc)

lemma finished_finish:
  assumes b: "lr_busy r t = Some i" and inj: "inj_on (lr_busy r) (dom (lr_busy r))" and i: "i < lr_next r"
  shows "finished (r\<lparr>lr_busy := (lr_busy r)(t := None), lr_lines := ls\<rparr>) = insert i (finished r)" "i \<notin> finished r"
proof -
  have u: "lr_busy r a = Some i \<longleftrightarrow> a = t" for a using inj_onD [OF inj, of a t] b by auto
  have "x \<in> ran ((lr_busy r)(t := None)) \<longleftrightarrow> x \<in> ran (lr_busy r) - {i}" for x
  proof
    show "x \<in> ran (lr_busy r) - {i}" if "x \<in> ran ((lr_busy r)(t := None))"
      using that u by (auto simp: ran_def split: if_splits)
    show "x \<in> ran ((lr_busy r)(t := None))" if x: "x \<in> ran (lr_busy r) - {i}"
    proof -
      obtain a where a: "lr_busy r a = Some x" "x \<noteq> i" using x by (auto simp: ran_def)
      then have "((lr_busy r)(t := None)) a = Some x" using b by auto
      then show ?thesis by (rule ranI)
    qed
  qed
  then have "ran ((lr_busy r)(t := None)) = ran (lr_busy r) - {i}" by blast
  then show "finished (r\<lparr>lr_busy := (lr_busy r)(t := None), lr_lines := ls\<rparr>) = insert i (finished r)"
    using i by (auto simp: finished_def)
  show "i \<notin> finished r" using b by (auto simp: finished_def ran_def)
qed

lemma loop_step_ok:
  assumes ok: "region_ok team n who r" and step: "loop_step team n a r = Some r'"
  shows "\<exists>who'. region_ok team n who' r'"
proof (cases a)
  case (Enter_region t)
  then have t: "t < team" "t \<notin> set (lr_entered r)"
      and r': "r' = r\<lparr>lr_entered := t # lr_entered r, lr_lines := lr_lines r @ [entry_line]\<rparr>"
    using step by (auto split: if_splits)
  have "dom (lr_busy r) \<subseteq> insert t (set (lr_entered r))" using ok by (auto simp: region_ok_def)
  then have "region_ok team n who r'"
    using ok t unfolding region_ok_def r' finished_def by simp
  then show ?thesis by blast
next
  case (Take_iteration t)
  then have t: "t \<in> set (lr_entered r)" "lr_busy r t = None" "lr_next r < n"
      and r': "r' = r\<lparr>lr_busy := (lr_busy r)(t \<mapsto> lr_next r), lr_next := Suc (lr_next r)\<rparr>"
    using step by (auto split: if_splits)
  have "ran (lr_busy r) \<subseteq> {..<lr_next r}" using ok by (simp add: region_ok_def)
  note f = finished_take [OF t(2) this]
  have "inj_on ((lr_busy r)(t \<mapsto> lr_next r)) (insert t (dom (lr_busy r)))"
    using ok t(2) by (auto simp: region_ok_def inj_on_def ran_def dom_def)
  then have "region_ok team n who r'"
    using ok t unfolding region_ok_def f r' by (auto simp: ran_map_upd less_Suc_eq)
  then show ?thesis by blast
next
  case (Finish_iteration t)
  then obtain i where b: "lr_busy r t = Some i"
      and r': "r' = r\<lparr>lr_busy := (lr_busy r)(t := None), lr_lines := lr_lines r @ [snd (do_work i t)]\<rparr>"
    using step by (auto split: option.splits)
  have i: "i < lr_next r" "t < team" and inj: "inj_on (lr_busy r) (dom (lr_busy r))"
    using ok b by (auto simp: region_ok_def ran_def dom_def)
  note f = finished_finish [OF b inj i(1)]
  have "image_mset (\<lambda>j. snd (do_work j ((who(i := t)) j))) (mset_set (finished r))
      = image_mset (\<lambda>j. snd (do_work j (who j))) (mset_set (finished r))"
    using f(2) by (intro image_mset_cong) (auto simp: finished_def)
  moreover have "finite (finished r)" by (simp add: finished_def)
  moreover have "inj_on ((lr_busy r)(t := None)) (dom (lr_busy r) - {t})"
    using inj by (auto simp: inj_on_def)
  moreover have "ran ((lr_busy r)(t := None)) \<subseteq> ran (lr_busy r)" by (auto simp: ran_def)
  ultimately have "region_ok team n (who(i := t)) r'"
    using ok i f(2) unfolding region_ok_def r' f(1) by auto
  then show ?thesis by blast
qed

lemma loop_steps_ok: "foldM (loop_step team n) sched fork_region = Some r \<Longrightarrow> \<exists>who. region_ok team n who r"
  by (erule foldM_preserves) (auto intro: region_ok_fork loop_step_ok)

text \<open>After the region every thread has printed its line, and every iteration its own.\<close>

lemma joined_lines:
  assumes "foldM (loop_step team n) sched fork_region = Some r" and "joined team n r"
  shows "\<exists>who. (\<forall>i < n. who i < team) \<and> mset (lr_lines r)
    = mset (replicate team entry_line @ map (\<lambda>i. snd (do_work i (who i))) [0..<n])"
proof -
  obtain who where ok: "region_ok team n who r" using loop_steps_ok [OF assms(1)] by blast
  have "dom (lr_busy r) = {}" using ok assms(2) by (auto simp: region_ok_def joined_def dom_def)
  then have "finished r = {..<n}" using assms(2) by (simp add: finished_def joined_def)
  then show ?thesis
    using ok assms(2) unfolding region_ok_def joined_def
    by (intro exI [of _ who]) (simp add: mset_map mset_upt lessThan_atLeast0)
qed

section \<open>The run of the machine\<close>

definition in_loop :: "world \<Rightarrow> bool" where
  "in_loop w \<longleftrightarrow> in_region w \<and> w_threads w = {0} \<and> (\<exists>l. w_task w 1 = Some (one_task\<lparr>at_loop := Some (3, 4, l)\<rparr>))"

lemma chunk_run:
  assumes "in_loop w"
  shows "\<exists>w'. omp_step w (Chunk 0 1 lo up False) w' \<and> in_loop w'" and "omp_step w (Chunk 0 1 lo up True) w"
proof -
  obtain l where l: "in_region w" "w_threads w = {0}" "w_task w 1 = Some (one_task\<lparr>at_loop := Some (3, 4, l)\<rparr>)"
    using assms by (auto simp: in_loop_def)
  then have r: "running w 1 (one_task\<lparr>at_loop := Some (3, 4, l)\<rparr>)" by (simp add: running_def one_task_def new_atask_def)
  obtain w' where s: "omp_step w (Chunk 0 1 lo up False) w'" and f: "in_region w'" "w_threads w' = {0}"
      "w_task w' 1 = Some (one_task\<lparr>at_loop := Some (3, 4, Some (w_brk w))\<rparr>)"
    by (rule that [OF omp_step.chunk [OF r _ _ refl]]) (use l in \<open>simp_all add: in_region_def\<close>)
  then show "\<exists>w'. omp_step w (Chunk 0 1 lo up False) w' \<and> in_loop w'" by (auto simp: in_loop_def)
  show "omp_step w (Chunk 0 1 lo up True) w" by (rule omp_step.chunk_last [OF r]) (simp_all add: l)
qed

lemma chunks_run: "in_loop w \<Longrightarrow> \<exists>w'. omp_run w (map (\<lambda>i. Chunk 0 1 (int i) (int i) False) is) w' \<and> in_loop w'"
proof (induction "is" arbitrary: w)
  case (Cons i ks)
  obtain w1 where "omp_step w (Chunk 0 1 (int i) (int i) False) w1" "in_loop w1" using chunk_run(1) [OF Cons.prems] by blast
  with Cons.IH [of w1] show ?case by (auto intro: omp_run.run_cons)
qed (auto intro: omp_run.run_nil)

lemma loop_begin_run:
  "\<exists>w. omp_run new_world [ThreadBegin 0, InitialTask 0, ParallelBegin 0 0 1, ImplicitBegin 0 1 0, LoopBegin 1 lo up] w \<and> in_loop w"
proof -
  obtain w where w: "omp_run new_world [ThreadBegin 0, InitialTask 0, ParallelBegin 0 0 1, ImplicitBegin 0 1 0] w"
      "in_region w" "w_task w 1 = Some one_task" "w_threads w = {0}" "w_brk w = 3"
    using one_thread_begin by blast
  then have r: "running w 1 one_task" by (simp add: running_def one_task_def new_atask_def)
  obtain w' where s: "omp_step w (LoopBegin 1 lo up) w'" and f: "in_region w'" "w_threads w' = {0}"
      "w_task w' 1 = Some (one_task\<lparr>at_loop := Some (3, 4, None)\<rparr>)"
    by (rule that [OF omp_step.loop_begin [OF r _ refl]]) (use w in \<open>simp_all add: in_region_def one_task_def new_atask_def\<close>)
  from omp_run_append [OF w(1) omp_run_single [OF s]] f show ?thesis by (auto simp: in_loop_def)
qed

lemma loop_end_run:
  assumes "in_loop w"
  shows "\<exists>w'. omp_run w [LoopEnd 0 1, BarrierBegin 0 1, BarrierEnd 0 1, BarrierBegin 0 1, BarrierEnd 0 1, ImplicitEnd 1 0, ParallelEnd 0] w'"
proof -
  obtain l where l: "in_region w" "w_threads w = {0}" "w_task w 1 = Some (one_task\<lparr>at_loop := Some (3, 4, l)\<rparr>)"
    using assms by (auto simp: in_loop_def)
  then have r: "running w 1 (one_task\<lparr>at_loop := Some (3, 4, l)\<rparr>)" by (simp add: running_def one_task_def new_atask_def)
  let ?t = "one_task\<lparr>at_cur := 4\<rparr>"
  obtain w1 where s1: "omp_step w (LoopEnd 0 1) w1" and f: "in_region w1" "w_task w1 1 = Some ?t"
    by (rule that [OF omp_step.loop_end [OF r]]) (use l in \<open>simp_all add: in_region_def one_task_def new_atask_def\<close>)
  have r1: "running w1 1 ?t" using f by (simp add: running_def one_task_def new_atask_def)
  have "member w1 0 (one_region False) ?t" using f by (simp add: member_def in_region_def one_region_def one_task_def)
  then have b: "omp_step w1 (BarrierBegin 0 1) w1"
    using omp_step.barrier_single [OF r1, of 0 "one_region False"] by (simp add: one_region_def)
  have e: "omp_step w1 (BarrierEnd 0 1) w1" using r1 by (intro omp_step.barrier_end) (auto simp: running_def)
  obtain w2 where "omp_run w1 [ImplicitEnd 1 0, ParallelEnd 0] w2"
    using one_thread_end [OF f(1) r1] by (auto simp: one_task_def new_atask_def)
  then show ?thesis using s1 b e by (meson omp_run.run_cons)
qed

lemma loop_run: "\<exists>w. omp_run new_world (loop_events n last_event) w"
proof -
  obtain w1 where w1: "omp_run new_world [ThreadBegin 0, InitialTask 0, ParallelBegin 0 0 1, ImplicitBegin 0 1 0,
      LoopBegin 1 0 (int n - 1)] w1" "in_loop w1" using loop_begin_run by blast
  obtain w2 where w2: "omp_run w1 (map (\<lambda>i. Chunk 0 1 (int i) (int i) False) [0..<n]) w2" "in_loop w2"
    using chunks_run [OF w1(2)] by blast
  have last: "omp_run w2 (if last_event then [Chunk 0 1 (int n) (int n) True] else []) w2"
    using chunk_run(2) [OF w2(2)] by (auto intro: omp_run_single omp_run.run_nil)
  obtain w3 where "omp_run w2 [LoopEnd 0 1, BarrierBegin 0 1, BarrierEnd 0 1, BarrierBegin 0 1, BarrierEnd 0 1, ImplicitEnd 1 0, ParallelEnd 0] w3"
    using loop_end_run [OF w2(2)] by blast
  from omp_run_append [OF w1(1) omp_run_append [OF w2(1) omp_run_append [OF last this]]]
  show ?thesis by (auto simp: loop_events_def)
qed

section \<open>Properties\<close>

text \<open>
  C25. The loop program: for every order in which the threads of a team execute the region, the program
  prints the line of each thread and the line of each iteration exactly once, all with the same
  result, which lies between 5 and 16 whatever the roundings, and then the two times.
\<close>

theorem loop_prints_each_iteration:
  assumes "n < 2 ^ 31" and "foldM (loop_step team n) sched fork_region = Some r" and "joined team n r"
    and "init_clock_time cpufreq tsc new_timer = Some (Returns (tm, timer_out))" and "tm_freq tm \<noteq> 0"
  shows "\<exists>elapsed telapsed ls who. loop_main cpufreq tsc team sched [prog, decimal n] = Some (Returns (timer_out @ concat ls @
      [OStr ''exec time (ms): '', ODouble elapsed, Endl, OStr ''one do_work (ms): '', ODouble telapsed, Endl]))
    \<and> (\<forall>i < n. who i < team)
    \<and> mset ls = mset (replicate team [OStr ''>> just after omp parallel'', Endl]
        @ map (\<lambda>i. [OInt (int i), OStr '', tid = '', OInt (int (who i)), OStr '', res = '', ODouble work_total, Endl]) [0..<n])
    \<and> 5 \<le> work_total \<and> work_total < 16"
proof -
  obtain start tm1 now tm2 stop tm3 where "get_clock_time tsc tm = Some (start, tm1)"
      "get_clock_time tsc tm1 = Some (now, tm2)" "get_clock_time tsc tm2 = Some (stop, tm3)"
    using assms(5) by (auto simp: get_clock_time_eq)
  then have "loop_main cpufreq tsc team sched [prog, decimal n] = Some (Returns (timer_out @ concat (lr_lines r) @
      [OStr ''exec time (ms): '', ODouble (fsub stop start), Endl, OStr ''one do_work (ms): '', ODouble (fsub now start), Endl]))"
    using assms(2-4) atoi_decimal [OF assms(1)] by (simp add: loop_main_def Let_def)
  then show ?thesis using joined_lines [OF assms(2,3)] work_total_bounds unfolding do_work_def snd_conv by blast
qed

text \<open>
  The loop program under the tool: the events of an execution by one thread are handled by the callbacks, and
  the \<open>tim\<close> report shows one chunk for each iteration of the loop and no explicit task.
\<close>

theorem loop_report:
  assumes "init_libtdg cpufreq tsc a b c d f g h (new_tool clock papi) = Some (Returns (s0, out0))"
    and "\<forall>k. tsc k \<le> tsc (Suc k)" and "n < 2 ^ 30"
  shows "\<exists>s s' T tasks TC TE rest. foldM (tool_event ps) (loop_events n last_event) s0 = Some s
    \<and> finalize_libtdg depth (Some ''tim'') is_open s = Some (Returns (s', task_report T tasks TC n TE 0 @ rest, Map.empty))"
proof -
  obtain w where w: "omp_run new_world (loop_events n last_event) w" using loop_run by blast
  have "InitialTask 0 \<in> set (loop_events n last_event)" by (simp add: loop_events_def)
  moreover have "2 * int (length (loop_events n last_event)) < 2 ^ 32" using assms(3) by (simp add: loop_events_def)
  moreover have "explicit_tasks (loop_events n last_event) = 0" by (auto simp: loop_events_def explicit_tasks_def filter_empty_conv)
  moreover have "dispatched_chunks (loop_events n last_event) = n" by (simp add: loop_events_def dispatched_chunks_def filter_map o_def)
  ultimately show ?thesis using session_report [OF assms(1,2) w, of 0 ps depth is_open] by metis
qed

text \<open>Two threads on three iterations: the first enters late and finishes the first iteration last.\<close>

theorem loop_prints_each_iteration_witness:
  "\<exists>elapsed telapsed ls who. loop_main (Some (decimal 1000 @ [newline])) of_nat 2
      [Enter_region 1, Take_iteration 1, Enter_region 0, Take_iteration 0, Finish_iteration 0, Take_iteration 0,
       Finish_iteration 0, Finish_iteration 1] [''loop'', decimal 3]
    = Some (Returns ([OStr ''Timer: cycles per sec = '', OInt 1000, Endl] @ concat ls @
      [OStr ''exec time (ms): '', ODouble elapsed, Endl, OStr ''one do_work (ms): '', ODouble telapsed, Endl]))
    \<and> (\<forall>i < 3. who i < 2)
    \<and> mset ls = mset (replicate 2 [OStr ''>> just after omp parallel'', Endl]
        @ map (\<lambda>i. [OInt (int i), OStr '', tid = '', OInt (int (who i)), OStr '', res = '', ODouble work_total, Endl]) [0..<3])
    \<and> 5 \<le> work_total \<and> work_total < 16"
proof -
  let ?sched = "[Enter_region 1, Take_iteration 1, Enter_region 0, Take_iteration 0, Finish_iteration 0, Take_iteration 0,
       Finish_iteration 0, Finish_iteration 1]"
  have tm: "init_clock_time (Some (decimal 1000 @ [newline])) of_nat new_timer
      = Some (Returns (new_timer\<lparr>tm_freq := word_of_nat 1000\<rparr>, [OStr ''Timer: cycles per sec = '', OInt 1000, Endl]))"
    using read_decimal [of 1000 of_nat new_timer] by simp
  obtain r where r: "foldM (loop_step 2 3) ?sched fork_region = Some r" "joined 2 3 r"
    by (rule that) (auto simp: fork_region_def joined_def)
  show ?thesis using loop_prints_each_iteration [OF _ r tm, of "''loop''"] by simp
qed

theorem loop_report_witness:
  "\<exists>s s' T tasks TC TE rest. foldM (tool_event 0) (loop_events 10 True) (new_tool sample_clock (\<lambda>_. None)) = Some s
    \<and> finalize_libtdg 0 (Some ''tim'') (\<lambda>_. False) s = Some (Returns (s', task_report T tasks TC 10 TE 0 @ rest, Map.empty))"
  using loop_report [OF sample_init sample_counter_mono, of 10 0 True 0 "\<lambda>_. False"] by simp

end
