(* ===== verification/Matrix_Program.thy ===== *)
theory Matrix_Program
  imports C_Numbers
begin

text \<open>
  \<open>src/mm/omp_mm.c\<close>: a matrix multiplication whose outer loop is shared by the threads of a parallel
  region.  The theory models the arrays with their bounds and uninitialised elements, the loops, and
  the parallel loop as any sequence of executions of its innermost statement in which the
  statements of each row keep their order: rows go to threads in chunks, and threads interleave.

  \<open>malloc\<close> succeeds.  Undefined behaviour (a product or an index that is no \<open>int\<close>, an access outside of an array, a read of
  an element nobody wrote) is \<open>None\<close>.
\<close>

section \<open>Statements that work on cells\<close>

text \<open>
  Statements of which each reads and writes one cell of a store: what a sequence of them does to a
  cell depends on the statements on that cell only, so sequences that agree cell by cell are
  interchangeable.
\<close>

locale cell_statements =
  fixes get :: "'s \<Rightarrow> 'x \<Rightarrow> 'v option"
    and exec :: "'st \<Rightarrow> 's \<Rightarrow> 's option"
    and cell :: "'st \<Rightarrow> 'x"
    and upd :: "'st \<Rightarrow> 'v \<Rightarrow> 'v"
    and legal :: "'st \<Rightarrow> bool"
  assumes exec_cell: "legal st \<Longrightarrow> get s (cell st) = Some v \<Longrightarrow>
      \<exists>s'. exec st s = Some s' \<and> get s' = (get s)(cell st \<mapsto> upd st v)"
begin

lemma run_cells:
  assumes "\<forall>st \<in> set sts. legal st \<and> get s (cell st) \<noteq> None"
  shows "\<exists>s'. foldM exec sts s = Some s'
    \<and> get s' = (\<lambda>x. map_option (fold upd (filter (\<lambda>st. cell st = x) sts)) (get s x))"
  using assms
proof (induction sts arbitrary: s)
  case Nil
  then show ?case by (simp add: option.map_ident)
next
  case (Cons st sts)
  obtain v where v: "get s (cell st) = Some v" using Cons.prems by auto
  obtain s1 where s1: "exec st s = Some s1" "get s1 = (get s)(cell st \<mapsto> upd st v)"
    using exec_cell [OF _ v] Cons.prems by auto
  have "\<forall>st' \<in> set sts. legal st' \<and> get s1 (cell st') \<noteq> None" using Cons.prems s1(2) by simp
  from Cons.IH [OF this] obtain s2 where s2: "foldM exec sts s1 = Some s2"
      "get s2 = (\<lambda>x. map_option (fold upd (filter (\<lambda>st. cell st = x) sts)) (get s1 x))" by blast
  have "get s2 = (\<lambda>x. map_option (fold upd (filter (\<lambda>st. cell st = x) (st # sts))) (get s x))"
    unfolding s2(2) s1(2) using v by (auto simp: fun_eq_iff)
  then show ?case using s1(1) s2(1) by simp
qed

lemma order_independent:
  assumes "\<forall>st \<in> set sts \<union> set sts'. legal st \<and> get s (cell st) \<noteq> None"
    and "\<And>x. filter (\<lambda>st. cell st = x) sts = filter (\<lambda>st. cell st = x) sts'"
  shows "\<exists>s1 s2. foldM exec sts s = Some s1 \<and> foldM exec sts' s = Some s2 \<and> get s1 = get s2"
  using run_cells [of sts s] run_cells [of sts' s] assms by auto

end

section \<open>Arrays\<close>

text \<open>An array of \<open>malloc\<close>: \<open>None\<close> is an element nobody has written.\<close>

type_synonym array = "double option list"

definition elem :: "array \<Rightarrow> nat \<Rightarrow> double option" where
  "elem m x = (if x < length m then m ! x else None)"

definition store :: "nat \<Rightarrow> double \<Rightarrow> array \<Rightarrow> array option" where
  "store x v m = (if x < length m then Some (m[x := Some v]) else None)"

lemma elem_store: "x < length m \<Longrightarrow> \<exists>m'. store x v m = Some m' \<and> elem m' = (elem m)(x \<mapsto> v) \<and> length m' = length m"
  by (auto simp: elem_def store_def fun_eq_iff)

text \<open>\<open>malloc( rows * cols * sizeof(double) )\<close>; nothing is stored in an array of negative size.\<close>

definition new_matrix :: "int \<Rightarrow> int \<Rightarrow> array option" where
  "new_matrix rows cols = (if is_int (rows * cols) then Some (replicate (nat (rows * cols)) None) else None)"

text \<open>\<open>MATV\<close>: the position of an element.\<close>

definition MATV :: "nat \<Rightarrow> nat \<Rightarrow> nat \<Rightarrow> nat option" where
  "MATV i j col = (if is_int (int (i * col + j)) then Some (i * col + j) else None)"

text \<open>Two nested loops that assign a number to every element.\<close>

definition fill_matrix :: "int \<Rightarrow> int \<Rightarrow> (nat \<Rightarrow> nat \<Rightarrow> double) \<Rightarrow> array \<Rightarrow> array option" where
  "fill_matrix rows cols f m =
     foldM (\<lambda>(i, j) m. do { x \<leftarrow> MATV i j (nat cols); store x (f i j) m })
       (List.product [0..<nat rows] [0..<nat cols]) m"

section \<open>The product\<close>

text \<open>\<open>MATV(c,i,j,NCB) += MATV(a,i,k,NCA) * MATV(b,k,j,NCB)\<close>.\<close>

type_synonym triple = "nat \<times> nat \<times> nat"

fun mm_statement :: "array \<Rightarrow> array \<Rightarrow> nat \<Rightarrow> nat \<Rightarrow> triple \<Rightarrow> array \<Rightarrow> array option" where
  "mm_statement a b NCA NCB (i, j, k) c = do {
     x \<leftarrow> MATV i j NCB;
     y \<leftarrow> MATV i k NCA;
     z \<leftarrow> MATV k j NCB;
     s \<leftarrow> elem c x;
     u \<leftarrow> elem a y;
     v \<leftarrow> elem b z;
     store x (fadd s (fmul u v)) c }"

text \<open>The iterations of the loops over \<open>j\<close> and \<open>k\<close> for one row, and the loops over all rows.\<close>

definition row_statements :: "nat \<Rightarrow> nat \<Rightarrow> nat \<Rightarrow> triple list" where
  "row_statements NCA NCB i = map (Pair i) (List.product [0..<NCB] [0..<NCA])"

definition all_statements :: "nat \<Rightarrow> nat \<Rightarrow> nat \<Rightarrow> triple list" where
  "all_statements NRA NCA NCB = concat (map (row_statements NCA NCB) [0..<NRA])"

definition sum_matrix :: "nat \<Rightarrow> nat \<Rightarrow> array \<Rightarrow> double \<Rightarrow> double option" where
  "sum_matrix rows cols m =
     foldM (\<lambda>(i, j) total. do { x \<leftarrow> MATV i j cols; v \<leftarrow> elem m x; Some (fadd total v) })
       (List.product [0..<rows] [0..<cols])"

text \<open>The program, with the order \<open>sched\<close> in which the threads execute the statements of the parallel loop.\<close>

definition mm_main :: "string option \<Rightarrow> (nat \<Rightarrow> uint64) \<Rightarrow> (nat \<Rightarrow> nat \<Rightarrow> nat \<Rightarrow> triple list) \<Rightarrow> string list
    \<Rightarrow> out_text outcome option" where
  "mm_main cpufreq_file tsc sched argv =
     (if length argv < 4 then Some (Exits (- 1))
      else do {
        NRA \<leftarrow> atoi (argv ! 1);
        NCA \<leftarrow> atoi (argv ! 2);
        NCB \<leftarrow> atoi (argv ! 3);
        a0 \<leftarrow> new_matrix NRA NCA;
        b0 \<leftarrow> new_matrix NCA NCB;
        c0 \<leftarrow> new_matrix NRA NCB;
        a \<leftarrow> fill_matrix NRA NCA (\<lambda>i j. real (i + j)) a0;
        b \<leftarrow> fill_matrix NCA NCB (\<lambda>i j. real (i * j)) b0;
        c \<leftarrow> fill_matrix NRA NCB (\<lambda>i j. 0) c0;
        let run = mm_statement a b (nat NCA) (nat NCB);
        c1 \<leftarrow> foldM run (all_statements (nat NRA) (nat NCA) (nat NCB)) c;
        total1 \<leftarrow> sum_matrix (nat NRA) (nat NCB) c1 0;
        ftimer_init \<leftarrow> init_clock_time cpufreq_file tsc new_timer;
        (case ftimer_init of
           Exits code \<Rightarrow> Some (Exits code)
         | Returns (tm, timer_out) \<Rightarrow> do {
             (start, tm1) \<leftarrow> get_clock_time tsc tm;
             c2 \<leftarrow> foldM run (sched (nat NRA) (nat NCA) (nat NCB)) c1;
             (stop, tm2) \<leftarrow> get_clock_time tsc tm1;
             total2 \<leftarrow> sum_matrix (nat NRA) (nat NCB) c2 total1;
             Some (Returns (timer_out @
               [OStr ''exec time (ms): '', ODouble (fsub stop start), Endl,
                OStr ''..: '', ODouble total2, Endl])) }) })"

section \<open>Filling and adding up\<close>

lemma index_bound: "i < n \<Longrightarrow> j < col \<Longrightarrow> i * col + j < n * (col :: nat)"
proof -
  assume "i < n" "j < col"
  then have "Suc i * col \<le> n * col" by (intro mult_le_mono1) simp
  then show ?thesis using \<open>j < col\<close> by simp
qed

lemma MATV_ok: "i < n \<Longrightarrow> j < col \<Longrightarrow> n * col < 2 ^ 31 \<Longrightarrow> MATV i j col = Some (i * col + j)"
  using index_bound [of i n j col] is_int_nat [of "i * col + j"] by (simp add: MATV_def del: of_nat_add of_nat_mult)

lemma fill_run:
  assumes "\<forall>(i, j) \<in> set ps. i < n \<and> j < col" and "n * col < 2 ^ 31" and "length m = n * col"
  shows "\<exists>m'. foldM (\<lambda>(i, j) m. do { x \<leftarrow> MATV i j col; store x (f i j) m }) ps m = Some m' \<and> length m' = n * col
    \<and> (\<forall>x < n * col. elem m' x = (if (x div col, x mod col) \<in> set ps then Some (f (x div col) (x mod col)) else elem m x))"
  using assms
proof (induction ps arbitrary: m)
  case (Cons p ps)
  obtain i j where p: "p = (i, j)" by (cases p)
  then have ij: "i < n" "j < col" using Cons.prems(1) by auto
  note x = index_bound [OF ij]
  obtain m1 where m1: "store (i * col + j) (f i j) m = Some m1" "elem m1 = (elem m)(i * col + j \<mapsto> f i j)" "length m1 = n * col"
    using elem_store [of "i * col + j" m] x Cons.prems(3) by auto
  obtain m2 where m2: "foldM (\<lambda>(i, j) m. do { x \<leftarrow> MATV i j col; store x (f i j) m }) ps m1 = Some m2" "length m2 = n * col"
      "\<forall>x < n * col. elem m2 x = (if (x div col, x mod col) \<in> set ps then Some (f (x div col) (x mod col)) else elem m1 x)"
    using Cons.IH [OF _ assms(2) m1(3)] Cons.prems(1) by auto
  have "x = i * col + j" if "x div col = i" "x mod col = j" for x using that div_mult_mod_eq [of x col] by simp
  then have "\<forall>x < n * col. elem m2 x = (if (x div col, x mod col) \<in> set (p # ps) then Some (f (x div col) (x mod col)) else elem m x)"
    using m2(3) m1(2) ij(2) by (auto simp: p)
  then show ?case using m1(1) m2(1,2) MATV_ok [OF ij assms(2)] by (simp add: p)
qed simp

lemma fill_matrix_ok:
  assumes "n * col < 2 ^ 31"
  shows "\<exists>m0 m. new_matrix (int n) (int col) = Some m0 \<and> fill_matrix (int n) (int col) f m0 = Some m \<and> length m = n * col
    \<and> (\<forall>i j. i < n \<longrightarrow> j < col \<longrightarrow> elem m (i * col + j) = Some (f i j))"
proof -
  have "is_int (int (n * col))" by (rule is_int_nat [OF assms])
  then have m0: "new_matrix (int n) (int col) = Some (replicate (n * col) None)"
    by (simp add: new_matrix_def nat_mult_distrib)
  obtain m where m: "fill_matrix (int n) (int col) f (replicate (n * col) None) = Some m" "length m = n * col"
      "\<forall>x < n * col. elem m x = (if (x div col, x mod col) \<in> set (List.product [0..<n] [0..<col])
         then Some (f (x div col) (x mod col)) else elem (replicate (n * col) None) x)"
    using fill_run [of "List.product [0..<n] [0..<col]" n col "replicate (n * col) None" f] assms
    by (auto simp: fill_matrix_def)
  have "elem m (i * col + j) = Some (f i j)" if ij: "i < n" "j < col" for i j
    using m(3) index_bound [OF ij] ij by simp
  then show ?thesis using m0 m(1,2) by auto
qed

text \<open>Sums of natural numbers below \<open>2 ^ 53\<close> are exact.\<close>

lemma fadd_nat: "m + n < 2 ^ 53 \<Longrightarrow> fadd (real m) (real n) = real (m + n)"
  using rnd_of_nat [of "m + n"] by (simp add: fadd_def)

lemma fmul_nat: "m * n < 2 ^ 53 \<Longrightarrow> fmul (real m) (real n) = real (m * n)"
  using rnd_of_nat [of "m * n"] by (simp add: fmul_def)

lemma sum_run:
  assumes "\<forall>(i, j) \<in> set ps. i < n \<and> j < col \<and> elem m (i * col + j) = Some (real (g i j))" and "n * col < 2 ^ 31"
    and "t + (\<Sum>(i, j) \<leftarrow> ps. g i j) < 2 ^ 53"
  shows "foldM (\<lambda>(i, j) total. do { x \<leftarrow> MATV i j col; v \<leftarrow> elem m x; Some (fadd total v) }) ps (real t)
    = Some (real (t + (\<Sum>(i, j) \<leftarrow> ps. g i j)))"
  using assms
proof (induction ps arbitrary: t)
  case (Cons p ps)
  obtain i j where p: "p = (i, j)" by (cases p)
  then have ij: "i < n" "j < col" "elem m (i * col + j) = Some (real (g i j))" using Cons.prems(1) by auto
  have "fadd (real t) (real (g i j)) = real (t + g i j)" using Cons.prems(3) p by (intro fadd_nat) simp
  then show ?case using Cons.IH [of "t + g i j"] Cons.prems MATV_ok [OF ij(1,2) assms(2)] ij(3) by (simp add: p add.assoc)
qed simp

lemma sum_matrix_ok:
  assumes "\<forall>i j. i < n \<longrightarrow> j < col \<longrightarrow> elem m (i * col + j) = Some (real (g i j))" and "n * col < 2 ^ 31"
    and "t + (\<Sum>(i, j) \<leftarrow> List.product [0..<n] [0..<col]. g i j) < 2 ^ 53"
  shows "sum_matrix n col m (real t) = Some (real (t + (\<Sum>(i, j) \<leftarrow> List.product [0..<n] [0..<col]. g i j)))"
  unfolding sum_matrix_def using assms by (intro sum_run) auto


section \<open>The parallel loop\<close>

definition mm_upd :: "array \<Rightarrow> array \<Rightarrow> nat \<Rightarrow> nat \<Rightarrow> triple \<Rightarrow> double \<Rightarrow> double" where
  "mm_upd a b NCA NCB = (\<lambda>(i, j, k) s. fadd s (fmul (the (elem a (i * NCA + k))) (the (elem b (k * NCB + j)))))"

definition mm_cell :: "nat \<Rightarrow> triple \<Rightarrow> nat" where
  "mm_cell NCB = (\<lambda>(i, j, k). i * NCB + j)"

definition mm_legal :: "array \<Rightarrow> array \<Rightarrow> nat \<Rightarrow> nat \<Rightarrow> triple \<Rightarrow> bool" where
  "mm_legal a b NCA NCB = (\<lambda>(i, j, k). MATV i j NCB \<noteq> None \<and> MATV i k NCA \<noteq> None \<and> MATV k j NCB \<noteq> None
     \<and> elem a (i * NCA + k) \<noteq> None \<and> elem b (k * NCB + j) \<noteq> None)"

interpretation mm: cell_statements elem "mm_statement a b NCA NCB" "mm_cell NCB" "mm_upd a b NCA NCB" "mm_legal a b NCA NCB"
  for a b NCA NCB
proof
  fix st c v
  assume legal: "mm_legal a b NCA NCB st" and v: "elem c (mm_cell NCB st) = Some v"
  obtain i j k where st: "st = (i, j, k)" by (cases st)
  have "mm_cell NCB st < length c" using v by (simp add: elem_def split: if_splits)
  from elem_store [OF this, of "mm_upd a b NCA NCB st v"] show "\<exists>c'. mm_statement a b NCA NCB st c = Some c'
      \<and> elem c' = (elem c)(mm_cell NCB st \<mapsto> mm_upd a b NCA NCB st v)"
    using legal v by (auto simp: st mm_legal_def mm_cell_def mm_upd_def MATV_def split: if_splits)
qed

text \<open>Every thread executes the rows of its chunks; the statements of a row keep their order.\<close>

definition rows_in_order :: "nat \<Rightarrow> nat \<Rightarrow> nat \<Rightarrow> triple list \<Rightarrow> bool" where
  "rows_in_order NRA NCA NCB sched \<longleftrightarrow>
     (\<forall>i. filter (\<lambda>st. fst st = i) sched = (if i < NRA then row_statements NCA NCB i else []))"

lemma rows_in_order_all: "rows_in_order NRA NCA NCB (all_statements NRA NCA NCB)"
proof -
  have row: "filter (\<lambda>st. fst st = i) (row_statements NCA NCB i') = (if i' = i then row_statements NCA NCB i else [])" for i i'
    by (auto simp: row_statements_def filter_map o_def filter_False filter_True)
  have "filter (\<lambda>st. fst st = i) (concat (map (row_statements NCA NCB) [0..<n])) = (if i < n then row_statements NCA NCB i else [])" for i n
    by (induction n) (auto simp: row)
  then show ?thesis by (simp add: rows_in_order_def all_statements_def)
qed

lemma rows_in_order_set:
  assumes "rows_in_order NRA NCA NCB sched"
  shows "set sched = {(i, j, k). i < NRA \<and> j < NCB \<and> k < NCA}"
proof -
  have "(i, j, k) \<in> set sched \<longleftrightarrow> i < NRA \<and> j < NCB \<and> k < NCA" for i j k
  proof -
    have "(i, j, k) \<in> set sched \<longleftrightarrow> (i, j, k) \<in> set (filter (\<lambda>st. fst st = i) sched)" by simp
    also have "filter (\<lambda>st. fst st = i) sched = (if i < NRA then row_statements NCA NCB i else [])"
      using assms by (simp add: rows_in_order_def)
    finally show ?thesis by (auto simp: row_statements_def)
  qed
  then show ?thesis by auto
qed

text \<open>The statements on one element, in the order of \<open>k\<close>.\<close>

lemma filter_product_key:
  "distinct xs \<Longrightarrow> filter (\<lambda>(j', k). j' = j) (List.product xs ys) = (if j \<in> set xs then map (Pair j) ys else [])"
proof (induction xs)
  case (Cons x xs)
  then show ?case by (cases "x = j") (auto simp: filter_map o_def filter_False filter_True)
qed simp

lemma statements_on_cell:
  assumes "rows_in_order NRA NCA NCB sched" and "i < NRA" and "j < NCB"
  shows "filter (\<lambda>st. mm_cell NCB st = i * NCB + j) sched = map (\<lambda>k. (i, j, k)) [0..<NCA]"
proof -
  have "mm_cell NCB st = i * NCB + j \<longleftrightarrow> fst st = i \<and> fst (snd st) = j" if "st \<in> set sched" for st
  proof -
    obtain i' j' k where st: "st = (i', j', k)" by (cases st)
    have "j' < NCB" using that rows_in_order_set [OF assms(1)] by (simp add: st)
    then have "(i' * NCB + j') div NCB = i'" "(i' * NCB + j') mod NCB = j'" "(i * NCB + j) div NCB = i" "(i * NCB + j) mod NCB = j"
      using assms(3) by simp_all
    then show ?thesis by (auto simp: st mm_cell_def)
  qed
  then have "filter (\<lambda>st. mm_cell NCB st = i * NCB + j) sched = filter (\<lambda>st. fst (snd st) = j) (filter (\<lambda>st. fst st = i) sched)"
    by (auto intro: filter_cong)
  also have "\<dots> = filter (\<lambda>st. fst (snd st) = j) (row_statements NCA NCB i)"
    using assms(1,2) by (simp add: rows_in_order_def)
  also have "\<dots> = map (Pair i) (filter (\<lambda>(j', k). j' = j) (List.product [0..<NCB] [0..<NCA]))"
    by (simp add: row_statements_def filter_map o_def case_prod_unfold)
  finally show ?thesis using assms(3) by (simp add: filter_product_key)
qed


text \<open>The exact product of the two matrices.\<close>

definition dot :: "nat \<Rightarrow> nat \<Rightarrow> nat \<Rightarrow> nat" where
  "dot NCA i j = (\<Sum>k < NCA. (i + k) * (k * j))"

definition product_sum :: "nat \<Rightarrow> nat \<Rightarrow> nat \<Rightarrow> nat" where
  "product_sum NRA NCA NCB = (\<Sum>(i, j) \<leftarrow> List.product [0..<NRA] [0..<NCB]. dot NCA i j)"

lemma dot_exact:
  assumes "v + dot n i j < 2 ^ 53"
  shows "fold (\<lambda>k s. fadd s (fmul (real (i + k)) (real (k * j)))) [0..<n] (real v) = real (v + dot n i j)"
  using assms
proof (induction n)
  case (Suc n)
  then have b: "v + dot n i j + (i + n) * (n * j) < 2 ^ 53" by (simp add: dot_def)
  then have "fmul (real (i + n)) (real (n * j)) = real ((i + n) * (n * j))" by (intro fmul_nat) simp
  moreover have "fadd (real (v + dot n i j)) (real ((i + n) * (n * j))) = real (v + dot n i j + (i + n) * (n * j))"
    by (rule fadd_nat [OF b])
  ultimately show ?case using Suc.IH b by (simp add: dot_def add.assoc)
qed (simp add: dot_def)

text \<open>The arrays the program multiplies.\<close>

definition factors :: "nat \<Rightarrow> nat \<Rightarrow> nat \<Rightarrow> array \<Rightarrow> array \<Rightarrow> bool" where
  "factors NRA NCA NCB a b \<longleftrightarrow> (\<forall>i j. i < NRA \<longrightarrow> j < NCA \<longrightarrow> elem a (i * NCA + j) = Some (real (i + j)))
     \<and> (\<forall>i j. i < NCA \<longrightarrow> j < NCB \<longrightarrow> elem b (i * NCB + j) = Some (real (i * j)))"

definition holds :: "nat \<Rightarrow> nat \<Rightarrow> (nat \<Rightarrow> nat \<Rightarrow> nat) \<Rightarrow> array \<Rightarrow> bool" where
  "holds NRA NCB g c \<longleftrightarrow> (\<forall>i j. i < NRA \<longrightarrow> j < NCB \<longrightarrow> elem c (i * NCB + j) = Some (real (g i j)))"

lemma multiply_rows:
  assumes ab: "factors NRA NCA NCB a b" and c: "holds NRA NCB g c" and sched: "rows_in_order NRA NCA NCB sched"
    and small: "NRA * NCA < 2 ^ 31" "NCA * NCB < 2 ^ 31" "NRA * NCB < 2 ^ 31"
    and exact: "\<And>i j. i < NRA \<Longrightarrow> j < NCB \<Longrightarrow> g i j + dot NCA i j < 2 ^ 53"
  shows "\<exists>c'. foldM (mm_statement a b NCA NCB) sched c = Some c' \<and> holds NRA NCB (\<lambda>i j. g i j + dot NCA i j) c'"
proof -
  have "mm_legal a b NCA NCB st \<and> elem c (mm_cell NCB st) \<noteq> None" if mem: "st \<in> set sched" for st
  proof -
    obtain i j k where st: "st = (i, j, k)" "i < NRA" "j < NCB" "k < NCA"
      using mem unfolding rows_in_order_set [OF sched] by blast
    have "MATV i j NCB = Some (i * NCB + j)" "MATV i k NCA = Some (i * NCA + k)" "MATV k j NCB = Some (k * NCB + j)"
      by (rule MATV_ok [OF st(2,3) small(3)], rule MATV_ok [OF st(2,4) small(1)], rule MATV_ok [OF st(4,3) small(2)])
    then show ?thesis
      using ab c st by (simp add: mm_legal_def mm_cell_def factors_def holds_def)
  qed
  then obtain c' where c': "foldM (mm_statement a b NCA NCB) sched c = Some c'"
      "elem c' = (\<lambda>x. map_option (fold (mm_upd a b NCA NCB) (filter (\<lambda>st. mm_cell NCB st = x) sched)) (elem c x))"
    using mm.run_cells by blast
  have "elem c' (i * NCB + j) = Some (real (g i j + dot NCA i j))" if ij: "i < NRA" "j < NCB" for i j
  proof -
    have "fold (mm_upd a b NCA NCB) (map (\<lambda>k. (i, j, k)) [0..<NCA]) v
        = fold (\<lambda>k s. fadd s (fmul (real (i + k)) (real (k * j)))) [0..<NCA] v" for v
      unfolding fold_map using ab ij by (intro fold_cong refl) (auto simp: mm_upd_def factors_def o_def)
    then show ?thesis
      using c ij dot_exact [OF exact [OF ij]]
      unfolding c'(2) statements_on_cell [OF sched ij] by (simp add: holds_def)
  qed
  then show ?thesis using c'(1) by (auto simp: holds_def)
qed


lemma dot_le:
  assumes "i < NRA" and "j < NCB" shows "dot NCA i j \<le> product_sum NRA NCA NCB"
proof -
  have "(i, j) \<in> set (List.product [0..<NRA] [0..<NCB])" using assms by simp
  then have "dot NCA i j \<in> set (map (\<lambda>(i, j). dot NCA i j) (List.product [0..<NRA] [0..<NCB]))"
    unfolding set_map by (rule image_eqI [rotated]) simp
  then show ?thesis unfolding product_sum_def by (rule member_le_sum_list) simp
qed

text \<open>The warm-up pass and the parallel pass, with the sums taken after each.\<close>

lemma two_passes:
  assumes ab: "factors NRA NCA NCB a b" and c: "holds NRA NCB (\<lambda>i j. 0) c" and sched: "rows_in_order NRA NCA NCB sched"
    and small: "NRA * NCA < 2 ^ 31" "NCA * NCB < 2 ^ 31" "NRA * NCB < 2 ^ 31"
    and exact: "3 * product_sum NRA NCA NCB < 2 ^ 53"
  shows "\<exists>c1 c2. foldM (mm_statement a b NCA NCB) (all_statements NRA NCA NCB) c = Some c1
    \<and> sum_matrix NRA NCB c1 0 = Some (real (product_sum NRA NCA NCB))
    \<and> foldM (mm_statement a b NCA NCB) sched c1 = Some c2
    \<and> sum_matrix NRA NCB c2 (real (product_sum NRA NCA NCB)) = Some (real (3 * product_sum NRA NCA NCB))"
proof -
  have bound: "0 + dot NCA i j < 2 ^ 53" "0 + dot NCA i j + dot NCA i j < 2 ^ 53" if "i < NRA" "j < NCB" for i j
    using dot_le [OF that, of NCA] exact by linarith+
  obtain c1 where c1: "foldM (mm_statement a b NCA NCB) (all_statements NRA NCA NCB) c = Some c1"
      "holds NRA NCB (\<lambda>i j. 0 + dot NCA i j) c1"
    using multiply_rows [OF ab c rows_in_order_all small bound(1)] by blast
  obtain c2 where c2: "foldM (mm_statement a b NCA NCB) sched c1 = Some c2"
      "holds NRA NCB (\<lambda>i j. 0 + dot NCA i j + dot NCA i j) c2"
    using multiply_rows [OF ab c1(2) sched small bound(2)] by blast
  have "sum_matrix NRA NCB c1 0 = Some (real (product_sum NRA NCA NCB))"
    using sum_matrix_ok [of NRA NCB c1 "\<lambda>i j. 0 + dot NCA i j" 0] c1(2) small(3) exact by (simp add: holds_def product_sum_def)
  moreover have "(\<Sum>(i, j) \<leftarrow> ps. 0 + dot NCA i j + dot NCA i j) = 2 * (\<Sum>(i, j) \<leftarrow> ps. dot NCA i j)" for ps
    by (induction ps) auto
  then have "sum_matrix NRA NCB c2 (real (product_sum NRA NCA NCB)) = Some (real (3 * product_sum NRA NCA NCB))"
    using sum_matrix_ok [of NRA NCB c2 "\<lambda>i j. 0 + dot NCA i j + dot NCA i j" "product_sum NRA NCA NCB"] c2(2) small(3) exact
    by (simp add: holds_def product_sum_def)
  ultimately show ?thesis using c1(1) c2(1) by blast
qed

section \<open>Properties\<close>

text \<open>
  C24. The matrix program computes the product whatever the threads do: for every sequence in which
  the threads may execute the statements of the parallel loop, with the statements of each row in
  order, nothing is undefined, and the checksum it prints is three times the sum of all elements of
  the product (once after the warm-up pass, and twice after the parallel pass has added the product
  again), exactly, as long as that number is below \<open>2 ^ 53\<close> and the sizes of the arrays are of type \<open>int\<close>.
\<close>

theorem mm_prints_product:
  assumes "NRA < 2 ^ 31" and "NCA < 2 ^ 31" and "NCB < 2 ^ 31"
    and "NRA * NCA < 2 ^ 31" and "NCA * NCB < 2 ^ 31" and "NRA * NCB < 2 ^ 31"
    and "3 * product_sum NRA NCA NCB < 2 ^ 53"
    and "rows_in_order NRA NCA NCB (sched NRA NCA NCB)"
    and "init_clock_time cpufreq tsc new_timer = Some (Returns (tm, timer_out))" and "tm_freq tm \<noteq> 0"
  shows "\<exists>elapsed. mm_main cpufreq tsc sched [prog, decimal NRA, decimal NCA, decimal NCB] = Some (Returns (timer_out @
    [OStr ''exec time (ms): '', ODouble elapsed, Endl, OStr ''..: '', ODouble (real (3 * product_sum NRA NCA NCB)), Endl]))"
proof -
  obtain a0 a where a: "new_matrix (int NRA) (int NCA) = Some a0" "fill_matrix (int NRA) (int NCA) (\<lambda>i j. real (i + j)) a0 = Some a"
      "\<forall>i j. i < NRA \<longrightarrow> j < NCA \<longrightarrow> elem a (i * NCA + j) = Some (real (i + j))"
    using fill_matrix_ok [OF assms(4), of "\<lambda>i j. real (i + j)"] by blast
  obtain b0 b where b: "new_matrix (int NCA) (int NCB) = Some b0" "fill_matrix (int NCA) (int NCB) (\<lambda>i j. real (i * j)) b0 = Some b"
      "\<forall>i j. i < NCA \<longrightarrow> j < NCB \<longrightarrow> elem b (i * NCB + j) = Some (real (i * j))"
    using fill_matrix_ok [OF assms(5), of "\<lambda>i j. real (i * j)"] by blast
  obtain c0 c where c: "new_matrix (int NRA) (int NCB) = Some c0" "fill_matrix (int NRA) (int NCB) (\<lambda>i j. 0) c0 = Some c"
      "holds NRA NCB (\<lambda>i j. 0) c"
    using fill_matrix_ok [OF assms(6), of "\<lambda>i j. 0"] by (auto simp: holds_def)
  have ab: "factors NRA NCA NCB a b" using a(3) b(3) by (simp add: factors_def)
  obtain c1 c2 where "foldM (mm_statement a b NCA NCB) (all_statements NRA NCA NCB) c = Some c1"
      "sum_matrix NRA NCB c1 0 = Some (real (product_sum NRA NCA NCB))"
      "foldM (mm_statement a b NCA NCB) (sched NRA NCA NCB) c1 = Some c2"
      "sum_matrix NRA NCB c2 (real (product_sum NRA NCA NCB)) = Some (real (3 * product_sum NRA NCA NCB))"
    using two_passes [OF ab c(3) assms(8,4-7)] by blast
  moreover obtain start tm1 stop tm2 where "get_clock_time tsc tm = Some (start, tm1)" "get_clock_time tsc tm1 = Some (stop, tm2)"
    using assms(10) by (auto simp: get_clock_time_eq)
  ultimately show ?thesis
    using a(1,2) b(1,2) c(1,2) assms(9) atoi_decimal assms(1-3) by (simp add: mm_main_def Let_def)
qed


text \<open>Two threads that take turns on a product of matrices with two rows.\<close>

definition alternating :: "nat \<Rightarrow> nat \<Rightarrow> nat \<Rightarrow> triple list" where
  "alternating NRA NCA NCB = concat (map (\<lambda>(j, k). map (\<lambda>i. (i, j, k)) [0..<NRA]) (List.product [0..<NCB] [0..<NCA]))"

theorem mm_prints_product_witness:
  "\<exists>elapsed. mm_main (Some (decimal 1000 @ [newline])) of_nat alternating [''omp_mm'', decimal 2, decimal 3, decimal 2] = Some (Returns (
    [OStr ''Timer: cycles per sec = '', OInt 1000, Endl] @
    [OStr ''exec time (ms): '', ODouble elapsed, Endl, OStr ''..: '', ODouble (real (3 * product_sum 2 3 2)), Endl]))
   \<and> product_sum 2 3 2 = 13"
proof -
  have sum: "product_sum 2 3 2 = 13" by (simp add: product_sum_def dot_def numeral_eq_Suc)
  have "filter (\<lambda>st. fst st = i) (alternating 2 3 2) = (if i < 2 then row_statements 3 2 i else [])" for i
    by (simp add: alternating_def row_statements_def upt_rec less_2_cases_iff)
  then have ord: "rows_in_order 2 3 2 (alternating 2 3 2)" by (simp add: rows_in_order_def)
  have tm: "init_clock_time (Some (decimal 1000 @ [newline])) of_nat new_timer
      = Some (Returns (new_timer\<lparr>tm_freq := word_of_nat 1000\<rparr>, [OStr ''Timer: cycles per sec = '', OInt 1000, Endl]))"
    using read_decimal [of 1000 of_nat new_timer] by simp
  have "tm_freq (new_timer\<lparr>tm_freq := word_of_nat 1000\<rparr>) \<noteq> 0" by simp
  from mm_prints_product [where sched = alternating, OF _ _ _ _ _ _ _ ord tm this] sum show ?thesis by simp
qed

end
