(* ===== verification/Adjacency.thy ===== *)
theory Adjacency
  imports Topo_Sort
begin

text \<open>
  \<open>Node::AdjacencyIterator\<close> of \<open>src/graph.h\<close>, through which the traversals of the graph and the metrics
  reach the neighbours of a node.  The other theories let a traversal run over the vector of edges
  itself; here the loops over iterators are shown to do the same, as long as the body leaves the
  vector alone, and the search of \<open>topoSort\<close> is stated with them.
\<close>

section \<open>The iterator\<close>

text \<open>A \<open>const_iterator\<close> is a vector, given by its node and side, and a position in it.\<close>

record AdjacencyIterator =
  it_node :: addr
  it_entry_iter :: bool
  it_pos :: nat

definition edge_vector :: "heap \<Rightarrow> addr \<Rightarrow> bool \<Rightarrow> Edge list option" where
  "edge_vector h a entry_iter = map_option (if entry_iter then n_entryEdges else n_exitEdges) (h a)"

definition beginAdjIter :: "heap \<Rightarrow> addr \<Rightarrow> bool \<Rightarrow> AdjacencyIterator option" where
  "beginAdjIter h node entry_iter = do {
     _ \<leftarrow> edge_vector h node entry_iter;
     Some \<lparr>it_node = node, it_entry_iter = entry_iter, it_pos = 0\<rparr> }"

definition endAdjIter :: "heap \<Rightarrow> addr \<Rightarrow> bool \<Rightarrow> AdjacencyIterator option" where
  "endAdjIter h node entry_iter = do {
     es \<leftarrow> edge_vector h node entry_iter;
     Some \<lparr>it_node = node, it_entry_iter = entry_iter, it_pos = length es\<rparr> }"

text \<open>\<open>operator*\<close> and \<open>operator++\<close>, which must not be used at the end of the vector.\<close>

definition adj_deref :: "heap \<Rightarrow> AdjacencyIterator \<Rightarrow> addr option" where
  "adj_deref h it = do {
     es \<leftarrow> edge_vector h (it_node it) (it_entry_iter it);
     (if it_pos it < length es
      then Some (if it_entry_iter it then getSource (es ! it_pos it) else getTarget (es ! it_pos it))
      else None) }"

definition adj_next :: "heap \<Rightarrow> AdjacencyIterator \<Rightarrow> AdjacencyIterator option" where
  "adj_next h it = do {
     es \<leftarrow> edge_vector h (it_node it) (it_entry_iter it);
     (if it_pos it < length es then Some (it\<lparr>it_pos := Suc (it_pos it)\<rparr>) else None) }"

text \<open>\<open>operator!=\<close> on two iterators of the same vector.\<close>

definition adj_neq :: "AdjacencyIterator \<Rightarrow> AdjacencyIterator \<Rightarrow> bool" where
  "adj_neq it other \<longleftrightarrow> it_pos it \<noteq> it_pos other"

text \<open>\<open>for( ; iter != end_iter; ++iter )\<close> with a body that uses \<open>*iter\<close> and may change the graph; \<open>hp\<close> is the heap
  of the state.\<close>

partial_function (option) adj_for :: "('s \<Rightarrow> heap) \<Rightarrow> (addr \<Rightarrow> 's \<Rightarrow> 's option) \<Rightarrow> AdjacencyIterator
    \<Rightarrow> AdjacencyIterator \<Rightarrow> 's \<Rightarrow> 's option" where
  "adj_for hp body it fin s =
     (if adj_neq it fin then do {
        v \<leftarrow> adj_deref (hp s) it;
        s' \<leftarrow> body v s;
        it' \<leftarrow> adj_next (hp s') it;
        adj_for hp body it' fin s' }
      else Some s)"

section \<open>Loops over iterators\<close>

text \<open>The nodes an iterator passes.\<close>

definition adjacent :: "bool \<Rightarrow> Edge list \<Rightarrow> addr list" where
  "adjacent entry_iter es = map (if entry_iter then getSource else getTarget) es"

lemma adj_for_from:
  assumes "edge_vector (hp s) a e = Some es" and "pos \<le> length es"
    and "\<And>v s s'. body v s = Some s' \<Longrightarrow> edge_vector (hp s') a e = edge_vector (hp s) a e"
  shows "adj_for hp body \<lparr>it_node = a, it_entry_iter = e, it_pos = pos\<rparr> \<lparr>it_node = a, it_entry_iter = e, it_pos = length es\<rparr> s
    = foldM body (adjacent e (drop pos es)) s"
  using assms(1,2)
proof (induction "length es - pos" arbitrary: pos s)
  case 0
  then show ?case by (subst adj_for.simps) (simp add: adj_neq_def adjacent_def)
next
  case (Suc n)
  then have pos: "pos < length es" by simp
  have v: "adj_deref (hp s) \<lparr>it_node = a, it_entry_iter = e, it_pos = pos\<rparr> = Some ((if e then getSource else getTarget) (es ! pos))"
    using Suc.prems pos by (simp add: adj_deref_def)
  have "adj_next (hp s') \<lparr>it_node = a, it_entry_iter = e, it_pos = pos\<rparr> = Some \<lparr>it_node = a, it_entry_iter = e, it_pos = Suc pos\<rparr>
      \<and> adj_for hp body \<lparr>it_node = a, it_entry_iter = e, it_pos = Suc pos\<rparr> \<lparr>it_node = a, it_entry_iter = e, it_pos = length es\<rparr> s'
        = foldM body (adjacent e (drop (Suc pos) es)) s'"
    if "body ((if e then getSource else getTarget) (es ! pos)) s = Some s'" for s'
    using assms(3) [OF that] Suc.prems Suc.hyps pos by (simp add: adj_next_def)
  then show ?case
    using v pos by (subst adj_for.simps) (auto simp: adj_neq_def adjacent_def Cons_nth_drop_Suc [symmetric] split: bind_splits)
qed

text \<open>A loop from \<open>beginAdjIter\<close> to \<open>endAdjIter\<close> runs its body for every neighbour, in the order of the edges.\<close>

lemma adj_loop:
  assumes "edge_vector (hp s) a e = Some es"
    and "\<And>v s s'. body v s = Some s' \<Longrightarrow> edge_vector (hp s') a e = edge_vector (hp s) a e"
  shows "do { it \<leftarrow> beginAdjIter (hp s) a e; fin \<leftarrow> endAdjIter (hp s) a e; adj_for hp body it fin s }
    = foldM body (adjacent e es) s"
  using adj_for_from [where pos = 0 and hp = hp and body = body, OF assms(1) le0 assms(2)] assms(1) by (simp add: beginAdjIter_def endAdjIter_def)

section \<open>The depth-first search\<close>

text \<open>The body of the loop of \<open>visitNode\<close>.\<close>

definition visit_body :: "nat \<Rightarrow> addr \<Rightarrow> heap \<times> addr list \<Rightarrow> (heap \<times> addr list) option" where
  "visit_body k adj_node st = do {
     n \<leftarrow> fst st adj_node;
     (if \<not> n_visited n then visitNode k adj_node st else Some st) }"

lemma visitAdj_foldM: "visitAdj k es st = foldM (visit_body k) (map getTarget es) st"
proof (induction es arbitrary: st)
  case (Cons e es)
  then show ?case by (cases st) (auto simp: visit_body_def split: bind_splits)
qed simp

lemma search_keeps_edges:
  "visitNode k v st = Some st' \<Longrightarrow> edge_vector (fst st') a e = edge_vector (fst st) a e"
  "visitAdj k es st = Some st' \<Longrightarrow> edge_vector (fst st') a e = edge_vector (fst st) a e"
proof (induction k v st and k es st arbitrary: st' and st' rule: visitNode_visitAdj.induct)
  case (2 k v h l)
  obtain n h1 l1 where n: "h v = Some n" "visitAdj k (n_exitEdges n) (h(v \<mapsto> n\<lparr>n_visited := True\<rparr>), l) = Some (h1, l1)"
      "fst st' = h1" using "2.prems" by (auto simp: opt_simps)
  then show ?case using "2.IH" [OF n(1,2)] by (auto simp: edge_vector_def)
next
  case (4 k e' es h l)
  obtain n where n: "h (getTarget e') = Some n" using "4.prems" by (auto simp: opt_simps)
  show ?case
  proof (cases "n_visited n")
    case True
    then show ?thesis using "4.IH"(3) [OF n] "4.prems" n by simp
  next
    case False
    then obtain st1 where "visitNode k (getTarget e') (h, l) = Some st1" "visitAdj k es st1 = Some st'"
      using "4.prems" n by (auto simp: opt_simps)
    then show ?thesis using "4.IH"(1,2) [OF n] False by simp
  qed
qed simp_all

lemma visit_body_keeps_edges: "visit_body k v st = Some st' \<Longrightarrow> edge_vector (fst st') a e = edge_vector (fst st) a e"
  using search_keeps_edges(1) [of k v st st'] by (auto simp: visit_body_def opt_simps split: if_splits)

text \<open>
  C10. The search as the source writes it: \<open>visitNode\<close> with a loop over adjacency iterators is the recursion
  over the vector of edges that \<open>Topo_Sort\<close> reasons about.
\<close>

theorem visitNode_iterates:
  "visitNode (Suc k) curr_node (h, topo_list) = do {
     n \<leftarrow> h curr_node;
     let h1 = h(curr_node \<mapsto> n\<lparr>n_visited := True\<rparr>);
     adj_iter \<leftarrow> beginAdjIter h1 curr_node False;
     adj_end_iter \<leftarrow> endAdjIter h1 curr_node False;
     (h', l') \<leftarrow> adj_for fst (visit_body k) adj_iter adj_end_iter (h1, topo_list);
     Some (h', curr_node # l') }"
proof (cases "h curr_node")
  case (Some n)
  let ?st = "(h(curr_node \<mapsto> n\<lparr>n_visited := True\<rparr>), topo_list)"
  have "edge_vector (fst ?st) curr_node False = Some (n_exitEdges n)" by (simp add: edge_vector_def)
  from adj_loop [where hp = fst and body = "visit_body k", OF this visit_body_keeps_edges]
  have "do { it \<leftarrow> beginAdjIter (fst ?st) curr_node False; fin \<leftarrow> endAdjIter (fst ?st) curr_node False;
      adj_for fst (visit_body k) it fin ?st } = visitAdj k (n_exitEdges n) ?st"
    by (simp add: visitAdj_foldM adjacent_def)
  then show ?thesis using Some by (simp add: beginAdjIter_def endAdjIter_def edge_vector_def)
qed simp

end
