(* ===== verification/Team_Barrier.thy ===== *)
theory Team_Barrier
  imports Callback_Graph
begin

text \<open>
  What a barrier is for: when every thread of a team has arrived, whatever the order, the graph has
  one barrier node between everything the threads did before it and everything they do after it, and
  the count of the region is ready for the next barrier.  The theory composes the arrivals of single
  threads of \<open>Callback_Graph\<close>.
\<close>

section \<open>Threads that arrive one after the other\<close>

text \<open>An arrival: the task's data of the runtime, the address of its \<open>TaskData\<close>, what that holds, and
  the node the task is at.\<close>

type_synonym arrival = "nat \<times> addr \<times> TaskData \<times> addr"

fun waiting :: "tool \<Rightarrow> arrival \<Rightarrow> bool" where
  "waiting s (k, a, td, c) = task_at s k a td c"

fun arrive :: "nat \<Rightarrow> arrival \<Rightarrow> tool \<Rightarrow> tool option" where
  "arrive r (k, a, td, c) s = cb_sync_region ompt_sync_region_barrier ompt_scope_begin (Some r) k s"

fun data_of :: "arrival \<Rightarrow> addr" where
  "data_of (k, a, td, c) = a"

fun node_of :: "arrival \<Rightarrow> addr" where
  "node_of (k, a, td, c) = c"

text \<open>The task continues at node \<open>d\<close>, behind barrier \<open>b\<close>.\<close>

fun continues :: "tool \<Rightarrow> addr \<Rightarrow> addr \<Rightarrow> arrival \<Rightarrow> bool" where
  "continues s b d (k, a, td, c) = task_at s k a (td\<lparr>td_curr_barrier_node := Some b, td_curr_task_node := Some d\<rparr>) d"

text \<open>Region \<open>r\<close> has a team of \<open>n\<close> threads, \<open>m\<close> of which have reached the current barrier \<open>b\<close>.\<close>

definition at_barrier :: "tool \<Rightarrow> nat \<Rightarrow> addr \<Rightarrow> nat \<Rightarrow> nat \<Rightarrow> addr \<Rightarrow> bool" where
  "at_barrier s r q n m b \<longleftrightarrow> (\<exists>par. t_parPtr s r = Some q \<and> t_pars s q = Some par
     \<and> pr_team_size par = word_of_nat n \<and> pr_barrier_cnt par = word_of_nat m
     \<and> (m \<noteq> 0 \<longrightarrow> pr_curr_barrier_node par = Some b \<and> b \<in> dom (g_heap s)))"

text \<open>From \<open>s\<close> to \<open>s'\<close> the threads \<open>ts\<close> have passed barrier \<open>b\<close>.\<close>

definition passed :: "tool \<Rightarrow> tool \<Rightarrow> addr \<Rightarrow> arrival list \<Rightarrow> bool" where
  "passed s s' b ts \<longleftrightarrow> wf_tdg s' \<and> g_brk s' = g_brk s + length ts \<and> g_nextId s' \<le> g_nextId s + int (length ts)
     \<and> dom (g_heap s') = dom (g_heap s) \<union> {g_brk s..<g_brk s + length ts}
     \<and> edge_rel (g_heap s') = edge_rel (g_heap s) \<union> (\<lambda>t. (node_of t, b)) ` set ts \<union> Pair b ` {g_brk s..<g_brk s + length ts}
     \<and> (\<forall>i < length ts. continues s' b (g_brk s + i) (ts ! i))
     \<and> (\<forall>k a td c. task_at s k a td c \<and> a \<notin> data_of ` set ts \<longrightarrow> task_at s' k a td c)"

lemma passed_Nil: "wf_tdg s \<Longrightarrow> passed s s b []"
  by (simp add: passed_def)

lemma passed_Cons:
  assumes p1: "passed s s1 b [t]" and p2: "passed s1 s2 b ts" and new: "data_of t \<notin> data_of ` set ts"
  shows "passed s s2 b (t # ts)"
proof -
  have b1: "g_brk s1 = Suc (g_brk s)" using p1 by (simp add: passed_def)
  have "continues s2 b (g_brk s) t"
    using p1 p2 new by (cases t) (auto simp: passed_def)
  moreover have "continues s2 b (g_brk s + Suc i) (ts ! i)" if "i < length ts" for i
    using p2 b1 that by (simp add: passed_def)
  ultimately have cont: "continues s2 b (g_brk s + i) ((t # ts) ! i)" if "i < Suc (length ts)" for i
    using that by (cases i) auto
  have iv: "{g_brk s..<g_brk s + 1} \<union> {g_brk s1..<g_brk s1 + length ts} = {g_brk s..<g_brk s + length (t # ts)}"
    using b1 by auto
  have "dom (g_heap s2) = dom (g_heap s) \<union> {g_brk s..<g_brk s + length (t # ts)}"
    using p1 p2 iv unfolding passed_def by auto
  moreover have "edge_rel (g_heap s2) = edge_rel (g_heap s) \<union> (\<lambda>t. (node_of t, b)) ` set (t # ts)
      \<union> Pair b ` {g_brk s..<g_brk s + length (t # ts)}"
    using p1 p2 iv [symmetric] unfolding passed_def by (simp add: image_Un Un_ac insert_commute)
  ultimately show ?thesis
    using p1 p2 cont unfolding passed_def by auto
qed

text \<open>The counter and the team size as words.\<close>

lemma count_words:
  assumes par: "pr_team_size par = word_of_nat n" "pr_barrier_cnt par = word_of_nat m" and m: "m < n" and n: "n < 2 ^ 32"
  shows "unat (pr_team_size par) = n" "unat (pr_barrier_cnt par) = m"
    "(if pr_barrier_cnt par + 1 \<ge> pr_team_size par then 0 else pr_barrier_cnt par + 1)
      = word_of_nat (if Suc m < n then Suc m else 0)"
proof -
  show u: "unat (pr_team_size par) = n" "unat (pr_barrier_cnt par) = m"
    using par m n by (simp_all add: unat_word_of_nat)
  have suc: "pr_barrier_cnt par + 1 = word_of_nat (Suc m)" by (simp add: par(2))
  have us: "unat (pr_barrier_cnt par + 1) = Suc m"
    unfolding suc using m n by (intro unat_word_of_nat) simp
  have "pr_barrier_cnt par + 1 \<ge> pr_team_size par \<longleftrightarrow> \<not> Suc m < n"
    unfolding word_le_nat_alt us u(1) by (rule not_less [symmetric])
  then show "(if pr_barrier_cnt par + 1 \<ge> pr_team_size par then 0 else pr_barrier_cnt par + 1)
      = word_of_nat (if Suc m < n then Suc m else 0)"
    by (cases "Suc m < n") (simp_all add: par(2) add.commute)
qed

text \<open>A thread that is not the first.\<close>

lemma arrive_join:
  assumes "wf_tdg s" and "g_nextId s + 1 < 2 ^ 63" and "at_barrier s r q n m b" and "0 < m" and "m < n" and "n < 2 ^ 32"
    and "waiting s t"
  shows "\<exists>s'. arrive r t s = Some s' \<and> passed s s' b [t] \<and> at_barrier s' r q n (if Suc m < n then Suc m else 0) b"
proof -
  obtain k a td c where t: "t = (k, a, td, c)" by (cases t)
  then have ta: "task_at s k a td c" using assms(7) by simp
  obtain par where par: "t_parPtr s r = Some q" "t_pars s q = Some par" "pr_team_size par = word_of_nat n"
      "pr_barrier_cnt par = word_of_nat m" "pr_curr_barrier_node par = Some b" "b \<in> dom (g_heap s)"
    using assms(3,4) by (auto simp: at_barrier_def)
  note u = count_words [OF par(3,4) assms(5,6)]
  have cnt0: "pr_barrier_cnt par \<noteq> 0" using u(2) assms(4) by auto
  note cnt = u(3)
  have run: "arrive r t s = barrier_begin (Some a) q par s"
    using ta par(1,2) u assms(4,5) by (simp add: t cb_sync_region_def task_at_def word_less_nat_alt)
  obtain s' where s': "barrier_begin (Some a) q par s = Some s'" and g: "grows (s\<lparr>
      t_pars := (t_pars s)(q \<mapsto> par\<lparr>pr_barrier_cnt := word_of_nat (if Suc m < n then Suc m else 0)\<rparr>),
      t_tasks := (t_tasks s)(a \<mapsto> td\<lparr>td_curr_barrier_node := Some b, td_curr_task_node := Some (g_brk s)\<rparr>)\<rparr>)
      s' {g_brk s} {(c, b), (b, g_brk s)} 1"
    using barrier_join_ok [OF assms(1,2) ta cnt0 par(5,6), of q] unfolding cnt by blast
  note d = growsD [OF g]
  have "passed s s' b [t]" using d ta by (auto simp: passed_def t task_at_def)
  moreover have "at_barrier s' r q n (if Suc m < n then Suc m else 0) b"
    using d par by (auto simp: at_barrier_def)
  ultimately show ?thesis using run s' by auto
qed

lemma waiting_passed:
  "passed s s1 b [t] \<Longrightarrow> waiting s t' \<Longrightarrow> data_of t' \<noteq> data_of t \<Longrightarrow> waiting s1 t'"
  by (cases t') (auto simp: passed_def)

lemma arrive_rest:
  assumes "wf_tdg s" and "g_nextId s + int (length ts) < 2 ^ 63" and "at_barrier s r q n m b" and "0 < m"
    and "ts \<noteq> []" and "m + length ts = n" and "n < 2 ^ 32"
    and "\<forall>t \<in> set ts. waiting s t" and "distinct (map data_of ts)"
  shows "\<exists>s'. foldM (arrive r) ts s = Some s' \<and> passed s s' b ts \<and> at_barrier s' r q n 0 b"
  using assms
proof (induction ts arbitrary: s m)
  case (Cons t ts)
  have m: "m < n" using Cons.prems(6) by simp
  have "g_nextId s + 1 < 2 ^ 63" "waiting s t" using Cons.prems(2,8) by simp_all
  then obtain s1 where s1: "arrive r t s = Some s1" "passed s s1 b [t]"
      "at_barrier s1 r q n (if Suc m < n then Suc m else 0) b"
    using arrive_join [OF Cons.prems(1) _ Cons.prems(3,4) m Cons.prems(7)] by blast
  show ?case
  proof (cases ts)
    case Nil
    then show ?thesis using s1 Cons.prems(6) by simp
  next
    case (Cons t' ts')
    then have ne: "ts \<noteq> []" "Suc m < n" using Cons.prems(6) by auto
    have "g_nextId s1 + int (length ts) < 2 ^ 63" using s1(2) Cons.prems(2) by (simp add: passed_def)
    moreover have "wf_tdg s1" using s1(2) by (simp add: passed_def)
    moreover have "\<forall>t' \<in> set ts. waiting s1 t'"
      using waiting_passed [OF s1(2)] Cons.prems(8,9) by (metis distinct.simps(2) image_eqI list.simps(9) list.set_intros(2) list.set_map)
    moreover have "Suc m + length ts = n" "distinct (map data_of ts)" using Cons.prems(6,9) by simp_all
    ultimately obtain s2 where s2: "foldM (arrive r) ts s1 = Some s2" "passed s1 s2 b ts" "at_barrier s2 r q n 0 b"
      using Cons.IH [of s1 "Suc m"] s1(3) ne Cons.prems(7) by auto
    have "passed s s2 b (t # ts)" using passed_Cons [OF s1(2) s2(2)] Cons.prems(9) by simp
    then show ?thesis using s1(1) s2 by auto
  qed
qed simp

section \<open>The whole team\<close>

text \<open>The first thread creates the barrier node, and behind it its own next node.\<close>

lemma arrive_first:
  assumes "wf_tdg s" and "g_nextId s + 2 < 2 ^ 63" and "at_barrier s r q n 0 b0" and "1 < n" and "n < 2 ^ 32"
    and "waiting s t"
  shows "\<exists>s'. arrive r t s = Some s' \<and> wf_tdg s' \<and> g_brk s' = g_brk s + 2 \<and> g_nextId s' \<le> g_nextId s + 2
    \<and> dom (g_heap s') = dom (g_heap s) \<union> {g_brk s, Suc (g_brk s)}
    \<and> edge_rel (g_heap s') = edge_rel (g_heap s) \<union> {(node_of t, g_brk s), (g_brk s, Suc (g_brk s))}
    \<and> continues s' (g_brk s) (Suc (g_brk s)) t
    \<and> (\<forall>k a td c. task_at s k a td c \<and> a \<noteq> data_of t \<longrightarrow> task_at s' k a td c)
    \<and> at_barrier s' r q n 1 (g_brk s)"
proof -
  obtain k a td c where t: "t = (k, a, td, c)" by (cases t)
  then have ta: "task_at s k a td c" using assms(6) by simp
  obtain par where par: "t_parPtr s r = Some q" "t_pars s q = Some par" "pr_team_size par = word_of_nat n"
      "pr_barrier_cnt par = 0"
    using assms(3) by (auto simp: at_barrier_def)
  have "unat (pr_team_size par) = n" using par(3) assms(5) by (simp add: unat_word_of_nat)
  then have run: "arrive r t s = barrier_begin (Some a) q par s"
    using ta par(1,2) assms(4) by (simp add: t cb_sync_region_def task_at_def word_less_nat_alt)
  obtain s' where s': "barrier_begin (Some a) q par s = Some s'" and g: "grows (s\<lparr>
      t_pars := (t_pars s)(q \<mapsto> par\<lparr>pr_barrier_cnt := 1, pr_curr_barrier_node := Some (g_brk s)\<rparr>),
      t_tasks := (t_tasks s)(a \<mapsto> td\<lparr>td_curr_barrier_node := Some (g_brk s), td_curr_task_node := Some (Suc (g_brk s))\<rparr>)\<rparr>)
      s' {g_brk s, Suc (g_brk s)} {(c, g_brk s), (g_brk s, Suc (g_brk s))} 2"
    using barrier_first_ok [OF assms(1,2) ta par(4), of q] by blast
  note d = growsD [OF g]
  have "at_barrier s' r q n 1 (g_brk s)" using d par by (simp add: at_barrier_def)
  moreover have "continues s' (g_brk s) (Suc (g_brk s)) t" using d ta by (simp add: t task_at_def)
  moreover have "\<forall>k a td c. task_at s k a td c \<and> a \<noteq> data_of t \<longrightarrow> task_at s' k a td c"
    using d by (auto simp: t task_at_def)
  ultimately show ?thesis using run s' d by (simp add: t)
qed

lemma team_passes:
  assumes "wf_tdg s" and "g_nextId s + int n + 1 < 2 ^ 63" and "at_barrier s r q n 0 b0" and "1 < n" and "n < 2 ^ 32"
    and "length ts = n" and "\<forall>t \<in> set ts. waiting s t" and "distinct (map data_of ts)"
  defines "b \<equiv> g_brk s"
  shows "\<exists>s'. foldM (arrive r) ts s = Some s' \<and> wf_tdg s' \<and> at_barrier s' r q n 0 b
    \<and> dom (g_heap s') = dom (g_heap s) \<union> {b..b + n}
    \<and> edge_rel (g_heap s') = edge_rel (g_heap s) \<union> (\<lambda>t. (node_of t, b)) ` set ts \<union> Pair b ` {Suc b..b + n}
    \<and> (\<forall>i < n. continues s' b (Suc b + i) (ts ! i))"
proof -
  obtain t us where ts: "ts = t # us" "us \<noteq> []" using assms(4,6) by (cases ts; cases "tl ts") auto
  have "g_nextId s + 2 < 2 ^ 63" "waiting s t" using assms(2,4,7) ts by auto
  then obtain s1 where s1: "arrive r t s = Some s1" "wf_tdg s1" "g_brk s1 = b + 2" "g_nextId s1 \<le> g_nextId s + 2"
      "dom (g_heap s1) = dom (g_heap s) \<union> {b, Suc b}"
      "edge_rel (g_heap s1) = edge_rel (g_heap s) \<union> {(node_of t, b), (b, Suc b)}" "continues s1 b (Suc b) t"
      "\<forall>k a td c. task_at s k a td c \<and> a \<noteq> data_of t \<longrightarrow> task_at s1 k a td c" "at_barrier s1 r q n 1 b"
    using arrive_first [OF assms(1) _ assms(3,4,5)] unfolding b_def by blast
  have "waiting s1 u" if u: "u \<in> set us" for u
  proof -
    have "data_of t \<notin> data_of ` set us" using assms(8) ts(1) by simp
    then have "data_of u \<noteq> data_of t" using u by (metis imageI)
    moreover have "waiting s u" using u assms(7) ts(1) by simp
    ultimately show ?thesis using s1(8) by (cases u) simp
  qed
  then have w: "\<forall>u \<in> set us. waiting s1 u" by simp
  have l: "1 + length us = n" "distinct (map data_of us)" using assms(6,8) ts by simp_all
  have nid: "g_nextId s1 + int (length us) < 2 ^ 63" using assms(2) s1(4) l(1) by linarith
  obtain s2 where s2: "foldM (arrive r) us s1 = Some s2" "passed s1 s2 b us" "at_barrier s2 r q n 0 b"
    using arrive_rest [OF s1(2) nid s1(9) zero_less_one ts(2) l(1) assms(5) w l(2)] by blast
  have len: "length us = n - 1" using assms(6) ts by auto
  have iv: "{b, Suc b} \<union> {b + 2..<b + 2 + length us} = {b..b + n}"
    "{Suc b} \<union> {b + 2..<b + 2 + length us} = {Suc b..b + n}" using len assms(4) by auto
  have "continues s2 b (Suc b) t"
    using s1(7) s2(2) assms(8) ts(1) by (cases t) (auto simp: passed_def)
  then have cont: "continues s2 b (Suc b + i) (ts ! i)" if "i < n" for i
    using that s2(2) s1(3) ts(1) len by (cases i) (auto simp: passed_def)
  have "dom (g_heap s2) = dom (g_heap s) \<union> {b..b + n}"
    using s2(2) s1(3,5) unfolding iv(1) [symmetric] passed_def by auto
  moreover have "edge_rel (g_heap s2) = edge_rel (g_heap s) \<union> (\<lambda>t. (node_of t, b)) ` set ts \<union> Pair b ` {Suc b..b + n}"
    using s2(2) s1(3,6) unfolding iv(2) [symmetric] ts(1) by (auto simp: passed_def)
  ultimately show ?thesis using s1(1) s2 cont ts(1) by (auto simp: passed_def)
qed

section \<open>Properties\<close>

text \<open>
  A barrier of a whole team: when the \<open>n\<close> threads of a team call \<open>cb_sync_region\<close> one after the
  other, in any order, the callbacks return; the graph gains one barrier node and one node per
  thread, each thread continues at its own new node, the count is back to 0 for the next barrier, and
  every node a thread left comes before every node a thread continues at.
\<close>

theorem team_barrier_synchronises:
  assumes "wf_tdg s" and "g_nextId s + int n + 1 < 2 ^ 63" and "at_barrier s r q n 0 b0" and "1 < n" and "n < 2 ^ 32"
    and "length ts = n" and "\<forall>t \<in> set ts. waiting s t" and "distinct (map data_of ts)"
  shows "\<exists>s' b. foldM (arrive r) ts s = Some s' \<and> wf_tdg s' \<and> at_barrier s' r q n 0 b
    \<and> b \<notin> dom (g_heap s) \<and> dom (g_heap s') = dom (g_heap s) \<union> {b..b + n}
    \<and> (\<forall>i < n. continues s' b (Suc b + i) (ts ! i))
    \<and> (\<forall>i < n. \<forall>j < n. (node_of (ts ! i), Suc b + j) \<in> (edge_rel (g_heap s'))\<^sup>+)"
proof -
  obtain s' where s': "foldM (arrive r) ts s = Some s'" "wf_tdg s'" "at_barrier s' r q n 0 (g_brk s)"
      "dom (g_heap s') = dom (g_heap s) \<union> {g_brk s..g_brk s + n}"
      "edge_rel (g_heap s') = edge_rel (g_heap s) \<union> (\<lambda>t. (node_of t, g_brk s)) ` set ts \<union> Pair (g_brk s) ` {Suc (g_brk s)..g_brk s + n}"
      "\<forall>i < n. continues s' (g_brk s) (Suc (g_brk s) + i) (ts ! i)"
    using team_passes [OF assms] by blast
  have "(node_of (ts ! i), Suc (g_brk s) + j) \<in> (edge_rel (g_heap s'))\<^sup>+" if "i < n" "j < n" for i j
  proof -
    have "(node_of (ts ! i), g_brk s) \<in> edge_rel (g_heap s')" "(g_brk s, Suc (g_brk s) + j) \<in> edge_rel (g_heap s')"
      using that assms(6) unfolding s'(5) by auto
    then show ?thesis by (meson trancl.simps)
  qed
  moreover have "g_brk s \<notin> dom (g_heap s)" using assms(1) by (auto simp: wf_tdg_def)
  ultimately show ?thesis using s' by (intro exI [of _ s'] exI [of _ "g_brk s"]) simp
qed

text \<open>The region of \<open>sample_tool\<close>, with a team of two threads.\<close>

definition sample_team :: tool where
  "sample_team = sample_tool\<lparr>t_pars := [3 \<mapsto> new_ParallelRegionData\<lparr>pr_parent_task_data := Some 0,
     pr_sink_node := Some 4, pr_team_size := 2\<rparr>]\<rparr>"

definition sample_arrivals :: "arrival list" where
  "sample_arrivals = [
     (1, 1, new_TaskData\<lparr>td_curr_task_node := Some 3, td_sink_node := Some 4\<rparr>, 3),
     (0, 0, new_TaskData\<lparr>td_curr_task_node := Some 0, td_curr_ws_data := Some 2, td_threadNum := 5\<rparr>, 0)]"

theorem team_barrier_synchronises_witness:
  "\<exists>s' b. foldM (arrive 0) sample_arrivals sample_team = Some s' \<and> (3, Suc b + 1) \<in> (edge_rel (g_heap s'))\<^sup>+"
proof -
  have wf: "wf_tdg sample_team"
    using wf_sample_tool by (simp add: sample_team_def wf_tdg_def ids_ok_def index_ok_def)
  have at: "at_barrier sample_team 0 3 2 0 0"
    by (simp add: at_barrier_def sample_team_def sample_tool_sel new_ParallelRegionData_def)
  have w: "\<forall>t \<in> set sample_arrivals. waiting sample_team t"
    using sample_tool_at(1,2) by (simp add: sample_arrivals_def sample_team_def task_at_def)
  have n: "g_nextId sample_team + int 2 + 1 < 2 ^ 63" by (simp add: sample_team_def sample_tool_sel)
  have "\<exists>s' b. foldM (arrive 0) sample_arrivals sample_team = Some s'
      \<and> (\<forall>i < 2. \<forall>j < 2. (node_of (sample_arrivals ! i), Suc b + j) \<in> (edge_rel (g_heap s'))\<^sup>+)"
    using team_barrier_synchronises [OF wf n at _ _ _ w] by (auto simp: sample_arrivals_def)
  then obtain s' b where "foldM (arrive 0) sample_arrivals sample_team = Some s'"
      "(node_of (sample_arrivals ! 0), Suc b + 1) \<in> (edge_rel (g_heap s'))\<^sup>+" by (metis one_less_numeral_iff pos2 semiring_norm(76))
  then show ?thesis by (auto simp: sample_arrivals_def)
qed

end
