(* ===== verification/Concurrent_Edges.thy ===== *)
theory Concurrent_Edges
  imports Tdg_Graph
begin

text \<open>
  \<open>Graph::connectNodes\<close> and \<open>Graph::disconnectNodes\<close> of \<open>src/graph.cc\<close> when several threads call
  them at the same time: the mutexes of the nodes and every point at which a thread can be
  interrupted.  A thread executes a list of calls; a step of a thread is one lock operation, one
  unlock operation, or one access to an edge vector, and a schedule is the list of the threads
  whose turn it is.

  The theories on the callbacks treat a call as one atomic step.  What is shown here justifies it:
  the accesses to a vector exclude each other, no schedule blocks or runs forever, and when no two
  threads work on the same pair of nodes, every schedule leaves the edges that the calls give when
  they run one after the other.
\<close>

section \<open>Threads and their steps\<close>

datatype edge_call = Connect addr addr | Disconnect addr addr

text \<open>Where a thread stands in \<open>connectNodes\<close> (first \<open>isConnectedWith\<close>, which locks the exits of the
  source on its own, then the insertion) or in \<open>disconnectNodes\<close>.\<close>

datatype stage =
  Chk_Lock | Chk_Loop | Chk_Unlock bool
  | Con_LockX | Con_LockE | Con_PushX | Con_PushE | Con_UnlockE | Con_UnlockX
  | Dis_LockX | Dis_EraseX | Dis_UnlockX | Dis_LockE | Dis_EraseE | Dis_UnlockE

datatype pc = Idle | At stage addr addr

record worker =
  w_pc :: pc
  w_todo :: "edge_call list"

text \<open>The heap, who holds \<open>_exitsMutex\<close> and \<open>_entriesMutex\<close> of each node, and the threads.\<close>

record cgraph =
  c_heap :: heap
  c_exits :: "addr \<Rightarrow> nat option"
  c_entries :: "addr \<Rightarrow> nat option"
  c_workers :: "worker list"

text \<open>A thread has nothing left to do, waits for a mutex, follows a bad pointer, or moves.\<close>

datatype 'a progress = Finished | Blocked | Faults | Moves 'a

definition push_exit :: "addr \<Rightarrow> addr \<Rightarrow> heap \<Rightarrow> heap option" where
  "push_exit src tgt = upd_node src (\<lambda>n. n\<lparr>n_exitEdges := n_exitEdges n @ [new_Edge src tgt]\<rparr>)"

definition push_entry :: "addr \<Rightarrow> addr \<Rightarrow> heap \<Rightarrow> heap option" where
  "push_entry src tgt = upd_node tgt (\<lambda>n. n\<lparr>n_entryEdges := n_entryEdges n @ [new_Edge src tgt]\<rparr>)"

definition erase_exit :: "addr \<Rightarrow> addr \<Rightarrow> heap \<Rightarrow> heap option" where
  "erase_exit src tgt = upd_node src
     (\<lambda>n. n\<lparr>n_exitEdges := erase_first (\<lambda>e. getTarget e = tgt) (n_exitEdges n)\<rparr>)"

definition erase_entry :: "addr \<Rightarrow> addr \<Rightarrow> heap \<Rightarrow> heap option" where
  "erase_entry src tgt = upd_node tgt
     (\<lambda>n. n\<lparr>n_entryEdges := erase_first (\<lambda>e. getSource e = src) (n_entryEdges n)\<rparr>)"

definition goto :: "nat \<Rightarrow> pc \<Rightarrow> cgraph \<Rightarrow> cgraph" where
  "goto t p s = s\<lparr>c_workers := (c_workers s)[t := (c_workers s ! t)\<lparr>w_pc := p\<rparr>]\<rparr>"

definition lock_exits :: "nat \<Rightarrow> addr \<Rightarrow> pc \<Rightarrow> cgraph \<Rightarrow> cgraph progress" where
  "lock_exits t a p s = (case c_heap s a of
       None \<Rightarrow> Faults
     | Some _ \<Rightarrow> if c_exits s a = None
                then Moves (goto t p (s\<lparr>c_exits := (c_exits s)(a := Some t)\<rparr>)) else Blocked)"

definition unlock_exits :: "nat \<Rightarrow> addr \<Rightarrow> pc \<Rightarrow> cgraph \<Rightarrow> cgraph progress" where
  "unlock_exits t a p s = (case c_heap s a of
       None \<Rightarrow> Faults
     | Some _ \<Rightarrow> Moves (goto t p (s\<lparr>c_exits := (c_exits s)(a := None)\<rparr>)))"

definition lock_entries :: "nat \<Rightarrow> addr \<Rightarrow> pc \<Rightarrow> cgraph \<Rightarrow> cgraph progress" where
  "lock_entries t a p s = (case c_heap s a of
       None \<Rightarrow> Faults
     | Some _ \<Rightarrow> if c_entries s a = None
                then Moves (goto t p (s\<lparr>c_entries := (c_entries s)(a := Some t)\<rparr>)) else Blocked)"

definition unlock_entries :: "nat \<Rightarrow> addr \<Rightarrow> pc \<Rightarrow> cgraph \<Rightarrow> cgraph progress" where
  "unlock_entries t a p s = (case c_heap s a of
       None \<Rightarrow> Faults
     | Some _ \<Rightarrow> Moves (goto t p (s\<lparr>c_entries := (c_entries s)(a := None)\<rparr>)))"

definition on_heap :: "nat \<Rightarrow> heap option \<Rightarrow> pc \<Rightarrow> cgraph \<Rightarrow> cgraph progress" where
  "on_heap t r p s = (case r of
       None \<Rightarrow> Faults
     | Some h \<Rightarrow> Moves (goto t p (s\<lparr>c_heap := h\<rparr>)))"

fun step_at :: "nat \<Rightarrow> stage \<Rightarrow> addr \<Rightarrow> addr \<Rightarrow> cgraph \<Rightarrow> cgraph progress" where
  "step_at t Chk_Lock u v s = lock_exits t u (At Chk_Loop u v) s"
| "step_at t Chk_Loop u v s = (case isConnectedWith u v (c_heap s) of
       None \<Rightarrow> Faults
     | Some res \<Rightarrow> Moves (goto t (At (Chk_Unlock res) u v) s))"
| "step_at t (Chk_Unlock res) u v s = unlock_exits t u (if \<not> res then At Con_LockX u v else Idle) s"
| "step_at t Con_LockX u v s = lock_exits t u (At Con_LockE u v) s"
| "step_at t Con_LockE u v s = lock_entries t v (At Con_PushX u v) s"
| "step_at t Con_PushX u v s = on_heap t (push_exit u v (c_heap s)) (At Con_PushE u v) s"
| "step_at t Con_PushE u v s = on_heap t (push_entry u v (c_heap s)) (At Con_UnlockE u v) s"
| "step_at t Con_UnlockE u v s = unlock_entries t v (At Con_UnlockX u v) s"
| "step_at t Con_UnlockX u v s = unlock_exits t u Idle s"
| "step_at t Dis_LockX u v s = lock_exits t u (At Dis_EraseX u v) s"
| "step_at t Dis_EraseX u v s = on_heap t (erase_exit u v (c_heap s)) (At Dis_UnlockX u v) s"
| "step_at t Dis_UnlockX u v s = unlock_exits t u (At Dis_LockE u v) s"
| "step_at t Dis_LockE u v s = lock_entries t v (At Dis_EraseE u v) s"
| "step_at t Dis_EraseE u v s = on_heap t (erase_entry u v (c_heap s)) (At Dis_UnlockE u v) s"
| "step_at t Dis_UnlockE u v s = unlock_entries t v Idle s"

fun enter_call :: "edge_call \<Rightarrow> pc" where
  "enter_call (Connect u v) = At Chk_Lock u v"
| "enter_call (Disconnect u v) = At Dis_LockX u v"

definition thread_step :: "nat \<Rightarrow> cgraph \<Rightarrow> cgraph progress" where
  "thread_step t s =
     (if t < length (c_workers s) then
        (case w_pc (c_workers s ! t) of
           Idle \<Rightarrow> (case w_todo (c_workers s ! t) of
               [] \<Rightarrow> Finished
             | c # cs \<Rightarrow> Moves (s\<lparr>c_workers := (c_workers s)[t := \<lparr>w_pc = enter_call c, w_todo = cs\<rparr>]\<rparr>))
         | At st u v \<Rightarrow> step_at t st u v s)
      else Finished)"

definition run_schedule :: "nat list \<Rightarrow> cgraph \<Rightarrow> cgraph option" where
  "run_schedule = foldM (\<lambda>t s. case thread_step t s of Moves s' \<Rightarrow> Some s' | _ \<Rightarrow> None)"

definition start_threads :: "heap \<Rightarrow> edge_call list list \<Rightarrow> cgraph" where
  "start_threads h progs = \<lparr>c_heap = h, c_exits = (\<lambda>_. None), c_entries = (\<lambda>_. None),
     c_workers = map (\<lambda>cs. \<lparr>w_pc = Idle, w_todo = cs\<rparr>) progs\<rparr>"

definition all_finished :: "cgraph \<Rightarrow> bool" where
  "all_finished s = list_all (\<lambda>w. w_pc w = Idle \<and> w_todo w = []) (c_workers s)"

text \<open>The same calls without interruption.\<close>

fun run_call :: "edge_call \<Rightarrow> heap \<Rightarrow> heap option" where
  "run_call (Connect u v) h = connectNodes u v h"
| "run_call (Disconnect u v) h = disconnectNodes u v h"

lemma run_schedule_simps [simp]:
  "run_schedule [] s = Some s"
  "run_schedule (t # ts) s = (case thread_step t s of Moves s' \<Rightarrow> run_schedule ts s' | _ \<Rightarrow> None)"
  by (simp_all add: run_schedule_def split: progress.split)

lemma run_schedule_append:
  "run_schedule (ts @ ts') s = do { s' \<leftarrow> run_schedule ts s; run_schedule ts' s' }"
  by (simp add: run_schedule_def foldM_append)

lemma run_schedule_invariant:
  assumes "run_schedule ts s = Some s'" and "P s"
    and "\<And>t s s'. P s \<Longrightarrow> thread_step t s = Moves s' \<Longrightarrow> P s'"
  shows "P s'"
  using assms(1,2)
proof (induction ts arbitrary: s)
  case (Cons t ts)
  then show ?case using assms(3) by (auto split: progress.splits)
qed simp

text \<open>A single thread that is never interrupted does what the atomic operations do.\<close>

lemma connectNodes_halves:
  "connectNodes u v h = do {
     connected \<leftarrow> isConnectedWith u v h;
     if \<not> connected then do { h1 \<leftarrow> push_exit u v h; push_entry u v h1 } else Some h }"
  unfolding connectNodes_def push_exit_def push_entry_def Let_def ..

lemma disconnectNodes_halves:
  "disconnectNodes u v h = do { h1 \<leftarrow> erase_exit u v h; erase_entry u v h1 }"
  by (simp add: disconnectNodes_def erase_exit_def erase_entry_def)

section \<open>Locks\<close>

fun holds_exits :: "stage \<Rightarrow> bool" where
  "holds_exits Chk_Loop = True"
| "holds_exits (Chk_Unlock res) = True"
| "holds_exits Con_LockE = True"
| "holds_exits Con_PushX = True"
| "holds_exits Con_PushE = True"
| "holds_exits Con_UnlockE = True"
| "holds_exits Con_UnlockX = True"
| "holds_exits Dis_EraseX = True"
| "holds_exits Dis_UnlockX = True"
| "holds_exits _ = False"

fun holds_entries :: "stage \<Rightarrow> bool" where
  "holds_entries Con_PushX = True"
| "holds_entries Con_PushE = True"
| "holds_entries Con_UnlockE = True"
| "holds_entries Dis_EraseE = True"
| "holds_entries Dis_UnlockE = True"
| "holds_entries _ = False"

fun exits_of :: "pc \<Rightarrow> addr option" where
  "exits_of Idle = None"
| "exits_of (At st u v) = (if holds_exits st then Some u else None)"

fun entries_of :: "pc \<Rightarrow> addr option" where
  "entries_of Idle = None"
| "entries_of (At st u v) = (if holds_entries st then Some v else None)"

definition pc_of :: "cgraph \<Rightarrow> nat \<Rightarrow> pc" where
  "pc_of s t = (if t < length (c_workers s) then w_pc (c_workers s ! t) else Idle)"

text \<open>A table of mutexes agrees with the claims of the threads: each is held by the thread that
  claims it, and by no other.\<close>

definition lock_table :: "(addr \<Rightarrow> nat option) \<Rightarrow> (nat \<Rightarrow> addr option) \<Rightarrow> bool" where
  "lock_table m c \<longleftrightarrow> (\<forall>a t. m a = Some t \<longleftrightarrow> c t = Some a)"

lemma lock_tableD: "lock_table m c \<Longrightarrow> m a = Some t \<longleftrightarrow> c t = Some a"
  by (simp add: lock_table_def)

lemma lock_table_acquire:
  assumes "lock_table m c" and "m a = None" and "c t = None"
  shows "lock_table (m(a := Some t)) (c(t := Some a))"
proof -
  note iff = lock_tableD [OF assms(1)]
  have "c i \<noteq> Some a" and "m b \<noteq> Some t" for i b
    using assms(2,3) iff [of a i] iff [of b t] by simp_all
  then show ?thesis using iff unfolding lock_table_def by simp
qed

lemma lock_table_release:
  assumes "lock_table m c" and "c t = Some a"
  shows "lock_table (m(a := None)) (c(t := None))"
proof -
  note iff = lock_tableD [OF assms(1)]
  have "i = t" if "c i = Some a" for i
    using assms(2) that iff [of a i] iff [of a t] by simp
  moreover have "b = a" if "m b = Some t" for b
    using assms(2) that iff [of b t] by simp
  ultimately show ?thesis using iff unfolding lock_table_def by auto
qed

lemmas lock_table_intros = lock_table_acquire lock_table_release

definition locks_ok :: "cgraph \<Rightarrow> bool" where
  "locks_ok s \<longleftrightarrow> lock_table (c_exits s) (exits_of \<circ> pc_of s)
     \<and> lock_table (c_entries s) (entries_of \<circ> pc_of s)"

lemmas step_defs = lock_exits_def unlock_exits_def lock_entries_def unlock_entries_def on_heap_def

lemma goto_frame [simp]:
  "c_heap (goto t p s) = c_heap s" "c_exits (goto t p s) = c_exits s"
  "c_entries (goto t p s) = c_entries s" "length (c_workers (goto t p s)) = length (c_workers s)"
  by (simp_all add: goto_def)

lemma pc_of_goto: "t < length (c_workers s) \<Longrightarrow> pc_of (goto t p s) = (pc_of s)(t := p)"
  by (auto simp: pc_of_def goto_def nth_list_update)

lemma pc_of_upd [simp]:
  "pc_of (s\<lparr>c_heap := h\<rparr>) = pc_of s" "pc_of (s\<lparr>c_exits := m\<rparr>) = pc_of s"
  "pc_of (s\<lparr>c_entries := m\<rparr>) = pc_of s"
  by (simp_all add: pc_of_def fun_eq_iff)

text \<open>A step of a thread either enters its next call or continues the one it is in.\<close>

lemma thread_step_cases:
  assumes "thread_step t s = Moves s'"
  obtains (enter) c cs where "t < length (c_workers s)" "c_workers s ! t = \<lparr>w_pc = Idle, w_todo = c # cs\<rparr>"
      "s' = s\<lparr>c_workers := (c_workers s)[t := \<lparr>w_pc = enter_call c, w_todo = cs\<rparr>]\<rparr>"
  | (continue) st u v where "t < length (c_workers s)" "pc_of s t = At st u v"
      "step_at t st u v s = Moves s'"
  using assms unfolding thread_step_def pc_of_def
  by (auto split: if_splits pc.splits list.splits) (metis worker.surjective old.unit.exhaust)

lemma pc_of_enter:
  "t < length (c_workers s) \<Longrightarrow>
     pc_of (s\<lparr>c_workers := (c_workers s)[t := w]\<rparr>) = (pc_of s)(t := w_pc w)"
  by (auto simp: pc_of_def fun_eq_iff)

lemma locks_ok_step:
  assumes "locks_ok s" and "thread_step t s = Moves s'"
  shows "locks_ok s'"
  using assms(2)
proof (cases rule: thread_step_cases)
  case (enter c cs)
  then have "pc_of s t = Idle" by (simp add: pc_of_def)
  then show ?thesis using assms(1) enter unfolding locks_ok_def
    by (cases c) (auto simp: pc_of_enter fun_upd_comp fun_upd_idem)
next
  case (continue st u v)
  show ?thesis
    using assms(1) continue unfolding locks_ok_def
    by (cases st) (auto simp: step_defs pc_of_goto fun_upd_comp fun_upd_idem
         intro!: lock_table_intros split: option.splits if_splits)
qed


section \<open>Progress\<close>

fun connecting :: "stage \<Rightarrow> bool" where
  "connecting Dis_LockX = False"
| "connecting Dis_EraseX = False"
| "connecting Dis_UnlockX = False"
| "connecting Dis_LockE = False"
| "connecting Dis_EraseE = False"
| "connecting Dis_UnlockE = False"
| "connecting _ = True"

fun call_pair :: "edge_call \<Rightarrow> addr \<times> addr" where
  "call_pair (Connect u v) = (u, v)"
| "call_pair (Disconnect u v) = (u, v)"

text \<open>The call a thread is in, and the calls it has still to complete.\<close>

fun cur_call :: "pc \<Rightarrow> edge_call list" where
  "cur_call Idle = []"
| "cur_call (At st u v) = [if connecting st then Connect u v else Disconnect u v]"

definition nodes_ok :: "cgraph \<Rightarrow> bool" where
  "nodes_ok s \<longleftrightarrow> (\<forall>w \<in> set (c_workers s). \<forall>c \<in> set (cur_call (w_pc w) @ w_todo w).
     call_pair c \<in> dom (c_heap s) \<times> dom (c_heap s))"

text \<open>How many steps a position is at most away from the end of its call.\<close>

fun stage_rank :: "stage \<Rightarrow> nat" where
  "stage_rank Chk_Lock = 9"
| "stage_rank Chk_Loop = 8"
| "stage_rank (Chk_Unlock res) = 7"
| "stage_rank Con_LockX = 6"
| "stage_rank Con_LockE = 5"
| "stage_rank Con_PushX = 4"
| "stage_rank Con_PushE = 3"
| "stage_rank Con_UnlockE = 2"
| "stage_rank Con_UnlockX = 1"
| "stage_rank Dis_LockX = 6"
| "stage_rank Dis_EraseX = 5"
| "stage_rank Dis_UnlockX = 4"
| "stage_rank Dis_LockE = 3"
| "stage_rank Dis_EraseE = 2"
| "stage_rank Dis_UnlockE = 1"

fun pc_rank :: "pc \<Rightarrow> nat" where
  "pc_rank Idle = 0"
| "pc_rank (At st u v) = stage_rank st"

definition work_left :: "cgraph \<Rightarrow> nat" where
  "work_left s = (\<Sum>w \<leftarrow> c_workers s. pc_rank (w_pc w) + 10 * length (w_todo w))"

lemma heap_steps_dom:
  "push_exit u v h = Some h' \<Longrightarrow> dom h' = dom h" "push_entry u v h = Some h' \<Longrightarrow> dom h' = dom h"
  "erase_exit u v h = Some h' \<Longrightarrow> dom h' = dom h" "erase_entry u v h = Some h' \<Longrightarrow> dom h' = dom h"
  by (auto simp: push_exit_def push_entry_def erase_exit_def erase_entry_def opt_simps
      split: if_splits)

lemma step_at_frame:
  assumes "step_at t st u v s = Moves s'"
  obtains p where "c_workers s' = (c_workers s)[t := (c_workers s ! t)\<lparr>w_pc := p\<rparr>]"
    "p = Idle \<or> (\<exists>st'. p = At st' u v \<and> connecting st' = connecting st)"
    "dom (c_heap s') = dom (c_heap s)" "pc_rank p < stage_rank st"
  using assms
  by (cases st)
    (force simp: step_defs goto_def heap_steps_dom split: option.splits if_splits)+

lemma nodes_ok_step:
  assumes "nodes_ok s" and "thread_step t s = Moves s'"
  shows "nodes_ok s'"
  using assms(2)
proof (cases rule: thread_step_cases)
  case (enter c cs)
  have "\<lparr>w_pc = Idle, w_todo = c # cs\<rparr> \<in> set (c_workers s)" using enter(1,2) nth_mem by metis
  then show ?thesis using assms(1) enter(3)
    by (cases c) (auto simp: nodes_ok_def dest!: set_update_subset_insert [THEN subsetD])
next
  case (continue st u v)
  obtain p where p: "c_workers s' = (c_workers s)[t := (c_workers s ! t)\<lparr>w_pc := p\<rparr>]"
    "p = Idle \<or> (\<exists>st'. p = At st' u v \<and> connecting st' = connecting st)"
    "dom (c_heap s') = dom (c_heap s)"
    using step_at_frame [OF continue(3)] by metis
  have w: "c_workers s ! t \<in> set (c_workers s)" "w_pc (c_workers s ! t) = At st u v"
    using continue by (auto simp: pc_of_def)
  show ?thesis
    unfolding nodes_ok_def p(1,3)
  proof
    fix w assume "w \<in> set ((c_workers s)[t := (c_workers s ! t)\<lparr>w_pc := p\<rparr>])"
    then have "w \<in> set (c_workers s) \<or> w = (c_workers s ! t)\<lparr>w_pc := p\<rparr>"
      using set_update_subset_insert by fastforce
    then show "\<forall>c \<in> set (cur_call (w_pc w) @ w_todo w). call_pair c \<in> dom (c_heap s) \<times> dom (c_heap s)"
      using assms(1) w p(2) unfolding nodes_ok_def by auto
  qed
qed

lemma sum_list_update_less:
  "t < length xs \<Longrightarrow> f y < f (xs ! t) \<Longrightarrow> sum_list (map f (xs[t := y])) < (sum_list (map f xs) :: nat)"
  by (induction xs arbitrary: t) (auto split: nat.splits)

lemma work_left_step:
  assumes "thread_step t s = Moves s'"
  shows "work_left s' < work_left s"
  using assms
proof (cases rule: thread_step_cases)
  case (enter c cs)
  then show ?thesis
    by (cases c) (auto simp: work_left_def intro!: sum_list_update_less)
next
  case (continue st u v)
  obtain p where "c_workers s' = (c_workers s)[t := (c_workers s ! t)\<lparr>w_pc := p\<rparr>]"
    "pc_rank p < stage_rank st"
    using step_at_frame [OF continue(3)] by metis
  with continue show ?thesis
    by (auto simp: work_left_def pc_of_def intro!: sum_list_update_less)
qed

lemma work_left_run: "run_schedule ts s = Some s' \<Longrightarrow> length ts + work_left s' \<le> work_left s"
proof (induction ts arbitrary: s)
  case (Cons t ts)
  then obtain s1 where s1: "thread_step t s = Moves s1" "run_schedule ts s1 = Some s'"
    by (auto split: progress.splits)
  with Cons.IH [of s1] work_left_step [OF s1(1)] show ?case by simp
qed simp

text \<open>A thread that does not move has nothing to do or waits for a mutex that is held.\<close>

lemma current_call_nodes:
  assumes "nodes_ok s" and "t < length (c_workers s)" and "pc_of s t = At st u v"
  shows "u \<in> dom (c_heap s)" "v \<in> dom (c_heap s)"
proof -
  have "c_workers s ! t \<in> set (c_workers s)" using assms(2) by simp
  then have "call_pair (hd (cur_call (At st u v))) \<in> dom (c_heap s) \<times> dom (c_heap s)"
    using assms unfolding nodes_ok_def pc_of_def by fastforce
  then show "u \<in> dom (c_heap s)" "v \<in> dom (c_heap s)" by (auto split: if_splits)
qed

lemma heap_steps_ok:
  "u \<in> dom h \<Longrightarrow> \<exists>h'. push_exit u v h = Some h'" "v \<in> dom h \<Longrightarrow> \<exists>h'. push_entry u v h = Some h'"
  "u \<in> dom h \<Longrightarrow> \<exists>h'. erase_exit u v h = Some h'" "v \<in> dom h \<Longrightarrow> \<exists>h'. erase_entry u v h = Some h'"
  "u \<in> dom h \<Longrightarrow> \<exists>b. isConnectedWith u v h = Some b"
  by (simp_all add: push_exit_def push_entry_def erase_exit_def erase_entry_def upd_node_ok
      isConnectedWith_edge)

lemma thread_step_stuck:
  assumes "nodes_ok s" and "\<nexists>s'. thread_step t s = Moves s'"
  obtains "thread_step t s = Finished" "t < length (c_workers s) \<longrightarrow> c_workers s ! t = \<lparr>w_pc = Idle, w_todo = []\<rparr>"
  | st u v where "thread_step t s = Blocked" "pc_of s t = At st u v" "c_exits s u \<noteq> None"
      "\<not> holds_exits st" "\<not> holds_entries st"
  | st u v where "thread_step t s = Blocked" "pc_of s t = At st u v" "c_entries s v \<noteq> None"
      "\<not> holds_entries st"
proof (cases "pc_of s t")
  case Idle
  then show ?thesis using that(1) assms(2) unfolding thread_step_def pc_of_def
    by (auto split: if_splits list.splits)
next
  case (At st u v)
  then have t: "t < length (c_workers s)" by (auto simp: pc_of_def split: if_splits)
  have st: "thread_step t s = step_at t st u v s" using At t by (simp add: thread_step_def pc_of_def)
  obtain nu nv where n: "c_heap s u = Some nu" "c_heap s v = Some nv"
    using current_call_nodes [OF assms(1) t At] by blast
  obtain h1 h2 h3 h4 b where "push_exit u v (c_heap s) = Some h1" "push_entry u v (c_heap s) = Some h2"
    "erase_exit u v (c_heap s) = Some h3" "erase_entry u v (c_heap s) = Some h4"
    "isConnectedWith u v (c_heap s) = Some b"
    using heap_steps_ok current_call_nodes [OF assms(1) t At] by meson
  with n have "step_at t st u v s = Blocked \<and> (c_exits s u \<noteq> None \<and> \<not> holds_exits st \<and> \<not> holds_entries st
      \<or> c_entries s v \<noteq> None \<and> \<not> holds_entries st)"
    using assms(2) unfolding st by (cases st) (auto simp: step_defs split: if_splits)
  then show ?thesis using that(2,3) At st by metis
qed

lemma no_deadlock:
  assumes "locks_ok s" and "nodes_ok s" and "\<not> all_finished s"
  shows "\<exists>t s'. thread_step t s = Moves s'"
proof (rule ccontr)
  assume "\<nexists>t s'. thread_step t s = Moves s'"
  then have stuck: "\<nexists>s'. thread_step t s = Moves s'" for t by blast
  note tab = assms(1) [unfolded locks_ok_def]
  have en: "c_entries s v = None" for v
  proof (rule ccontr)
    assume "c_entries s v \<noteq> None"
    then obtain t where "entries_of (pc_of s t) = Some v" using tab by (auto simp: lock_table_def)
    then show False
    proof (cases rule: thread_step_stuck [OF assms(2) stuck [of t], case_names fin ex en])
    qed (auto simp: pc_of_def split: if_splits)
  qed
  have ex: "c_exits s u = None" for u
  proof (rule ccontr)
    assume "c_exits s u \<noteq> None"
    then obtain t where "exits_of (pc_of s t) = Some u" using tab by (auto simp: lock_table_def)
    then show False
    proof (cases rule: thread_step_stuck [OF assms(2) stuck [of t], case_names fin ex en])
    qed (use en in \<open>auto simp: pc_of_def split: if_splits\<close>)
  qed
  have "c_workers s ! t = \<lparr>w_pc = Idle, w_todo = []\<rparr>" if "t < length (c_workers s)" for t
    by (cases rule: thread_step_stuck [OF assms(2) stuck [of t]]) (use en ex that in auto)
  then have "all_finished s" by (auto simp: all_finished_def list_all_length)
  then show False using assms(3) by simp
qed


section \<open>The edges\<close>

text \<open>While a thread is between its two insertions, an edge is in one vector and not yet in the
  other, so the two views of the graph are followed separately.\<close>

definition entry_rel :: "heap \<Rightarrow> (addr \<times> addr) set" where
  "entry_rel h = {(u, v). u \<in> set (preds h v)}"

definition shape_ok :: "heap \<Rightarrow> bool" where
  "shape_ok h \<longleftrightarrow> finite (dom h) \<and> own_heap h \<and> (\<forall>a. distinct (succs h a) \<and> distinct (preds h a))"

lemma wf_heap_views: "wf_heap h \<longleftrightarrow> shape_ok h \<and> entry_rel h = edge_rel h"
  by (auto simp: wf_heap_def shape_ok_def entry_rel_def edge_rel_def set_eq_iff)

fun upd_exits :: "stage \<Rightarrow> addr \<times> addr \<Rightarrow> (addr \<times> addr) set \<Rightarrow> (addr \<times> addr) set" where
  "upd_exits Con_PushX p r = insert p r"
| "upd_exits Dis_EraseX p r = r - {p}"
| "upd_exits _ p r = r"

fun upd_entries :: "stage \<Rightarrow> addr \<times> addr \<Rightarrow> (addr \<times> addr) set \<Rightarrow> (addr \<times> addr) set" where
  "upd_entries Con_PushE p r = insert p r"
| "upd_entries Dis_EraseE p r = r - {p}"
| "upd_entries _ p r = r"

fun next_pc :: "stage \<Rightarrow> addr \<Rightarrow> addr \<Rightarrow> bool \<Rightarrow> pc" where
  "next_pc Chk_Lock u v b = At Chk_Loop u v"
| "next_pc Chk_Loop u v b = At (Chk_Unlock b) u v"
| "next_pc (Chk_Unlock res) u v b = (if \<not> res then At Con_LockX u v else Idle)"
| "next_pc Con_LockX u v b = At Con_LockE u v"
| "next_pc Con_LockE u v b = At Con_PushX u v"
| "next_pc Con_PushX u v b = At Con_PushE u v"
| "next_pc Con_PushE u v b = At Con_UnlockE u v"
| "next_pc Con_UnlockE u v b = At Con_UnlockX u v"
| "next_pc Con_UnlockX u v b = Idle"
| "next_pc Dis_LockX u v b = At Dis_EraseX u v"
| "next_pc Dis_EraseX u v b = At Dis_UnlockX u v"
| "next_pc Dis_UnlockX u v b = At Dis_LockE u v"
| "next_pc Dis_LockE u v b = At Dis_EraseE u v"
| "next_pc Dis_EraseE u v b = At Dis_UnlockE u v"
| "next_pc Dis_UnlockE u v b = Idle"

lemma push_exit_view:
  assumes "push_exit u v h = Some h'" and "shape_ok h" and "(u, v) \<notin> edge_rel h"
  shows "shape_ok h' \<and> edge_rel h' = insert (u, v) (edge_rel h) \<and> entry_rel h' = entry_rel h"
proof -
  obtain n where n: "h u = Some n" "h' = h(u \<mapsto> n\<lparr>n_exitEdges := n_exitEdges n @ [new_Edge u v]\<rparr>)"
    using assms(1) by (auto simp: push_exit_def opt_simps)
  have su: "succs h' w = (if w = u then succs h u @ [v] else succs h w)" and pr: "preds h' w = preds h w" for w
    using n by (auto simp: succs_def preds_def new_Edge_def)
  have "own_heap h'" using n assms(2) own_heapD [of h u n] unfolding shape_ok_def
    by (auto simp: own_edges_def new_Edge_def intro!: own_heap_upd)
  moreover have "finite (dom h')" using n assms(2) by (simp add: shape_ok_def)
  moreover have "distinct (succs h' w)" for w
    using assms(2,3) by (auto simp: su shape_ok_def edge_rel_def)
  moreover have "edge_rel h' = insert (u, v) (edge_rel h)"
    by (auto simp: edge_rel_def su split: if_splits)
  ultimately show ?thesis using assms(2) by (simp add: shape_ok_def pr entry_rel_def)
qed

lemma push_entry_view:
  assumes "push_entry u v h = Some h'" and "shape_ok h" and "(u, v) \<notin> entry_rel h"
  shows "shape_ok h' \<and> edge_rel h' = edge_rel h \<and> entry_rel h' = insert (u, v) (entry_rel h)"
proof -
  obtain n where n: "h v = Some n" "h' = h(v \<mapsto> n\<lparr>n_entryEdges := n_entryEdges n @ [new_Edge u v]\<rparr>)"
    using assms(1) by (auto simp: push_entry_def opt_simps)
  have pr: "preds h' w = (if w = v then preds h v @ [u] else preds h w)" and su: "succs h' w = succs h w" for w
    using n by (auto simp: succs_def preds_def new_Edge_def)
  have "own_heap h'" using n assms(2) own_heapD [of h v n] unfolding shape_ok_def
    by (auto simp: own_edges_def new_Edge_def intro!: own_heap_upd)
  moreover have "finite (dom h')" using n assms(2) by (simp add: shape_ok_def)
  moreover have "distinct (preds h' w)" for w
    using assms(2,3) by (auto simp: pr shape_ok_def entry_rel_def)
  moreover have "entry_rel h' = insert (u, v) (entry_rel h)"
    by (auto simp: entry_rel_def pr split: if_splits)
  ultimately show ?thesis using assms(2) by (simp add: shape_ok_def su edge_rel_def)
qed

lemma erase_exit_view:
  assumes "erase_exit u v h = Some h'" and "shape_ok h"
  shows "shape_ok h' \<and> edge_rel h' = edge_rel h - {(u, v)} \<and> entry_rel h' = entry_rel h"
proof -
  obtain n where n: "h u = Some n"
      "h' = h(u \<mapsto> n\<lparr>n_exitEdges := erase_first (\<lambda>e. getTarget e = v) (n_exitEdges n)\<rparr>)"
    using assms(1) by (auto simp: erase_exit_def opt_simps)
  have d: "distinct (succs h w)" for w using assms(2) by (simp add: shape_ok_def)
  have su: "succs h' w = (if w = u then removeAll v (succs h u) else succs h w)" and pr: "preds h' w = preds h w" for w
    using n d [of u] by (auto simp: succs_def preds_def map_erase_first_key)
  have "own_heap h'" using n assms(2) own_heapD [of h u n] set_erase_first_subset unfolding shape_ok_def
    by (fastforce simp: own_edges_def intro!: own_heap_upd)
  moreover have "finite (dom h')" using n assms(2) by (simp add: shape_ok_def)
  moreover have "edge_rel h' = edge_rel h - {(u, v)}"
    by (auto simp: edge_rel_def su split: if_splits)
  ultimately show ?thesis using assms(2)
    by (simp add: shape_ok_def su pr entry_rel_def distinct_removeAll)
qed

lemma erase_entry_view:
  assumes "erase_entry u v h = Some h'" and "shape_ok h"
  shows "shape_ok h' \<and> edge_rel h' = edge_rel h \<and> entry_rel h' = entry_rel h - {(u, v)}"
proof -
  obtain n where n: "h v = Some n"
      "h' = h(v \<mapsto> n\<lparr>n_entryEdges := erase_first (\<lambda>e. getSource e = u) (n_entryEdges n)\<rparr>)"
    using assms(1) by (auto simp: erase_entry_def opt_simps)
  have d: "distinct (preds h w)" for w using assms(2) by (simp add: shape_ok_def)
  have pr: "preds h' w = (if w = v then removeAll u (preds h v) else preds h w)" and su: "succs h' w = succs h w" for w
    using n d [of v] by (auto simp: succs_def preds_def map_erase_first_key)
  have "own_heap h'" using n assms(2) own_heapD [of h v n] set_erase_first_subset unfolding shape_ok_def
    by (fastforce simp: own_edges_def intro!: own_heap_upd)
  moreover have "finite (dom h')" using n assms(2) by (simp add: shape_ok_def)
  moreover have "entry_rel h' = entry_rel h - {(u, v)}"
    by (auto simp: entry_rel_def pr split: if_splits)
  ultimately show ?thesis using assms(2)
    by (simp add: shape_ok_def su pr edge_rel_def distinct_removeAll)
qed

lemmas heap_views = push_exit_view push_entry_view erase_exit_view erase_entry_view

lemma step_at_view:
  assumes "step_at t st u v s = Moves s'" and "shape_ok (c_heap s)"
    and "st = Con_PushX \<Longrightarrow> (u, v) \<notin> edge_rel (c_heap s)"
    and "st = Con_PushE \<Longrightarrow> (u, v) \<notin> entry_rel (c_heap s)"
  shows "c_workers s' = (c_workers s)[t := (c_workers s ! t)\<lparr>w_pc := next_pc st u v ((u, v) \<in> edge_rel (c_heap s))\<rparr>]"
    and "shape_ok (c_heap s')"
    and "edge_rel (c_heap s') = upd_exits st (u, v) (edge_rel (c_heap s))"
    and "entry_rel (c_heap s') = upd_entries st (u, v) (entry_rel (c_heap s))"
proof -
  have con: "isConnectedWith u v (c_heap s) = Some b \<Longrightarrow> b = ((u, v) \<in> edge_rel (c_heap s))" for b
    using isConnectedWith_edge [of u "c_heap s" v] by (cases "c_heap s u") (auto simp: isConnectedWith_def)
  show "c_workers s' = (c_workers s)[t := (c_workers s ! t)\<lparr>w_pc := next_pc st u v ((u, v) \<in> edge_rel (c_heap s))\<rparr>]"
    using assms(1) by (cases st) (auto simp: step_defs goto_def dest: con split: option.splits if_splits)
  have "shape_ok (c_heap s') \<and> edge_rel (c_heap s') = upd_exits st (u, v) (edge_rel (c_heap s))
    \<and> entry_rel (c_heap s') = upd_entries st (u, v) (entry_rel (c_heap s))"
    using assms by (cases st) (auto simp: step_defs heap_views split: option.splits if_splits)
  then show "shape_ok (c_heap s')"
    and "edge_rel (c_heap s') = upd_exits st (u, v) (edge_rel (c_heap s))"
    and "entry_rel (c_heap s') = upd_entries st (u, v) (entry_rel (c_heap s))" by auto
qed


fun call_edges :: "edge_call \<Rightarrow> (addr \<times> addr) set \<Rightarrow> (addr \<times> addr) set" where
  "call_edges (Connect u v) r = insert (u, v) r"
| "call_edges (Disconnect u v) r = r - {(u, v)}"

text \<open>What the vectors hold of the pairs a thread works on, when \<open>r\<close> are the edges its completed
  calls have made, and what the thread has found out in its current call.\<close>

fun exits_view :: "pc \<Rightarrow> (addr \<times> addr) set \<Rightarrow> (addr \<times> addr) set" where
  "exits_view (At st u v) r =
     (if st \<in> {Con_PushE, Con_UnlockE, Con_UnlockX} then insert (u, v) r
      else if st \<in> {Dis_UnlockX, Dis_LockE, Dis_EraseE, Dis_UnlockE} then r - {(u, v)} else r)"
| "exits_view Idle r = r"

fun entries_view :: "pc \<Rightarrow> (addr \<times> addr) set \<Rightarrow> (addr \<times> addr) set" where
  "entries_view (At st u v) r =
     (if st \<in> {Con_UnlockE, Con_UnlockX} then insert (u, v) r
      else if st = Dis_UnlockE then r - {(u, v)} else r)"
| "entries_view Idle r = r"

fun checked :: "pc \<Rightarrow> (addr \<times> addr) set \<Rightarrow> bool" where
  "checked (At (Chk_Unlock res) u v) r \<longleftrightarrow> res = ((u, v) \<in> r)"
| "checked (At st u v) r \<longleftrightarrow> (connecting st \<and> st \<noteq> Chk_Lock \<and> st \<noteq> Chk_Loop \<longrightarrow> (u, v) \<notin> r)"
| "checked Idle r \<longleftrightarrow> True"

definition worker_inv :: "(addr \<times> addr) set \<Rightarrow> edge_call list \<Rightarrow> worker \<Rightarrow> (addr \<times> addr) set
    \<Rightarrow> (addr \<times> addr) set \<Rightarrow> bool" where
  "worker_inv r0 prog w X N \<longleftrightarrow> (\<exists>dn. prog = dn @ cur_call (w_pc w) @ w_todo w
     \<and> checked (w_pc w) (fold call_edges dn r0)
     \<and> (\<forall>p \<in> call_pair ` set prog. (p \<in> X \<longleftrightarrow> p \<in> exits_view (w_pc w) (fold call_edges dn r0))
          \<and> (p \<in> N \<longleftrightarrow> p \<in> entries_view (w_pc w) (fold call_edges dn r0))))"

lemma worker_inv_pair:
  assumes "worker_inv r0 prog w X N" and "w_pc w = At st u v"
  shows "(u, v) \<in> call_pair ` set prog"
    and "st = Con_PushX \<Longrightarrow> (u, v) \<notin> X" and "st = Con_PushE \<Longrightarrow> (u, v) \<notin> N"
proof -
  have c: "call_pair (if connecting st then Connect u v else Disconnect u v) = (u, v)" by simp
  then show p: "(u, v) \<in> call_pair ` set prog" using assms by (force simp: worker_inv_def)
  show "(u, v) \<notin> X" if "st = Con_PushX"
    using assms p that unfolding worker_inv_def by fastforce
  show "(u, v) \<notin> N" if "st = Con_PushE"
    using assms p that unfolding worker_inv_def by fastforce
qed

lemma worker_inv_enter:
  assumes "worker_inv r0 prog \<lparr>w_pc = Idle, w_todo = c # cs\<rparr> X N"
  shows "worker_inv r0 prog \<lparr>w_pc = enter_call c, w_todo = cs\<rparr> X N"
  using assms by (cases c) (simp_all add: worker_inv_def)

lemma worker_inv_next:
  assumes "worker_inv r0 prog w X N" and "w_pc w = At st u v"
  shows "worker_inv r0 prog (w\<lparr>w_pc := next_pc st u v ((u, v) \<in> X)\<rparr>)
    (upd_exits st (u, v) X) (upd_entries st (u, v) N)"
proof -
  let ?c = "if connecting st then Connect u v else Disconnect u v"
  obtain dn where a: "prog = dn @ cur_call (w_pc w) @ w_todo w" "checked (w_pc w) (fold call_edges dn r0)"
    "\<forall>p \<in> call_pair ` set prog. (p \<in> X \<longleftrightarrow> p \<in> exits_view (w_pc w) (fold call_edges dn r0))
      \<and> (p \<in> N \<longleftrightarrow> p \<in> entries_view (w_pc w) (fold call_edges dn r0))"
    using assms(1) unfolding worker_inv_def by blast
  have dn: "prog = dn @ ?c # w_todo w" "checked (At st u v) (fold call_edges dn r0)"
    using a(1,2) assms(2) by simp_all
  note view = a(3) [unfolded assms(2), rule_format]
  define r where "r = fold call_edges dn r0"
  note uv = view [OF worker_inv_pair(1) [OF assms], folded r_def]
  show ?thesis
  proof (cases "next_pc st u v ((u, v) \<in> X)")
    case Idle
    have "fold call_edges (dn @ [?c]) r0 = call_edges ?c r" by (simp add: r_def)
    then show ?thesis
      using Idle dn view unfolding worker_inv_def
      by (intro exI [of _ "dn @ [?c]"], cases st) (auto simp flip: r_def split: if_splits)
  next
    case (At st' u' v')
    then show ?thesis
      using dn view uv unfolding worker_inv_def
      by (intro exI [of _ dn], cases st) (auto simp flip: r_def split: if_splits)
  qed
qed

lemma worker_inv_frame:
  assumes "worker_inv r0 prog w X N" and "(u, v) \<notin> call_pair ` set prog"
  shows "worker_inv r0 prog w (upd_exits st (u, v) X) (upd_entries st (u, v) N)"
proof -
  have "p \<in> upd_exits st (u, v) X \<longleftrightarrow> p \<in> X" "p \<in> upd_entries st (u, v) N \<longleftrightarrow> p \<in> N"
    if "p \<in> call_pair ` set prog" for p
    using that assms(2) by (cases st; auto)+
  then show ?thesis using assms(1) by (simp add: worker_inv_def)
qed


definition separate :: "edge_call list list \<Rightarrow> bool" where
  "separate progs \<longleftrightarrow> (\<forall>i < length progs. \<forall>j < length progs.
     i \<noteq> j \<longrightarrow> call_pair ` set (progs ! i) \<inter> call_pair ` set (progs ! j) = {})"

definition edges_inv :: "(addr \<times> addr) set \<Rightarrow> edge_call list list \<Rightarrow> cgraph \<Rightarrow> bool" where
  "edges_inv r0 progs s \<longleftrightarrow> length (c_workers s) = length progs \<and> shape_ok (c_heap s)
     \<and> (\<forall>t < length progs.
          worker_inv r0 (progs ! t) (c_workers s ! t) (edge_rel (c_heap s)) (entry_rel (c_heap s)))
     \<and> (\<forall>p. (\<forall>cs \<in> set progs. p \<notin> call_pair ` set cs) \<longrightarrow>
          (p \<in> edge_rel (c_heap s) \<longleftrightarrow> p \<in> r0) \<and> (p \<in> entry_rel (c_heap s) \<longleftrightarrow> p \<in> r0))"

lemma edges_inv_untouched:
  "edges_inv r0 progs s \<Longrightarrow> \<forall>cs \<in> set progs. p \<notin> call_pair ` set cs \<Longrightarrow>
     (p \<in> edge_rel (c_heap s) \<longleftrightarrow> p \<in> r0) \<and> (p \<in> entry_rel (c_heap s) \<longleftrightarrow> p \<in> r0)"
  unfolding edges_inv_def by blast

lemma edges_inv_start:
  assumes "wf_heap h" shows "edges_inv (edge_rel h) progs (start_threads h progs)"
  using assms unfolding edges_inv_def worker_inv_def
  by (auto simp: start_threads_def wf_heap_views intro!: exI [of _ "[]"])

lemma edges_inv_step:
  assumes inv: "edges_inv r0 progs s" and sep: "separate progs" and step: "thread_step t s = Moves s'"
  shows "edges_inv r0 progs s'"
  using step
proof (cases rule: thread_step_cases)
  case (enter c cs)
  then show ?thesis using inv worker_inv_enter unfolding edges_inv_def
    by (auto simp: nth_list_update)
next
  case (continue st u v)
  have t: "t < length progs" "w_pc (c_workers s ! t) = At st u v"
    using continue inv by (auto simp: edges_inv_def pc_of_def)
  have w: "worker_inv r0 (progs ! t) (c_workers s ! t) (edge_rel (c_heap s)) (entry_rel (c_heap s))"
    and sh: "shape_ok (c_heap s)"
    using inv t(1) by (auto simp: edges_inv_def)
  note uv = worker_inv_pair [OF w t(2)]
  note view = step_at_view [OF continue(3) sh uv(2,3)]
  have "worker_inv r0 (progs ! i) (c_workers s' ! i) (edge_rel (c_heap s')) (entry_rel (c_heap s'))"
    if i: "i < length progs" for i
  proof (cases "i = t")
    case True
    then show ?thesis using worker_inv_next [OF w t(2)] view continue(1) by simp
  next
    case False
    then have "(u, v) \<notin> call_pair ` set (progs ! i)"
      using sep uv(1) i t(1) unfolding separate_def by blast
    then show ?thesis using worker_inv_frame inv i False view
      by (simp add: edges_inv_def)
  qed
  moreover have "(p \<in> edge_rel (c_heap s') \<longleftrightarrow> p \<in> r0) \<and> (p \<in> entry_rel (c_heap s') \<longleftrightarrow> p \<in> r0)"
    if "\<forall>cs \<in> set progs. p \<notin> call_pair ` set cs" for p
  proof -
    have "p \<noteq> (u, v)" using that uv(1) t(1) nth_mem by blast
    then show ?thesis using edges_inv_untouched [OF inv that] view(3,4) by (cases st) auto
  qed
  ultimately show ?thesis using inv view(1,2) by (simp add: edges_inv_def)
qed

lemma fold_call_edges_local:
  "(p \<in> r \<longleftrightarrow> p \<in> r') \<Longrightarrow> p \<in> fold call_edges cs r \<longleftrightarrow> p \<in> fold call_edges cs r'"
proof (induction cs arbitrary: r r')
  case (Cons c cs)
  then show ?case by (cases c) (auto intro!: Cons.IH)
qed simp

lemma fold_call_edges_other:
  "p \<notin> call_pair ` set cs \<Longrightarrow> p \<in> fold call_edges cs r \<longleftrightarrow> p \<in> r"
proof (induction cs arbitrary: r)
  case (Cons c cs)
  then show ?case by (cases c) auto
qed simp

lemma fold_call_edges_concat:
  assumes "separate progs" and "t < length progs" and "p \<in> call_pair ` set (progs ! t)"
  shows "p \<in> fold call_edges (concat progs) r \<longleftrightarrow> p \<in> fold call_edges (progs ! t) r"
proof -
  have other: "p \<notin> call_pair ` set (progs ! i)" if "i < length progs" "i \<noteq> t" for i
    using assms that unfolding separate_def by blast
  have "p \<notin> call_pair ` set cs" if cs: "cs \<in> set (take t progs)" for cs
  proof -
    obtain i where "i < t" "cs = progs ! i"
      using cs by (auto simp: in_set_conv_nth)
    then show ?thesis using other [of i] assms(2) by simp
  qed
  then have a: "p \<notin> call_pair ` set (concat (take t progs))" by auto
  have "p \<notin> call_pair ` set cs" if cs: "cs \<in> set (drop (Suc t) progs)" for cs
  proof -
    obtain i where "i < length progs - Suc t" "cs = progs ! (Suc t + i)"
      using cs by (auto simp: in_set_conv_nth)
    then show ?thesis using other [of "Suc t + i"] by simp
  qed
  then have b: "p \<notin> call_pair ` set (concat (drop (Suc t) progs))" by auto
  have "concat progs = concat (take t progs) @ progs ! t @ concat (drop (Suc t) progs)"
    using id_take_nth_drop [OF assms(2)] by (metis concat.simps(2) concat_append)
  then have "p \<in> fold call_edges (concat progs) r
      \<longleftrightarrow> p \<in> fold call_edges (progs ! t) (fold call_edges (concat (take t progs)) r)"
    using fold_call_edges_other [OF b] by simp
  also have "\<dots> \<longleftrightarrow> p \<in> fold call_edges (progs ! t) r"
    by (rule fold_call_edges_local) (rule fold_call_edges_other [OF a])
  finally show ?thesis .
qed

lemma edges_inv_finished:
  assumes inv: "edges_inv r0 progs s" and sep: "separate progs" and fin: "all_finished s"
  shows "wf_heap (c_heap s)" and "edge_rel (c_heap s) = fold call_edges (concat progs) r0"
proof -
  have "(p \<in> edge_rel (c_heap s) \<longleftrightarrow> p \<in> fold call_edges (concat progs) r0)
      \<and> (p \<in> entry_rel (c_heap s) \<longleftrightarrow> p \<in> fold call_edges (concat progs) r0)" for p
  proof (cases "\<exists>t < length progs. p \<in> call_pair ` set (progs ! t)")
    case True
    then obtain t where t: "t < length progs" "p \<in> call_pair ` set (progs ! t)" by blast
    moreover have "w_pc (c_workers s ! t) = Idle \<and> w_todo (c_workers s ! t) = []"
      using fin inv t(1) by (simp add: all_finished_def list_all_length edges_inv_def)
    ultimately have "(p \<in> edge_rel (c_heap s) \<longleftrightarrow> p \<in> fold call_edges (progs ! t) r0)
        \<and> (p \<in> entry_rel (c_heap s) \<longleftrightarrow> p \<in> fold call_edges (progs ! t) r0)"
      using inv unfolding edges_inv_def worker_inv_def by fastforce
    then show ?thesis using fold_call_edges_concat [OF sep t] by simp
  next
    case False
    then have no: "\<forall>cs \<in> set progs. p \<notin> call_pair ` set cs" by (metis in_set_conv_nth)
    then have "p \<notin> call_pair ` set (concat progs)" by auto
    then show ?thesis using edges_inv_untouched [OF inv no] fold_call_edges_other by blast
  qed
  then show "edge_rel (c_heap s) = fold call_edges (concat progs) r0" and "wf_heap (c_heap s)"
    using inv by (auto simp: wf_heap_views edges_inv_def)
qed

lemma run_calls:
  assumes "wf_heap h" and "call_pair ` set cs \<subseteq> dom h \<times> dom h"
  shows "\<exists>h'. foldM run_call cs h = Some h' \<and> wf_heap h' \<and> edge_rel h' = fold call_edges cs (edge_rel h)"
  using assms
proof (induction cs arbitrary: h)
  case (Cons c cs)
  obtain h1 where h1: "run_call c h = Some h1" "wf_heap h1" "dom h1 = dom h"
      "edge_rel h1 = call_edges c (edge_rel h)"
  proof (cases c)
    case (Connect u v)
    then show ?thesis using that hg.connect_ok [OF Cons.prems(1), of u v] Cons.prems(2) by auto
  next
    case (Disconnect u v)
    then show ?thesis using that hg.disconnect_ok [OF Cons.prems(1), of u v] Cons.prems(2) by auto
  qed
  with Cons.IH [of h1] Cons.prems show ?case by auto
qed simp


section \<open>Properties\<close>

lemma start_ok:
  assumes "\<forall>cs \<in> set progs. call_pair ` set cs \<subseteq> dom h \<times> dom h"
  shows "locks_ok (start_threads h progs)" and "nodes_ok (start_threads h progs)"
    and "work_left (start_threads h progs) = 10 * sum_list (map length progs)"
proof -
  have "pc_of (start_threads h progs) = (\<lambda>_. Idle)" by (simp add: start_threads_def pc_of_def fun_eq_iff)
  then show "locks_ok (start_threads h progs)"
    by (simp add: locks_ok_def lock_table_def start_threads_def)
  show "nodes_ok (start_threads h progs)"
    using assms by (fastforce simp: start_threads_def nodes_ok_def)
  show "work_left (start_threads h progs) = 10 * sum_list (map length progs)"
    by (simp add: work_left_def start_threads_def o_def sum_list_const_mult)
qed

lemma run_locks_nodes:
  assumes "\<forall>cs \<in> set progs. call_pair ` set cs \<subseteq> dom h \<times> dom h"
    and "run_schedule ts (start_threads h progs) = Some s"
  shows "locks_ok s \<and> nodes_ok s"
  using assms(2)
proof (rule run_schedule_invariant)
  show "locks_ok (start_threads h progs) \<and> nodes_ok (start_threads h progs)"
    using start_ok [OF assms(1)] by simp
qed (auto intro: locks_ok_step nodes_ok_step)

lemma run_to_end:
  "locks_ok s \<Longrightarrow> nodes_ok s \<Longrightarrow> \<exists>ts s'. run_schedule ts s = Some s' \<and> all_finished s'"
proof (induction "work_left s" arbitrary: s rule: less_induct)
  case less
  show ?case
  proof (cases "all_finished s")
    case True
    then show ?thesis by (intro exI [of _ "[]"]) auto
  next
    case False
    obtain t s1 where s1: "thread_step t s = Moves s1" using no_deadlock [OF less.prems False] by blast
    obtain ts s' where "run_schedule ts s1 = Some s'" "all_finished s'"
      using less.hyps [OF work_left_step [OF s1] locks_ok_step [OF less.prems(1) s1]
          nodes_ok_step [OF less.prems(2) s1]] by blast
    with s1 show ?thesis by (intro exI [of _ "t # ts"]) auto
  qed
qed

text \<open>C12. Threads that call \<open>connectNodes\<close> and \<open>disconnectNodes\<close> at the same time, each on pairs of
  nodes no other thread works on, are serialisable: whatever the schedule, when all calls have
  returned every mutex is free, the graph is well formed (no edge twice, exits and entries agree),
  and its edges are those the same calls give when they run uninterrupted, one thread after the
  other.\<close>

theorem concurrent_calls_serialise:
  assumes "wf_heap h" and "\<forall>cs \<in> set progs. call_pair ` set cs \<subseteq> dom h \<times> dom h"
    and "separate progs" and "run_schedule ts (start_threads h progs) = Some s" and "all_finished s"
  shows "wf_heap (c_heap s) \<and> (\<forall>a. c_exits s a = None \<and> c_entries s a = None)
    \<and> (\<exists>h'. foldM run_call (concat progs) h = Some h' \<and> edge_rel (c_heap s) = edge_rel h')"
proof -
  have inv: "edges_inv (edge_rel h) progs s"
    using assms(4) by (rule run_schedule_invariant)
      (use edges_inv_start [OF assms(1)] edges_inv_step assms(3) in auto)
  have "pc_of s t = Idle" for t
    using assms(5) by (auto simp: pc_of_def all_finished_def list_all_length)
  then have "c_exits s a = None \<and> c_entries s a = None" for a
    using run_locks_nodes [OF assms(2,4)] unfolding locks_ok_def lock_table_def
    by (metis comp_apply entries_of.simps(1) exits_of.simps(1) not_Some_eq)
  moreover have "call_pair ` set (concat progs) \<subseteq> dom h \<times> dom h" using assms(2) by auto
  ultimately show ?thesis
    using edges_inv_finished [OF inv assms(3,5)] run_calls [OF assms(1), of "concat progs"] by auto
qed

definition sample_calls :: "edge_call list list" where
  "sample_calls = [[Connect 1 2], [Connect 0 1, Disconnect 0 2]]"

definition sample_schedule :: "nat list" where
  "sample_schedule = [1, 1, 0, 0, 1, 1, 0, 0, 1, 1, 0, 0, 0, 1, 1, 0, 0, 1, 1, 1, 0]"


lemmas run_eval = start_threads_def thread_step_def step_defs goto_def isConnectedWith_def
  push_exit_def push_entry_def erase_exit_def erase_entry_def upd_node_def new_Edge_def
  all_finished_def sample_graph_def new_Node_def setThreadId_def setLoopCounter_def

lemma sample_schedule_runs:
  "\<exists>s. run_schedule sample_schedule (start_threads (g_heap sample_graph) sample_calls) = Some s
     \<and> all_finished s \<and> succs (c_heap s) 0 = [1] \<and> succs (c_heap s) 1 = [2]"
  by (simp add: sample_schedule_def sample_calls_def run_eval succs_def)

lemma sample_calls_ok:
  "separate sample_calls"
  "\<forall>cs \<in> set sample_calls. call_pair ` set cs \<subseteq> dom (g_heap sample_graph) \<times> dom (g_heap sample_graph)"
  by (simp_all add: sample_calls_def separate_def sample_dom less_Suc_eq numeral_2_eq_2)

theorem concurrent_calls_serialise_witness:
  "\<exists>s. run_schedule sample_schedule (start_threads (g_heap sample_graph) sample_calls) = Some s
     \<and> wf_heap (c_heap s)
     \<and> (\<exists>h'. foldM run_call (concat sample_calls) (g_heap sample_graph) = Some h'
          \<and> edge_rel (c_heap s) = edge_rel h')"
  using sample_schedule_runs concurrent_calls_serialise [OF wf_sample_heap sample_calls_ok(2,1)]
  by blast

text \<open>C13. Concurrent calls neither deadlock nor run forever, whatever nodes they work on: a schedule
  has at most ten steps per call, no thread follows a bad pointer, and after any number of steps
  the calls can be completed.\<close>

theorem concurrent_calls_finish:
  assumes "\<forall>cs \<in> set progs. call_pair ` set cs \<subseteq> dom h \<times> dom h"
    and "run_schedule ts (start_threads h progs) = Some s"
  shows "length ts \<le> 10 * sum_list (map length progs) \<and> (\<forall>t. thread_step t s \<noteq> Faults)
    \<and> (\<exists>ts' s'. run_schedule (ts @ ts') (start_threads h progs) = Some s' \<and> all_finished s')"
proof (intro conjI allI)
  note ok = run_locks_nodes [OF assms, THEN conjunct1] run_locks_nodes [OF assms, THEN conjunct2]
  show "length ts \<le> 10 * sum_list (map length progs)"
    using work_left_run [OF assms(2)] start_ok(3) [OF assms(1)] by simp
  show "thread_step t s \<noteq> Faults" for t
  proof (cases "\<exists>s'. thread_step t s = Moves s'")
    case False
    then show ?thesis by (cases rule: thread_step_stuck [OF ok(2)]) auto
  qed auto
  show "\<exists>ts' s'. run_schedule (ts @ ts') (start_threads h progs) = Some s' \<and> all_finished s'"
    using run_to_end [OF ok] assms(2) by (simp add: run_schedule_append)
qed

theorem concurrent_calls_finish_witness:
  "\<exists>ts' s'. run_schedule ([0, 0, 1, 1] @ ts') (start_threads (g_heap sample_graph) sample_calls) = Some s'
     \<and> all_finished s'"
proof -
  have "\<exists>s. run_schedule [0, 0, 1, 1] (start_threads (g_heap sample_graph) sample_calls) = Some s"
    by (simp add: sample_calls_def run_eval)
  then show ?thesis using concurrent_calls_finish [OF sample_calls_ok(2)] by blast
qed

text \<open>The positions at which a thread reads or writes the exits of the source, or the entries of the
  target, of its call.\<close>

definition touches_exits :: "stage \<Rightarrow> bool" where
  "touches_exits st = (st \<in> {Chk_Loop, Con_PushX, Dis_EraseX})"

definition touches_entries :: "stage \<Rightarrow> bool" where
  "touches_entries st = (st \<in> {Con_PushE, Dis_EraseE})"

text \<open>C33. The accesses to the edge vectors of a node exclude each other: at any moment of any
  schedule at most one thread is about to read or write the exits of a node, and at most one its
  entries.\<close>

theorem edge_vectors_exclusive:
  assumes "\<forall>cs \<in> set progs. call_pair ` set cs \<subseteq> dom h \<times> dom h"
    and "run_schedule ts (start_threads h progs) = Some s"
  shows "(pc_of s t = At st u v \<and> pc_of s t' = At st' u v' \<and> touches_exits st \<and> touches_exits st' \<longrightarrow> t = t')
    \<and> (pc_of s t = At st u v \<and> pc_of s t' = At st' u' v \<and> touches_entries st \<and> touches_entries st' \<longrightarrow> t = t')"
proof -
  have tab: "lock_table (c_exits s) (exits_of \<circ> pc_of s)" "lock_table (c_entries s) (entries_of \<circ> pc_of s)"
    using run_locks_nodes [OF assms] by (auto simp: locks_ok_def)
  note ex = lock_tableD [OF tab(1), of u] and en = lock_tableD [OF tab(2), of v]
  show ?thesis
    using ex [of t] ex [of t'] en [of t] en [of t']
    by (auto simp: touches_exits_def touches_entries_def)
qed

theorem edge_vectors_exclusive_witness:
  "\<exists>s. run_schedule [0, 0, 1, 1] (start_threads (g_heap sample_graph) sample_calls) = Some s
     \<and> pc_of s 0 = At Chk_Loop 1 2 \<and> touches_exits Chk_Loop
     \<and> (\<forall>t v. pc_of s t = At Chk_Loop 1 v \<longrightarrow> t = 0)"
proof -
  have "\<exists>s. run_schedule [0, 0, 1, 1] (start_threads (g_heap sample_graph) sample_calls) = Some s
      \<and> pc_of s 0 = At Chk_Loop 1 2"
    by (simp add: sample_calls_def run_eval pc_of_def)
  then obtain s where s: "run_schedule [0, 0, 1, 1] (start_threads (g_heap sample_graph) sample_calls) = Some s"
      "pc_of s 0 = At Chk_Loop 1 2" by blast
  then show ?thesis
    using edge_vectors_exclusive [OF sample_calls_ok(2) s(1), where t = 0 and u = 1 and st = Chk_Loop]
    by (metis insert_iff touches_exits_def)
qed

section \<open>The same pair\<close>

text \<open>Threads that all connect the same pair, first up to the end of the check, then through the insertion.\<close>

definition racing_calls :: "nat \<Rightarrow> addr \<Rightarrow> addr \<Rightarrow> edge_call list list" where
  "racing_calls n u v = replicate n [Connect u v]"

abbreviation fresh_worker :: "addr \<Rightarrow> addr \<Rightarrow> worker" where
  "fresh_worker u v \<equiv> \<lparr>w_pc = Idle, w_todo = [Connect u v]\<rparr>"

abbreviation checked_worker :: "addr \<Rightarrow> addr \<Rightarrow> worker" where
  "checked_worker u v \<equiv> \<lparr>w_pc = At Con_LockX u v, w_todo = []\<rparr>"

abbreviation done_worker :: worker where
  "done_worker \<equiv> \<lparr>w_pc = Idle, w_todo = []\<rparr>"

definition racing :: "heap \<Rightarrow> worker list \<Rightarrow> cgraph" where
  "racing h ws = \<lparr>c_heap = h, c_exits = (\<lambda>_. None), c_entries = (\<lambda>_. None), c_workers = ws\<rparr>"

lemma check_alone:
  assumes "u \<in> dom h" and "(u, v) \<notin> edge_rel h" and "t < length ws" and "ws ! t = fresh_worker u v"
  shows "run_schedule (replicate 4 t) (racing h ws) = Some (racing h (ws[t := checked_worker u v]))"
  using assms isConnectedWith_edge [OF assms(1), of v]
  by (auto simp: racing_def numeral_eq_Suc thread_step_def step_defs goto_def)

lemma insert_alone:
  assumes "push_exit u v h = Some h1" and "push_entry u v h1 = Some h2" and "t < length ws"
    and "ws ! t = checked_worker u v"
  shows "run_schedule (replicate 6 t) (racing h ws) = Some (racing h2 (ws[t := done_worker]))"
proof -
  obtain n m where "h u = Some n" "h1 v = Some m" "h1 = h(u \<mapsto> n\<lparr>n_exitEdges := n_exitEdges n @ [new_Edge u v]\<rparr>)"
      "h2 = h1(v \<mapsto> m\<lparr>n_entryEdges := n_entryEdges m @ [new_Edge u v]\<rparr>)"
    using assms(1,2) by (auto simp: push_exit_def push_entry_def opt_simps)
  moreover from this have "\<exists>m'. h v = Some m'" "\<exists>n'. h2 u = Some n'" "\<exists>m'. h2 v = Some m'" by (auto split: if_splits)
  ultimately show ?thesis
    using assms by (auto simp: racing_def numeral_eq_Suc thread_step_def step_defs goto_def)
qed

text \<open>One more edge, whether or not there is one already.\<close>

lemma insert_again:
  assumes "u \<in> dom h" and "v \<in> dom h"
  obtains h1 h2 where "push_exit u v h = Some h1" "push_entry u v h1 = Some h2" "dom h2 = dom h"
    "succs h2 = (succs h)(u := succs h u @ [v])" "preds h2 = (preds h)(v := preds h v @ [u])"
proof -
  obtain n where n: "h u = Some n" using assms(1) by blast
  define h1 where "h1 = h(u \<mapsto> n\<lparr>n_exitEdges := n_exitEdges n @ [new_Edge u v]\<rparr>)"
  have "v \<in> dom h1" using assms(2) by (simp add: h1_def)
  then obtain m where m: "h1 v = Some m" by blast
  show ?thesis
  proof (rule that)
    show "push_exit u v h = Some h1" using n by (simp add: push_exit_def upd_node_def h1_def)
    show "push_entry u v h1 = Some (h1(v \<mapsto> m\<lparr>n_entryEdges := n_entryEdges m @ [new_Edge u v]\<rparr>))"
      using m by (simp add: push_entry_def upd_node_def)
  qed (use n m in \<open>auto simp: h1_def succs_def preds_def new_Edge_def fun_eq_iff split: if_splits\<close>)
qed

lemma replicate_front:
  assumes "k < n"
  shows "(replicate k x @ replicate (n - k) y)[k := x] = replicate (Suc k) x @ replicate (n - Suc k) y"
    and "(replicate k x @ replicate (n - k) y) ! k = y"
proof -
  have "replicate (n - k) y = y # replicate (n - Suc k) y" using assms by (metis Suc_diff_Suc replicate_Suc)
  then show "(replicate k x @ replicate (n - k) y)[k := x] = replicate (Suc k) x @ replicate (n - Suc k) y"
    and "(replicate k x @ replicate (n - k) y) ! k = y"
    by (simp_all add: list_update_append nth_append replicate_app_Cons_same)
qed

lemma check_all:
  assumes "u \<in> dom h" and "(u, v) \<notin> edge_rel h" and "k \<le> n"
  shows "run_schedule (concat (map (replicate 4) [0..<k])) (racing h (replicate n (fresh_worker u v)))
    = Some (racing h (replicate k (checked_worker u v) @ replicate (n - k) (fresh_worker u v)))"
  using assms(3)
proof (induction k)
  case (Suc k)
  let ?ws = "replicate k (checked_worker u v) @ replicate (n - k) (fresh_worker u v)"
  have k: "k < n" using Suc.prems by simp
  have "run_schedule (replicate 4 k) (racing h ?ws) = Some (racing h (?ws[k := checked_worker u v]))"
    using k by (intro check_alone [OF assms(1,2)] replicate_front(2)) simp_all
  then show ?case
    using Suc.IH k unfolding replicate_front(1) [OF k] by (simp add: run_schedule_append)
qed simp

lemma insert_all:
  assumes "u \<in> dom h" and "v \<in> dom h" and "k \<le> n"
  shows "\<exists>h'. run_schedule (concat (map (replicate 6) [0..<k])) (racing h (replicate n (checked_worker u v)))
      = Some (racing h' (replicate k done_worker @ replicate (n - k) (checked_worker u v)))
    \<and> dom h' = dom h \<and> succs h' = (succs h)(u := succs h u @ replicate k v) \<and> preds h' = (preds h)(v := preds h v @ replicate k u)"
  using assms(3)
proof (induction k)
  case (Suc k)
  let ?ws = "replicate k done_worker @ replicate (n - k) (checked_worker u v)"
  obtain h' where h': "run_schedule (concat (map (replicate 6) [0..<k])) (racing h (replicate n (checked_worker u v)))
        = Some (racing h' ?ws)" "dom h' = dom h" "succs h' = (succs h)(u := succs h u @ replicate k v)"
      "preds h' = (preds h)(v := preds h v @ replicate k u)"
    using Suc.IH [OF Suc_leD [OF Suc.prems]] by blast
  obtain h1 h2 where h2: "push_exit u v h' = Some h1" "push_entry u v h1 = Some h2" "dom h2 = dom h'"
      "succs h2 = (succs h')(u := succs h' u @ [v])" "preds h2 = (preds h')(v := preds h' v @ [u])"
    using insert_again [of u h' v] assms(1,2) h'(2) by metis
  have k: "k < n" using Suc.prems by simp
  have "run_schedule (replicate 6 k) (racing h' ?ws) = Some (racing h2 (?ws[k := done_worker]))"
    using k by (intro insert_alone [OF h2(1,2)] replicate_front(2)) simp_all
  then have "run_schedule (concat (map (replicate 6) [0..<Suc k])) (racing h (replicate n (checked_worker u v)))
      = Some (racing h2 (replicate (Suc k) done_worker @ replicate (n - Suc k) (checked_worker u v)))"
    using h'(1) unfolding replicate_front(1) [OF k] by (simp add: run_schedule_append)
  then show ?case
    using h'(2-4) h2(3-5) by (intro exI [of _ h2]) (simp add: replicate_append_same)
qed (intro exI [of _ h], simp)

text \<open>The calls one after the other insert the edge once.\<close>

lemma connect_repeated:
  assumes "wf_heap h" and "u \<in> dom h" and "v \<in> dom h"
  shows "\<exists>h'. foldM run_call (replicate (Suc n) (Connect u v)) h = Some h' \<and> wf_heap h' \<and> edge_rel h' = insert (u, v) (edge_rel h)"
proof -
  obtain h' where h': "connectNodes u v h = Some h'" "wf_heap h'" "dom h' = dom h" "edge_rel h' = insert (u, v) (edge_rel h)"
    using hg.connect_ok [OF assms] by blast
  then have "isConnectedWith u v h' = Some True" using isConnectedWith_edge [of u h' v] assms(2) by simp
  then have "connectNodes u v h' = Some h'" by (simp add: connectNodes_def)
  then have "foldM run_call (replicate n (Connect u v)) h' = Some h'" by (induction n) simp_all
  then show ?thesis using h' by simp
qed

text \<open>C38. The check and the insertion of \<open>connectNodes\<close> are not one critical section: on every graph and for every
  pair of its nodes without an edge, any number of threads that connect the pair can all find it
  unconnected and all insert the edge.  The vectors of the two nodes then hold it once per thread, the others are
  as they were, and the graph is not well formed when there is more than one thread; the same calls without
  interruption insert the edge once.\<close>

theorem same_pair_race:
  assumes "wf_heap h" and "u \<in> dom h" and "v \<in> dom h" and "(u, v) \<notin> edge_rel h" and "1 < n"
  shows "(\<exists>ts s. run_schedule ts (start_threads h (racing_calls n u v)) = Some s \<and> all_finished s
      \<and> succs (c_heap s) = (succs h)(u := succs h u @ replicate n v)
      \<and> preds (c_heap s) = (preds h)(v := preds h v @ replicate n u) \<and> \<not> wf_heap (c_heap s))
    \<and> (\<exists>h'. foldM run_call (concat (racing_calls n u v)) h = Some h' \<and> wf_heap h' \<and> edge_rel h' = insert (u, v) (edge_rel h))"
proof
  obtain h' where h': "run_schedule (concat (map (replicate 6) [0..<n])) (racing h (replicate n (checked_worker u v)))
        = Some (racing h' (replicate n done_worker))"
      "succs h' = (succs h)(u := succs h u @ replicate n v)" "preds h' = (preds h)(v := preds h v @ replicate n u)"
    using insert_all [OF assms(2,3), of n n] by auto
  have "start_threads h (racing_calls n u v) = racing h (replicate n (fresh_worker u v))"
    by (simp add: start_threads_def racing_calls_def racing_def)
  then have "run_schedule (concat (map (replicate 4) [0..<n]) @ concat (map (replicate 6) [0..<n]))
      (start_threads h (racing_calls n u v)) = Some (racing h' (replicate n done_worker))"
    using check_all [OF assms(2,4), of n n] h'(1) by (simp add: run_schedule_append)
  moreover obtain m where "n = Suc (Suc m)" using less_imp_Suc_add [OF assms(5)] by auto
  then have "\<not> distinct (succs h' u)" using h'(2) by simp
  then have "\<not> wf_heap h'" using wf_heapD(2) by blast
  moreover have "all_finished (racing h' (replicate n done_worker))"
    by (simp add: all_finished_def racing_def list_all_iff)
  ultimately show "\<exists>ts s. run_schedule ts (start_threads h (racing_calls n u v)) = Some s \<and> all_finished s
      \<and> succs (c_heap s) = (succs h)(u := succs h u @ replicate n v)
      \<and> preds (c_heap s) = (preds h)(v := preds h v @ replicate n u) \<and> \<not> wf_heap (c_heap s)"
    using h'(2,3) by (intro exI [of _ "concat (map (replicate 4) [0..<n]) @ concat (map (replicate 6) [0..<n])"]
        exI [of _ "racing h' (replicate n done_worker)"]) (simp add: racing_def)
  obtain n' where "n = Suc n'" using assms(5) by (cases n) auto
  moreover have "concat (racing_calls k u v) = replicate k (Connect u v)" for k
    by (induction k) (simp_all add: racing_calls_def)
  ultimately show "\<exists>h'. foldM run_call (concat (racing_calls n u v)) h = Some h' \<and> wf_heap h' \<and> edge_rel h' = insert (u, v) (edge_rel h)"
    using connect_repeated [OF assms(1-3), of n'] by simp
qed

theorem same_pair_race_witness:
  "\<exists>ts s. run_schedule ts (start_threads (g_heap sample_graph) (racing_calls 2 1 2)) = Some s \<and> all_finished s
     \<and> succs (c_heap s) 1 = [2, 2] \<and> preds (c_heap s) 2 = [0, 1, 1] \<and> \<not> wf_heap (c_heap s)"
proof -
  have "1 \<in> dom (g_heap sample_graph)" "2 \<in> dom (g_heap sample_graph)" "(1, 2) \<notin> edge_rel (g_heap sample_graph)"
    by (simp_all add: sample_dom edge_rel_def sample_succs)
  from conjunct1 [OF same_pair_race [OF wf_sample_heap this, of 2]] obtain ts s where
    "run_schedule ts (start_threads (g_heap sample_graph) (racing_calls 2 1 2)) = Some s" "all_finished s"
    "succs (c_heap s) = (succs (g_heap sample_graph))(1 := succs (g_heap sample_graph) 1 @ replicate 2 2)"
    "preds (c_heap s) = (preds (g_heap sample_graph))(2 := preds (g_heap sample_graph) 2 @ replicate 2 1)"
    "\<not> wf_heap (c_heap s)" by auto
  then show ?thesis by (intro exI [of _ ts] exI [of _ s]) (simp add: sample_succs numeral_2_eq_2)
qed

end
