(* ===== verification/Concurrent_Barrier.thy ===== *)
theory Concurrent_Barrier
  imports Team_Barrier Concurrent_Edges
begin

text \<open>
  \<open>cb_sync_region\<close> when the threads of a team reach a barrier at the same time: the steps of
  the callback between the operations on \<open>_barrier_mutex\<close>, and every order in which the threads may
  take them.  \<open>Team_Barrier\<close> lets the calls follow one another; here they overlap, and the graph gets
  the same barrier.

  Between two steps a thread may be interrupted.  A step is an operation on the mutex, the critical
  section, or one access to the graph, whose own mutexes \<open>Concurrent_Edges\<close> treats.
\<close>

section \<open>The steps of the callback\<close>

text \<open>Where a thread stands: the local variables \<open>barrier_node\<close> and \<open>new_barrier\<close> go with it, and at the
  end the node it continues at.\<close>

datatype barrier_stage =
  Arriving | Locking | Entering | Recording "addr option" bool | Unlocking "addr option" bool
  | Creating "addr option" bool | Linking "addr option" addr | Through addr

record barrier_team =
  bt_tool :: tool
  bt_mutex :: "nat option"
  bt_stage :: "barrier_stage list"

definition advance :: "nat \<Rightarrow> barrier_stage \<Rightarrow> tool option \<Rightarrow> barrier_team \<Rightarrow> barrier_team progress" where
  "advance i st r S = (case r of
       None \<Rightarrow> Faults
     | Some s \<Rightarrow> Moves (S\<lparr>bt_tool := s, bt_stage := (bt_stage S)[i := st]\<rparr>))"

text \<open>A step of thread \<open>i\<close>, whose \<open>curr_task_data\<close> is \<open>a\<close>, in the region with \<open>par_info\<close> at \<open>q\<close>.\<close>

fun barrier_stage_step :: "addr \<Rightarrow> addr \<Rightarrow> nat \<Rightarrow> barrier_stage \<Rightarrow> barrier_team \<Rightarrow> barrier_team progress" where
  "barrier_stage_step q a i Arriving S = advance i Locking (do {
     td \<leftarrow> t_tasks (bt_tool S) a;
     add_time_now (td_curr_task_node td) (bt_tool S) }) S"
| "barrier_stage_step q a i Locking S =
     (if bt_mutex S = None then advance i Entering (Some (bt_tool S)) (S\<lparr>bt_mutex := Some i\<rparr>) else Blocked)"
| "barrier_stage_step q a i Entering S = (case do {
     td \<leftarrow> t_tasks (bt_tool S) a;
     par_info \<leftarrow> t_pars (bt_tool S) q;
     enter_barrier (td_curr_task_node td) q par_info (bt_tool S) } of
       None \<Rightarrow> Faults
     | Some (barrier_node, new_barrier, s) \<Rightarrow> advance i (Recording barrier_node new_barrier) (Some s) S)"
| "barrier_stage_step q a i (Recording barrier_node new_barrier) S = advance i (Unlocking barrier_node new_barrier) (do {
     td \<leftarrow> t_tasks (bt_tool S) a;
     task_set (Some a) (td\<lparr>td_curr_barrier_node := barrier_node\<rparr>) (bt_tool S) }) S"
| "barrier_stage_step q a i (Unlocking barrier_node new_barrier) S =
     advance i (Creating barrier_node new_barrier) (Some (bt_tool S)) (S\<lparr>bt_mutex := None\<rparr>)"
| "barrier_stage_step q a i (Creating barrier_node new_barrier) S = (case do {
     (node, s1) \<leftarrow> create_new_node IMP_TASK barrier_node True (bt_tool S);
     td \<leftarrow> t_tasks s1 a;
     s2 \<leftarrow> task_set (Some a) (td\<lparr>td_curr_task_node := Some node\<rparr>) s1;
     Some (node, s2) } of
       None \<Rightarrow> Faults
     | Some (node, s) \<Rightarrow> advance i (if new_barrier then Linking barrier_node node else Through node) (Some s) S)"
| "barrier_stage_step q a i (Linking barrier_node node) S = advance i (Through node) (do {
     td \<leftarrow> t_tasks (bt_tool S) a;
     connect barrier_node (td_curr_task_node td) (bt_tool S) }) S"
| "barrier_stage_step q a i (Through node) S = Finished"

definition barrier_step :: "addr \<Rightarrow> addr list \<Rightarrow> nat \<Rightarrow> barrier_team \<Rightarrow> barrier_team progress" where
  "barrier_step q as i S =
     (if i < length (bt_stage S) then barrier_stage_step q (as ! i) i (bt_stage S ! i) S else Finished)"

definition barrier_schedule :: "addr \<Rightarrow> addr list \<Rightarrow> nat list \<Rightarrow> barrier_team \<Rightarrow> barrier_team option" where
  "barrier_schedule q as = foldM (\<lambda>i S. case barrier_step q as i S of Moves S' \<Rightarrow> Some S' | _ \<Rightarrow> None)"

definition arrive_together :: "nat \<Rightarrow> tool \<Rightarrow> barrier_team" where
  "arrive_together n s = \<lparr>bt_tool = s, bt_mutex = None, bt_stage = replicate n Arriving\<rparr>"

fun through :: "barrier_stage \<Rightarrow> bool" where
  "through (Through node) = True"
| "through _ = False"

section \<open>A call that is not interrupted\<close>

text \<open>The steps of one thread, taken at once, are the callback.\<close>

lemma graph_ops_frame:
  "add_time_now p s = Some s' \<Longrightarrow> t_tasks s' = t_tasks s \<and> t_pars s' = t_pars s"
  "set_time_now p s = Some s' \<Longrightarrow> t_tasks s' = t_tasks s \<and> t_pars s' = t_pars s"
  "connect p p' s = Some s' \<Longrightarrow> t_tasks s' = t_tasks s \<and> t_pars s' = t_pars s"
  by (auto simp: add_time_now_def set_time_now_def ftimer_msec_def node_upd_def connect_def opt_simps)

lemma create_new_node_frame:
  assumes "create_new_node ty p st s = Some (node, s')"
  shows "t_tasks s' = t_tasks s" "t_pars s' = t_pars s"
  using assms by (auto simp: create_new_node_def create_clean_node_def nextId_def alloc_node_def addNode_def Let_def
      opt_simps dest!: graph_ops_frame split: if_splits)

lemma enter_barrier_frame:
  "enter_barrier c q par s = Some (bn, new, s') \<Longrightarrow> t_tasks s' = t_tasks s"
  by (auto simp: enter_barrier_def Let_def opt_simps dest: graph_ops_frame create_new_node_frame split: if_splits)

lemma barrier_schedule_simps [simp]:
  "barrier_schedule q as [] S = Some S"
  "barrier_schedule q as (i # is) S
     = (case barrier_step q as i S of Moves S' \<Rightarrow> barrier_schedule q as is S' | _ \<Rightarrow> None)"
  by (auto simp: barrier_schedule_def split: progress.splits)

lemma barrier_schedule_append:
  "barrier_schedule q as (is @ js) S = do { S' \<leftarrow> barrier_schedule q as is S; barrier_schedule q as js S' }"
  by (simp add: barrier_schedule_def foldM_append)

lemma uninterrupted_call:
  assumes i: "i < length (bt_stage S)" "bt_stage S ! i = Arriving" and mu: "bt_mutex S = None"
    and task: "t_taskPtr (bt_tool S) k = Some (as ! i)"
    and par: "t_parPtr (bt_tool S) r = Some q" "t_pars (bt_tool S) q = Some par" "pr_team_size par > 1"
    and run: "cb_sync_region ompt_sync_region_barrier ompt_scope_begin (Some r) k (bt_tool S) = Some s'"
  shows "\<exists>m node. barrier_schedule q as (replicate m i) S
    = Some (S\<lparr>bt_tool := s', bt_stage := (bt_stage S)[i := Through node]\<rparr>)"
proof -
  let ?a = "as ! i"
  obtain td s1 bn new s2 s3 node s4 s5 where td: "t_tasks (bt_tool S) ?a = Some td"
      and s1: "add_time_now (td_curr_task_node td) (bt_tool S) = Some s1"
      and s2: "enter_barrier (td_curr_task_node td) q par s1 = Some (bn, new, s2)"
      and s3: "task_set (Some ?a) (td\<lparr>td_curr_barrier_node := bn\<rparr>) s2 = Some s3"
      and s4: "create_new_node IMP_TASK bn True s3 = Some (node, s4)"
      and s5: "task_set (Some ?a) (td\<lparr>td_curr_barrier_node := bn, td_curr_task_node := Some node\<rparr>) s4 = Some s5"
      and s': "(if new then connect bn (Some node) s5 else Some s5) = Some s'"
    using run task par by (auto simp: cb_sync_region_def barrier_begin_def task_ref_def Let_def opt_simps)
  have f: "t_tasks s1 ?a = Some td" "t_pars s1 q = Some par" "t_tasks s2 ?a = Some td"
    using graph_ops_frame(1) [OF s1] enter_barrier_frame [OF s2] td par(2) by simp_all
  have g: "t_tasks s4 ?a = Some (td\<lparr>td_curr_barrier_node := bn\<rparr>)"
    using create_new_node_frame [OF s4] s3 by (auto simp: task_set_def opt_simps)
  have h: "t_tasks s5 ?a = Some (td\<lparr>td_curr_barrier_node := bn, td_curr_task_node := Some node\<rparr>)"
    using s5 by (auto simp: task_set_def opt_simps)
  have "barrier_schedule q as (replicate (if new then 7 else 6) i) S
    = Some (S\<lparr>bt_tool := s', bt_stage := (bt_stage S)[i := Through node]\<rparr>)"
    using i mu td s1 f s2 s3 s4 g s5 h s'
    by (cases new) (simp_all add: barrier_step_def advance_def numeral_eq_Suc)
  then show ?thesis by blast
qed

section \<open>The invariant of the team\<close>

fun entered :: "barrier_stage \<Rightarrow> bool" where
  "entered Arriving = False" | "entered Locking = False" | "entered Entering = False" | "entered _ = True"

fun holds_mutex :: "barrier_stage \<Rightarrow> bool" where
  "holds_mutex Entering = True" | "holds_mutex (Recording bn new) = True" | "holds_mutex (Unlocking bn new) = True"
| "holds_mutex _ = False"

fun next_node :: "barrier_stage \<Rightarrow> addr option" where
  "next_node (Linking bn node) = Some node" | "next_node (Through node) = Some node" | "next_node _ = None"

definition past :: "barrier_stage list \<Rightarrow> nat set" where
  "past sts = {i. i < length sts \<and> entered (sts ! i)}"

definition next_nodes :: "barrier_stage list \<Rightarrow> nat \<rightharpoonup> addr" where
  "next_nodes sts = (\<lambda>i. if i < length sts then next_node (sts ! i) else None)"

text \<open>The count of the region: back to 0 when all have arrived.\<close>

definition arrivals :: "barrier_stage list \<Rightarrow> nat" where
  "arrivals sts = (if card (past sts) < length sts then card (past sts) else 0)"

lemma past_upd: "i < length sts \<Longrightarrow> past (sts[i := st]) = (if entered st then insert i (past sts) else past sts - {i})"
  by (auto simp: past_def nth_list_update)

lemma next_nodes_upd: "i < length sts \<Longrightarrow> next_nodes (sts[i := st]) = (next_nodes sts)(i := next_node st)"
  by (auto simp: next_nodes_def nth_list_update fun_eq_iff)

text \<open>The task behind a barrier it has recorded, still at its old node.\<close>

fun recorded :: "tool \<Rightarrow> addr \<Rightarrow> arrival \<Rightarrow> bool" where
  "recorded s b (k, a, td, c) = task_at s k a (td\<lparr>td_curr_barrier_node := Some b\<rparr>) c"

fun stage_ok :: "tool \<Rightarrow> addr \<Rightarrow> barrier_stage \<Rightarrow> arrival \<Rightarrow> bool" where
  "stage_ok s b (Recording bn new) t = (bn = Some b \<and> waiting s t)"
| "stage_ok s b (Unlocking bn new) t = (bn = Some b \<and> recorded s b t)"
| "stage_ok s b (Creating bn new) t = (bn = Some b \<and> recorded s b t)"
| "stage_ok s b (Linking bn node) t = (bn = Some b \<and> continues s b node t)"
| "stage_ok s b (Through node) t = continues s b node t"
| "stage_ok s b _ t = waiting s t"

text \<open>The graph when the threads \<open>E\<close> are connected to the barrier and \<open>ns\<close> are the nodes behind it.\<close>

definition barrier_graph :: "tool \<Rightarrow> arrival list \<Rightarrow> nat set \<Rightarrow> (nat \<rightharpoonup> addr) \<Rightarrow> tool \<Rightarrow> bool" where
  "barrier_graph s0 ts E ns s \<longleftrightarrow> wf_tdg s \<and> g_brk s0 \<le> g_brk s \<and> (E \<noteq> {} \<longleftrightarrow> g_brk s0 < g_brk s)
     \<and> dom (g_heap s) = dom (g_heap s0) \<union> {g_brk s0..<g_brk s} \<and> ran ns = {Suc (g_brk s0)..<g_brk s}
     \<and> inj_on ns (dom ns)
     \<and> edge_rel (g_heap s) = edge_rel (g_heap s0) \<union> (\<lambda>i. (node_of (ts ! i), g_brk s0)) ` E \<union> Pair (g_brk s0) ` ran ns
     \<and> g_nextId s + int (g_brk s0) \<le> g_nextId s0 + int (g_brk s)"

definition team_inv :: "tool \<Rightarrow> nat \<Rightarrow> addr \<Rightarrow> arrival list \<Rightarrow> barrier_team \<Rightarrow> bool" where
  "team_inv s0 r q ts S \<longleftrightarrow> length (bt_stage S) = length ts
     \<and> (\<forall>j. bt_mutex S = Some j \<longleftrightarrow> j < length ts \<and> holds_mutex (bt_stage S ! j))
     \<and> barrier_graph s0 ts (past (bt_stage S)) (next_nodes (bt_stage S)) (bt_tool S)
     \<and> at_barrier (bt_tool S) r q (length ts) (arrivals (bt_stage S)) (g_brk s0)
     \<and> (\<forall>j < length ts. stage_ok (bt_tool S) (g_brk s0) (bt_stage S ! j) (ts ! j))"

lemma stage_ok_frame:
  assumes "stage_ok s b st t" and "t_taskPtr s' = t_taskPtr s" and "t_tasks s' (data_of t) = t_tasks s (data_of t)"
    and "dom (g_heap s) \<subseteq> dom (g_heap s')"
  shows "stage_ok s' b st t"
  using assms by (cases t; cases st) (auto simp: task_at_def)

lemma team_inv_advance:
  assumes inv: "team_inv s0 r q ts S" and i: "i < length ts" and dist: "distinct (map data_of ts)"
    and mu: "\<And>j. mu = Some j \<longleftrightarrow> (if j = i then holds_mutex st else bt_mutex S = Some j)"
    and graph: "barrier_graph s0 ts (past ((bt_stage S)[i := st])) (next_nodes ((bt_stage S)[i := st])) s"
    and bar: "at_barrier s r q (length ts) (arrivals ((bt_stage S)[i := st])) (g_brk s0)"
    and ok: "stage_ok s (g_brk s0) st (ts ! i)"
    and frame: "t_taskPtr s = t_taskPtr (bt_tool S)" "\<And>a. a \<noteq> data_of (ts ! i) \<Longrightarrow> t_tasks s a = t_tasks (bt_tool S) a"
      "dom (g_heap (bt_tool S)) \<subseteq> dom (g_heap s)"
  shows "team_inv s0 r q ts (S\<lparr>bt_tool := s, bt_mutex := mu, bt_stage := (bt_stage S)[i := st]\<rparr>)"
proof -
  have len: "length (bt_stage S) = length ts" using inv by (simp add: team_inv_def)
  have "stage_ok s (g_brk s0) ((bt_stage S)[i := st] ! j) (ts ! j)" if j: "j < length ts" for j
  proof (cases "j = i")
    case False
    then have "data_of (ts ! j) \<noteq> data_of (ts ! i)"
      using dist i j nth_eq_iff_index_eq [of "map data_of ts" j i] by simp
    moreover have "stage_ok (bt_tool S) (g_brk s0) (bt_stage S ! j) (ts ! j)" using inv j by (simp add: team_inv_def)
    ultimately show ?thesis using False frame by (simp add: stage_ok_frame)
  qed (use ok i len in simp)
  moreover have "mu = Some j \<longleftrightarrow> j < length ts \<and> holds_mutex ((bt_stage S)[i := st] ! j)" for j
    using inv mu [of j] i len by (auto simp: team_inv_def nth_list_update)
  ultimately show ?thesis using graph bar len by (simp add: team_inv_def)
qed

text \<open>A step that changes neither who has entered nor the nodes behind the barrier.\<close>

lemma advance_same:
  assumes inv: "team_inv s0 r q ts S" and i: "i < length ts" and dist: "distinct (map data_of ts)"
    and mu: "\<And>j. mu = Some j \<longleftrightarrow> (if j = i then holds_mutex st else bt_mutex S = Some j)"
    and st: "entered st = entered (bt_stage S ! i)" "next_node st = next_node (bt_stage S ! i)"
    and g: "grows (bt_tool S) s1 {} E 0" "E \<subseteq> edge_rel (g_heap (bt_tool S))"
    and s: "s = s1\<lparr>t_tasks := m\<rparr>" "\<And>a. a \<noteq> data_of (ts ! i) \<Longrightarrow> m a = t_tasks s1 a"
    and ok: "stage_ok s (g_brk s0) st (ts ! i)"
  shows "team_inv s0 r q ts (S\<lparr>bt_tool := s, bt_mutex := mu, bt_stage := (bt_stage S)[i := st]\<rparr>)"
proof -
  have len: "i < length (bt_stage S)" using inv i by (simp add: team_inv_def)
  have same: "past ((bt_stage S)[i := st]) = past (bt_stage S)" "next_nodes ((bt_stage S)[i := st]) = next_nodes (bt_stage S)"
    using len st by (auto simp: past_def next_nodes_def nth_list_update fun_eq_iff)
  note d = growsD [OF g(1)]
  have e: "edge_rel (g_heap s) = edge_rel (g_heap (bt_tool S))" "dom (g_heap s) = dom (g_heap (bt_tool S))"
    using d(2,5) g(2) by (auto simp: s(1))
  have f: "wf_tdg s" "g_brk s = g_brk (bt_tool S)" "g_nextId s \<le> g_nextId (bt_tool S)" "t_pars s = t_pars (bt_tool S)"
    "t_parPtr s = t_parPtr (bt_tool S)" "t_taskPtr s = t_taskPtr (bt_tool S)"
    "\<And>a. a \<noteq> data_of (ts ! i) \<Longrightarrow> t_tasks s a = t_tasks (bt_tool S) a"
    using d s(2) by (simp_all add: s(1))
  have "barrier_graph s0 ts (past (bt_stage S)) (next_nodes (bt_stage S)) s"
    using inv e f(1-3) by (simp add: team_inv_def barrier_graph_def)
  moreover have "at_barrier s r q (length ts) (arrivals (bt_stage S)) (g_brk s0)"
    using inv e f(4,5) by (simp add: team_inv_def at_barrier_def)
  moreover have "arrivals ((bt_stage S)[i := st]) = arrivals (bt_stage S)" by (simp add: arrivals_def same)
  ultimately show ?thesis
    using ok e f(6,7) by (intro team_inv_advance [OF inv i dist mu]) (simp_all add: same)
qed

section \<open>The steps keep the invariant\<close>

text \<open>The critical section.\<close>

lemma enter_barrier_ok:
  assumes wf: "wf_tdg s" and room: "g_nextId s + 1 < 2 ^ 63" and bar: "at_barrier s r q n m b"
    and m: "m < n" "1 < n" "n < 2 ^ 32" and c: "c \<in> dom (g_heap s)" and b: "m = 0 \<Longrightarrow> b = g_brk s"
  shows "\<exists>par par' s'. t_pars s q = Some par \<and> enter_barrier (Some c) q par s = Some (Some b, m = 0, s')
    \<and> grows (s\<lparr>t_pars := (t_pars s)(q \<mapsto> par')\<rparr>) s' (if m = 0 then {b} else {}) {(c, b)} (if m = 0 then 1 else 0)
    \<and> at_barrier s' r q n (if Suc m < n then Suc m else 0) b"
proof -
  obtain par where par: "t_parPtr s r = Some q" "t_pars s q = Some par" "pr_team_size par = word_of_nat n"
      "pr_barrier_cnt par = word_of_nat m" "m \<noteq> 0 \<Longrightarrow> pr_curr_barrier_node par = Some b \<and> b \<in> dom (g_heap s)"
    using bar by (auto simp: at_barrier_def)
  note u = count_words [OF par(3,4) m(1,3)]
  show ?thesis
  proof (cases "m = 0")
    case True
    let ?par = "par\<lparr>pr_barrier_cnt := 1, pr_curr_barrier_node := Some b\<rparr>"
    obtain s1 where s1: "create_new_node BARRIER (Some c) True s = Some (b, s1)" "grows s s1 {b} {(c, b)} 1"
      using create_new_node_ok [OF wf room c, of BARRIER True] b [OF True] by auto
    note g = grows_fields(4) [OF s1(2), of "(t_pars s)(q \<mapsto> ?par)"]
    have "at_barrier (s1\<lparr>t_pars := (t_pars s)(q \<mapsto> ?par)\<rparr>) r q n 1 b"
      using par growsD [OF s1(2)] by (simp add: at_barrier_def)
    then show ?thesis
      using True par(2,4) m s1(1) g growsD(8) [OF s1(2)] by (auto simp: enter_barrier_def)
  next
    case False
    let ?cnt = "word_of_nat (if Suc m < n then Suc m else 0)"
    let ?par = "par\<lparr>pr_barrier_cnt := ?cnt\<rparr>"
    have c0: "pr_barrier_cnt par \<noteq> 0" using u(2) False by auto
    obtain s1 where s1: "connect (Some c) (Some b) s = Some s1" "grows s s1 {} {(c, b)} 0"
      using connect_ok [OF wf c] par(5) [OF False] by auto
    note g = grows_fields(4) [OF s1(2), of "(t_pars s)(q \<mapsto> ?par)"]
    have "at_barrier (s1\<lparr>t_pars := (t_pars s)(q \<mapsto> ?par)\<rparr>) r q n (if Suc m < n then Suc m else 0) b"
      using par(1,3) par(5) [OF False] growsD [OF s1(2)] by (simp add: at_barrier_def)
    moreover have "enter_barrier (Some c) q par s = Some (Some b, False, s1\<lparr>t_pars := (t_pars s)(q \<mapsto> ?par)\<rparr>)"
      using c0 par(5) [OF False] s1(1) growsD(8) [OF s1(2)] by (simp add: enter_barrier_def Let_def u(3))
    ultimately show ?thesis using False par(2) g by (intro exI [of _ par] exI [of _ ?par]) auto
  qed
qed

text \<open>What is needed of the state in which the team arrives.\<close>

definition team_ready :: "tool \<Rightarrow> nat \<Rightarrow> addr \<Rightarrow> arrival list \<Rightarrow> bool" where
  "team_ready s r q ts \<longleftrightarrow> wf_tdg s \<and> g_nextId s + int (length ts) + 1 < 2 ^ 63 \<and> at_barrier s r q (length ts) 0 0
     \<and> 1 < length ts \<and> length ts < 2 ^ 32 \<and> (\<forall>t \<in> set ts. waiting s t) \<and> distinct (map data_of ts)"

lemma team_invD:
  assumes "team_inv s0 r q ts S"
  shows "length (bt_stage S) = length ts" "barrier_graph s0 ts (past (bt_stage S)) (next_nodes (bt_stage S)) (bt_tool S)"
    "at_barrier (bt_tool S) r q (length ts) (arrivals (bt_stage S)) (g_brk s0)"
    "j < length ts \<Longrightarrow> stage_ok (bt_tool S) (g_brk s0) (bt_stage S ! j) (ts ! j)"
    "bt_mutex S = Some j \<longleftrightarrow> j < length ts \<and> holds_mutex (bt_stage S ! j)"
  using assms by (auto simp: team_inv_def)

lemma start_inv:
  assumes "team_ready s r q ts"
  shows "team_inv s r q ts (arrive_together (length ts) s)"
proof -
  have e: "past (replicate n Arriving) = {}" "next_nodes (replicate n Arriving) = Map.empty" for n
    by (auto simp: past_def next_nodes_def)
  then have "arrivals (replicate n Arriving) = 0" for n by (simp add: arrivals_def)
  then show ?thesis
    using assms by (auto simp: team_inv_def team_ready_def arrive_together_def barrier_graph_def at_barrier_def e)
qed

lemma ran_the: "ran m = (the \<circ> m) ` dom m"
  by (force simp: ran_def dom_def)

lemma room_left:
  assumes inv: "team_inv s0 r q ts S" and ready: "team_ready s0 r q ts" and i: "i < length ts" "next_node (bt_stage S ! i) = None"
  shows "g_nextId (bt_tool S) + 1 < 2 ^ 63"
proof -
  let ?ns = "next_nodes (bt_stage S)"
  note g = team_invD(2) [OF inv, unfolded barrier_graph_def]
  have sub: "dom ?ns \<subseteq> {..<length ts} - {i}" using i team_invD(1) [OF inv] by (auto simp: next_nodes_def split: if_splits)
  have "card (ran ?ns) \<le> card (dom ?ns)" using finite_subset [OF sub] by (simp add: ran_the card_image_le)
  also have "\<dots> \<le> length ts - 1" using card_mono [OF _ sub] i by simp
  finally have "g_brk (bt_tool S) \<le> g_brk s0 + length ts" using g i by simp
  then show ?thesis using g ready by (simp add: team_ready_def)
qed

lemma waiting_node: "waiting s t \<Longrightarrow> \<exists>td. t_tasks s (data_of t) = Some td \<and> td_curr_task_node td = Some (node_of t) \<and> node_of t \<in> dom (g_heap s)"
  by (cases t) (simp add: task_at_def)

lemma step_entering:
  assumes inv: "team_inv s0 r q ts S" and ready: "team_ready s0 r q ts" and i: "i < length ts" and st: "bt_stage S ! i = Entering"
  shows "\<exists>S'. barrier_step q (map data_of ts) i S = Moves S' \<and> team_inv s0 r q ts S'"
proof -
  let ?s = "bt_tool S" and ?b = "g_brk s0" and ?E = "past (bt_stage S)"
  note len = team_invD(1) [OF inv] and g = team_invD(2) [OF inv, unfolded barrier_graph_def]
  have dist: "distinct (map data_of ts)" and n: "1 < length ts" "length ts < 2 ^ 32" using ready by (simp_all add: team_ready_def)
  have w: "waiting ?s (ts ! i)" using team_invD(4) [OF inv i] st by simp
  obtain td where td: "t_tasks ?s (data_of (ts ! i)) = Some td" "td_curr_task_node td = Some (node_of (ts ! i))"
      "node_of (ts ! i) \<in> dom (g_heap ?s)" using waiting_node [OF w] by blast
  have fin: "finite ?E" and iE: "i \<notin> ?E" and sub: "?E \<subseteq> {..<length ts} - {i}" using st len by (auto simp: past_def)
  then have "card ?E \<le> length ts - 1" using card_mono [OF _ sub] i by simp
  then have lt: "card ?E < length ts" and arr: "arrivals (bt_stage S) = card ?E" using n len by (auto simp: arrivals_def)
  have b0: "?b = g_brk ?s" if "card ?E = 0" using that fin g by auto
  obtain par par' s' where en: "t_pars ?s q = Some par" "enter_barrier (Some (node_of (ts ! i))) q par ?s = Some (Some ?b, card ?E = 0, s')"
      and gr: "grows (?s\<lparr>t_pars := (t_pars ?s)(q \<mapsto> par')\<rparr>) s' (if card ?E = 0 then {?b} else {}) {(node_of (ts ! i), ?b)} (if card ?E = 0 then 1 else 0)"
      and bar: "at_barrier s' r q (length ts) (if Suc (card ?E) < length ts then Suc (card ?E) else 0) ?b"
    using enter_barrier_ok [OF _ room_left [OF inv ready i] team_invD(3) [OF inv, unfolded arr] lt n td(3) b0] g st by auto
  define st' where "st' = Recording (Some ?b) (card ?E = 0)"
  have st': "entered st'" "next_node st' = None" "holds_mutex st'" "stage_ok s' ?b st' t = waiting s' t" for t
    by (simp_all add: st'_def)
  have p': "past ((bt_stage S)[i := st']) = insert i ?E" "next_nodes ((bt_stage S)[i := st']) = next_nodes (bt_stage S)"
    using i len st st' by (auto simp: past_upd next_nodes_def nth_list_update fun_eq_iff)
  have a': "arrivals ((bt_stage S)[i := st']) = (if Suc (card ?E) < length ts then Suc (card ?E) else 0)"
    unfolding arrivals_def p' using fin iE len by simp
  note d = growsD [OF gr]
  have brk: "g_brk s' = g_brk ?s + (if card ?E = 0 then 1 else 0)" "(card ?E = 0) = (g_brk s0 = g_brk ?s)"
    using d(3) b0 fin g by auto
  have bg: "barrier_graph s0 ts (insert i ?E) (next_nodes (bt_stage S)) s'"
    using g d(1,2,4,5) brk unfolding barrier_graph_def by (cases "card ?E = 0") auto
  have "waiting s' (ts ! i)" using w d by (cases "ts ! i") (auto simp: task_at_def)
  then have "team_inv s0 r q ts (S\<lparr>bt_tool := s', bt_mutex := bt_mutex S, bt_stage := (bt_stage S)[i := st']\<rparr>)"
    using d bar i st bg
    by (intro team_inv_advance [OF inv i dist]) (auto simp: p' a' st' team_invD(5) [OF inv])
  moreover have "barrier_step q (map data_of ts) i S = Moves (S\<lparr>bt_tool := s', bt_stage := (bt_stage S)[i := st']\<rparr>)"
    using i len st td en by (simp add: barrier_step_def advance_def st'_def)
  ultimately show ?thesis by simp
qed

lemma step_creating:
  assumes inv: "team_inv s0 r q ts S" and ready: "team_ready s0 r q ts" and i: "i < length ts"
    and st: "bt_stage S ! i = Creating bn new"
  shows "\<exists>S'. barrier_step q (map data_of ts) i S = Moves S' \<and> team_inv s0 r q ts S'"
proof -
  let ?s = "bt_tool S" and ?b = "g_brk s0" and ?E = "past (bt_stage S)" and ?ns = "next_nodes (bt_stage S)"
  note len = team_invD(1) [OF inv] and g = team_invD(2) [OF inv, unfolded barrier_graph_def]
  have dist: "distinct (map data_of ts)" using ready by (simp add: team_ready_def)
  obtain k a td c where t: "ts ! i = (k, a, td, c)" by (cases "ts ! i")
  let ?td = "td\<lparr>td_curr_barrier_node := Some ?b\<rparr>"
  have bn: "bn = Some ?b" and ta: "task_at ?s k a ?td c" using team_invD(4) [OF inv i] st t by simp_all
  have iE: "i \<in> ?E" and ins: "insert i ?E = ?E" using st len i by (auto simp: past_def)
  then have lt: "?b < g_brk ?s" and bdom: "?b \<in> dom (g_heap ?s)" using g by auto
  obtain s1 where s1: "create_new_node IMP_TASK (Some ?b) True ?s = Some (g_brk ?s, s1)" "grows ?s s1 {g_brk ?s} {(?b, g_brk ?s)} 1"
    using create_new_node_ok [OF _ room_left [OF inv ready i] bdom, of IMP_TASK True] g st by auto
  note d = growsD [OF s1(2)]
  define st' where "st' = (if new then Linking bn (g_brk ?s) else Through (g_brk ?s))"
  define s' where "s' = s1\<lparr>t_tasks := (t_tasks s1)(a \<mapsto> ?td\<lparr>td_curr_task_node := Some (g_brk ?s)\<rparr>)\<rparr>"
  have st': "entered st'" "next_node st' = Some (g_brk ?s)" "\<not> holds_mutex st'" "stage_ok s' ?b st' t = continues s' ?b (g_brk ?s) t" for t
    by (simp_all add: st'_def bn)
  have p': "past ((bt_stage S)[i := st']) = ?E" "next_nodes ((bt_stage S)[i := st']) = ?ns(i \<mapsto> g_brk ?s)"
    using i len st' ins by (simp_all add: past_upd next_nodes_upd)
  have a': "arrivals ((bt_stage S)[i := st']) = arrivals (bt_stage S)" by (simp add: arrivals_def p')
  have none: "?ns i = None" using st len i by (simp add: next_nodes_def)
  have new: "g_brk ?s \<notin> ran ?ns" using g by simp
  have "inj_on (?ns(i \<mapsto> g_brk ?s)) (insert i (dom ?ns))"
    using g none new by (auto simp: inj_on_def ran_def dom_def)
  then have bg: "barrier_graph s0 ts ?E (?ns(i \<mapsto> g_brk ?s)) s'"
    using g d(1-5) lt none unfolding barrier_graph_def s'_def by (auto simp: ran_map_upd)
  have f: "t_taskPtr s' = t_taskPtr ?s" "\<And>a'. a' \<noteq> data_of (ts ! i) \<Longrightarrow> t_tasks s' a' = t_tasks ?s a'"
    "dom (g_heap ?s) \<subseteq> dom (g_heap s')" using d by (auto simp: s'_def t)
  have "continues s' ?b (g_brk ?s) (ts ! i)" using ta d by (simp add: t s'_def task_at_def)
  moreover have "at_barrier s' r q (length ts) (arrivals (bt_stage S)) ?b"
    using team_invD(3) [OF inv] d by (auto simp: s'_def at_barrier_def)
  ultimately have "team_inv s0 r q ts (S\<lparr>bt_tool := s', bt_mutex := bt_mutex S, bt_stage := (bt_stage S)[i := st']\<rparr>)"
    using f i st bg by (intro team_inv_advance [OF inv i dist]) (auto simp: p' a' st' team_invD(5) [OF inv])
  moreover have "barrier_step q (map data_of ts) i S = Moves (S\<lparr>bt_tool := s', bt_stage := (bt_stage S)[i := st']\<rparr>)"
    using i len st s1(1) ta d bn by (simp add: barrier_step_def advance_def st'_def t task_at_def task_set_def s'_def)
  ultimately show ?thesis by simp
qed

text \<open>The other steps.\<close>

lemma step_private:
  assumes inv: "team_inv s0 r q ts S" and ready: "team_ready s0 r q ts" and i: "i < length ts"
    and st: "bt_stage S ! i \<in> {Arriving} \<union> range (case_prod Recording) \<union> range (case_prod Linking)"
  shows "\<exists>S'. barrier_step q (map data_of ts) i S = Moves S' \<and> team_inv s0 r q ts S'"
proof -
  let ?s = "bt_tool S" and ?b = "g_brk s0"
  note len = team_invD(1) [OF inv] and g = team_invD(2) [OF inv, unfolded barrier_graph_def] and ok = team_invD(4) [OF inv i]
  have dist: "distinct (map data_of ts)" using ready by (simp add: team_ready_def)
  obtain k a td c where t: "ts ! i = (k, a, td, c)" by (cases "ts ! i")
  have wf: "wf_tdg ?s" using g by simp
  consider "bt_stage S ! i = Arriving" | bn new where "bt_stage S ! i = Recording bn new"
    | bn node where "bt_stage S ! i = Linking bn node" using st by auto
  then show ?thesis
  proof cases
    case 1
    have ta: "task_at ?s k a td c" using ok 1 t by simp
    then obtain s1 where s1: "add_time_now (Some c) ?s = Some s1" "grows ?s s1 {} {} 0"
      using timers_ok(1) [OF wf, of c] by (auto simp: task_at_def)
    note d = growsD [OF s1(2)]
    have "team_inv s0 r q ts (S\<lparr>bt_tool := s1, bt_mutex := bt_mutex S, bt_stage := (bt_stage S)[i := Locking]\<rparr>)"
      using 1 ta d t by (intro advance_same [OF inv i dist _ _ _ s1(2), where m = "t_tasks s1"]) (auto simp: team_invD(5) [OF inv] task_at_def)
    moreover have "barrier_step q (map data_of ts) i S = Moves (S\<lparr>bt_tool := s1, bt_stage := (bt_stage S)[i := Locking]\<rparr>)"
      using i len 1 ta s1(1) by (simp add: barrier_step_def advance_def t task_at_def)
    ultimately show ?thesis by simp
  next
    case 2
    let ?s' = "?s\<lparr>t_tasks := (t_tasks ?s)(data_of (ts ! i) := Some (td\<lparr>td_curr_barrier_node := Some ?b\<rparr>))\<rparr>"
    have ta: "task_at ?s k a td c" and bn: "bn = Some ?b" using ok 2 t by simp_all
    have "team_inv s0 r q ts (S\<lparr>bt_tool := ?s', bt_mutex := bt_mutex S, bt_stage := (bt_stage S)[i := Unlocking bn new]\<rparr>)"
      using 2 ta t bn i by (intro advance_same [OF inv i dist _ _ _ grows_refl [OF wf], where m = "t_tasks ?s'"]) (auto simp: team_invD(5) [OF inv] task_at_def)
    moreover have "barrier_step q (map data_of ts) i S = Moves (S\<lparr>bt_tool := ?s', bt_stage := (bt_stage S)[i := Unlocking bn new]\<rparr>)"
      using i len 2 ta bn by (simp add: barrier_step_def advance_def t task_at_def task_set_def)
    ultimately show ?thesis by simp
  next
    case 3
    have ta: "task_at ?s k a (td\<lparr>td_curr_barrier_node := Some ?b, td_curr_task_node := Some node\<rparr>) node" and bn: "bn = Some ?b"
      using ok 3 t by simp_all
    have "next_nodes (bt_stage S) i = Some node" "i \<in> past (bt_stage S)" using 3 i len by (simp_all add: next_nodes_def past_def)
    then have e: "(?b, node) \<in> edge_rel (g_heap ?s)" "?b \<in> dom (g_heap ?s)" using g by (auto intro: ranI)
    then obtain s1 where s1: "connect (Some ?b) (Some node) ?s = Some s1" "grows ?s s1 {} {(?b, node)} 0"
      using connect_ok [OF wf, of ?b node] ta by (auto simp: task_at_def)
    note d = growsD [OF s1(2)]
    have "team_inv s0 r q ts (S\<lparr>bt_tool := s1, bt_mutex := bt_mutex S, bt_stage := (bt_stage S)[i := Through node]\<rparr>)"
      using 3 ta d t e by (intro advance_same [OF inv i dist _ _ _ s1(2), where m = "t_tasks s1"]) (auto simp: team_invD(5) [OF inv] task_at_def)
    moreover have "barrier_step q (map data_of ts) i S = Moves (S\<lparr>bt_tool := s1, bt_stage := (bt_stage S)[i := Through node]\<rparr>)"
      using i len 3 ta s1(1) bn by (simp add: barrier_step_def advance_def t task_at_def)
    ultimately show ?thesis by simp
  qed
qed

lemma step_mutex:
  assumes inv: "team_inv s0 r q ts S" and ready: "team_ready s0 r q ts" and i: "i < length ts"
    and st: "bt_stage S ! i = Locking \<and> bt_mutex S = None \<or> (\<exists>bn new. bt_stage S ! i = Unlocking bn new)"
  shows "\<exists>S'. barrier_step q (map data_of ts) i S = Moves S' \<and> team_inv s0 r q ts S'"
proof -
  let ?s = "bt_tool S"
  note len = team_invD(1) [OF inv] and ok = team_invD(4) [OF inv i]
  have dist: "distinct (map data_of ts)" using ready by (simp add: team_ready_def)
  have wf: "wf_tdg ?s" using team_invD(2) [OF inv] by (simp add: barrier_graph_def)
  note same = advance_same [OF inv i dist _ _ _ grows_refl [OF wf], where m = "t_tasks ?s"]
  from st show ?thesis
  proof (elim disjE exE conjE)
    assume l: "bt_stage S ! i = Locking" "bt_mutex S = None"
    then have "team_inv s0 r q ts (S\<lparr>bt_tool := ?s, bt_mutex := Some i, bt_stage := (bt_stage S)[i := Entering]\<rparr>)"
      using ok by (intro same) auto
    then show ?thesis using l i len by (simp add: barrier_step_def advance_def)
  next
    fix bn new assume u: "bt_stage S ! i = Unlocking bn new"
    then have "bt_mutex S = Some i" using team_invD(5) [OF inv] i by simp
    then have "team_inv s0 r q ts (S\<lparr>bt_tool := ?s, bt_mutex := None, bt_stage := (bt_stage S)[i := Creating bn new]\<rparr>)"
      using u ok by (intro same) auto
    then show ?thesis using u i len by (simp add: barrier_step_def advance_def)
  qed
qed

text \<open>A thread that has not passed the barrier moves, unless it waits for the mutex.\<close>

lemma thread_moves:
  assumes "team_inv s0 r q ts S" and "team_ready s0 r q ts" and "i < length ts"
    and "\<not> through (bt_stage S ! i)" and "bt_stage S ! i = Locking \<Longrightarrow> bt_mutex S = None"
  shows "\<exists>S'. barrier_step q (map data_of ts) i S = Moves S' \<and> team_inv s0 r q ts S'"
  using assms step_entering [OF assms(1-3)] step_creating [OF assms(1-3)] step_private [OF assms(1-3)] step_mutex [OF assms(1-3)]
  by (cases "bt_stage S ! i") auto

lemma step_cases:
  assumes "team_inv s0 r q ts S" and "team_ready s0 r q ts"
  obtains "barrier_step q (map data_of ts) i S = Finished" "i < length ts \<Longrightarrow> through (bt_stage S ! i)"
  | "barrier_step q (map data_of ts) i S = Blocked" "bt_mutex S \<noteq> None"
  | S' where "barrier_step q (map data_of ts) i S = Moves S'" "team_inv s0 r q ts S'"
proof (cases "i < length ts \<and> \<not> through (bt_stage S ! i)")
  case True
  show ?thesis
  proof (cases "bt_stage S ! i = Locking \<and> bt_mutex S \<noteq> None")
    case blocked: True
    then show ?thesis using True team_invD(1) [OF assms(1)] that(2) by (simp add: barrier_step_def)
  next
    case False
    then have "bt_stage S ! i = Locking \<Longrightarrow> bt_mutex S = None" by simp
    then show ?thesis using thread_moves [OF assms, of i] True that(3) by blast
  qed
next
  case False
  moreover have "barrier_step q (map data_of ts) i S = Finished"
    using False team_invD(1) [OF assms(1)] by (cases "bt_stage S ! i") (auto simp: barrier_step_def)
  ultimately show ?thesis using that(1) by blast
qed

fun steps_left :: "barrier_stage \<Rightarrow> nat" where
  "steps_left Arriving = 7" | "steps_left Locking = 6" | "steps_left Entering = 5" | "steps_left (Recording bn new) = 4"
| "steps_left (Unlocking bn new) = 3" | "steps_left (Creating bn new) = 2" | "steps_left (Linking bn node) = 1"
| "steps_left (Through node) = 0"

abbreviation team_steps_left :: "barrier_team \<Rightarrow> nat" where
  "team_steps_left S \<equiv> sum_list (map steps_left (bt_stage S))"

lemma sum_list_decreases:
  "i < length xs \<Longrightarrow> f y < f (xs ! i) \<Longrightarrow> sum_list (map f (xs[i := y])) < (sum_list (map f xs) :: nat)"
  by (induction xs arbitrary: i) (auto split: nat.splits)

lemma step_decreases:
  assumes "barrier_step q as i S = Moves S'"
  shows "team_steps_left S' < team_steps_left S"
proof -
  have i: "i < length (bt_stage S)" using assms by (auto simp: barrier_step_def split: if_splits)
  then obtain st where "bt_stage S' = (bt_stage S)[i := st]" "steps_left st < steps_left (bt_stage S ! i)"
    using assms by (cases "bt_stage S ! i") (auto simp: barrier_step_def advance_def split: option.splits if_splits prod.splits)
  then show ?thesis using sum_list_decreases [OF i] by simp
qed

lemma schedule_length: "barrier_schedule q as is S = Some S' \<Longrightarrow> length is + team_steps_left S' \<le> team_steps_left S"
  by (induction "is" arbitrary: S) (auto split: progress.splits dest!: step_decreases, fastforce)

lemma schedule_inv:
  assumes "team_ready s0 r q ts"
  shows "barrier_schedule q (map data_of ts) is S = Some S' \<Longrightarrow> team_inv s0 r q ts S \<Longrightarrow> team_inv s0 r q ts S'"
proof (induction "is" arbitrary: S)
  case (Cons i ks)
  show ?case by (cases rule: step_cases [OF Cons.prems(2) assms, of i]) (use Cons in auto)
qed simp

lemma someone_moves:
  assumes inv: "team_inv s0 r q ts S" and ready: "team_ready s0 r q ts" and left: "\<not> list_all through (bt_stage S)"
  shows "\<exists>i S'. barrier_step q (map data_of ts) i S = Moves S' \<and> team_inv s0 r q ts S'"
proof (cases "bt_mutex S")
  case None
  obtain i where "i < length ts" "\<not> through (bt_stage S ! i)" using left team_invD(1) [OF inv] by (auto simp: list_all_length)
  then show ?thesis using thread_moves [OF inv ready] None by blast
next
  case (Some j)
  then have j: "j < length ts" "holds_mutex (bt_stage S ! j)" using team_invD(5) [OF inv] by simp_all
  then have "\<not> through (bt_stage S ! j)" "bt_stage S ! j \<noteq> Locking" by (auto elim: holds_mutex.elims)
  then show ?thesis using thread_moves [OF inv ready j(1)] by blast
qed

lemma run_to_barrier_end:
  assumes ready: "team_ready s0 r q ts"
  shows "team_inv s0 r q ts S \<Longrightarrow> \<exists>is S'. barrier_schedule q (map data_of ts) is S = Some S' \<and> list_all through (bt_stage S')"
proof (induction "team_steps_left S" arbitrary: S rule: less_induct)
  case less
  show ?case
  proof (cases "list_all through (bt_stage S)")
    case True
    then show ?thesis by (intro exI [of _ "[]"]) simp
  next
    case False
    then obtain i S1 where S1: "barrier_step q (map data_of ts) i S = Moves S1" "team_inv s0 r q ts S1"
      using someone_moves [OF less.prems ready] by blast
    obtain ks S' where "barrier_schedule q (map data_of ts) ks S1 = Some S'" "list_all through (bt_stage S')"
      using less.hyps [OF step_decreases [OF S1(1)] S1(2)] by blast
    then show ?thesis using S1(1) by (intro exI [of _ "i # ks"]) simp
  qed
qed

section \<open>Properties\<close>

text \<open>
  C14. A barrier under every schedule: however the steps of the threads of a team overlap in
  \<open>cb_sync_region\<close>, when all have returned the graph has gained one barrier node and one node per thread, the
  edges from every node a thread left to the barrier and from the barrier to every node a thread
  continues at, and no others; the count is back to 0 and the mutex is free.
\<close>

theorem overlapping_barrier_synchronises:
  assumes "team_ready s r q ts"
    and "barrier_schedule q (map data_of ts) sched (arrive_together (length ts) s) = Some S"
    and "list_all through (bt_stage S)"
  shows "\<exists>b x. bt_mutex S = None \<and> wf_tdg (bt_tool S) \<and> at_barrier (bt_tool S) r q (length ts) 0 b
    \<and> inj_on x {..<length ts} \<and> insert b (x ` {..<length ts}) \<inter> dom (g_heap s) = {} \<and> b \<notin> x ` {..<length ts}
    \<and> dom (g_heap (bt_tool S)) = dom (g_heap s) \<union> insert b (x ` {..<length ts})
    \<and> edge_rel (g_heap (bt_tool S)) = edge_rel (g_heap s) \<union> (\<lambda>t. (node_of t, b)) ` set ts \<union> (\<lambda>i. (b, x i)) ` {..<length ts}
    \<and> (\<forall>i < length ts. continues (bt_tool S) b (x i) (ts ! i))
    \<and> (\<forall>i < length ts. \<forall>j < length ts. (node_of (ts ! i), x j) \<in> (edge_rel (g_heap (bt_tool S)))\<^sup>+)"
proof -
  let ?n = "length ts" and ?b = "g_brk s" and ?ns = "next_nodes (bt_stage S)"
  have inv: "team_inv s r q ts S" by (rule schedule_inv [OF assms(1,2) start_inv [OF assms(1)]])
  note len = team_invD(1) [OF inv] and g = team_invD(2) [OF inv, unfolded barrier_graph_def]
  define x where "x = the \<circ> ?ns"
  have thr: "\<exists>node. bt_stage S ! i = Through node" if "i < ?n" for i
    using assms(3) that len by (cases "bt_stage S ! i") (auto simp: list_all_length dest: spec [of _ i])
  then have x: "bt_stage S ! i = Through (x i)" "?ns i = Some (x i)" if "i < ?n" for i
    using that len by (force simp: x_def next_nodes_def)+
  have dom: "dom ?ns = {..<?n}" and past: "past (bt_stage S) = {..<?n}"
    using x len by (auto simp: next_nodes_def past_def split: if_splits)
  have ran: "ran ?ns = x ` {..<?n}" unfolding x_def dom [symmetric] by (rule ran_the)
  have inj: "inj_on x {..<?n}" using g x(2) dom unfolding inj_on_def by simp
  have "edge_rel (g_heap (bt_tool S)) = edge_rel (g_heap s) \<union> (\<lambda>t. (node_of t, ?b)) ` set ts \<union> (\<lambda>i. (?b, x i)) ` {..<?n}"
    using g past ran by (simp add: image_image set_conv_nth lessThan_def setcompr_eq_image)
  moreover from this have "(node_of (ts ! i), x j) \<in> (edge_rel (g_heap (bt_tool S)))\<^sup>+" if "i < ?n" "j < ?n" for i j
    using that by (intro trancl_into_trancl [OF r_into_trancl]) auto
  moreover have "bt_mutex S \<noteq> Some j" for j using team_invD(5) [OF inv, of j] x(1) [of j] by auto
  then have "bt_mutex S = None" by blast
  moreover have ne: "past (bt_stage S) \<noteq> {}" using assms(1) past by (auto simp: team_ready_def)
  then have "{?b..<g_brk (bt_tool S)} = insert ?b (x ` {..<?n})" using g ran by auto
  moreover have "?b \<notin> x ` {..<?n}" using g ran by (metis atLeastLessThan_iff not_less_eq_eq order_refl)
  moreover have "a < ?b" if "a \<in> dom (g_heap s)" for a using assms(1) that by (simp add: team_ready_def wf_tdg_def)
  then have "{?b..<g_brk (bt_tool S)} \<inter> dom (g_heap s) = {}" by (metis atLeastLessThan_iff disjoint_iff not_less)
  moreover have "at_barrier (bt_tool S) r q ?n 0 ?b" using team_invD(3) [OF inv] past len by (simp add: arrivals_def)
  moreover have "continues (bt_tool S) ?b (x i) (ts ! i)" if "i < ?n" for i
    using team_invD(4) [OF inv that] x(1) [OF that] by simp
  ultimately show ?thesis using g inj by (intro exI [of _ ?b] exI [of _ x]) simp
qed

text \<open>
  C15. No schedule of the threads at a barrier blocks forever: a thread has at most seven steps, no step follows a
  bad pointer, and from every state some order of steps lets all threads through.  The mutex does its work: at
  no moment are two threads between its lock and its unlock, so that nothing can come between the accesses to
  the region's count and node that are one step here.
\<close>

theorem overlapping_barrier_finishes:
  assumes "team_ready s r q ts"
    and "barrier_schedule q (map data_of ts) sched (arrive_together (length ts) s) = Some S"
  shows "length sched \<le> 7 * length ts \<and> (\<forall>i. barrier_step q (map data_of ts) i S \<noteq> Faults)
    \<and> (\<forall>i j. i < length ts \<and> j < length ts \<and> holds_mutex (bt_stage S ! i) \<and> holds_mutex (bt_stage S ! j) \<longrightarrow> i = j)
    \<and> (\<exists>rest S'. barrier_schedule q (map data_of ts) (sched @ rest) (arrive_together (length ts) s) = Some S'
         \<and> list_all through (bt_stage S'))"
proof (intro conjI allI impI)
  have inv: "team_inv s r q ts S" by (rule schedule_inv [OF assms(1,2) start_inv [OF assms(1)]])
  show "i = j" if "i < length ts \<and> j < length ts \<and> holds_mutex (bt_stage S ! i) \<and> holds_mutex (bt_stage S ! j)" for i j
    using team_invD(5) [OF inv, of i] team_invD(5) [OF inv, of j] that by simp
  show "length sched \<le> 7 * length ts"
    using schedule_length [OF assms(2)] by (simp add: arrive_together_def sum_list_replicate)
  show "barrier_step q (map data_of ts) i S \<noteq> Faults" for i
    by (cases rule: step_cases [OF inv assms(1), of i]) simp_all
  show "\<exists>rest S'. barrier_schedule q (map data_of ts) (sched @ rest) (arrive_together (length ts) s) = Some S'
      \<and> list_all through (bt_stage S')"
    using run_to_barrier_end [OF assms(1) inv] assms(2) by (simp add: barrier_schedule_append)
qed

text \<open>The team of \<open>Team_Barrier\<close>.\<close>

lemma sample_team_ready: "team_ready sample_team 0 3 sample_arrivals"
proof -
  have "wf_tdg sample_team"
    using wf_sample_tool by (simp add: sample_team_def wf_tdg_def ids_ok_def index_ok_def)
  moreover have "at_barrier sample_team 0 3 2 0 0"
    by (simp add: at_barrier_def sample_team_def sample_tool_sel new_ParallelRegionData_def)
  moreover have "\<forall>t \<in> set sample_arrivals. waiting sample_team t"
    using sample_tool_at(1,2) by (simp add: sample_arrivals_def sample_team_def task_at_def)
  moreover have "g_nextId sample_team + int 2 + 1 < 2 ^ 63" by (simp add: sample_team_def sample_tool_sel)
  moreover have "length sample_arrivals = 2" "distinct (map data_of sample_arrivals)" by (simp_all add: sample_arrivals_def)
  ultimately show ?thesis by (simp add: team_ready_def)
qed

theorem overlapping_barrier_finishes_witness:
  "\<exists>rest S. barrier_schedule 3 [1, 0] ([] @ rest) (arrive_together 2 sample_team) = Some S \<and> list_all through (bt_stage S)"
proof -
  have n: "length sample_arrivals = 2" "map data_of sample_arrivals = [1, 0]" by (simp_all add: sample_arrivals_def)
  have "barrier_schedule 3 [1, 0] [] (arrive_together 2 sample_team) = Some (arrive_together 2 sample_team)" by simp
  then show ?thesis using overlapping_barrier_finishes [OF sample_team_ready, of "[]"] unfolding n by blast
qed

theorem overlapping_barrier_synchronises_witness:
  "\<exists>sched S b x. barrier_schedule 3 [1, 0] sched (arrive_together 2 sample_team) = Some S
    \<and> bt_mutex S = None \<and> at_barrier (bt_tool S) 0 3 2 0 b \<and> (\<forall>i < 2. continues (bt_tool S) b (x i) (sample_arrivals ! i))
    \<and> edge_rel (g_heap (bt_tool S)) = edge_rel (g_heap sample_team) \<union> (\<lambda>t. (node_of t, b)) ` set sample_arrivals
        \<union> (\<lambda>i. (b, x i)) ` {..<2}"
proof -
  have n: "length sample_arrivals = 2" "map data_of sample_arrivals = [1, 0]" by (simp_all add: sample_arrivals_def)
  obtain sched S where S: "barrier_schedule 3 [1, 0] sched (arrive_together 2 sample_team) = Some S" "list_all through (bt_stage S)"
    using run_to_barrier_end [OF sample_team_ready start_inv [OF sample_team_ready]] unfolding n by blast
  from overlapping_barrier_synchronises [OF sample_team_ready, unfolded n, OF S] show ?thesis
    by (elim exE conjE) (intro exI conjI, rule S(1), assumption+)
qed

end
