(* ===== verification/Empty_Tool.thy ===== *)
theory Empty_Tool
  imports Tool_Lifecycle
begin

text \<open>
  The tool of \<open>make empty\<close>: \<open>src/init_empty.cc\<close> and \<open>src/callbacks_empty.cc\<close>, which register the same
  callbacks but build no graph, to measure what the events themselves cost.  The only effect of the
  callbacks is output: \<open>cb_task_dependences\<close> lists the dependences of a task, and a build with
  \<open>LIBTDG_TRACE\<close> (the argument \<open>trace\<close>) prints a line per event.

  An \<open>ompt_data_t*\<close> is an address; \<open>mem\<close> gives the \<open>value\<close> of the data it points to, and reading it
  through a bad pointer is \<open>None\<close>.  An enumerator prints as its number in \<open>src/ompt.h\<close>.
\<close>

section \<open>The enumerations of the interface\<close>

datatype ompt_thread_type = ompt_thread_initial | ompt_thread_worker | ompt_thread_other

datatype ompt_task_status = ompt_task_complete | ompt_task_yield | ompt_task_cancel | ompt_task_others

datatype ompt_work_type =
  ompt_work_loop | ompt_work_sections | ompt_work_single_executor | ompt_work_single_other
  | ompt_work_workshare | ompt_work_distribute | ompt_work_taskloop

record ompt_task_dependence =
  variable_addr :: uint64
  dependence_flags :: uint32

fun thread_type_code :: "ompt_thread_type \<Rightarrow> int" where
  "thread_type_code ompt_thread_initial = 1"
| "thread_type_code ompt_thread_worker = 2"
| "thread_type_code ompt_thread_other = 3"

fun endpoint_code :: "ompt_scope_endpoint \<Rightarrow> int" where
  "endpoint_code ompt_scope_begin = 1"
| "endpoint_code ompt_scope_end = 2"

fun task_type_code :: "ompt_task_type \<Rightarrow> int" where
  "task_type_code ompt_task_initial = 1"
| "task_type_code ompt_task_implicit = 2"
| "task_type_code ompt_task_explicit = 3"
| "task_type_code ompt_task_target = 4"

fun task_status_code :: "ompt_task_status \<Rightarrow> int" where
  "task_status_code ompt_task_complete = 1"
| "task_status_code ompt_task_yield = 2"
| "task_status_code ompt_task_cancel = 3"
| "task_status_code ompt_task_others = 4"

fun work_type_code :: "ompt_work_type \<Rightarrow> int" where
  "work_type_code ompt_work_loop = 1"
| "work_type_code ompt_work_sections = 2"
| "work_type_code ompt_work_single_executor = 3"
| "work_type_code ompt_work_single_other = 4"
| "work_type_code ompt_work_workshare = 5"
| "work_type_code ompt_work_distribute = 6"
| "work_type_code ompt_work_taskloop = 7"

fun sync_region_code :: "ompt_sync_region_kind \<Rightarrow> int" where
  "sync_region_code ompt_sync_region_barrier = 1"
| "sync_region_code ompt_sync_region_taskwait = 2"
| "sync_region_code ompt_sync_region_taskgroup = 3"

section \<open>The callbacks\<close>

text \<open>\<open>TRACE_CALLBACK\<close> and \<open>TRACE_CALLBACK1\<close> to \<open>TRACE_CALLBACK4\<close>.\<close>

definition trace_callback :: "string \<Rightarrow> (string \<times> out_item) list \<Rightarrow> out_text" where
  "trace_callback cb args =
     [OStr ''libtdg: '', OStr cb]
     @ (if args = [] then []
        else OStr '', '' # concat (map (\<lambda>(name, arg). [OStr name, OStr '' '', arg, OStr '' '']) args))
     @ [Endl]"

type_synonym data_mem = "uint64 \<rightharpoonup> uint64"

definition empty_thread_begin :: "bool \<Rightarrow> ompt_thread_type \<Rightarrow> out_text option" where
  "empty_thread_begin trace thread_type =
     Some (if trace then trace_callback ''thread begin'' [(''type'', OInt (thread_type_code thread_type))] else [])"

definition empty_thread_end :: "bool \<Rightarrow> out_text option" where
  "empty_thread_end trace = Some (if trace then trace_callback ''thread end'' [] else [])"

definition empty_implicit_task :: "bool \<Rightarrow> ompt_scope_endpoint \<Rightarrow> uint32 \<Rightarrow> uint32 \<Rightarrow> out_text option" where
  "empty_implicit_task trace endpoint team_size thread_num =
     Some (if trace then trace_callback ''implicit task''
        [(''endpoint'', OInt (endpoint_code endpoint)), (''team size'', OInt (uint team_size)),
         (''thread'', OInt (uint thread_num))] else [])"

definition empty_parallel_begin :: "bool \<Rightarrow> data_mem \<Rightarrow> uint64 \<Rightarrow> uint32 \<Rightarrow> out_text option" where
  "empty_parallel_begin trace mem parent_task_data requested_team_size =
     (if trace then do {
        v \<leftarrow> mem parent_task_data;
        Some (trace_callback ''parallel begin'' [(''parent'', OInt (uint v)), (''team size'', OInt (uint requested_team_size))]) }
      else Some [])"

definition empty_parallel_end :: "bool \<Rightarrow> data_mem \<Rightarrow> uint64 \<Rightarrow> out_text option" where
  "empty_parallel_end trace mem parallel_data =
     (if trace then do {
        v \<leftarrow> mem parallel_data;
        Some (trace_callback ''parallel end'' [(''parallel data'', OInt (uint v))]) }
      else Some [])"

text \<open>The \<open>ptr\<close> member of the union is its \<open>value\<close> read as a pointer.\<close>

definition empty_task_create :: "bool \<Rightarrow> data_mem \<Rightarrow> uint64 \<Rightarrow> uint64 \<Rightarrow> ompt_task_type \<Rightarrow> uint64 \<Rightarrow> out_text option" where
  "empty_task_create trace mem parent_task_data new_task_data ty codeptr_ra =
     (if trace then do {
        p \<leftarrow> (if parent_task_data \<noteq> 0 then mem parent_task_data else Some 0);
        Some (trace_callback ''task create'' [(''type'', OInt (task_type_code ty)), (''parent_task_data'', OPtr p),
          (''new_task_data'', OPtr new_task_data), (''codeptr_ra'', OPtr codeptr_ra)]) }
      else Some [])"

definition empty_task_schedule :: "bool \<Rightarrow> uint64 \<Rightarrow> ompt_task_status \<Rightarrow> uint64 \<Rightarrow> out_text option" where
  "empty_task_schedule trace first_task_data prior_task_status second_task_data =
     Some (if trace then trace_callback ''task schedule''
        [(''first_task_data'', OPtr first_task_data), (''prior_task_status'', OInt (task_status_code prior_task_status)),
         (''second_task_data'', OPtr second_task_data)] else [])"

text \<open>The loop \<open>for( int i = 0; i < ndeps; ++i )\<close> over the array \<open>deps\<close>, which must have that many entries.\<close>

fun print_deps :: "ompt_task_dependence list \<Rightarrow> nat \<Rightarrow> out_text option" where
  "print_deps deps 0 = Some []"
| "print_deps [] (Suc n) = None"
| "print_deps (d # deps) (Suc n) = do {
     rest \<leftarrow> print_deps deps n;
     Some ([OStr ''Addr = '', OInt (uint (variable_addr d)), OStr '', flags = '', OInt (uint (dependence_flags d)), Endl]
           @ rest) }"

definition empty_task_dependences :: "bool \<Rightarrow> uint64 \<Rightarrow> ompt_task_dependence list \<Rightarrow> int \<Rightarrow> out_text option" where
  "empty_task_dependences trace task_data deps ndeps = do {
     let tr = (if trace then trace_callback ''task dependences'' [(''task_data'', OPtr task_data)] else []);
     ls \<leftarrow> print_deps deps (nat ndeps);
     Some (tr @ [OStr ''Ndeps = '', OInt ndeps, Endl] @ ls) }"

definition empty_task_dependence :: "bool \<Rightarrow> uint64 \<Rightarrow> uint64 \<Rightarrow> out_text option" where
  "empty_task_dependence trace src_task_data sink_task_data =
     Some (if trace then trace_callback ''task dependence''
        [(''src_task_data'', OPtr src_task_data), (''sink_task_data'', OPtr sink_task_data)] else [])"

definition empty_work :: "bool \<Rightarrow> data_mem \<Rightarrow> ompt_work_type \<Rightarrow> ompt_scope_endpoint \<Rightarrow> uint64 \<Rightarrow> out_text option" where
  "empty_work trace mem wstype endpoint parallel_data =
     (if trace then do {
        v \<leftarrow> mem parallel_data;
        Some (trace_callback ''worksharing'' [(''type'', OInt (work_type_code wstype)),
          (''endpoint'', OInt (endpoint_code endpoint)), (''par data'', OInt (uint v))]) }
      else Some [])"

definition empty_sync_region :: "bool \<Rightarrow> data_mem \<Rightarrow> ompt_sync_region_kind \<Rightarrow> ompt_scope_endpoint \<Rightarrow> uint64
    \<Rightarrow> out_text option" where
  "empty_sync_region trace mem kind endpoint task_data =
     (if trace then do {
        v \<leftarrow> mem task_data;
        Some (trace_callback ''sync region'' [(''kind'', OInt (sync_region_code kind)),
          (''endpoint'', OInt (endpoint_code endpoint)), (''task data'', OInt (uint v))]) }
      else Some [])"

definition empty_ext_loop :: "bool \<Rightarrow> ompt_scope_endpoint \<Rightarrow> int64 \<Rightarrow> int64 \<Rightarrow> uint64 \<Rightarrow> out_text option" where
  "empty_ext_loop trace endpoint lo up chunk_size =
     Some (if trace then trace_callback ''loop'' [(''lower'', OInt lo), (''upper'', OInt up),
        (''chunk_size'', OInt (uint chunk_size)), (''endpoint'', OInt (endpoint_code endpoint))] else [])"

definition empty_ext_chunk :: "bool \<Rightarrow> data_mem \<Rightarrow> uint64 \<Rightarrow> int64 \<Rightarrow> int64 \<Rightarrow> int \<Rightarrow> out_text option" where
  "empty_ext_chunk trace mem task_data lo up last_chunk =
     (if trace then do {
        p \<leftarrow> mem task_data;
        Some (trace_callback ''chunk'' [(''lower'', OInt lo), (''upper'', OInt up), (''task data'', OPtr p),
          (''last'', OInt last_chunk)]) }
      else Some [])"

section \<open>Start and end\<close>

definition empty_init_libtdg :: "bool \<Rightarrow> (ompt_callbacks \<Rightarrow> callback \<Rightarrow> int) \<Rightarrow> out_text outcome" where
  "empty_init_libtdg has_callback_set callback_set =
     (let out = [OStr ''libtdg (empty): initialize...'', Endl] in
      if \<not> has_callback_set then Exits (- 1)
      else Returns (fold (init_callback callback_set) registered_callbacks out))"

definition empty_finalize_libtdg :: "bool \<Rightarrow> out_text" where
  "empty_finalize_libtdg trace = (if trace then [OStr ''libtdg: finalize...'', Endl] else [])"

section \<open>Sessions\<close>

datatype empty_event =
  EThreadBegin ompt_thread_type | EThreadEnd | EImplicitTask ompt_scope_endpoint uint32 uint32
  | EParallelBegin uint64 uint32 | EParallelEnd uint64 | ETaskCreate uint64 uint64 ompt_task_type uint64
  | ETaskSchedule uint64 ompt_task_status uint64 | ETaskDependences uint64 "ompt_task_dependence list" int
  | ETaskDependence uint64 uint64 | EWork ompt_work_type ompt_scope_endpoint uint64
  | ESyncRegion ompt_sync_region_kind ompt_scope_endpoint uint64
  | ELoop ompt_scope_endpoint int64 int64 uint64 | EChunk uint64 int64 int64 int

fun empty_dispatch :: "bool \<Rightarrow> data_mem \<Rightarrow> empty_event \<Rightarrow> out_text option" where
  "empty_dispatch trace mem (EThreadBegin ty) = empty_thread_begin trace ty"
| "empty_dispatch trace mem EThreadEnd = empty_thread_end trace"
| "empty_dispatch trace mem (EImplicitTask ep n t) = empty_implicit_task trace ep n t"
| "empty_dispatch trace mem (EParallelBegin p n) = empty_parallel_begin trace mem p n"
| "empty_dispatch trace mem (EParallelEnd p) = empty_parallel_end trace mem p"
| "empty_dispatch trace mem (ETaskCreate p q ty c) = empty_task_create trace mem p q ty c"
| "empty_dispatch trace mem (ETaskSchedule p st q) = empty_task_schedule trace p st q"
| "empty_dispatch trace mem (ETaskDependences p deps n) = empty_task_dependences trace p deps n"
| "empty_dispatch trace mem (ETaskDependence p q) = empty_task_dependence trace p q"
| "empty_dispatch trace mem (EWork ty ep p) = empty_work trace mem ty ep p"
| "empty_dispatch trace mem (ESyncRegion k ep p) = empty_sync_region trace mem k ep p"
| "empty_dispatch trace mem (ELoop ep lo up c) = empty_ext_loop trace ep lo up c"
| "empty_dispatch trace mem (EChunk p lo up l) = empty_ext_chunk trace mem p lo up l"

definition empty_session :: "bool \<Rightarrow> data_mem \<Rightarrow> bool \<Rightarrow> (ompt_callbacks \<Rightarrow> callback \<Rightarrow> int) \<Rightarrow> empty_event list \<Rightarrow> out_text outcome option" where
  "empty_session trace mem has_callback_set callback_set calls =
     (case empty_init_libtdg has_callback_set callback_set of
        Exits c \<Rightarrow> Some (Exits c)
      | Returns out0 \<Rightarrow> do {
          out \<leftarrow> foldM (\<lambda>c out. do { ls \<leftarrow> empty_dispatch trace mem c; Some (out @ ls) }) calls out0;
          Some (Returns (out @ empty_finalize_libtdg trace)) })"

section \<open>The lines of a session\<close>

definition dep_line :: "ompt_task_dependence \<Rightarrow> out_text" where
  "dep_line d = [OStr ''Addr = '', OInt (uint (variable_addr d)), OStr '', flags = '', OInt (uint (dependence_flags d))]"

text \<open>What an event lists, whatever the build: the dependences of a task.\<close>

fun dep_lines :: "empty_event \<Rightarrow> out_text list" where
  "dep_lines (ETaskDependences p deps n) = [OStr ''Ndeps = '', OInt n] # map dep_line (take (nat n) deps)"
| "dep_lines _ = []"

fun deps_ok :: "empty_event \<Rightarrow> bool" where
  "deps_ok (ETaskDependences p deps n) = (nat n \<le> length deps)"
| "deps_ok _ = True"

text \<open>The pointers a traced event reads through.\<close>

fun reads_ok :: "data_mem \<Rightarrow> empty_event \<Rightarrow> bool" where
  "reads_ok mem (EParallelBegin p n) = (mem p \<noteq> None)"
| "reads_ok mem (EParallelEnd p) = (mem p \<noteq> None)"
| "reads_ok mem (ETaskCreate p q ty c) = (p \<noteq> 0 \<longrightarrow> mem p \<noteq> None)"
| "reads_ok mem (EWork ty ep p) = (mem p \<noteq> None)"
| "reads_ok mem (ESyncRegion k ep p) = (mem p \<noteq> None)"
| "reads_ok mem (EChunk p lo up l) = (mem p \<noteq> None)"
| "reads_ok mem _ = True"

definition trace_line :: "out_text \<Rightarrow> bool" where
  "trace_line l = (l \<noteq> [] \<and> hd l \<in> {OStr ''libtdg: '', OStr ''libtdg: finalize...''})"

lemma print_deps_lines:
  "n \<le> length deps \<Longrightarrow> print_deps deps n = Some (unlines (map dep_line (take n deps)))"
  by (induction deps n rule: print_deps.induct) (auto simp: dep_line_def)

lemma dispatch_silent:
  "deps_ok c \<Longrightarrow> empty_dispatch False mem c = Some (unlines (dep_lines c))"
  by (cases c) (auto simp: empty_thread_begin_def empty_thread_end_def empty_implicit_task_def
      empty_parallel_begin_def empty_parallel_end_def empty_task_create_def empty_task_schedule_def
      empty_task_dependences_def empty_task_dependence_def empty_work_def empty_sync_region_def
      empty_ext_loop_def empty_ext_chunk_def print_deps_lines)

definition traced_as :: "out_text option \<Rightarrow> out_text list \<Rightarrow> bool" where
  "traced_as r ls \<longleftrightarrow> (\<exists>l. trace_line l \<and> Endl \<notin> set l \<and> r = Some (unlines (l # ls)))"

lemma trace_callback_line:
  assumes "Endl \<notin> snd ` set args"
  shows "traced_as (Some (trace_callback cb args @ unlines ls)) ls"
  unfolding traced_as_def
proof (intro exI conjI)
  let ?l = "OStr ''libtdg: '' # OStr cb # (if args = [] then [] else OStr '', '' #
      concat (map (\<lambda>(name, arg). [OStr name, OStr '' '', arg, OStr '' '']) args))"
  show "trace_line ?l" by (simp add: trace_line_def)
  show "Endl \<notin> set ?l" using assms by (force split: if_splits)
  show "Some (trace_callback cb args @ unlines ls) = Some (unlines (?l # ls))"
    by (simp add: trace_callback_def)
qed

lemma dispatch_traced:
  assumes "deps_ok c" and "reads_ok mem c"
  shows "traced_as (empty_dispatch True mem c) (dep_lines c)"
proof (cases c)
  case (ETaskDependences p deps n)
  then show ?thesis
    using trace_callback_line [of "[(''task_data'', OPtr p)]" "''task dependences''" "dep_lines c"] assms(1)
    by (simp add: empty_task_dependences_def print_deps_lines)
qed (use assms trace_callback_line [where ls = "[]"] in
  \<open>auto simp: empty_thread_begin_def empty_thread_end_def empty_implicit_task_def
      empty_parallel_begin_def empty_parallel_end_def empty_task_create_def empty_task_schedule_def
      empty_task_dependence_def empty_work_def empty_sync_region_def empty_ext_loop_def empty_ext_chunk_def\<close>)

lemma dep_lines_plain: "l \<in> set (dep_lines c) \<Longrightarrow> Endl \<notin> set l \<and> \<not> trace_line l"
  by (cases c) (auto simp: dep_line_def trace_line_def)

abbreviation listing :: "bool \<Rightarrow> data_mem \<Rightarrow> empty_event \<Rightarrow> out_text \<Rightarrow> out_text option" where
  "listing trace mem c out \<equiv> do { ls \<leftarrow> empty_dispatch trace mem c; Some (out @ ls) }"

lemma run_silent:
  "\<forall>c \<in> set calls. deps_ok c \<Longrightarrow>
   foldM (listing False mem) calls out = Some (out @ unlines (concat (map dep_lines calls)))"
  by (induction calls arbitrary: out) (auto simp: dispatch_silent)

lemma run_traced:
  "\<forall>c \<in> set calls. deps_ok c \<and> reads_ok mem c \<Longrightarrow>
   \<exists>ls. foldM (listing True mem) calls out = Some (out @ unlines ls) \<and> (\<forall>l \<in> set ls. Endl \<notin> set l)
     \<and> filter (\<lambda>l. \<not> trace_line l) ls = concat (map dep_lines calls)"
proof (induction calls arbitrary: out)
  case (Cons c calls)
  obtain l where l: "trace_line l" "Endl \<notin> set l" "empty_dispatch True mem c = Some (unlines (l # dep_lines c))"
    using dispatch_traced [of c mem] Cons.prems by (auto simp: traced_as_def)
  obtain ls where ls: "foldM (listing True mem) calls (out @ unlines (l # dep_lines c))
      = Some ((out @ unlines (l # dep_lines c)) @ unlines ls)" "\<forall>l \<in> set ls. Endl \<notin> set l"
      "filter (\<lambda>l. \<not> trace_line l) ls = concat (map dep_lines calls)"
    using Cons.IH [of "out @ unlines (l # dep_lines c)"] Cons.prems by auto
  have "filter (\<lambda>l. \<not> trace_line l) (dep_lines c) = dep_lines c"
    using dep_lines_plain by (simp add: filter_id_conv)
  then show ?case using l ls dep_lines_plain
    by (intro exI [of _ "(l # dep_lines c) @ ls"]) auto
qed (auto intro: exI [of _ "[]"])

definition start_lines :: "(ompt_callbacks \<Rightarrow> callback \<Rightarrow> int) \<Rightarrow> out_text list" where
  "start_lines callback_set = [OStr ''libtdg (empty): initialize...'']
     # map (\<lambda>_. [OStr ''libtdg: cb_##func set failed'']) (filter (\<lambda>c. callback_set (event_of c) c \<noteq> 4) registered_callbacks)"

lemma init_lines: "empty_init_libtdg True callback_set = Returns (unlines (start_lines callback_set))"
proof -
  have "fold (init_callback callback_set) cs out
      = out @ unlines (map (\<lambda>_. [OStr ''libtdg: cb_##func set failed'']) (filter (\<lambda>c. callback_set (event_of c) c \<noteq> 4) cs))" for cs out
    by (induction cs arbitrary: out) (simp_all add: init_callback_def)
  then show ?thesis by (simp add: empty_init_libtdg_def start_lines_def)
qed

lemma start_lines_plain: "l \<in> set (start_lines f) \<Longrightarrow> Endl \<notin> set l \<and> \<not> trace_line l"
  by (auto simp: start_lines_def trace_line_def)

section \<open>Properties\<close>

text \<open>
  C31. A session of the empty tool prints its greeting, a line for every callback the runtime does not
  accept, and for every list of dependences their number and the entries, and nothing else; a traced
  build prints lines that begin with \<open>libtdg: \<close> in between, and is the same session without them.
\<close>

theorem empty_session_output:
  assumes "\<forall>c \<in> set calls. deps_ok c" and "\<forall>c \<in> set calls. reads_ok mem c"
  shows "\<exists>out out'. empty_session False mem True callback_set calls = Some (Returns out)
    \<and> out_lines out = start_lines callback_set @ concat (map dep_lines calls)
    \<and> empty_session True mem True callback_set calls = Some (Returns out')
    \<and> filter (\<lambda>l. \<not> trace_line l) (out_lines out') = out_lines out"
proof -
  let ?ls = "start_lines callback_set @ concat (map dep_lines calls)"
  have ls: "out_lines (unlines ?ls) = ?ls"
    by (rule out_lines_unlines) (auto dest: start_lines_plain dep_lines_plain)
  obtain ts where ts: "foldM (listing True mem) calls (unlines (start_lines callback_set))
      = Some (unlines (start_lines callback_set) @ unlines ts)" "\<forall>l \<in> set ts. Endl \<notin> set l"
      "filter (\<lambda>l. \<not> trace_line l) ts = concat (map dep_lines calls)"
    using run_traced [of calls mem] assms by blast
  let ?ts = "start_lines callback_set @ ts @ [[OStr ''libtdg: finalize...'']]"
  have "out_lines (unlines ?ts) = ?ts"
    by (rule out_lines_unlines) (use ts(2) in \<open>auto dest: start_lines_plain\<close>)
  moreover have "filter (\<lambda>l. \<not> trace_line l) ?ts = ?ls"
    using ts(3) start_lines_plain by (simp add: filter_id_conv trace_line_def)
  moreover have "empty_session True mem True callback_set calls = Some (Returns (unlines ?ts))"
    using ts(1) by (simp add: empty_session_def init_lines empty_finalize_libtdg_def)
  moreover have "empty_session False mem True callback_set calls = Some (Returns (unlines ?ls))"
    using run_silent [OF assms(1)] by (simp add: empty_session_def init_lines empty_finalize_libtdg_def)
  ultimately show ?thesis using ls by metis
qed

theorem empty_session_output_witness:
  "\<exists>out out'. empty_session False [4 \<mapsto> 7] True (\<lambda>_ _. 4)
       [EParallelBegin 4 2, ETaskDependences 9 [\<lparr>variable_addr = 64, dependence_flags = 3\<rparr>] 1] = Some (Returns out)
    \<and> out_lines out = [[OStr ''libtdg (empty): initialize...''], [OStr ''Ndeps = '', OInt 1],
         [OStr ''Addr = '', OInt 64, OStr '', flags = '', OInt 3]]
    \<and> empty_session True [4 \<mapsto> 7] True (\<lambda>_ _. 4)
       [EParallelBegin 4 2, ETaskDependences 9 [\<lparr>variable_addr = 64, dependence_flags = 3\<rparr>] 1] = Some (Returns out')
    \<and> filter (\<lambda>l. \<not> trace_line l) (out_lines out') = out_lines out"
  using empty_session_output [of "[EParallelBegin 4 2, ETaskDependences 9 [\<lparr>variable_addr = 64, dependence_flags = 3\<rparr>] 1]"
      "[4 \<mapsto> 7]" "\<lambda>_ _. 4"]
  by (simp add: start_lines_def dep_line_def)

end
