(* ===== verification/Traced_Tool.thy ===== *)
theory Traced_Tool
  imports Empty_Tool Task_Counts
begin

text \<open>
  The tool built with \<open>LIBTDG_TRACE\<close>: \<open>src/callbacks.cc\<close> then prints a line at the beginning of every
  callback but those for task dependences, and \<open>src/init.cc\<close> prints what it reads from the environment.
  A call of the runtime comes with all the arguments the trace prints; \<open>call_event\<close> is the event of
  \<open>Omp_Protocol\<close> it reports.  \<open>trace_call\<close> is the line of each callback; the rest of the callback is the same code
  in both builds, so \<open>traced_call\<close> puts the line before it.

  The addresses of the runtime's data and of the tool's objects are parameters (\<open>a_task\<close>, \<open>a_obj\<close>); the
  \<open>ptr\<close> member of an \<open>ompt_data_t\<close> is null or the address of an object, and its \<open>value\<close> is the same 64
  bits as a number.
\<close>

section \<open>The lines\<close>

record addresses =
  a_task :: "nat \<Rightarrow> uint64"
  a_obj :: "addr \<Rightarrow> uint64"

definition ptr_bits :: "addresses \<Rightarrow> addr option \<Rightarrow> uint64" where
  "ptr_bits A p = (case p of None \<Rightarrow> 0 | Some a \<Rightarrow> a_obj A a)"

text \<open>\<open>TRACE_CALLBACK\<close> and \<open>TRACE_CALLBACK1\<close> to \<open>TRACE_CALLBACK4\<close>, which write to \<open>std::cout\<close>.\<close>

definition TRACE_CALLBACK :: "string \<Rightarrow> (string \<times> out_item) list \<Rightarrow> out_text \<Rightarrow> out_text" where
  "TRACE_CALLBACK cb args out = out @ trace_callback cb args"

datatype tool_call =
  Call_thread_begin ompt_thread_type nat
  | Call_thread_end nat
  | Call_implicit_task ompt_scope_endpoint nat nat uint32 uint32
  | Call_parallel_begin nat nat uint32
  | Call_parallel_end nat
  | Call_task_create "nat option" nat ompt_task_type int
  | Call_task_schedule nat ompt_task_status nat
  | Call_task_dependences nat
  | Call_task_dependence nat nat
  | Call_work ompt_work_type ompt_scope_endpoint "nat option"
  | Call_sync_region ompt_sync_region_kind ompt_scope_endpoint "nat option" nat
  | Call_ext_loop nat ompt_scope_endpoint nat int64 int64 uint64 uint64
  | Call_ext_chunk nat nat int64 int64 int

text \<open>What a callback prints before it does anything else; a trace that reads through a null pointer is
  \<open>None\<close>.\<close>

fun trace_call :: "addresses \<Rightarrow> tool_call \<Rightarrow> tool \<Rightarrow> out_text \<Rightarrow> out_text option" where
  "trace_call A (Call_thread_begin ty thr) s out =
     Some (TRACE_CALLBACK ''thread begin'' [(''type'', OInt (thread_type_code ty))] out)"
| "trace_call A (Call_thread_end thr) s out = Some (TRACE_CALLBACK ''thread end'' [] out)"
| "trace_call A (Call_implicit_task ep r k team_size thread_num) s out =
     Some (TRACE_CALLBACK ''implicit task'' [(''endpoint'', OInt (endpoint_code ep)), (''team size'', OInt (uint team_size)),
       (''thread'', OInt (uint thread_num)), (''task_data'', OPtr (a_task A k))] out)"
| "trace_call A (Call_parallel_begin p r requested_team_size) s out =
     Some (TRACE_CALLBACK ''parallel begin'' [(''parent'', OInt (uint (ptr_bits A (t_taskPtr s p)))),
       (''team size'', OInt (uint requested_team_size))] out)"
| "trace_call A (Call_parallel_end r) s out =
     Some (TRACE_CALLBACK ''parallel end'' [(''parallel data'', OPtr (ptr_bits A (t_parPtr s r)))] out)"
| "trace_call A (Call_task_create p k ty has_dependences) s out =
     Some (TRACE_CALLBACK ''task create'' [(''type'', OInt (task_type_code ty)),
       (''parent_task_data'', OPtr (case p of None \<Rightarrow> 0 | Some p \<Rightarrow> ptr_bits A (t_taskPtr s p))),
       (''new_task_data'', OPtr (a_task A k)), (''has_dependences'', OInt has_dependences)] out)"
| "trace_call A (Call_task_schedule k prior_task_status k') s out =
     Some (TRACE_CALLBACK ''task schedule'' [(''first_task_data'', OPtr (a_task A k)),
       (''prior_task_status'', OInt (task_status_code prior_task_status)), (''second_task_data'', OPtr (a_task A k'))] out)"
| "trace_call A (Call_task_dependences k) s out = Some out"
| "trace_call A (Call_task_dependence k k') s out = Some out"
| "trace_call A (Call_work wstype ep r) s out = do {
     r' \<leftarrow> r;
     Some (TRACE_CALLBACK ''worksharing'' [(''type'', OInt (work_type_code wstype)), (''endpoint'', OInt (endpoint_code ep)),
       (''par data'', OPtr (ptr_bits A (t_parPtr s r')))] out) }"
| "trace_call A (Call_sync_region kind ep r k) s out =
     Some (TRACE_CALLBACK ''sync region'' [(''kind'', OInt (sync_region_code kind)), (''endpoint'', OInt (endpoint_code ep)),
       (''task data'', OPtr (ptr_bits A (t_taskPtr s k)))] out)"
| "trace_call A (Call_ext_loop thr ep k lo up chunk_size codeptr_ra) s out =
     Some (TRACE_CALLBACK ''loop'' [(''lower'', OInt lo), (''upper'', OInt up), (''chunk_size'', OInt (uint chunk_size)),
       (''codeptr_ra'', OPtr codeptr_ra)] out)"
| "trace_call A (Call_ext_chunk thr k lo up last_chunk) s out =
     Some (TRACE_CALLBACK ''chunk'' [(''lower'', OInt lo), (''upper'', OInt up),
       (''task data'', OPtr (ptr_bits A (t_taskPtr s k))), (''last'', OInt last_chunk)] out)"

text \<open>The call itself, with PAPI calls that succeed, as in \<open>Omp_Simulation\<close>.\<close>

fun plain_call :: "int \<Rightarrow> tool_call \<Rightarrow> tool \<Rightarrow> tool option" where
  "plain_call es (Call_thread_begin ty thr) s =
     (case cb_thread_begin (Some es) (\<lambda>_ _. True) thr s of Returns s' \<Rightarrow> Some s' | Exits _ \<Rightarrow> None)"
| "plain_call es (Call_thread_end thr) s = do {
     r \<leftarrow> cb_thread_end (\<lambda>_. True) (\<lambda>_. True) thr s;
     (case r of Returns s' \<Rightarrow> Some s' | Exits _ \<Rightarrow> None) }"
| "plain_call es (Call_implicit_task ep r k team_size thread_num) s = cb_implicit_task ep r k team_size thread_num s"
| "plain_call es (Call_parallel_begin p r team) s = cb_parallel_begin p r team s"
| "plain_call es (Call_parallel_end r) s = cb_parallel_end r s"
| "plain_call es (Call_task_create p k ty has_dependences) s = cb_task_create p k ty s"
| "plain_call es (Call_task_schedule k prior_task_status k') s = cb_task_schedule k k' s"
| "plain_call es (Call_task_dependences k) s = cb_task_dependences k s"
| "plain_call es (Call_task_dependence k k') s = cb_task_dependence k k' s"
| "plain_call es (Call_work wstype ep r) s = cb_work ep (case r of None \<Rightarrow> 0 | Some r' \<Rightarrow> r') 0 0 s"
| "plain_call es (Call_sync_region kind ep r k) s = cb_sync_region kind ep r k s"
| "plain_call es (Call_ext_loop thr ep k lo up chunk_size codeptr_ra) s = cb_ext_loop ep thr k lo up s"
| "plain_call es (Call_ext_chunk thr k lo up last_chunk) s = cb_ext_chunk thr k lo up (last_chunk \<noteq> 0) s"

definition traced_call :: "addresses \<Rightarrow> int \<Rightarrow> tool_call \<Rightarrow> tool \<times> out_text \<Rightarrow> (tool \<times> out_text) option" where
  "traced_call A es c st = do {
     out \<leftarrow> trace_call A c (fst st) (snd st);
     s \<leftarrow> plain_call es c (fst st);
     Some (s, out) }"

section \<open>Start and end\<close>

text \<open>The two lines on an environment variable: its value, and how many tokens were read from it.\<close>

definition env_lines :: "string \<Rightarrow> string \<Rightarrow> string option \<Rightarrow> uint32 \<Rightarrow> out_text" where
  "env_lines env_name count_name env n =
     [OStr env_name, OStr (case env of None \<Rightarrow> [] | Some e \<Rightarrow> e), Endl, OStr count_name, OInt (uint n), Endl]"

definition traced_init_papi_events :: "bool \<Rightarrow> bool \<Rightarrow> (string \<Rightarrow> int option) \<Rightarrow> string option \<Rightarrow> tool \<Rightarrow> out_text
    \<Rightarrow> (tool \<times> out_text) outcome option" where
  "traced_init_papi_events library_ok thread_ok name_to_code papi_metrics_env s out =
     (if \<not> library_ok then Some (Exits (- 1))
      else if \<not> thread_ok then Some (Exits 1)
      else do {
        tokens_v \<leftarrow> parse_tokens papi_metrics_env [];
        let n = (word_of_nat (length tokens_v) :: uint32);
        let out1 = out @ env_lines ''libtdg: TDG_PAPI_METRICS = '' ''libtdg: num papi metrics: '' papi_metrics_env n;
        let codes = map name_to_code (take (unat n) tokens_v);
        Some (if None \<in> set codes then Exits (- 1)
              else Returns (s\<lparr>t_papiNumEvents := n, t_papiEvents := map the codes\<rparr>, out1)) })"

definition traced_init_libtdg :: "string option \<Rightarrow> (nat \<Rightarrow> uint64) \<Rightarrow> bool \<Rightarrow> (ompt_callbacks \<Rightarrow> callback \<Rightarrow> int) \<Rightarrow> bool \<Rightarrow> bool
    \<Rightarrow> (string \<Rightarrow> int option) \<Rightarrow> string option \<Rightarrow> bool \<Rightarrow> tool \<Rightarrow> (tool \<times> out_text) outcome option" where
  "traced_init_libtdg cpufreq_file tsc has_callback_set callback_set library_ok thread_ok name_to_code
      papi_metrics_env has_thread_data s = do {
     let out = [OStr ''libtdg: initialize...'', Endl];
     ftimer_init \<leftarrow> init_clock_time cpufreq_file tsc new_timer;
     (case ftimer_init of
        Exits c \<Rightarrow> Some (Exits c)
      | Returns (tm, timer_out) \<Rightarrow>
          if \<not> has_callback_set then Some (Exits (- 1))
          else do {
            let out1 = fold (init_callback callback_set) registered_callbacks (out @ timer_out);
            r \<leftarrow> traced_init_papi_events library_ok thread_ok name_to_code papi_metrics_env s out1;
            (case r of
               Exits c \<Rightarrow> Some (Exits c)
             | Returns (s1, out2) \<Rightarrow>
                 if \<not> has_thread_data then Some (Exits (- 1))
                 else do {
                   clock \<leftarrow> clock_from tsc tm;
                   Some (Returns (s1\<lparr>t_clock := clock\<rparr>, out2)) }) }) }"

definition traced_finalize_libtdg :: "nat \<Rightarrow> string option \<Rightarrow> (string \<Rightarrow> bool) \<Rightarrow> tool
    \<Rightarrow> (tool \<times> out_text \<times> files) outcome option" where
  "traced_finalize_libtdg depth metrics_env is_open s = do {
     let out = [OStr ''libtdg: finalize...'', Endl];
     s1 \<leftarrow> (if t_finalNode s \<noteq> None then add_time_now (t_finalNode s) s else Some s);
     tokens_v \<leftarrow> parse_tokens metrics_env [];
     let num_metrics = (word_of_nat (length tokens_v) :: uint32);
     let out1 = out @ env_lines ''libtdg: TDG_TOOL_METRICS = '' ''libtdg: num tool metrics: '' metrics_env num_metrics;
     metrics \<leftarrow> all_assigned (map make_metric (take (unat num_metrics) tokens_v));
     inited \<leftarrow> all_assigned (map (init_metric s1) metrics);
     r \<leftarrow> print_metrics depth is_open inited (s1, out1, Map.empty);
     (case r of
        Exits c \<Rightarrow> Some (Exits c)
      | Returns (s2, out2, fs) \<Rightarrow> do {
          s3 \<leftarrow> delete_graph s2;
          Some (Returns (s3\<lparr>t_papiEvents := []\<rparr>, out2, fs)) }) }"

text \<open>What they do besides printing is what the plain build does.\<close>

lemma traced_init_papi_events_plain:
  "traced_init_papi_events c d f env s out = do {
     r \<leftarrow> init_papi_events c d f env s;
     Some (case r of Exits e \<Rightarrow> Exits e | Returns s1 \<Rightarrow> Returns (s1, out @ env_lines ''libtdg: TDG_PAPI_METRICS = ''
       ''libtdg: num papi metrics: '' env (t_papiNumEvents s1))) }"
  by (cases "parse_tokens env []") (simp_all add: traced_init_papi_events_def init_papi_events_def Let_def)

lemma traced_init_plain:
  assumes "traced_init_libtdg cpufreq tsc a b c d f env h s = Some (Returns (s0, out0))"
  shows "\<exists>out. init_libtdg cpufreq tsc a b c d f env h s = Some (Returns (s0, out))
    \<and> out0 = out @ env_lines ''libtdg: TDG_PAPI_METRICS = '' ''libtdg: num papi metrics: '' env (t_papiNumEvents s0)"
proof -
  obtain r where r: "init_clock_time cpufreq tsc new_timer = Some r"
    using assms by (auto simp: traced_init_libtdg_def opt_simps)
  then obtain tm timer_out where "r = Returns (tm, timer_out)" "a"
    using assms by (cases r) (auto simp: traced_init_libtdg_def split: if_splits)
  moreover from this obtain s1 where "init_papi_events c d f env s = Some (Returns s1)" "h"
    using assms r by (auto simp: traced_init_libtdg_def traced_init_papi_events_plain opt_simps split: outcome.splits if_splits)
  moreover obtain clock where "clock_from tsc tm = Some clock"
    using assms r calculation by (auto simp: traced_init_libtdg_def traced_init_papi_events_plain opt_simps)
  ultimately show ?thesis
    using assms r by (auto simp: traced_init_libtdg_def init_libtdg_def traced_init_papi_events_plain)
qed

fun prefixed :: "out_text \<Rightarrow> ('a \<times> out_text \<times> 'b) outcome \<Rightarrow> ('a \<times> out_text \<times> 'b) outcome" where
  "prefixed pre (Exits c) = Exits c"
| "prefixed pre (Returns (s, out, fs)) = Returns (s, pre @ out, fs)"

lemma print_metric_prefixed:
  "print_metric depth is_open m (s, pre @ out, fs) = map_option (prefixed pre) (print_metric depth is_open m (s, out, fs))"
proof -
  have res: "file_result name r (s, pre @ out, fs) = prefixed pre (file_result name r (s, out, fs))" for name r
    by (cases r) simp_all
  show ?thesis
  proof (cases m)
    case (TimMetric x)
    then show ?thesis by (cases "tt_printMetric x") simp_all
  next
    case (CriMetric x)
    then show ?thesis by (cases "cp_printMetric depth x s") (simp_all add: split_beta)
  next
    case (DotMetric name)
    then show ?thesis by (cases "printDotFile (is_open name) s") (simp_all add: res)
  next
    case (LogMetric name)
    then show ?thesis by (cases "log_printMetric (is_open name) s") (simp_all add: res)
  qed
qed

lemma print_metrics_prefixed:
  "print_metrics depth is_open ms (s, pre @ out, fs) = map_option (prefixed pre) (print_metrics depth is_open ms (s, out, fs))"
proof (induction ms arbitrary: s out fs)
  case (Cons m ms)
  show ?case
  proof (cases "print_metric depth is_open m (s, out, fs)")
    case (Some r)
    then show ?thesis by (cases r) (auto simp: print_metric_prefixed Cons.IH)
  qed (simp add: print_metric_prefixed)
qed simp

lemma traced_finalize_plain:
  assumes "finalize_libtdg depth env is_open s = Some (Returns (s', out, fs))" and toks: "parse_tokens env [] = Some toks"
  shows "traced_finalize_libtdg depth env is_open s = Some (Returns (s', [OStr ''libtdg: finalize...'', Endl]
    @ env_lines ''libtdg: TDG_TOOL_METRICS = '' ''libtdg: num tool metrics: '' env (word_of_nat (length toks)) @ out, fs))"
proof -
  obtain s1 metrics inited r where
      s1: "(if t_finalNode s \<noteq> None then add_time_now (t_finalNode s) s else Some s) = Some s1"
      and m: "all_assigned (map make_metric (take (unat (word_of_nat (length toks) :: uint32)) toks)) = Some metrics"
      "all_assigned (map (init_metric s1) metrics) = Some inited"
      and r: "print_metrics depth is_open inited (s1, [], Map.empty) = Some r"
      "(case r of Exits c \<Rightarrow> Some (Exits c) | Returns (s2, out, fs) \<Rightarrow> do {
          s3 \<leftarrow> delete_graph s2; Some (Returns (s3\<lparr>t_papiEvents := []\<rparr>, out, fs)) }) = Some (Returns (s', out, fs))"
    using assms unfolding finalize_libtdg_def bind_eq_Some_conv by auto
  have "print_metrics depth is_open inited (s1, pre, Map.empty) = Some (prefixed pre r)" for pre
    using print_metrics_prefixed [of depth is_open inited s1 pre "[]"] r(1) by simp
  then show ?thesis
    using r(2) unfolding traced_finalize_libtdg_def Let_def s1 toks
    by (cases r) (auto simp: m opt_simps)
qed

section \<open>Calls and events\<close>

fun call_event :: "tool_call \<Rightarrow> event" where
  "call_event (Call_thread_begin ty thr) = ThreadBegin thr"
| "call_event (Call_thread_end thr) = ThreadEnd thr"
| "call_event (Call_implicit_task ompt_scope_begin r k team_size thread_num) = ImplicitBegin r k (unat thread_num)"
| "call_event (Call_implicit_task ompt_scope_end r k team_size thread_num) = ImplicitEnd k (unat thread_num)"
| "call_event (Call_parallel_begin p r team) = ParallelBegin p r (unat team)"
| "call_event (Call_parallel_end r) = ParallelEnd r"
| "call_event (Call_task_create p k ty has_dependences) =
     (if ty = ompt_task_initial then InitialTask k
      else case p of Some p \<Rightarrow> if ty = ompt_task_explicit then ExplicitTask p k else Unobserved | None \<Rightarrow> Unobserved)"
| "call_event (Call_task_schedule k prior_task_status k') = Schedule k k'"
| "call_event (Call_sync_region kind ep r k) =
     (case r of Some r \<Rightarrow>
        if kind = ompt_sync_region_barrier then case ep of ompt_scope_begin \<Rightarrow> BarrierBegin r k | ompt_scope_end \<Rightarrow> BarrierEnd r k
        else Unobserved
      | None \<Rightarrow> Unobserved)"
| "call_event (Call_ext_loop thr ompt_scope_begin k lo up chunk_size codeptr_ra) = LoopBegin k lo up"
| "call_event (Call_ext_loop thr ompt_scope_end k lo up chunk_size codeptr_ra) = LoopEnd thr k"
| "call_event (Call_ext_chunk thr k lo up last_chunk) = Chunk thr k lo up (last_chunk \<noteq> 0)"
| "call_event _ = Unobserved"

text \<open>The runtime passes the data of the region or of the parent task where the callbacks need them.\<close>

fun call_ok :: "tool_call \<Rightarrow> bool" where
  "call_ok (Call_work wstype ep r) = (r \<noteq> None)"
| "call_ok (Call_sync_region kind ep r k) = (r \<noteq> None)"
| "call_ok (Call_task_create p k ty has_dependences) = (ty = ompt_task_explicit \<longrightarrow> p \<noteq> None)"
| "call_ok _ = True"

lemma plain_call_event: "call_ok c \<Longrightarrow> plain_call es c s = tool_event es (call_event c) s"
  by (cases c rule: call_event.cases)
    (auto simp: cb_implicit_task_def cb_ext_loop_def cb_task_create_def cb_task_dependences_def cb_task_dependence_def
      cb_work_def cb_sync_region_def split: ompt_scope_endpoint.splits option.splits)

section \<open>The lines of a run\<close>

text \<open>A trace line without its end, and how a reader recognises the creation of an explicit task (its type is
  printed as 3) and a chunk that is started (the last argument is 0; the other chunk events end a thread's
  share of the loop).\<close>

definition trace_text :: "string \<Rightarrow> (string \<times> out_item) list \<Rightarrow> out_text" where
  "trace_text cb args = OStr ''libtdg: '' # OStr cb # (if args = [] then []
     else OStr '', '' # concat (map (\<lambda>(name, arg). [OStr name, OStr '' '', arg, OStr '' '']) args))"

definition traces_explicit :: "out_text \<Rightarrow> bool" where
  "traces_explicit l \<longleftrightarrow> take 6 l = [OStr ''libtdg: '', OStr ''task create'', OStr '', '', OStr ''type'', OStr '' '', OInt 3]"

definition traces_chunk :: "out_text \<Rightarrow> bool" where
  "traces_chunk l \<longleftrightarrow> take 2 l = [OStr ''libtdg: '', OStr ''chunk'']
     \<and> drop 15 l = [OStr ''last'', OStr '' '', OInt 0, OStr '' '']"

text \<open>The text \<open>r\<close> is \<open>out\<close> and further lines, of which \<open>e\<close> are on explicit tasks and \<open>c\<close> on chunks.\<close>

definition adds_lines :: "out_text option \<Rightarrow> out_text \<Rightarrow> nat \<Rightarrow> nat \<Rightarrow> bool" where
  "adds_lines r out e c \<longleftrightarrow> (\<exists>ls. r = Some (out @ unlines ls) \<and> (\<forall>l \<in> set ls. Endl \<notin> set l)
     \<and> length (filter traces_explicit ls) = e \<and> length (filter traces_chunk ls) = c)"

lemma adds_none: "adds_lines (Some out) out 0 0"
  by (auto simp: adds_lines_def intro: exI [of _ "[]"])

lemma adds_one:
  assumes "Endl \<notin> snd ` set args" and "e = of_bool (traces_explicit (trace_text cb args))"
    and "c = of_bool (traces_chunk (trace_text cb args))"
  shows "adds_lines (Some (TRACE_CALLBACK cb args out)) out e c"
proof -
  have "TRACE_CALLBACK cb args out = out @ unlines [trace_text cb args]"
    by (simp add: TRACE_CALLBACK_def trace_callback_def trace_text_def)
  moreover have "Endl \<notin> set (trace_text cb args)" using assms(1) by (force simp: trace_text_def split: if_splits)
  ultimately show ?thesis using assms(2,3) unfolding adds_lines_def by (intro exI [of _ "[trace_text cb args]"]) simp
qed

lemma adds_trans:
  assumes "adds_lines (Some out1) out e c" and "adds_lines r out1 e' c'"
  shows "adds_lines r out (e + e') (c + c')"
proof -
  obtain ls where "out1 = out @ unlines ls" "\<forall>l \<in> set ls. Endl \<notin> set l"
      "length (filter traces_explicit ls) = e" "length (filter traces_chunk ls) = c"
    using assms(1) by (auto simp: adds_lines_def)
  moreover obtain ls' where "r = Some (out1 @ unlines ls')" "\<forall>l \<in> set ls'. Endl \<notin> set l"
      "length (filter traces_explicit ls') = e'" "length (filter traces_chunk ls') = c'"
    using assms(2) by (auto simp: adds_lines_def)
  ultimately show ?thesis unfolding adds_lines_def by (intro exI [of _ "ls @ ls'"]) auto
qed

lemmas trace_reading = traces_explicit_def traces_chunk_def trace_text_def

lemma trace_call_lines:
  assumes "call_ok c"
  shows "adds_lines (trace_call A c s out) out (explicit_tasks [call_event c]) (dispatched_chunks [call_event c])"
  using assms
proof (cases c)
  case (Call_task_create p k ty has_dependences)
  then show ?thesis
    using assms by (cases ty) (auto intro!: adds_one simp: explicit_tasks_def dispatched_chunks_def trace_reading split: option.splits)
next
  case (Call_implicit_task ep r k team_size thread_num)
  then show ?thesis by (cases ep) (auto intro!: adds_one simp: explicit_tasks_def dispatched_chunks_def trace_reading)
next
  case (Call_ext_loop thr ep k lo up chunk_size codeptr_ra)
  then show ?thesis by (cases ep) (auto intro!: adds_one simp: explicit_tasks_def dispatched_chunks_def trace_reading)
qed (auto intro!: adds_none adds_one simp: explicit_tasks_def dispatched_chunks_def trace_reading
    split: ompt_scope_endpoint.splits option.splits)

lemma count_Cons:
  "explicit_tasks (e # es) = explicit_tasks [e] + explicit_tasks es"
  "dispatched_chunks (e # es) = dispatched_chunks [e] + dispatched_chunks es"
  by (simp_all add: explicit_tasks_def dispatched_chunks_def)

lemma traced_calls_run:
  "\<forall>c \<in> set calls. call_ok c \<Longrightarrow> foldM (plain_call es) calls s = Some s' \<Longrightarrow>
   \<exists>out'. foldM (traced_call A es) calls (s, out) = Some (s', out')
     \<and> adds_lines (Some out') out (explicit_tasks (map call_event calls)) (dispatched_chunks (map call_event calls))"
proof (induction calls arbitrary: s out)
  case Nil
  then show ?case by (simp add: adds_none explicit_tasks_def dispatched_chunks_def)
next
  case (Cons c calls)
  obtain s1 where s1: "plain_call es c s = Some s1" "foldM (plain_call es) calls s1 = Some s'"
    using Cons.prems(2) by (auto simp: opt_simps)
  have line: "adds_lines (trace_call A c s out) out (explicit_tasks [call_event c]) (dispatched_chunks [call_event c])"
    using trace_call_lines Cons.prems(1) by simp
  then obtain out1 where out1: "trace_call A c s out = Some out1" by (auto simp: adds_lines_def)
  obtain out' where out': "foldM (traced_call A es) calls (s1, out1) = Some (s', out')"
      "adds_lines (Some out') out1 (explicit_tasks (map call_event calls)) (dispatched_chunks (map call_event calls))"
    using Cons.IH [of s1 out1] Cons.prems(1) s1(2) by auto
  have "adds_lines (Some out') out (explicit_tasks (map call_event (c # calls))) (dispatched_chunks (map call_event (c # calls)))"
    using adds_trans [OF line [unfolded out1] out'(2)] count_Cons [of "call_event c" "map call_event calls"] by simp
  then show ?case using out'(1) out1 s1(1) by (simp add: traced_call_def [of _ _ c])
qed

definition observed :: "event list \<Rightarrow> event list" where
  "observed = filter (\<lambda>e. \<forall>k. e \<noteq> Resume k)"

lemma foldM_observed: "foldM (tool_event es) (observed evs) s = foldM (tool_event es) evs s"
proof (induction evs arbitrary: s)
  case (Cons e evs)
  then show ?case by (cases e) (simp_all add: observed_def cong: Option.bind_cong)
qed (simp add: observed_def)

lemma foldM_plain_calls:
  "\<forall>c \<in> set calls. call_ok c \<Longrightarrow> foldM (plain_call es) calls s = foldM (tool_event es) (map call_event calls) s"
  by (induction calls arbitrary: s) (auto simp: plain_call_event cong: Option.bind_cong)

lemma observed_counts:
  "explicit_tasks (observed evs) = explicit_tasks evs" "dispatched_chunks (observed evs) = dispatched_chunks evs"
  by (simp_all add: explicit_tasks_def dispatched_chunks_def observed_def) (metis event.distinct)+

section \<open>The lines of the start\<close>

text \<open>What initialisation prints looks like no callback.\<close>

lemma start_lines:
  assumes "\<forall>l \<in> set ls. Endl \<notin> set l \<and> take 1 l \<noteq> [OStr ''libtdg: '']"
  shows "adds_lines (Some (unlines ls)) [] 0 0"
proof -
  have "\<not> traces_explicit l \<and> \<not> traces_chunk l" if "l \<in> set ls" for l
    using assms that by (cases l) (auto simp: trace_reading numeral_eq_Suc)
  then show ?thesis using assms unfolding adds_lines_def by (intro exI [of _ ls]) (auto simp: filter_empty_conv)
qed

lemma init_clock_lines:
  assumes "init_clock_time cpufreq tsc tm = Some (Returns (tm', timer_out))"
  shows "\<exists>ls. timer_out = unlines ls \<and> (\<forall>l \<in> set ls. Endl \<notin> set l \<and> take 1 l \<noteq> [OStr ''libtdg: ''])"
proof -
  let ?report = "[OStr ''Timer: cycles per sec = '', OInt (uint (tm_freq tm'))]"
  have "timer_out = unlines [?report] \<or> timer_out = unlines [[OStr ''# initializing x86-64 timer (takes some seconds)''], ?report]"
    using assms by (cases cpufreq) (auto simp: init_clock_time_def HRT_INIT_def Let_def opt_simps split: option.splits)
  then show ?thesis by (elim disjE) (intro exI conjI, assumption, simp)+
qed

lemma start_output_lines:
  assumes "init_libtdg cpufreq tsc a b c d f env h s = Some (Returns (s0, out))"
  shows "\<exists>ls. out = unlines ls \<and> (\<forall>l \<in> set ls. Endl \<notin> set l \<and> take 1 l \<noteq> [OStr ''libtdg: ''])"
proof -
  obtain r where r: "init_clock_time cpufreq tsc new_timer = Some r" using assms by (auto simp: init_libtdg_def opt_simps)
  then obtain tm timer_out where tm: "init_clock_time cpufreq tsc new_timer = Some (Returns (tm, timer_out))" "a"
    using assms by (cases r) (auto simp: init_libtdg_def split: if_splits)
  obtain p where p: "init_papi_events c d f env s = Some p" using assms tm by (auto simp: init_libtdg_def opt_simps)
  have out: "out = fold (init_callback b) registered_callbacks ([OStr ''libtdg: initialize...'', Endl] @ timer_out)"
    using assms tm p by (cases p) (auto simp: init_libtdg_def opt_simps split: if_splits)
  obtain ls where ls: "timer_out = unlines ls" "\<forall>l \<in> set ls. Endl \<notin> set l \<and> take 1 l \<noteq> [OStr ''libtdg: '']"
    using init_clock_lines [OF tm(1)] by blast
  let ?fails = "map (\<lambda>_. [OStr ''libtdg: cb_##func set failed'']) (filter (\<lambda>(e, c). b e c \<noteq> 4) (map (\<lambda>c. (event_of c, c)) registered_callbacks))"
  have "out = unlines ([[OStr ''libtdg: initialize...'']] @ ls @ ?fails)"
    unfolding out failed_registrations ls(1) by (simp add: unlines_def o_def)
  moreover have "\<forall>l \<in> set ([[OStr ''libtdg: initialize...'']] @ ls @ ?fails). Endl \<notin> set l \<and> take 1 l \<noteq> [OStr ''libtdg: '']"
    using ls(2) by auto
  ultimately show ?thesis by blast
qed

section \<open>Properties\<close>

text \<open>
  C32. The trace and the report agree: a session of the tool built with \<open>LIBTDG_TRACE\<close> and run with \<open>TDG_TOOL_METRICS=tim\<close>, over
  the calls that report any run of the machine, completes, and the numbers of explicit tasks and of
  chunks that the report shows at its end are the numbers of lines of the output up to then that
  trace the creation of an explicit task and the start of a chunk.
\<close>

theorem trace_agrees_with_report:
  assumes "traced_init_libtdg cpufreq tsc a b c d f papi_env h (new_tool clock papi) = Some (Returns (s0, out0))"
    and "\<forall>k. tsc k \<le> tsc (Suc k)" and "omp_run new_world evs w" and "InitialTask k \<in> set evs"
    and "2 * int (length evs) < 2 ^ 32" and "observed evs = map call_event calls" and "\<forall>x \<in> set calls. call_ok x"
  shows "\<exists>s out s' T tasks TC TE rest. foldM (traced_call A ps) calls (s0, out0) = Some (s, out)
    \<and> traced_finalize_libtdg depth (Some ''tim'') is_open s = Some (Returns (s',
        [OStr ''libtdg: finalize...'', Endl, OStr ''libtdg: TDG_TOOL_METRICS = '', OStr ''tim'', Endl,
         OStr ''libtdg: num tool metrics: '', OInt 1, Endl]
        @ task_report T tasks TC (length (filter traces_chunk (out_lines out)))
            TE (length (filter traces_explicit (out_lines out))) @ rest, Map.empty))"
proof -
  obtain out1 where init: "init_libtdg cpufreq tsc a b c d f papi_env h (new_tool clock papi) = Some (Returns (s0, out1))"
      and out0: "out0 = out1 @ env_lines ''libtdg: TDG_PAPI_METRICS = '' ''libtdg: num papi metrics: '' papi_env (t_papiNumEvents s0)"
    using traced_init_plain [OF assms(1)] by blast
  obtain s s' T TC TE rest where s: "foldM (tool_event ps) evs s0 = Some s"
      "finalize_libtdg depth (Some ''tim'') is_open s = Some (Returns (s',
         task_report T (card (w_nodes w)) TC (dispatched_chunks evs) TE (explicit_tasks evs) @ rest, Map.empty))"
    using session_report [OF init assms(2-5), of ps depth is_open] by blast
  have "foldM (plain_call ps) calls s0 = Some s"
    using s(1) foldM_plain_calls [OF assms(7)] foldM_observed [of ps evs s0] assms(6) by simp
  then obtain out where run: "foldM (traced_call A ps) calls (s0, out0) = Some (s, out)"
      "adds_lines (Some out) out0 (explicit_tasks evs) (dispatched_chunks evs)"
    using traced_calls_run [OF assms(7)] observed_counts [of evs] assms(6) by metis
  obtain ls where ls: "out1 = unlines ls" "\<forall>l \<in> set ls. Endl \<notin> set l \<and> take 1 l \<noteq> [OStr ''libtdg: '']"
    using start_output_lines [OF init] by blast
  have "adds_lines (Some (unlines (ls @ [[OStr ''libtdg: TDG_PAPI_METRICS = '', OStr (case papi_env of None \<Rightarrow> [] | Some e \<Rightarrow> e)],
      [OStr ''libtdg: num papi metrics: '', OInt (uint (t_papiNumEvents s0))]]))) [] 0 0"
    using ls(2) by (intro start_lines) auto
  then have "adds_lines (Some out0) [] 0 0" by (simp add: out0 ls(1) env_lines_def)
  from adds_trans [OF this run(2)] obtain ls' where ls': "out = unlines ls'" "\<forall>l \<in> set ls'. Endl \<notin> set l"
      "length (filter traces_explicit ls') = explicit_tasks evs" "length (filter traces_chunk ls') = dispatched_chunks evs"
    by (auto simp: adds_lines_def)
  have "parse_tokens (Some ''tim'') [] = Some [''tim'']" using parse_tokens_splits [of "''tim''" "[]"] by simp
  note fin = traced_finalize_plain [OF s(2) this]
  have "out_lines out = ls'" unfolding ls'(1) by (rule out_lines_unlines [OF ls'(2)])
  then have "traced_finalize_libtdg depth (Some ''tim'') is_open s = Some (Returns (s',
        [OStr ''libtdg: finalize...'', Endl, OStr ''libtdg: TDG_TOOL_METRICS = '', OStr ''tim'', Endl,
         OStr ''libtdg: num tool metrics: '', OInt 1, Endl]
        @ task_report T (card (w_nodes w)) TC (length (filter traces_chunk (out_lines out)))
            TE (length (filter traces_explicit (out_lines out))) @ rest, Map.empty))"
    using fin ls'(3,4) by (simp add: env_lines_def)
  then show ?thesis using run(1) by blast
qed

text \<open>A build without the trace does not mind a null region in \<open>cb_work\<close>, which the trace reads through.\<close>

lemma traced_work_null:
  "plain_call es (Call_work ty ep None) s = Some s" "traced_call A es (Call_work ty ep None) (s, out) = None"
  by (simp_all add: traced_call_def cb_work_def)

definition sample_tool_calls :: "tool_call list" where
  "sample_tool_calls = [Call_thread_begin ompt_thread_initial 0, Call_task_create None 0 ompt_task_initial 0,
     Call_parallel_begin 0 0 1, Call_implicit_task ompt_scope_begin 0 1 1 0,
     Call_ext_loop 0 ompt_scope_begin 1 0 9 1 64, Call_ext_chunk 0 1 0 9 0, Call_ext_loop 0 ompt_scope_end 1 0 9 1 64,
     Call_implicit_task ompt_scope_end 0 1 1 0, Call_parallel_end 0]"

lemma sample_traced_init:
  "\<exists>out. traced_init_libtdg (Some (decimal 1000 @ [newline])) sample_counter True (\<lambda>_ _. 4) True True (\<lambda>_. None) None True
     (new_tool real (\<lambda>_. None)) = Some (Returns (new_tool sample_clock (\<lambda>_. None), out))"
proof -
  let ?tool = "new_tool real (\<lambda>_. None)"
  have "init_papi_events True True (\<lambda>_. None) None ?tool = Some (Returns ?tool)"
    by (simp add: init_papi_events_def parse_tokens_def new_tool_def)
  moreover have "clock_from sample_counter (new_timer\<lparr>tm_freq := word_of_nat 1000\<rparr>) = Some sample_clock"
    by (simp add: clock_from_def new_timer_def)
  ultimately show ?thesis
    by (auto simp: traced_init_libtdg_def traced_init_papi_events_plain read_decimal new_tool_def)
qed

theorem trace_agrees_with_report_witness:
  "\<exists>s0 out0 s out s' T tasks TC TE rest.
     traced_init_libtdg (Some (decimal 1000 @ [newline])) sample_counter True (\<lambda>_ _. 4) True True (\<lambda>_. None) None True
       (new_tool real (\<lambda>_. None)) = Some (Returns (s0, out0))
     \<and> foldM (traced_call \<lparr>a_task = word_of_nat, a_obj = word_of_nat\<rparr> 0) sample_tool_calls (s0, out0) = Some (s, out)
     \<and> traced_finalize_libtdg 0 (Some ''tim'') (\<lambda>_. False) s = Some (Returns (s',
        [OStr ''libtdg: finalize...'', Endl, OStr ''libtdg: TDG_TOOL_METRICS = '', OStr ''tim'', Endl,
         OStr ''libtdg: num tool metrics: '', OInt 1, Endl]
        @ task_report T tasks TC (length (filter traces_chunk (out_lines out)))
            TE (length (filter traces_explicit (out_lines out))) @ rest, Map.empty))"
proof -
  obtain w where w: "omp_run new_world sample_events w" using sample_run by blast
  obtain out0 where init: "traced_init_libtdg (Some (decimal 1000 @ [newline])) sample_counter True (\<lambda>_ _. 4) True True (\<lambda>_. None)
      None True (new_tool real (\<lambda>_. None)) = Some (Returns (new_tool sample_clock (\<lambda>_. None), out0))"
    using sample_traced_init by blast
  have i: "InitialTask 0 \<in> set sample_events" "2 * int (length sample_events) < 2 ^ 32"
    "observed sample_events = map call_event sample_tool_calls" "\<forall>x \<in> set sample_tool_calls. call_ok x"
    by (simp_all add: sample_events_def observed_def sample_tool_calls_def)
  from trace_agrees_with_report [OF init sample_counter_mono w i, of "\<lparr>a_task = word_of_nat, a_obj = word_of_nat\<rparr>" 0 0 "\<lambda>_. False"]
  show ?thesis using init by blast
qed

end
