(* ===== verification/Ompt_Enums.thy ===== *)
theory Ompt_Enums
  imports Empty_Tool
begin

text \<open>
  The enumerations of \<open>src/ompt.h\<close> with their numbers.  The trace lines print enumerators as numbers and the
  runtime hands them over as numbers, so what matters is that a number determines its enumerator: one locale
  says so, with a decoder and its round trip, and every enumeration is an interpretation of it.  The flags
  are numbers that are combined bit by bit, and the states are numbered by ranges, which the comments of the
  header announce.
\<close>

unbundle bit_operations_syntax

section \<open>Enumerations\<close>

text \<open>The enumerators in the order of the source, and their numbers.\<close>

definition decode :: "('a \<Rightarrow> int) \<Rightarrow> 'a list \<Rightarrow> int \<Rightarrow> 'a option" where
  "decode code xs c = find (\<lambda>x. code x = c) xs"

locale enumeration =
  fixes code :: "'a \<Rightarrow> int" and enumerators :: "'a list"
  assumes complete: "x \<in> set enumerators"
    and distinct_codes: "distinct (map code enumerators)"
begin

lemma code_inj: "code x = code y \<Longrightarrow> x = y"
  using distinct_codes complete by (auto simp: distinct_map dest: inj_onD)

lemma decode_code: "decode code enumerators (code x) = Some x"
proof -
  have "find (\<lambda>y. code y = code x) enumerators \<noteq> None" using complete by (auto simp: find_None_iff)
  then obtain y where y: "find (\<lambda>y. code y = code x) enumerators = Some y" by auto
  then have "code y = code x" by (auto simp: find_Some_iff)
  then show ?thesis using y code_inj by (auto simp: decode_def)
qed

lemma code_decode: "decode code enumerators c = Some x \<Longrightarrow> code x = c"
  by (auto simp: decode_def find_Some_iff)

end

text \<open>Who starts the master task of a region, and how a loop is scheduled.\<close>

datatype ompt_invoker = ompt_invoker_program | ompt_invoker_runtime

fun invoker_code :: "ompt_invoker \<Rightarrow> int" where
  "invoker_code ompt_invoker_program = 0"
| "invoker_code ompt_invoker_runtime = 1"

datatype ext_loop_sched = ext_loop_sched_static | ext_loop_sched_dynamic | ext_loop_sched_guided

fun loop_sched_code :: "ext_loop_sched \<Rightarrow> int" where
  "loop_sched_code ext_loop_sched_static = 1"
| "loop_sched_code ext_loop_sched_dynamic = 2"
| "loop_sched_code ext_loop_sched_guided = 3"

datatype ompt_mutex_kind =
  ompt_mutex | ompt_mutex_lock | ompt_mutex_nest_lock | ompt_mutex_critical | ompt_mutex_atomic | ompt_mutex_ordered

fun mutex_kind_code :: "ompt_mutex_kind \<Rightarrow> int" where
  "mutex_kind_code ompt_mutex = 0x10"
| "mutex_kind_code ompt_mutex_lock = 0x11"
| "mutex_kind_code ompt_mutex_nest_lock = 0x12"
| "mutex_kind_code ompt_mutex_critical = 0x13"
| "mutex_kind_code ompt_mutex_atomic = 0x14"
| "mutex_kind_code ompt_mutex_ordered = 0x20"

datatype ompt_init_mode = ompt_init_mode_never | ompt_init_mode_false | ompt_init_mode_true | ompt_init_mode_always

fun init_mode_code :: "ompt_init_mode \<Rightarrow> int" where
  "init_mode_code ompt_init_mode_never = 0"
| "init_mode_code ompt_init_mode_false = 1"
| "init_mode_code ompt_init_mode_true = 2"
| "init_mode_code ompt_init_mode_always = 3"

datatype ompt_set_callback_rc =
  ompt_set_callback_error | ompt_has_event_no_callback | ompt_no_event_no_callback
| ompt_has_event_may_callback | ompt_has_event_must_callback

fun set_callback_rc_code :: "ompt_set_callback_rc \<Rightarrow> int" where
  "set_callback_rc_code ompt_set_callback_error = 0"
| "set_callback_rc_code ompt_has_event_no_callback = 1"
| "set_callback_rc_code ompt_no_event_no_callback = 2"
| "set_callback_rc_code ompt_has_event_may_callback = 3"
| "set_callback_rc_code ompt_has_event_must_callback = 4"

section \<open>States of a thread\<close>

datatype ompt_state =
  ompt_state_first
| ompt_state_work_serial | ompt_state_work_parallel | ompt_state_work_reduction
| ompt_state_idle
| ompt_state_overhead
| ompt_state_wait_barrier | ompt_state_wait_barrier_implicit | ompt_state_wait_barrier_explicit
| ompt_state_wait_taskwait | ompt_state_wait_taskgroup
| ompt_state_wait_lock | ompt_state_wait_nest_lock | ompt_state_wait_critical | ompt_state_wait_atomic
| ompt_state_wait_ordered | ompt_state_wait_single
| ompt_state_undefined

fun state_code :: "ompt_state \<Rightarrow> int" where
  "state_code ompt_state_first = 0x71"
| "state_code ompt_state_work_serial = 0x00"
| "state_code ompt_state_work_parallel = 0x01"
| "state_code ompt_state_work_reduction = 0x02"
| "state_code ompt_state_idle = 0x10"
| "state_code ompt_state_overhead = 0x20"
| "state_code ompt_state_wait_barrier = 0x40"
| "state_code ompt_state_wait_barrier_implicit = 0x41"
| "state_code ompt_state_wait_barrier_explicit = 0x42"
| "state_code ompt_state_wait_taskwait = 0x50"
| "state_code ompt_state_wait_taskgroup = 0x51"
| "state_code ompt_state_wait_lock = 0x60"
| "state_code ompt_state_wait_nest_lock = 0x61"
| "state_code ompt_state_wait_critical = 0x62"
| "state_code ompt_state_wait_atomic = 0x63"
| "state_code ompt_state_wait_ordered = 0x64"
| "state_code ompt_state_wait_single = 0x6F"
| "state_code ompt_state_undefined = 0x70"

definition states :: "ompt_state list" where
  "states = [ompt_state_first, ompt_state_work_serial, ompt_state_work_parallel, ompt_state_work_reduction,
     ompt_state_idle, ompt_state_overhead,
     ompt_state_wait_barrier, ompt_state_wait_barrier_implicit, ompt_state_wait_barrier_explicit,
     ompt_state_wait_taskwait, ompt_state_wait_taskgroup,
     ompt_state_wait_lock, ompt_state_wait_nest_lock, ompt_state_wait_critical, ompt_state_wait_atomic,
     ompt_state_wait_ordered, ompt_state_wait_single, ompt_state_undefined]"

text \<open>The heading each state stands under in \<open>FOREACH_OMPT_STATE\<close>.\<close>

datatype state_class = Work | Idling | Overhead | Barrier_wait | Task_wait | Mutex_wait | Misc

fun state_class_of :: "ompt_state \<Rightarrow> state_class" where
  "state_class_of ompt_state_work_serial = Work"
| "state_class_of ompt_state_work_parallel = Work"
| "state_class_of ompt_state_work_reduction = Work"
| "state_class_of ompt_state_idle = Idling"
| "state_class_of ompt_state_overhead = Overhead"
| "state_class_of ompt_state_wait_barrier = Barrier_wait"
| "state_class_of ompt_state_wait_barrier_implicit = Barrier_wait"
| "state_class_of ompt_state_wait_barrier_explicit = Barrier_wait"
| "state_class_of ompt_state_wait_taskwait = Task_wait"
| "state_class_of ompt_state_wait_taskgroup = Task_wait"
| "state_class_of ompt_state_wait_lock = Mutex_wait"
| "state_class_of ompt_state_wait_nest_lock = Mutex_wait"
| "state_class_of ompt_state_wait_critical = Mutex_wait"
| "state_class_of ompt_state_wait_atomic = Mutex_wait"
| "state_class_of ompt_state_wait_ordered = Mutex_wait"
| "state_class_of ompt_state_wait_single = Mutex_wait"
| "state_class_of ompt_state_undefined = Misc"
| "state_class_of ompt_state_first = Misc"

fun class_range :: "state_class \<Rightarrow> int \<times> int" where
  "class_range Work = (0, 15)"
| "class_range Idling = (16, 31)"
| "class_range Overhead = (32, 63)"
| "class_range Barrier_wait = (64, 79)"
| "class_range Task_wait = (80, 95)"
| "class_range Mutex_wait = (96, 111)"
| "class_range Misc = (112, 127)"

text \<open>The class of a number, by the ranges alone.\<close>

definition class_of_code :: "int \<Rightarrow> state_class option" where
  "class_of_code c = find (\<lambda>k. fst (class_range k) \<le> c \<and> c \<le> snd (class_range k))
     [Work, Idling, Overhead, Barrier_wait, Task_wait, Mutex_wait, Misc]"

lemma state_class_from_code: "class_of_code (state_code st) = Some (state_class_of st)"
  by (cases st) (simp_all add: class_of_code_def)

section \<open>Flags\<close>

datatype ompt_cancel_flag =
  ompt_cancel_parallel | ompt_cancel_sections | ompt_cancel_do | ompt_cancel_taskgroup
| ompt_cancel_activated | ompt_cancel_detected | ompt_cancel_discarded_task

fun cancel_flag_code :: "ompt_cancel_flag \<Rightarrow> uint32" where
  "cancel_flag_code ompt_cancel_parallel = 0x1"
| "cancel_flag_code ompt_cancel_sections = 0x2"
| "cancel_flag_code ompt_cancel_do = 0x4"
| "cancel_flag_code ompt_cancel_taskgroup = 0x8"
| "cancel_flag_code ompt_cancel_activated = 0x10"
| "cancel_flag_code ompt_cancel_detected = 0x20"
| "cancel_flag_code ompt_cancel_discarded_task = 0x40"

datatype ompt_task_dependence_flag =
  ompt_task_dependence_type_out | ompt_task_dependence_type_in | ompt_task_dependence_type_inout

fun dependence_flag_code :: "ompt_task_dependence_flag \<Rightarrow> uint32" where
  "dependence_flag_code ompt_task_dependence_type_out = 1"
| "dependence_flag_code ompt_task_dependence_type_in = 2"
| "dependence_flag_code ompt_task_dependence_type_inout = 3"

text \<open>The \<open>flags\<close> of \<open>ompt_callback_cancel_t\<close>, and the test of one of them.\<close>

definition combine_flags :: "ompt_cancel_flag list \<Rightarrow> uint32" where
  "combine_flags fs = fold (\<lambda>f w. w OR cancel_flag_code f) fs 0"

fun flag_bit :: "ompt_cancel_flag \<Rightarrow> nat" where
  "flag_bit ompt_cancel_parallel = 0"
| "flag_bit ompt_cancel_sections = 1"
| "flag_bit ompt_cancel_do = 2"
| "flag_bit ompt_cancel_taskgroup = 3"
| "flag_bit ompt_cancel_activated = 4"
| "flag_bit ompt_cancel_detected = 5"
| "flag_bit ompt_cancel_discarded_task = 6"

lemma cancel_flag_bit: "cancel_flag_code f = push_bit (flag_bit f) 1"
  by (cases f) (simp_all add: push_bit_eq_mult)

lemma flag_bit_small: "flag_bit f < 32"
  by (cases f) simp_all

lemma flag_bit_inj: "flag_bit f = flag_bit g \<longleftrightarrow> f = g"
  by (cases f; cases g) simp_all

lemma bit_flag: "n < 32 \<Longrightarrow> bit (cancel_flag_code f) n \<longleftrightarrow> n = flag_bit f"
  by (auto simp: cancel_flag_bit push_bit_eq_mult bit_exp_iff)

lemma bit_combined:
  "n < 32 \<Longrightarrow> bit (fold (\<lambda>f w. w OR cancel_flag_code f) fs w) n \<longleftrightarrow> bit w n \<or> n \<in> flag_bit ` set fs"
  by (induction fs arbitrary: w) (auto simp: bit_or_iff bit_flag)

lemma flag_test: "w AND cancel_flag_code f \<noteq> 0 \<longleftrightarrow> bit w (flag_bit f)"
proof -
  have "w AND cancel_flag_code f \<noteq> 0 \<longleftrightarrow> (\<exists>n<32. bit (w AND cancel_flag_code f) n)"
    by (auto simp: bit_eq_iff)
  also have "\<dots> \<longleftrightarrow> (\<exists>n<32. bit w n \<and> n = flag_bit f)"
    by (intro ex_cong conj_cong refl) (simp add: bit_and_iff bit_flag)
  finally show ?thesis using flag_bit_small by auto
qed

lemma flags_recovered: "combine_flags fs AND cancel_flag_code f \<noteq> 0 \<longleftrightarrow> f \<in> set fs"
  by (simp add: flag_test combine_flags_def bit_combined [OF flag_bit_small] image_iff flag_bit_inj)

section \<open>The enumerations decode\<close>

interpretation thread_type: enumeration thread_type_code
    "[ompt_thread_initial, ompt_thread_worker, ompt_thread_other]"
  by unfold_locales (use ompt_thread_type.nchotomy in auto)

interpretation endpoint: enumeration endpoint_code
    "[ompt_scope_begin, ompt_scope_end]"
  by unfold_locales (use ompt_scope_endpoint.nchotomy in auto)

interpretation task_type: enumeration task_type_code
    "[ompt_task_initial, ompt_task_implicit, ompt_task_explicit, ompt_task_target]"
  by unfold_locales (use ompt_task_type.nchotomy in auto)

interpretation task_status: enumeration task_status_code
    "[ompt_task_complete, ompt_task_yield, ompt_task_cancel, ompt_task_others]"
  by unfold_locales (use ompt_task_status.nchotomy in auto)

interpretation work_type: enumeration work_type_code
    "[ompt_work_loop, ompt_work_sections, ompt_work_single_executor, ompt_work_single_other,
     ompt_work_workshare, ompt_work_distribute, ompt_work_taskloop]"
  by unfold_locales (use ompt_work_type.nchotomy in auto)

interpretation sync_kind: enumeration sync_region_code
    "[ompt_sync_region_barrier, ompt_sync_region_taskwait, ompt_sync_region_taskgroup]"
  by unfold_locales (use ompt_sync_region_kind.nchotomy in auto)

interpretation set_result: enumeration set_result_code
    "[ompt_set_error, ompt_set_never, ompt_set_sometimes, ompt_set_sometimes_paired, ompt_set_always]"
  by unfold_locales (use ompt_set_result.nchotomy in auto)

interpretation invoker: enumeration invoker_code
    "[ompt_invoker_program, ompt_invoker_runtime]"
  by unfold_locales (use ompt_invoker.nchotomy in auto)

interpretation loop_sched: enumeration loop_sched_code
    "[ext_loop_sched_static, ext_loop_sched_dynamic, ext_loop_sched_guided]"
  by unfold_locales (use ext_loop_sched.nchotomy in auto)

interpretation mutex_kind: enumeration mutex_kind_code
    "[ompt_mutex, ompt_mutex_lock, ompt_mutex_nest_lock, ompt_mutex_critical, ompt_mutex_atomic,
     ompt_mutex_ordered]"
  by unfold_locales (use ompt_mutex_kind.nchotomy in auto)

interpretation init_mode: enumeration init_mode_code
    "[ompt_init_mode_never, ompt_init_mode_false, ompt_init_mode_true, ompt_init_mode_always]"
  by unfold_locales (use ompt_init_mode.nchotomy in auto)

interpretation callback_rc: enumeration set_callback_rc_code
    "[ompt_set_callback_error, ompt_has_event_no_callback, ompt_no_event_no_callback,
     ompt_has_event_may_callback, ompt_has_event_must_callback]"
  by unfold_locales (use ompt_set_callback_rc.nchotomy in auto)

interpretation state: enumeration state_code states
  by unfold_locales (use ompt_state.nchotomy in \<open>auto simp: states_def\<close>)

text \<open>The events are an enumeration too, numbered by \<open>FOREACH_OMPT_EVENT\<close>.\<close>

definition events :: "ompt_callbacks list" where
  "events = [ompt_callback_thread_begin, ompt_callback_thread_end, ompt_callback_parallel_begin,
     ompt_callback_parallel_end, ompt_callback_task_create, ompt_callback_task_schedule,
     ompt_callback_implicit_task, ompt_callback_idle, ompt_callback_sync_region_wait,
     ompt_callback_mutex_released, ompt_callback_task_dependences, ompt_callback_task_dependence,
     ompt_callback_work, ompt_callback_master, ompt_callback_sync_region, ompt_callback_lock_init,
     ompt_callback_lock_destroy, ompt_callback_mutex_acquire, ompt_callback_mutex_acquired,
     ompt_callback_nest_lock, ompt_callback_flush, ompt_callback_cancel, ompt_event_control,
     ext_callback_task_create_begin, ext_callback_loop, ext_callback_chunk]"

interpretation event: enumeration "\<lambda>e. snd (ompt_event sc e)" events
  by unfold_locales (use ompt_callbacks.nchotomy in \<open>auto simp: events_def\<close>)

text \<open>The two enumerations of results agree on the numbers of failure and of success, so the test of
  \<open>INIT_CALLBACK\<close> against \<open>ompt_set_always\<close> means the same under either.\<close>

lemma result_enumerations_agree:
  "set_result_code ompt_set_error = set_callback_rc_code ompt_set_callback_error"
  "set_result_code ompt_set_always = set_callback_rc_code ompt_has_event_must_callback"
  by simp_all

text \<open>\<open>inout\<close> is \<open>in\<close> and \<open>out\<close> together, and the three fit the two bits of the field.\<close>

lemma dependence_flags_bits:
  "dependence_flag_code ompt_task_dependence_type_inout
     = dependence_flag_code ompt_task_dependence_type_in OR dependence_flag_code ompt_task_dependence_type_out"
  "dependence_flag_code d = take_bit 2 (dependence_flag_code d)"
  by (simp, cases d) simp_all

text \<open>
  The numbers of \<open>src/ompt.h\<close> carry what the header says of them: every state of a thread is recovered from its
  number, and the range the number lies in is the one announced for the heading the state stands under;
  every event is recovered from its number; and the flags of a cancellation, combined into one word, are
  recovered from it one by one.
\<close>

lemma ompt_numbers_decode:
  "decode state_code states (state_code st) = Some st
   \<and> class_of_code (state_code st) = Some (state_class_of st)
   \<and> decode (\<lambda>e. snd (ompt_event sc e)) events (snd (ompt_event sc e)) = Some e
   \<and> (combine_flags fs AND cancel_flag_code f \<noteq> 0 \<longleftrightarrow> f \<in> set fs)"
  by (intro conjI state.decode_code state_class_from_code event.decode_code flags_recovered)

end
