(* ===== verification/Spec2Isabelle.thy ===== *)
theory Spec2Isabelle
  imports Fib_Program Task_Program Loop_Program Matrix_Program Adjacency Concurrent_Barrier Traced_Tool Ompt_Enums
begin

text \<open>
  Verification of libtdg, a tool that listens to the events of an OpenMP runtime (OMPT, TR4), builds
  the task dependency graph of the program while it runs, and reports metrics of the graph when the
  program ends.  The sources are \<open>src/graph.{h,cc}\<close>, \<open>src/metrics.{h,cc}\<close>, \<open>src/callbacks.{h,cc}\<close>
  and \<open>src/init.cc\<close>, built with PAPI support as the Makefile does; the timer library \<open>src/timer\<close>; and
  \<open>src/init_empty.cc\<close> with \<open>src/callbacks_empty.cc\<close>, the tool without a graph of \<open>make empty\<close>.  The
  programs the tool is tried on, in \<open>src/fib\<close>, \<open>src/mm\<close>, \<open>src/test\<close> and \<open>src/task_test\<close>, are modelled too.

  \<^bold>\<open>The program.\<close>  The runtime calls \<open>init_libtdg\<close>, which starts the timer and registers the callbacks, then one
  callback per event (a thread begins, a task is created, a barrier is reached, a chunk of a loop
  starts, ...), from the thread concerned, and at the end \<open>finalize_libtdg\<close>.  The callbacks keep
  their state in objects that hang off the \<open>ptr\<close> members of data the runtime owns, and grow a global
  graph of nodes connected by edge vectors.  The metrics read the graph: the critical path (after a
  topological sort), statistics of the nodes' times, a dot file, a log of the loop chunks.

  \<^bold>\<open>The theories and what they model.\<close>
  \<^item> \<open>Tdg_Prelude\<close>: machine integer types, runs in the option monad, folds that keep a maximum,
    acyclic relations.  \<open>Binary64\<close>: the \<open>double\<close> operations as correctly rounded real operations
    (round to nearest even, gradual underflow; no overflow, infinities or NaN).  \<open>Std_Map\<close>:
    \<open>std::map\<close> as a sorted association list, with the locale \<open>ordered_map\<close> as its contract.
    \<open>Out_Stream\<close>: output streams as lists of inserted values, and calls that may end the process.
  \<^item> \<open>Tdg_Graph\<close>: nodes and edges on an explicit heap (a map from addresses to \<open>Node\<close> records, where
    a null or freed pointer makes an operation \<open>None\<close>), the index \<open>_graphNodes\<close>, \<open>connectNodes\<close> and
    \<open>disconnectNodes\<close>; the locale \<open>digraph_ops\<close> states the contract of a graph with these
    operations, and is interpreted on them.  \<open>wf_tdg\<close> is the invariant of the graph object.
  \<^item> \<open>Concurrent_Edges\<close>: \<open>connectNodes\<close> and \<open>disconnectNodes\<close> again, step by step: the mutexes of the
    nodes, threads with a program counter (\<open>step_at\<close>), and schedules.  Every call has at most ten
    steps, so no fuel is needed.
  \<^item> \<open>Tsc_Timer\<close>: \<open>src/timer\<close>: time stamps as two 32-bit halves, differences modulo \<open>2 ^ 64\<close>, the
    calibration loop (a total function: the minimum cannot decrease forever), the frequency file with
    \<open>fgets\<close> and \<open>strtod\<close>, the clock in milliseconds, and the program that
    measures the frequency.
  \<^item> \<open>Longest_Path\<close>: paths, orders in which predecessors come first, and the recurrence of a longest
    path, with the locale \<open>longest_path\<close>; \<open>Topo_Sort\<close>: \<open>Graph::topoSort\<close>, the recursion depth of
    \<open>visitNode\<close> an argument (as many frames as nodes are enough, and the sort returns on every
    well-formed graph); \<open>Critical_Path\<close>: \<open>CriticalPathMetric\<close>.  The levels and the path values are
    two interpretations of \<open>longest_path\<close>.  \<open>Adjacency\<close>: the iterators of \<open>src/graph.h\<close>, and that loops over
    them are the recursions over vectors of edges the other theories use.
  \<^item> \<open>Total_Time\<close>: \<open>compute_stats\<close> and \<open>TotalTimeMetric\<close>; \<open>Tdg_Output\<close>: the dot file and the log,
    with functions that read them back.
  \<^item> \<open>Env_Tokens\<close>: \<open>parse_tokens\<close> with positions as 64-bit words; \<open>Tool_Lifecycle\<close>: \<open>init_libtdg\<close>,
    \<open>finalize_libtdg\<close> and the dispatch to the metrics.
  \<^item> \<open>Ompt_Interface\<close>: the events of \<open>src/ompt.h\<close> with the types of their callbacks, against the prototypes
    of \<open>src/callbacks.h\<close>, and the functions of the runtime with their types, against the two \<open>init_libtdg\<close>
    looks up; \<open>Ompt_Enums\<close>: the enumerations of the header with their numbers, each an interpretation of the
    locale \<open>enumeration\<close>, the ranges of the thread states and the flags.
  \<^item> \<open>Ompt_Callbacks\<close>: the structs of \<open>src/callbacks.cc\<close>, one heap per struct, and every callback,
    as functions on the state \<open>tool\<close>, which extends the graph; \<open>Callback_Graph\<close>: what each callback
    adds to the graph and writes to the tool's objects (\<open>grows\<close>, \<open>drops\<close>); \<open>Team_Barrier\<close>: the
    arrivals of a whole team, one call after the other; \<open>Concurrent_Barrier\<close>: the same arrivals when the
    calls overlap, each split at the operations on \<open>_barrier_mutex\<close> into at most seven steps; that only one
    thread at a time is between lock and unlock is part of what is shown.
  \<^item> \<open>Omp_Protocol\<close>: the specification, an abstract machine (\<open>omp_step\<close>) for the order in which a
    runtime dispatches events and for the graph those events should build, with its invariant
    \<open>winv\<close>, which implies that the graph has no cycle; \<open>Omp_Simulation\<close>: the relation \<open>sim\<close> between
    tool states and machine states; \<open>Omp_Refinement\<close>: every callback simulates its event, so whole
    runs do, and finalisation is safe after any run.
  \<^item> \<open>Node_Times\<close>: the invariant on the times of the nodes, which every callback keeps when the clock
    of \<open>Tsc_Timer\<close> does not go back; \<open>Task_Counts\<close>: the types of the nodes, and how many explicit
    tasks and chunks the report shows.
  \<^item> \<open>Empty_Tool\<close>: the callbacks of the empty tool as the text they print, in the plain and in the
    traced build; \<open>Traced_Tool\<close>: the full tool built with \<open>LIBTDG_TRACE\<close>: the line every callback prints before
    its body, which is the same code in both builds, and initialisation and finalisation with their lines.
  \<^item> \<open>C_Numbers\<close>: \<open>atoi\<close>; \<open>Fib_Program\<close>: \<open>src/fib/fib.cc\<close>, its tasks as events of the machine;
    \<open>Matrix_Program\<close>: \<open>src/mm/omp_mm.c\<close>, with the locale \<open>cell_statements\<close> for statements that work on
    one element each, interpreted on the statement of the parallel loop; \<open>Loop_Program\<close>:
    \<open>src/test/loop.c\<close> under every order in which the threads take and finish iterations;
    \<open>Task_Program\<close>: \<open>src/task_test/tasks.c\<close>, its \<open>depend\<close> clauses and the orders they allow.

  \<^bold>\<open>What the theorems show.\<close>  The callbacks refine the machine and never follow a bad pointer on
  its runs; a session from initialisation to finalisation completes and frees every node; the
  critical path reported is a longest path and the marked nodes form one; the topological sort is
  correct, stable within levels, and terminates; edges are inserted and removed as sets; parsing is
  splitting; the files can be read back; the statistics are what they are called; a barrier
  orders all that a team does before it before all it does after, however the calls of the threads
  overlap, and every thread gets through it.  A traced build does the same as a plain one, and the lines
  it prints add up to the numbers of its report.  Concurrent edge
  updates exclude each other, do not deadlock, and are serialisable when threads work on different
  pairs of nodes.  Calibration ends with the least ticks seen, the clock is monotone and accurate to
  one part in \<open>2 ^ 50\<close>, and node times are never negative.  The report counts exactly the explicit
  tasks and chunks of the run.  Every function is registered for an event that calls it with the
  parameters it expects, and the functions looked up have the types they are cast to.  The example programs compute Fibonacci numbers and a matrix product,
  whatever the schedule, the loop prints every iteration once, and the tool counts the tasks of the
  Fibonacci program and the iterations of the loop; of tasks with dependences it records the
  creation, but not the order the dependences enforce.  The theorems on failures state which
  inputs end the process, and which lead to undefined behaviour or to a wrong report: a metric that
  is listed twice, an unknown metric, an empty graph, a team smaller than requested, a task without a
  parent, a frequency file without a number, threads that connect the same pair.

  \<^bold>\<open>Abstractions.\<close>  In the theories on the callbacks a callback is one atomic step.  Callbacks write to
  data of other threads in three places only: the edges, whose updates \<open>Concurrent_Edges\<close> interleaves,
  the barrier of a region, whose arrivals \<open>Concurrent_Barrier\<close> interleaves, and the index of the nodes, which has
  one mutex around one operation.
  Memory is sequentially consistent.  The time stamp counter is a sequence of readings, PAPI a set of
  parameters, the file system a predicate on names and the content of \<open>.cpu_freq\<close>.  A start with
  frequency 0, where every time is a division by zero, is outside the model of the tool, as are
  infinities and NaN in the frequency file.  Levels and path lengths are \<open>int\<close>,
  and are bounded by the number of nodes, far below \<open>2 ^ 31\<close> in a graph that fits in memory.  Node
  identifiers are 64-bit and wrap; runs of fewer than \<open>2 ^ 62\<close> events do not come near.  Messages on
  \<open>std::cerr\<close> are left out.

  The events of an example program are those of executions by a team of one thread: one execution of
  \<open>fib.cc\<close>, which executes every task at once, one of \<open>loop.c\<close>, and all of \<open>tasks.c\<close>.  The order of the
  statements of a parallel loop is arbitrary between rows in \<open>omp_mm.c\<close> and between iterations in
  \<open>loop.c\<close>.

  \<^bold>\<open>Not modelled.\<close>  What the functions of the runtime do that \<open>src/ompt.h\<close> only declares, and \<open>ompt_frame_t\<close>, which
  the tool never reads.  The methods of \<open>src/graph.h\<close> that only return a member are the fields of the records.  The
  Makefiles and shell scripts are not part of the program.
\<close>

end
